(* ===== verification/Kern_Prelude.thy ===== *)
theory Kern_Prelude
  imports Main "HOL-Library.Word" "HOL-Library.Monad_Syntax"
begin

text \<open>
  Shared vocabulary of the development: the machine integer types of the kernel,
  the named collections of simplification rules the component proofs use, and
  generic facts on words, options and lists.
\<close>

unbundle bit_operations_syntax

section \<open>Machine types\<close>

type_synonym u8 = "8 word"
type_synonym u16 = "16 word"
type_synonym u32 = "32 word"
type_synonym u64 = "64 word"

text \<open>The kernel's own names for them (disk/ErosTypes.h).\<close>

type_synonym OID = u64
type_synonym ObCount = u32

section \<open>Collections\<close>

named_theorems kdefs "definitions of the small accessors, unfolded everywhere"
named_theorems kframe "what an operation leaves alone"
named_theorems kinv "preservation of the state invariants"
named_theorems kcommit "rules for showing that a message is returned only after the commit point"
named_theorems kpost "rules for showing that the invariant holds of the result of an operation"

section \<open>Options\<close>

text \<open>
  A kernel operation that may stop before it is done (it yields the processor to
  wait for an object, or an assertion fails) returns \<^typ>\<open>'a option\<close>;
  \<open>assert_that\<close> is the source's \<^verbatim>\<open>assert\<close>.
\<close>

definition assert_that :: "bool \<Rightarrow> unit option" where
  "assert_that b = (if b then Some () else None)"

lemma assert_that_simps [simp]:
  "assert_that True = Some ()" "assert_that False = None"
  by (simp_all add: assert_that_def)

lemma assert_that_eq_Some [simp]: "(assert_that b = Some u) = b"
  by (cases u) (simp add: assert_that_def)

lemma assert_that_bind_Some [simp]:
  "(assert_that b \<bind> f = Some y) = (b \<and> f () = Some y)"
  by (simp add: assert_that_def)

section \<open>Lists\<close>

text \<open>Inserting an element before the first occurrence of another, and replacing one.\<close>

fun insert_before :: "'a \<Rightarrow> 'a \<Rightarrow> 'a list \<Rightarrow> 'a list" where
  "insert_before x a [] = []"
| "insert_before x a (y # ys) = (if y = a then x # y # ys else y # insert_before x a ys)"

definition list_replace :: "'a \<Rightarrow> 'a \<Rightarrow> 'a list \<Rightarrow> 'a list" where
  "list_replace x y = map (\<lambda>z. if z = x then y else z)"

lemma set_insert_before [simp]: "a \<in> set xs \<Longrightarrow> set (insert_before x a xs) = insert x (set xs)"
  by (induction xs) auto

lemma insert_before_split: "a \<notin> set ys \<Longrightarrow> insert_before x a (ys @ a # zs) = ys @ x # a # zs"
  by (induction ys) auto

lemma insert_before_id: "a \<notin> set xs \<Longrightarrow> insert_before x a xs = xs"
  by (induction xs) auto

lemma distinct_insert_before [simp]:
  "distinct xs \<Longrightarrow> x \<notin> set xs \<Longrightarrow> distinct (insert_before x a xs)"
proof (induction xs)
  case (Cons y ys)
  then have "set (insert_before x a ys) \<subseteq> insert x (set ys)"
    by (cases "a \<in> set ys") (auto simp: insert_before_id)
  with Cons show ?case by auto
qed simp

lemma sorted_insert_before:
  assumes "sorted (map f xs)" "f x = f a" "a \<in> set xs"
  shows "sorted (map f (insert_before x a xs))"
proof -
  from assms(3) obtain ys zs where xs: "xs = ys @ a # zs" "a \<notin> set ys"
    by (meson split_list_first)
  with assms show ?thesis by (auto simp: insert_before_split sorted_append)
qed

lemma sorted_remove1_map: "sorted (map f xs) \<Longrightarrow> sorted (map f (remove1 x xs))"
  by (induction xs) (auto dest: notin_set_remove1 [rotated] intro: ccontr)

section \<open>Words\<close>

lemma and_mask_eq_0_iff:
  fixes w :: "'a::len word"
  shows "(w AND mask k = 0) = (\<forall>i<k. \<not> bit w i)"
proof -
  have "(w AND mask k = 0) = (take_bit k w = 0)"
    by (simp add: take_bit_eq_mask)
  also have "\<dots> = (\<forall>i. \<not> bit (take_bit k w) i)"
    by (auto intro!: bit_eqI)
  also have "\<dots> = (\<forall>i<k. \<not> bit w i)"
    by (auto simp: bit_take_bit_iff)
  finally show ?thesis .
qed

lemma word_less_inc: "x + 1 \<noteq> 0 \<Longrightarrow> x < x + (1 :: 'a::len word)"
  using inc_less_eq_self_iff_eq [of x] by (auto simp: not_le [symmetric])

lemma word_or_absorb: "w OR (w OR v) = w OR (v :: 'a::len word)"
  by (simp add: or.assoc [symmetric])

lemma and_or_nonzero:
  fixes w v m :: "'a::len word"
  shows "w AND m \<noteq> 0 \<Longrightarrow> (w OR v) AND m \<noteq> 0"
  by (auto simp: bit_eq_iff bit_simps)

text \<open>A set bit of a permission field stays set when more bits are set.\<close>

definition bits_le :: "'a::len word \<Rightarrow> 'a word \<Rightarrow> bool" where
  "bits_le a b = (a OR b = b)"

lemma bits_le_refl [simp]: "bits_le a a"
  by (simp add: bits_le_def)

lemma bits_le_or [simp]: "bits_le a (a OR b)" "bits_le b (a OR b)"
  by (auto simp: bits_le_def bit_eq_iff bit_simps)

lemma bits_le_trans: "bits_le a b \<Longrightarrow> bits_le b c \<Longrightarrow> bits_le a c"
  unfolding bits_le_def by (metis or.assoc)

lemma bits_le_and: "bits_le a b \<Longrightarrow> a AND m \<noteq> 0 \<Longrightarrow> b AND m \<noteq> 0"
  unfolding bits_le_def by (metis and_or_nonzero)

end
