(* ===== verification/Key_Struct.thy ===== *)
theory Key_Struct
  imports Kern_Prelude
begin

text \<open>
  Keys (capabilities) as data: the key types of sys/KEYDEFS, \<^verbatim>\<open>struct KeyBits\<close> of
  sys/disk/KeyStruct.h, the inline accessors of sys/disk/Key-inline.h, the bit search of
  sys/eros/ffs.h and the guard codec of sys/disk/dsk_Guard.c.
\<close>

section \<open>Key types\<close>

datatype kkt =
    KKT_Start | KKT_Resume | KKT_Process | KKT_Forwarder | KKT_Node | KKT_GPT | KKT_Page
  | KKT_Number | KKT_Sched | KKT_Range | KKT_PrimeRange | KKT_PhysRange
  | KKT_Void | KKT_KeyBits | KKT_Discrim | KKT_ProcessTool | KKT_Checkpoint
  | KKT_MigratorTool | KKT_Sleep | KKT_Console | KKT_SchedCreator | KKT_SysTrace
  | KKT_DevicePrivs | KKT_IORQ | KKT_RTC | KKT_Keyboard

definition all_kkt :: "kkt list" where
  "all_kkt = [KKT_Start, KKT_Resume, KKT_Process, KKT_Forwarder, KKT_Node, KKT_GPT, KKT_Page,
    KKT_Number, KKT_Sched, KKT_Range, KKT_PrimeRange, KKT_PhysRange,
    KKT_Void, KKT_KeyBits, KKT_Discrim, KKT_ProcessTool, KKT_Checkpoint,
    KKT_MigratorTool, KKT_Sleep, KKT_Console, KKT_SchedCreator, KKT_SysTrace,
    KKT_DevicePrivs, KKT_IORQ, KKT_RTC, KKT_Keyboard]"

text \<open>The number GenKeyTypes.awk gives a key type: its position in KEYDEFS.\<close>

primrec kkt_num :: "kkt \<Rightarrow> nat" where
  "kkt_num KKT_Start = 0" | "kkt_num KKT_Resume = 1" | "kkt_num KKT_Process = 2"
| "kkt_num KKT_Forwarder = 3" | "kkt_num KKT_Node = 4" | "kkt_num KKT_GPT = 5"
| "kkt_num KKT_Page = 6" | "kkt_num KKT_Number = 7" | "kkt_num KKT_Sched = 8"
| "kkt_num KKT_Range = 9" | "kkt_num KKT_PrimeRange = 10" | "kkt_num KKT_PhysRange = 11"
| "kkt_num KKT_Void = 12" | "kkt_num KKT_KeyBits = 13" | "kkt_num KKT_Discrim = 14"
| "kkt_num KKT_ProcessTool = 15" | "kkt_num KKT_Checkpoint = 16"
| "kkt_num KKT_MigratorTool = 17" | "kkt_num KKT_Sleep = 18" | "kkt_num KKT_Console = 19"
| "kkt_num KKT_SchedCreator = 20" | "kkt_num KKT_SysTrace = 21"
| "kkt_num KKT_DevicePrivs = 22" | "kkt_num KKT_IORQ = 23" | "kkt_num KKT_RTC = 24"
| "kkt_num KKT_Keyboard = 25"

lemma all_kkt_kkt_num: "all_kkt ! kkt_num t = t"
  by (cases t) (simp_all add: all_kkt_def)

lemma kkt_num_inject [simp]: "(kkt_num s = kkt_num t) = (s = t)"
  by (metis all_kkt_kkt_num)

instantiation kkt :: linorder
begin

definition less_eq_kkt :: "kkt \<Rightarrow> kkt \<Rightarrow> bool" where
  "less_eq_kkt s t = (kkt_num s \<le> kkt_num t)"

definition less_kkt :: "kkt \<Rightarrow> kkt \<Rightarrow> bool" where
  "less_kkt s t = (kkt_num s < kkt_num t)"

instance
  by intro_classes (auto simp: less_eq_kkt_def less_kkt_def)

end

section \<open>Key bits\<close>

text \<open>
  Addresses: an \<^verbatim>\<open>ObjectHeader *\<close> and a \<^verbatim>\<open>Process *\<close> are numbers.
  The union of \<^verbatim>\<open>struct KeyBits\<close> is a datatype with a constructor per member the
  kernel uses; the key ring links of the prepared members (\<^verbatim>\<open>Link kr\<close>) are not
  in it, since the state keeps each key ring as a list of the keys linked on it.
  The bit fields keep their widths.
\<close>

type_synonym obj_ptr = nat
type_synonym proc_ptr = nat

datatype key_u =
    U_unprep OID ObCount
  | U_ok obj_ptr
  | U_gk proc_ptr
  | U_nk u32 u32 u32
  | U_rk OID u32

record KeyBits =
  keyType :: kkt
  keyFlags :: "3 word"
  keyPerms :: "5 word"
  keyData :: u16
  key_u :: key_u

abbreviation (input) "LAST_GATE_KEYTYPE \<equiv> KKT_Resume"
abbreviation (input) "LAST_PROC_KEYTYPE \<equiv> KKT_Process"
abbreviation (input) "LAST_OBJECT_KEYTYPE \<equiv> KKT_Page"

definition KFL_PREPARED :: "3 word" where [kdefs]: "KFL_PREPARED = 4"
definition KFL_RHAZARD :: "3 word" where [kdefs]: "KFL_RHAZARD = 2"
definition KFL_WHAZARD :: "3 word" where [kdefs]: "KFL_WHAZARD = 1"
definition KFL_HAZARD_BITS :: "3 word" where [kdefs]: "KFL_HAZARD_BITS = 3"

definition capros_Memory_readOnly :: "5 word" where "capros_Memory_readOnly = 8"
definition capros_Memory_noCall :: "5 word" where "capros_Memory_noCall = 4"
definition capros_Memory_weak :: "5 word" where "capros_Memory_weak = 2"
definition capros_Memory_opaque :: "5 word" where "capros_Memory_opaque = 1"

definition keyBits_IsType :: "KeyBits \<Rightarrow> kkt \<Rightarrow> bool" where
  "keyBits_IsType k t = (keyType k = t)"

definition keyBits_IsHazard :: "KeyBits \<Rightarrow> bool" where
  "keyBits_IsHazard k = (keyFlags k AND KFL_HAZARD_BITS \<noteq> 0)"

definition keyBits_UnHazard :: "KeyBits \<Rightarrow> KeyBits" where
  "keyBits_UnHazard k = k\<lparr>keyFlags := keyFlags k AND NOT KFL_HAZARD_BITS\<rparr>"

definition keyBits_SetPrepared :: "KeyBits \<Rightarrow> KeyBits" where
  "keyBits_SetPrepared k = k\<lparr>keyFlags := keyFlags k OR KFL_PREPARED\<rparr>"

definition keyBits_SetUnprepared :: "KeyBits \<Rightarrow> KeyBits" where
  "keyBits_SetUnprepared k = k\<lparr>keyFlags := keyFlags k AND NOT KFL_PREPARED\<rparr>"

definition keyBits_IsRdHazard :: "KeyBits \<Rightarrow> bool" where
  "keyBits_IsRdHazard k = (keyFlags k AND KFL_RHAZARD \<noteq> 0)"

definition keyBits_IsWrHazard :: "KeyBits \<Rightarrow> bool" where
  "keyBits_IsWrHazard k = (keyFlags k AND KFL_WHAZARD \<noteq> 0)"

definition keyBits_InitType :: "KeyBits \<Rightarrow> kkt \<Rightarrow> KeyBits" where
  "keyBits_InitType k t = k\<lparr>keyType := t, keyFlags := 0, keyPerms := 0, keyData := 0\<rparr>"

definition keyBits_IsNoCall :: "KeyBits \<Rightarrow> bool" where
  "keyBits_IsNoCall k = (keyPerms k AND (capros_Memory_noCall OR capros_Memory_weak) \<noteq> 0)"

definition keyBits_SetNoCall :: "KeyBits \<Rightarrow> KeyBits" where
  "keyBits_SetNoCall k = k\<lparr>keyPerms := keyPerms k OR capros_Memory_noCall\<rparr>"

definition keyBits_IsReadOnly :: "KeyBits \<Rightarrow> bool" where
  "keyBits_IsReadOnly k = (keyPerms k AND capros_Memory_readOnly \<noteq> 0)"

definition keyBits_IsOpaque :: "KeyBits \<Rightarrow> bool" where
  "keyBits_IsOpaque k = (keyPerms k AND capros_Memory_opaque \<noteq> 0)"

definition keyBits_IsWeak :: "KeyBits \<Rightarrow> bool" where
  "keyBits_IsWeak k = (keyPerms k AND capros_Memory_weak \<noteq> 0)"

definition keyBits_SetWeak :: "KeyBits \<Rightarrow> KeyBits" where
  "keyBits_SetWeak k = k\<lparr>keyPerms := keyPerms k OR capros_Memory_weak\<rparr>"

definition keyBits_IsPrepared :: "KeyBits \<Rightarrow> bool" where
  "keyBits_IsPrepared k = (keyFlags k AND KFL_PREPARED \<noteq> 0)"

definition keyBits_SetReadOnly :: "KeyBits \<Rightarrow> KeyBits" where
  "keyBits_SetReadOnly k = k\<lparr>keyPerms := keyPerms k OR capros_Memory_readOnly\<rparr>"

definition keyBits_IsGateKey :: "KeyBits \<Rightarrow> bool" where
  "keyBits_IsGateKey k = (keyType k \<le> LAST_GATE_KEYTYPE)"

definition keyBits_IsProcessType :: "KeyBits \<Rightarrow> bool" where
  "keyBits_IsProcessType k = (keyType k \<le> LAST_PROC_KEYTYPE)"

definition keyBits_IsObjectKey :: "KeyBits \<Rightarrow> bool" where
  "keyBits_IsObjectKey k = (keyType k \<le> LAST_OBJECT_KEYTYPE)"

definition keyBits_IsPreparedObjectKey :: "KeyBits \<Rightarrow> bool" where
  "keyBits_IsPreparedObjectKey k = (keyBits_IsObjectKey k \<and> keyBits_IsPrepared k)"

definition keyBits_IsPreparedResumeKey :: "KeyBits \<Rightarrow> bool" where
  "keyBits_IsPreparedResumeKey k = (keyBits_IsType k KKT_Resume \<and> keyBits_IsPrepared k)"

definition keyBits_IsVoidKey :: "KeyBits \<Rightarrow> bool" where
  "keyBits_IsVoidKey k = keyBits_IsType k KKT_Void"

text \<open>The debug build also clears the data words of a void key.\<close>

definition keyBits_InitToVoid :: "KeyBits \<Rightarrow> KeyBits" where
  "keyBits_InitToVoid k = (keyBits_InitType k KKT_Void)\<lparr>key_u := U_nk 0 0 0\<rparr>"

text \<open>The first byte of \<^verbatim>\<open>keyData\<close> (little-endian) is l2g, the second the guard.\<close>

definition keyBits_GetL2g :: "KeyBits \<Rightarrow> nat" where
  "keyBits_GetL2g k = unat (ucast (keyData k) :: u8)"

definition keyBits_SetL2g :: "KeyBits \<Rightarrow> u32 \<Rightarrow> KeyBits" where
  "keyBits_SetL2g k l2g =
     k\<lparr>keyData := (keyData k AND 0xff00) OR ucast (ucast l2g :: u8)\<rparr>"

definition keyBits_GetGuard :: "KeyBits \<Rightarrow> u32" where
  "keyBits_GetGuard k = ucast (ucast (drop_bit 8 (keyData k)) :: u8)"

definition keyBits_SetGuard :: "KeyBits \<Rightarrow> u32 \<Rightarrow> KeyBits" where
  "keyBits_SetGuard k g =
     k\<lparr>keyData := (keyData k AND 0xff) OR push_bit 8 (ucast (ucast g :: u8))\<rparr>"

record GuardData =
  gd_guard :: u32
  gd_l2g :: u32

definition key_SetGuardData :: "KeyBits \<Rightarrow> GuardData \<Rightarrow> KeyBits" where
  "key_SetGuardData k gd = keyBits_SetL2g (keyBits_SetGuard k (gd_guard gd)) (gd_l2g gd)"

end
