(* ===== verification/Guard.thy ===== *)
theory Guard
  imports Key_Struct
begin

text \<open>
  The bit search of sys/eros/ffs.h and the guard codec of sys/disk/dsk_Guard.c. A guard is a
  64-bit address prefix that a memory or node key stores in 16 bits: an 8-bit value and the
  position (l2g) it is shifted to.
\<close>

section \<open>Find first set\<close>

definition ffs32 :: "u32 \<Rightarrow> nat" where
  "ffs32 word =
     (let (num, word) = (if word AND 0xffff = 0 then (16, drop_bit 16 word) else (0, word));
          (num, word) = (if word AND 0xff = 0 then (num + 8, drop_bit 8 word) else (num, word));
          (num, word) = (if word AND 0xf = 0 then (num + 4, drop_bit 4 word) else (num, word));
          (num, word) = (if word AND 0x3 = 0 then (num + 2, drop_bit 2 word) else (num, word))
      in if word AND 0x1 = 0 then num + 1 else num)"

definition ffs64 :: "u64 \<Rightarrow> nat" where
  "ffs64 word =
     (if word AND 0xffffffff = 0 then 32 + ffs32 (ucast (drop_bit 32 word))
      else ffs32 (ucast word))"

text \<open>The position of the least significant 1-bit, which the search is meant to find.\<close>

definition is_lsb :: "'a::len word \<Rightarrow> nat \<Rightarrow> bool" where
  "is_lsb w n = (bit w n \<and> (\<forall>m<n. \<not> bit w m))"

definition ffs_stage :: "nat \<Rightarrow> nat \<times> 'a::len word \<Rightarrow> nat \<times> 'a word" where
  "ffs_stage k = (\<lambda>(n, w). if w AND mask k = 0 then (n + k, drop_bit k w) else (n, w))"

lemma mask_numerals:
  "(mask 32 :: 'a::len word) = 0xffffffff" "(mask 16 :: 'a word) = 0xffff"
  "(mask 8 :: 'a word) = 0xff" "(mask 4 :: 'a word) = 0xf" "(mask 2 :: 'a word) = 0x3"
  "(mask (Suc 0) :: 'a word) = 0x1"
  by (simp_all add: mask_eq_exp_minus_1)

lemma is_lsb_shift: "\<forall>i<k. \<not> bit w i \<Longrightarrow> is_lsb (drop_bit k w) j \<Longrightarrow> is_lsb w (k + j)"
proof -
  assume low: "\<forall>i<k. \<not> bit w i" and lsb: "is_lsb (drop_bit k w) j"
  have "\<not> bit w m" if "m < k + j" for m
  proof (cases "m < k")
    case True
    with low show ?thesis by simp
  next
    case False
    with that have "m - k < j" and "k + (m - k) = m" by auto
    with lsb show ?thesis by (metis is_lsb_def bit_drop_bit_eq comp_apply)
  qed
  with lsb show "is_lsb w (k + j)" by (auto simp: is_lsb_def bit_drop_bit_eq)
qed

lemma ffs_stage_step:
  assumes "\<exists>i < 2 * k. bit w i" and "ffs_stage k (n, w) = (n', w')"
  shows "(\<exists>i<k. bit w' i) \<and> (\<exists>d. n' = n + d \<and> (\<forall>j. is_lsb w' j \<longrightarrow> is_lsb w (d + j)))"
proof (cases "\<forall>i<k. \<not> bit w i")
  case True
  then have "w AND mask k = 0" by (simp add: and_mask_eq_0_iff)
  with assms(2) have n': "n' = n + k" and w': "w' = drop_bit k w"
    by (auto simp: ffs_stage_def)
  from assms(1) True obtain i where "i < 2 * k" "bit w i" "k \<le> i"
    by (meson not_less)
  then have "i - k < k \<and> bit w' (i - k)" by (auto simp: w' bit_drop_bit_eq)
  with n' w' True show ?thesis by (blast intro: is_lsb_shift)
next
  case False
  then have "w AND mask k \<noteq> 0" by (simp add: and_mask_eq_0_iff)
  with assms(2) have "n' = n" and "w' = w" by (auto simp: ffs_stage_def)
  with False show ?thesis by (auto intro!: exI [where x = 0])
qed

lemma ffs32_is_lsb:
  assumes "w \<noteq> 0" shows "is_lsb w (ffs32 w)"
proof -
  obtain n1 w1 where s1: "ffs_stage 16 (0, w) = (n1, w1)" by fastforce
  obtain n2 w2 where s2: "ffs_stage 8 (n1, w1) = (n2, w2)" by fastforce
  obtain n3 w3 where s3: "ffs_stage 4 (n2, w2) = (n3, w3)" by fastforce
  obtain n4 w4 where s4: "ffs_stage 2 (n3, w3) = (n4, w4)" by fastforce
  obtain n5 w5 where s5: "ffs_stage 1 (n4, w4) = (n5, w5)" by fastforce
  from assms obtain i where "bit w i" by (auto simp: bit_eq_iff)
  then have "\<exists>i < 2 * 16. bit w i" using bit_imp_le_length by fastforce
  note a1 = ffs_stage_step [OF this s1]
  have "\<exists>i < 2 * 8. bit w1 i" using a1 by simp
  note a2 = ffs_stage_step [OF this s2]
  have "\<exists>i < 2 * 4. bit w2 i" using a2 by simp
  note a3 = ffs_stage_step [OF this s3]
  have "\<exists>i < 2 * 2. bit w3 i" using a3 by simp
  note a4 = ffs_stage_step [OF this s4]
  have "\<exists>i < 2 * 1. bit w4 i" using a4 by simp
  note a5 = ffs_stage_step [OF this s5]
  obtain d1 where d1: "n1 = d1" "\<And>j. is_lsb w1 j \<Longrightarrow> is_lsb w (d1 + j)" using a1 by auto
  obtain d2 where d2: "n2 = n1 + d2" "\<And>j. is_lsb w2 j \<Longrightarrow> is_lsb w1 (d2 + j)" using a2 by auto
  obtain d3 where d3: "n3 = n2 + d3" "\<And>j. is_lsb w3 j \<Longrightarrow> is_lsb w2 (d3 + j)" using a3 by auto
  obtain d4 where d4: "n4 = n3 + d4" "\<And>j. is_lsb w4 j \<Longrightarrow> is_lsb w3 (d4 + j)" using a4 by auto
  obtain d5 where d5: "n5 = n4 + d5" "\<And>j. is_lsb w5 j \<Longrightarrow> is_lsb w4 (d5 + j)" using a5 by auto
  have "is_lsb w5 0" using a5 by (auto simp: is_lsb_def)
  then have "is_lsb w (d1 + (d2 + (d3 + (d4 + (d5 + 0)))))"
    by (intro d1(2) d2(2) d3(2) d4(2) d5(2))
  then have "is_lsb w n5" by (simp add: d1(1) d2(1) d3(1) d4(1) d5(1) add.assoc)
  moreover have "ffs32 w = n5"
  proof -
    have e1: "(if w AND 0xffff = 0 then (16, drop_bit 16 w) else (0, w)) = (n1, w1)"
      using s1 by (simp add: ffs_stage_def mask_numerals split: if_splits)
    have e2: "(if w1 AND 0xff = 0 then (n1 + 8, drop_bit 8 w1) else (n1, w1)) = (n2, w2)"
      using s2 by (simp add: ffs_stage_def mask_numerals)
    have e3: "(if w2 AND 0xf = 0 then (n2 + 4, drop_bit 4 w2) else (n2, w2)) = (n3, w3)"
      using s3 by (simp add: ffs_stage_def mask_numerals)
    have e4: "(if w3 AND 0x3 = 0 then (n3 + 2, drop_bit 2 w3) else (n3, w3)) = (n4, w4)"
      using s4 by (simp add: ffs_stage_def mask_numerals)
    have e5: "(if w4 AND 1 = 0 then n4 + 1 else n4) = n5"
      using s5 by (simp add: ffs_stage_def mask_numerals split: if_splits)
    show ?thesis by (simp only: ffs32_def e1 e2 e3 e4 e5 Let_def split_conv)
  qed
  ultimately show ?thesis by simp
qed

lemma is_lsb_ucast: "is_lsb (ucast w :: u32) j \<Longrightarrow> is_lsb (w :: u64) j"
  unfolding is_lsb_def by (auto simp: bit_simps) 

lemma ffs64_is_lsb:
  assumes "w \<noteq> 0"
  shows "is_lsb w (ffs64 w)"
proof -
  have mask: "(w AND 0xffffffff = 0) = (\<forall>i<32. \<not> bit w i)"
    using and_mask_eq_0_iff [of w 32] by (simp add: mask_numerals)
  show ?thesis
  proof (cases "\<forall>i<32. \<not> bit w i")
    case True
    let ?h = "ucast (drop_bit 32 w) :: u32"
    from assms obtain i where "bit w i" by (auto simp: bit_eq_iff)
    moreover from this have "i < 64" using bit_imp_le_length by fastforce
    moreover from True \<open>bit w i\<close> have "32 \<le> i" by (meson not_less)
    ultimately have "bit ?h (i - 32)" by (simp add: bit_simps)
    then have "?h \<noteq> 0" by (metis bit_0_eq bot_apply bot_bool_def)
    then have "is_lsb (drop_bit 32 w) (ffs32 ?h)"
      using ffs32_is_lsb [of ?h] by (simp add: is_lsb_ucast)
    then show ?thesis using True mask by (simp add: ffs64_def is_lsb_shift)
  next
    case False
    then have "(ucast w :: u32) \<noteq> 0" by (auto simp: bit_eq_iff bit_simps)
    then have "is_lsb w (ffs32 (ucast w))" by (simp add: ffs32_is_lsb is_lsb_ucast)
    moreover have "w AND 0xffffffff \<noteq> 0" using False mask by simp
    ultimately show ?thesis by (simp add: ffs64_def)
  qed
qed

text \<open>
  C33. \<^verbatim>\<open>ffs64\<close> (the binary search of ffs.h) returns the position of the least
  significant 1-bit of every nonzero word.
\<close>

theorem ffs64_finds_lowest_bit:
  assumes "w \<noteq> 0"
  shows "bit w (ffs64 w) \<and> (\<forall>m < ffs64 w. \<not> bit w m)"
  using ffs64_is_lsb [OF assms] by (simp add: is_lsb_def)

theorem ffs64_finds_lowest_bit_witness:
  "ffs64 0x5000000000 = 36 \<and> bit (0x5000000000 :: u64) 36 \<and> \<not> bit (0x5000000000 :: u64) 35"
proof -
  have "ffs64 0x5000000000 = 36" by (simp add: ffs64_def ffs32_def)
  with ffs64_finds_lowest_bit [of "0x5000000000"] show ?thesis by simp
qed

section \<open>Guards\<close>

definition key_GetGuard :: "KeyBits \<Rightarrow> u64" where
  "key_GetGuard k =
     (let l2g = keyBits_GetL2g k in
      if 64 \<le> l2g then 0 else push_bit l2g (ucast (keyBits_GetGuard k)))"

definition key_CalcGuard :: "u64 \<Rightarrow> GuardData option" where
  "key_CalcGuard guard =
     (if guard = 0 then Some \<lparr>gd_guard = 0, gd_l2g = 0\<rparr>
      else let fs = ffs64 guard;
               guard = drop_bit fs guard;
               guardTrunc = ucast (guard AND 0xff) :: u32
           in if ucast guardTrunc \<noteq> guard then None
              else Some \<lparr>gd_guard = guardTrunc, gd_l2g = of_nat fs\<rparr>)"

text \<open>What 16 bits can hold: an 8-bit value at some position.\<close>

definition representable_guard :: "u64 \<Rightarrow> bool" where
  "representable_guard g = (\<exists>(v :: u8) l. l < 64 \<and> g = push_bit l (ucast v))"

lemma bit_byte_masks [simp]:
  "bit (0xff00 :: int) n = (8 \<le> n \<and> n < 16)" "bit (0xff :: int) n = (n < 8)"
proof -
  have "bit (push_bit 8 (mask 8) :: int) n = (8 \<le> n \<and> n < 16)" by (auto simp: bit_simps)
  then show "bit (0xff00 :: int) n = (8 \<le> n \<and> n < 16)"
    by (simp add: mask_eq_exp_minus_1 push_bit_eq_mult)
  have "bit (mask 8 :: int) n = (n < 8)" by (auto simp: bit_simps)
  then show "bit (0xff :: int) n = (n < 8)" by (simp add: mask_eq_exp_minus_1)
qed

lemma byte_ucast:
  fixes w :: u64
  assumes "\<And>i. bit w i \<Longrightarrow> i < 8"
  shows "ucast (ucast (w AND 0xff) :: u32) = w"
  using assms by (intro bit_word_eqI) (fastforce simp: bit_simps)

lemma GetL2g_SetGuardData [simp]:
  "keyBits_GetL2g (key_SetGuardData k gd) = unat (ucast (gd_l2g gd) :: u8)"
proof -
  have "(ucast ((x AND 0xff00) OR ucast (y :: u8)) :: u8) = y" for x :: u16 and y
    by (auto simp: bit_eq_iff bit_simps)
  then show ?thesis by (simp add: keyBits_GetL2g_def key_SetGuardData_def keyBits_SetL2g_def)
qed

lemma GetGuard_SetGuardData [simp]:
  "keyBits_GetGuard (key_SetGuardData k gd) = ucast (ucast (gd_guard gd) :: u8)"
  by (auto simp: keyBits_GetGuard_def key_SetGuardData_def keyBits_SetL2g_def
      keyBits_SetGuard_def bit_eq_iff bit_simps)

lemma ffs64_less: "w \<noteq> 0 \<Longrightarrow> ffs64 w < 64"
  using ffs64_is_lsb [of w] bit_imp_le_length by (fastforce simp: is_lsb_def)

lemma key_CalcGuard_Some:
  assumes "key_CalcGuard g = Some gd" and "g \<noteq> 0"
  shows "gd_l2g gd = of_nat (ffs64 g)" and "ucast (gd_guard gd) = drop_bit (ffs64 g) g"
    and "ucast (ucast (gd_guard gd) :: u8) = gd_guard gd"
  using assms by (auto simp: key_CalcGuard_def Let_def bit_eq_iff bit_simps split: if_splits)

lemma ucast_ucast_u8:
  fixes x :: u32
  assumes "ucast (ucast x :: u8) = x"
  shows "(ucast (ucast x :: u8) :: u64) = ucast x"
proof -
  have "(ucast (ucast (ucast x :: u8) :: u32) :: u64) = ucast (ucast x :: u8)"
    by (auto simp: bit_eq_iff bit_simps)
  with assms show ?thesis by simp
qed

lemma push_drop_lsb:
  fixes w :: "'a::len word"
  shows "is_lsb w n \<Longrightarrow> push_bit n (drop_bit n w) = w"
proof (rule bit_word_eqI)
  fix i assume lsb: "is_lsb w n" and "i < LENGTH('a)"
  show "bit (push_bit n (drop_bit n w)) i = bit w i"
  proof (cases "n \<le> i")
    case True
    with \<open>i < LENGTH('a)\<close> show ?thesis by (simp add: bit_simps)
  next
    case False
    with lsb show ?thesis by (simp add: is_lsb_def bit_simps)
  qed
qed

lemma unat_of_nat_u8: "n < 64 \<Longrightarrow> unat (ucast (of_nat n :: u32) :: u8) = n"
  by (simp add: unsigned_ucast_eq unat_of_nat take_bit_nat_eq_self)

lemma CalcGuard_GetGuard:
  assumes "key_CalcGuard g = Some gd"
  shows "key_GetGuard (key_SetGuardData k gd) = g"
proof (cases "g = 0")
  case True
  with assms show ?thesis by (auto simp: key_CalcGuard_def key_GetGuard_def Let_def)
next
  case False
  note gd = key_CalcGuard_Some [OF assms False]
  from False have "ffs64 g < 64" by (rule ffs64_less)
  then have "keyBits_GetL2g (key_SetGuardData k gd) = ffs64 g"
    by (simp add: gd(1) unat_of_nat_u8)
  with \<open>ffs64 g < 64\<close> show ?thesis
    by (simp add: key_GetGuard_def gd(2,3) push_drop_lsb ffs64_is_lsb False)
qed

lemma representable_CalcGuard:
  assumes "representable_guard g"
  shows "\<exists>gd. key_CalcGuard g = Some gd"
proof (cases "g = 0")
  case True
  then show ?thesis by (simp add: key_CalcGuard_def)
next
  case False
  from assms obtain v :: u8 and l where g: "g = push_bit l (ucast v)" and l: "l < 64"
    by (auto simp: representable_guard_def)
  let ?f = "ffs64 g"
  from False have "bit g ?f" using ffs64_is_lsb by (auto simp: is_lsb_def)
  then have "l \<le> ?f" by (auto simp: g bit_simps)
  have "i < 8" if "bit (drop_bit ?f g) i" for i
  proof -
    from that have "bit g (?f + i)" by (simp add: bit_drop_bit_eq)
    then have "bit v (?f + i - l)" by (simp add: g bit_simps)
    then have "?f + i - l < 8" using bit_imp_le_length by fastforce
    with \<open>l \<le> ?f\<close> show ?thesis by simp
  qed
  then have "ucast (ucast (drop_bit ?f g AND 0xff) :: u32) = drop_bit ?f g"
    by (rule byte_ucast)
  with False show ?thesis by (simp add: key_CalcGuard_def Let_def)
qed

text \<open>
  C32. Guard round trip: a guard is accepted by \<^verbatim>\<open>key_CalcGuard\<close> exactly when its
  one bits fit in 8 contiguous bits, and then the key the guard data is stored into
  reports that guard.
\<close>

theorem guard_roundtrip:
  "(key_CalcGuard g = None \<longleftrightarrow> \<not> representable_guard g)
   \<and> (\<forall>gd. key_CalcGuard g = Some gd \<longrightarrow> key_GetGuard (key_SetGuardData k gd) = g)"
proof -
  have "representable_guard g" if "key_CalcGuard g = Some gd" for gd
  proof (cases "g = 0")
    case True
    then show ?thesis unfolding representable_guard_def by (intro exI [of _ 0]) simp
  next
    case False
    note gd = key_CalcGuard_Some [OF that False]
    have "g = push_bit (ffs64 g) (ucast (ucast (gd_guard gd) :: u8))"
      by (metis False ffs64_is_lsb gd(2,3) push_drop_lsb ucast_ucast_u8)
    with False ffs64_less show ?thesis unfolding representable_guard_def by blast
  qed
  then have "key_CalcGuard g = None \<longleftrightarrow> \<not> representable_guard g"
    using representable_CalcGuard [of g] by (cases "key_CalcGuard g") auto
  then show ?thesis by (simp add: CalcGuard_GetGuard)
qed

theorem guard_roundtrip_witness:
  "key_GetGuard (key_SetGuardData \<lparr>keyType = KKT_GPT, keyFlags = 0, keyPerms = 0, keyData = 64,
     key_u = U_ok 7\<rparr> \<lparr>gd_guard = 5, gd_l2g = 12\<rparr>) = 0x5000"
proof -
  have "key_CalcGuard 0x5000 = Some \<lparr>gd_guard = 5, gd_l2g = 12\<rparr>"
    by (simp add: key_CalcGuard_def ffs64_def ffs32_def)
  then show ?thesis using guard_roundtrip [of "0x5000"] by blast
qed

end
