(* ===== verification/Obj_Source.thy ===== *)
theory Obj_Source
  imports Kern_Prelude
begin

text \<open>
  The tables of object ranges and log ranges of sys/kernel/kern_ObjectSource.c: a table is an
  array of ranges sorted by OID, searched by bisection. The interface the object cache relies on
  is the locale \<open>oid_ranges\<close>; the array implements it.
\<close>

section \<open>Definitions\<close>

text \<open>The union \<^verbatim>\<open>u\<close> of the source is private to the object source and left out.\<close>

record ObjectRange =
  rng_start :: OID
  rng_end :: OID
  rng_source :: nat

record RangeTable =
  rt_ranges :: "ObjectRange list"
  rt_n :: nat

definition range_Contains :: "ObjectRange \<Rightarrow> OID \<Rightarrow> bool" where
  "range_Contains rng oid = (rng_start rng \<le> oid \<and> oid < rng_end rng)"

function LookupRange_loop :: "OID \<Rightarrow> ObjectRange list \<Rightarrow> int \<Rightarrow> int \<Rightarrow> int" where
  "LookupRange_loop oid ranges l u =
     (if u < l then u
      else let i = (l + u) div 2 in
           if oid < rng_start (ranges ! nat i) then LookupRange_loop oid ranges l (i - 1)
           else LookupRange_loop oid ranges (i + 1) u)"
  by pat_completeness auto
termination
  by (relation "measure (\<lambda>(oid, ranges, l, u). nat (u + 1 - l))") auto

declare LookupRange_loop.simps [simp del]

definition LookupRange :: "OID \<Rightarrow> RangeTable \<Rightarrow> int" where
  "LookupRange oid t = LookupRange_loop oid (rt_ranges t) 0 (int (rt_n t) - 1)"

definition LookupOID :: "RangeTable \<Rightarrow> OID \<Rightarrow> ObjectRange option" where
  "LookupOID t oid =
     (let i = LookupRange oid t in
      if i < 0 then None
      else let rng = rt_ranges t ! nat i in
           if oid < rng_end rng then Some rng else None)"

text \<open>The loop that moves the ranges above the new one up.\<close>

fun AddRange_move :: "ObjectRange list \<Rightarrow> nat \<Rightarrow> nat \<Rightarrow> ObjectRange list" where
  "AddRange_move ranges i 0 = ranges"
| "AddRange_move ranges i (Suc j) =
     (if Suc j > i then AddRange_move (ranges[Suc j := ranges ! j]) i j else ranges)"

text \<open>A range that overlaps another is reported on the console and added all the same.\<close>

definition AddRange :: "ObjectRange \<Rightarrow> RangeTable \<Rightarrow> RangeTable" where
  "AddRange rng t =
     (let i = nat (LookupRange (rng_start rng) t + 1);
          ranges = AddRange_move (rt_ranges t) i (rt_n t)
      in t\<lparr>rt_ranges := ranges[i := rng], rt_n := rt_n t + 1\<rparr>)"

text \<open>The array has \<^verbatim>\<open>KTUNE_NRNGTBLENTS\<close> (for the log, \<^verbatim>\<open>KTUNE_NLOGTBLENTS\<close>) entries.\<close>

definition objC_AddRange :: "ObjectRange \<Rightarrow> RangeTable \<Rightarrow> RangeTable option" where
  "objC_AddRange rng t =
     (if rt_n t = length (rt_ranges t) then None else Some (AddRange rng t))"

definition objC_HaveSource :: "OID \<Rightarrow> RangeTable \<Rightarrow> bool" where
  "objC_HaveSource oid t = (LookupOID t oid \<noteq> None)"

lemma LookupOID_end: "LookupOID t oid = Some rng \<Longrightarrow> oid < rng_end rng"
  by (auto simp: LookupOID_def Let_def split: if_splits)

function CalcLogExtent_loop :: "RangeTable \<Rightarrow> OID \<Rightarrow> OID" where
  "CalcLogExtent_loop t limit =
     (case LookupOID t limit of
        None \<Rightarrow> limit
      | Some rng \<Rightarrow> CalcLogExtent_loop t (rng_end rng))"
  by pat_completeness auto
termination
proof (relation "measure (\<lambda>(t, limit). 2 ^ 64 - unat limit)", goal_cases)
  case (2 t limit rng)
  then have "unat limit < unat (rng_end rng)" by (simp add: LookupOID_end word_less_nat_alt [symmetric])
  moreover have "unat (rng_end rng) < 2 ^ 64" using unsigned_less [of "rng_end rng"] by simp
  ultimately show ?case by (simp add: diff_less_mono2)
qed simp

declare CalcLogExtent_loop.simps [simp del]

text \<open>The value of \<^verbatim>\<open>logWrapPoint\<close>.\<close>

definition CalcLogExtent :: "RangeTable \<Rightarrow> OID" where
  "CalcLogExtent lidRanges = CalcLogExtent_loop lidRanges 0"

definition objC_FindFirstSubrange :: "OID \<Rightarrow> OID \<Rightarrow> RangeTable \<Rightarrow> (OID \<times> OID) option" where
  "objC_FindFirstSubrange limStart limLast t =
     (let i = LookupRange limStart t;
          skip = (i < 0 \<or> rng_end (rt_ranges t ! nat i) < limStart);
          i = (if skip then i + 1 else i)
      in if skip \<and> i \<ge> int (rt_n t) then None
         else let rng = rt_ranges t ! nat i;
                  mySubStart = max limStart (rng_start rng);
                  mySubLast = min limLast (rng_end rng - 1)
              in if mySubLast < mySubStart then None else Some (mySubStart, mySubLast))"

section \<open>The bisection\<close>

definition rng_at :: "RangeTable \<Rightarrow> nat \<Rightarrow> ObjectRange" where
  "rng_at t i = rt_ranges t ! i"

text \<open>The invariant of a table: not empty ranges, in order, none overlapping the next.\<close>

definition table_ok :: "RangeTable \<Rightarrow> bool" where
  "table_ok t =
     (rt_n t \<le> length (rt_ranges t)
      \<and> (\<forall>i < rt_n t. rng_start (rng_at t i) < rng_end (rng_at t i))
      \<and> (\<forall>i j. i < j \<and> j < rt_n t \<longrightarrow> rng_end (rng_at t i) \<le> rng_start (rng_at t j)))"

lemma table_okD:
  assumes "table_ok t"
  shows "rt_n t \<le> length (rt_ranges t)" "i < rt_n t \<Longrightarrow> rng_start (rng_at t i) < rng_end (rng_at t i)"
    "i < j \<Longrightarrow> j < rt_n t \<Longrightarrow> rng_end (rng_at t i) \<le> rng_start (rng_at t j)"
  using assms by (auto simp: table_ok_def)

lemma table_starts:
  assumes "table_ok t" "i \<le> j" "j < rt_n t"
  shows "rng_start (rng_at t i) \<le> rng_start (rng_at t j)"
proof (cases "i = j")
  case False
  with assms have "rng_start (rng_at t i) < rng_end (rng_at t i)"
    "rng_end (rng_at t i) \<le> rng_start (rng_at t j)"
    using table_okD [OF assms(1)] by auto
  then show ?thesis by (simp add: order_less_le_trans order_less_imp_le)
qed simp

text \<open>The ranges below \<open>l\<close> start at or before the OID, those from \<open>u + 1\<close> on after it.\<close>

definition bracket :: "RangeTable \<Rightarrow> OID \<Rightarrow> int \<Rightarrow> int \<Rightarrow> bool" where
  "bracket t oid l u =
     ((\<forall>i. int i < l \<longrightarrow> rng_start (rng_at t i) \<le> oid)
      \<and> (\<forall>i. u < int i \<and> i < rt_n t \<longrightarrow> oid < rng_start (rng_at t i)))"

lemma bracket_lower:
  assumes "table_ok t" "bracket t oid l u" "0 \<le> i" "i < int (rt_n t)"
    and "\<not> oid < rng_start (rng_at t (nat i))"
  shows "bracket t oid (i + 1) u"
proof -
  have "rng_start (rng_at t j) \<le> oid" if "int j < i + 1" for j
  proof -
    have "rng_start (rng_at t j) \<le> rng_start (rng_at t (nat i))"
      using assms(3,4) that by (intro table_starts [OF assms(1)]) auto
    with assms(5) show ?thesis by simp
  qed
  with assms(2) show ?thesis by (simp add: bracket_def)
qed

lemma bracket_upper:
  assumes "table_ok t" "bracket t oid l u" "0 \<le> i" "oid < rng_start (rng_at t (nat i))"
  shows "bracket t oid l (i - 1)"
proof -
  have "oid < rng_start (rng_at t j)" if "i - 1 < int j" "j < rt_n t" for j
  proof -
    have "rng_start (rng_at t (nat i)) \<le> rng_start (rng_at t j)"
      using assms(3) that by (intro table_starts [OF assms(1)]) auto
    with assms(4) show ?thesis by (rule order_less_le_trans)
  qed
  with assms(2) show ?thesis by (simp add: bracket_def)
qed

lemma LookupRange_loop_correct:
  assumes "table_ok t" "0 \<le> l" "l \<le> u + 1" "u < int (rt_n t)" "bracket t oid l u"
    and "v = LookupRange_loop oid (rt_ranges t) l u"
  shows "- 1 \<le> v \<and> v < int (rt_n t) \<and> bracket t oid (v + 1) v"
  using assms(2-6)
proof (induction oid "rt_ranges t" l u rule: LookupRange_loop.induct)
  case (1 oid l u)
  show ?case
  proof (cases "u < l")
    case True
    with 1 have "l = u + 1" "v = u" by (simp_all add: LookupRange_loop.simps [of _ _ l u])
    with 1 show ?thesis by simp
  next
    case False
    define i where "i = (l + u) div 2"
    have i: "l \<le> i" "i \<le> u" using False by (auto simp: i_def)
    show ?thesis
    proof (cases "oid < rng_start (rng_at t (nat i))")
      case True
      then have "v = LookupRange_loop oid (rt_ranges t) l (i - 1)"
        using 1(7) False by (simp add: LookupRange_loop.simps [of _ _ l u] i_def rng_at_def Let_def)
      moreover have "bracket t oid l (i - 1)"
        using i 1(3,6) True by (intro bracket_upper [OF assms(1)]) auto
      moreover have "oid < rng_start (rt_ranges t ! nat i)" using True by (simp add: rng_at_def)
      ultimately show ?thesis
        using 1(1) [OF False i_def] i 1(3,5) by simp
    next
      case lower: False
      then have "v = LookupRange_loop oid (rt_ranges t) (i + 1) u"
        using 1(7) False by (simp add: LookupRange_loop.simps [of _ _ l u] i_def rng_at_def Let_def)
      moreover have "bracket t oid (i + 1) u"
        using i 1(3,5,6) lower by (intro bracket_lower [OF assms(1)]) auto
      moreover have "\<not> oid < rng_start (rt_ranges t ! nat i)" using lower by (simp add: rng_at_def)
      ultimately show ?thesis
        using 1(2) [OF False i_def] i 1(3,5) by simp
    qed
  qed
qed

lemma LookupRange_correct:
  assumes "table_ok t" "v = LookupRange oid t"
  shows "- 1 \<le> v" "v < int (rt_n t)" "int i \<le> v \<Longrightarrow> rng_start (rng_at t i) \<le> oid"
    "int i > v \<Longrightarrow> i < rt_n t \<Longrightarrow> oid < rng_start (rng_at t i)"
proof -
  have "bracket t oid 0 (int (rt_n t) - 1)" by (auto simp: bracket_def)
  with LookupRange_loop_correct [OF assms(1), of 0 "int (rt_n t) - 1" oid v] assms(2)
  have v: "- 1 \<le> v \<and> v < int (rt_n t) \<and> bracket t oid (v + 1) v" by (simp add: LookupRange_def)
  then show "- 1 \<le> v" "v < int (rt_n t)" by auto
  show "int i \<le> v \<Longrightarrow> rng_start (rng_at t i) \<le> oid"
    "int i > v \<Longrightarrow> i < rt_n t \<Longrightarrow> oid < rng_start (rng_at t i)"
    using v by (simp_all add: bracket_def)
qed

section \<open>Lookup and insertion\<close>

definition content :: "RangeTable \<Rightarrow> ObjectRange set" where
  "content t = {rng_at t i |i. i < rt_n t}"

lemma LookupOID_correct:
  assumes "table_ok t"
  shows "LookupOID t oid = Some r \<longleftrightarrow> r \<in> content t \<and> range_Contains r oid"
proof -
  define v where "v = LookupRange oid t"
  note v = LookupRange_correct [OF assms v_def]
  have found: "int i = v" if "i < rt_n t" "range_Contains (rng_at t i) oid" for i
  proof (rule ccontr)
    assume "int i \<noteq> v"
    then consider "int i < v" | "int i > v" by linarith
    then show False
    proof cases
      case 1
      then have "rng_end (rng_at t i) \<le> rng_start (rng_at t (nat v))"
        using v(2) by (intro table_okD(3) [OF assms]) auto
      also have "\<dots> \<le> oid" using v(3) [of "nat v"] 1 by simp
      finally show False using that(2) by (simp add: range_Contains_def leD)
    next
      case 2
      with v(4) [of i] that show False by (simp add: range_Contains_def leD)
    qed
  qed
  show ?thesis
  proof
    assume l: "LookupOID t oid = Some r"
    then have ge: "0 \<le> v" and r: "r = rng_at t (nat v)" and "oid < rng_end r"
      by (auto simp: LookupOID_def v_def rng_at_def Let_def split: if_splits)
    with v(2) v(3) [of "nat v"] show "r \<in> content t \<and> range_Contains r oid"
      by (auto simp: content_def range_Contains_def intro!: exI [of _ "nat v"])
  next
    assume "r \<in> content t \<and> range_Contains r oid"
    then obtain i where i: "i < rt_n t" "r = rng_at t i" "range_Contains r oid"
      by (auto simp: content_def)
    with found [of i] have "v = int i" by simp
    with i show "LookupOID t oid = Some r"
      by (simp add: LookupOID_def v_def [symmetric] rng_at_def range_Contains_def)
  qed
qed

lemma length_AddRange_move [simp]: "length (AddRange_move xs i n) = length xs"
  by (induction xs i n rule: AddRange_move.induct) auto

lemma AddRange_move_nth:
  assumes "i \<le> n" "n < length xs" "k < length xs"
  shows "AddRange_move xs i n ! k = (if i < k \<and> k \<le> n then xs ! (k - 1) else xs ! k)"
  using assms
proof (induction xs i n rule: AddRange_move.induct)
  case (2 xs i j)
  show ?case
  proof (cases "Suc j > i")
    case True
    with 2 have "AddRange_move (xs[Suc j := xs ! j]) i j ! k
        = (if i < k \<and> k \<le> j then xs[Suc j := xs ! j] ! (k - 1) else xs[Suc j := xs ! j] ! k)"
      by simp
    with True 2(3,4) show ?thesis by (auto simp: nth_list_update le_Suc_eq)
  qed (use 2 in auto)
qed simp

definition rng_disjoint :: "ObjectRange \<Rightarrow> ObjectRange \<Rightarrow> bool" where
  "rng_disjoint a b = (rng_end a \<le> rng_start b \<or> rng_end b \<le> rng_start a)"

text \<open>Where the ranges are after an insertion.\<close>

lemma AddRange_at:
  assumes "table_ok t" "rt_n t < length (rt_ranges t)"
  obtains i where "i \<le> rt_n t" "rt_n (AddRange rng t) = rt_n t + 1"
    "length (rt_ranges (AddRange rng t)) = length (rt_ranges t)"
    "\<And>k. k \<le> rt_n t \<Longrightarrow> rng_at (AddRange rng t) k
        = (if k < i then rng_at t k else if k = i then rng else rng_at t (k - 1))"
    "\<And>k. k < i \<Longrightarrow> rng_start (rng_at t k) \<le> rng_start rng"
    "\<And>k. i \<le> k \<Longrightarrow> k < rt_n t \<Longrightarrow> rng_start rng < rng_start (rng_at t k)"
proof -
  define v where "v = LookupRange (rng_start rng) t"
  note v = LookupRange_correct [OF assms(1) v_def]
  define i where "i = nat (v + 1)"
  have i: "i \<le> rt_n t" using v(1,2) by (simp add: i_def)
  show ?thesis
  proof (rule that [of i])
    fix k assume "k \<le> rt_n t"
    with i assms(2) show "rng_at (AddRange rng t) k
        = (if k < i then rng_at t k else if k = i then rng else rng_at t (k - 1))"
      by (auto simp: rng_at_def AddRange_def Let_def AddRange_move_nth nth_list_update
          v_def [symmetric] i_def [symmetric])
  qed (use i v in \<open>auto simp: AddRange_def Let_def i_def\<close>)
qed

lemma AddRange_ok:
  assumes "table_ok t" "rt_n t < length (rt_ranges t)" "rng_start rng < rng_end rng"
    and "\<forall>r \<in> content t. rng_disjoint r rng"
  shows "table_ok (AddRange rng t)" "content (AddRange rng t) = insert rng (content t)"
proof -
  obtain i where i: "i \<le> rt_n t" and n: "rt_n (AddRange rng t) = rt_n t + 1"
    and len: "length (rt_ranges (AddRange rng t)) = length (rt_ranges t)"
    and at: "\<And>k. k \<le> rt_n t \<Longrightarrow> rng_at (AddRange rng t) k
        = (if k < i then rng_at t k else if k = i then rng else rng_at t (k - 1))"
    and lo: "\<And>k. k < i \<Longrightarrow> rng_start (rng_at t k) \<le> rng_start rng"
    and hi: "\<And>k. i \<le> k \<Longrightarrow> k < rt_n t \<Longrightarrow> rng_start rng < rng_start (rng_at t k)"
    by (rule AddRange_at [OF assms(1,2)]) blast
  note ok = table_okD [OF assms(1)]
  have disj: "rng_disjoint (rng_at t k) rng" if "k < rt_n t" for k
    using assms(4) that by (auto simp: content_def)
  have lo': "rng_end (rng_at t k) \<le> rng_start rng" if "k < i" for k
    using disj [of k] lo [OF that] assms(3) i that by (auto simp: rng_disjoint_def)
  have hi': "rng_end rng \<le> rng_start (rng_at t k)" if "i \<le> k" "k < rt_n t" for k
    using disj [of k] hi [OF that] ok(2) [of k] that by (auto simp: rng_disjoint_def)
  show "table_ok (AddRange rng t)"
    unfolding table_ok_def n
  proof (intro conjI allI impI)
    show "rt_n t + 1 \<le> length (rt_ranges (AddRange rng t))" using assms(2) len by simp
    show "rng_start (rng_at (AddRange rng t) k) < rng_end (rng_at (AddRange rng t) k)"
      if "k < rt_n t + 1" for k
      using that at [of k] ok(2) [of k] ok(2) [of "k - 1"] assms(3) i by auto
    show "rng_end (rng_at (AddRange rng t) j) \<le> rng_start (rng_at (AddRange rng t) k)"
      if "j < k \<and> k < rt_n t + 1" for j k
      using that at [of j] at [of k] ok(3) [of j k] ok(3) [of j "k - 1"] ok(3) [of "j - 1" "k - 1"]
        lo' [of j] hi' [of "k - 1"] i by auto
  qed
  show "content (AddRange rng t) = insert rng (content t)"
  proof (intro set_eqI iffI)
    fix r assume "r \<in> content (AddRange rng t)"
    then obtain k where "k \<le> rt_n t" "r = rng_at (AddRange rng t) k"
      by (auto simp: content_def n less_Suc_eq_le)
    with at [of k] i show "r \<in> insert rng (content t)"
      by (auto simp: content_def intro: exI [of _ k] exI [of _ "k - 1"])
  next
    fix r assume "r \<in> insert rng (content t)"
    then consider "r = rng" | k where "k < rt_n t" "r = rng_at t k" by (auto simp: content_def)
    then show "r \<in> content (AddRange rng t)"
    proof cases
      case 1
      with at [OF i] i show ?thesis by (auto simp: content_def n intro!: exI [of _ i])
    next
      case 2
      with at [of k] at [of "Suc k"] show ?thesis
        by (cases "k < i") (auto simp: content_def n intro: exI [of _ k] exI [of _ "Suc k"])
    qed
  qed
qed

section \<open>The interface\<close>

text \<open>
  What the users of a table rely on: lookup finds the range of the table that contains an OID,
  and a range that overlaps no other can be added while there is room.
\<close>

locale oid_ranges =
  fixes lookup :: "'t \<Rightarrow> OID \<Rightarrow> ObjectRange option"
    and add :: "ObjectRange \<Rightarrow> 't \<Rightarrow> 't option"
    and invar :: "'t \<Rightarrow> bool"
    and room :: "'t \<Rightarrow> bool"
    and ranges :: "'t \<Rightarrow> ObjectRange set"
  assumes lookup_iff: "invar t \<Longrightarrow> lookup t oid = Some r \<longleftrightarrow> r \<in> ranges t \<and> range_Contains r oid"
    and add_room: "invar t \<Longrightarrow> room t \<Longrightarrow> rng_start r < rng_end r
      \<Longrightarrow> (\<forall>r' \<in> ranges t. rng_disjoint r' r)
      \<Longrightarrow> \<exists>t'. add r t = Some t' \<and> invar t' \<and> ranges t' = insert r (ranges t)"
    and add_full: "\<not> room t \<Longrightarrow> add r t = None"
begin

lemma contains_unique:
  assumes "invar t" "r \<in> ranges t" "r' \<in> ranges t" "range_Contains r oid" "range_Contains r' oid"
  shows "r = r'"
  using lookup_iff [OF assms(1), of oid r] lookup_iff [OF assms(1), of oid r'] assms by simp

lemma lookup_None_iff:
  "invar t \<Longrightarrow> lookup t oid = None \<longleftrightarrow> (\<forall>r \<in> ranges t. \<not> range_Contains r oid)"
  using lookup_iff [of t oid] by (metis not_None_eq)

lemma lookup_add:
  assumes "invar t" "room t" "rng_start r < rng_end r" "\<forall>r' \<in> ranges t. rng_disjoint r' r"
  shows "\<exists>t'. add r t = Some t' \<and> invar t'
    \<and> (\<forall>oid. lookup t' oid = (if range_Contains r oid then Some r else lookup t oid))"
proof -
  from add_room [OF assms] obtain t' where t': "add r t = Some t'" "invar t'"
    "ranges t' = insert r (ranges t)" by blast
  have "lookup t' oid = (if range_Contains r oid then Some r else lookup t oid)" for oid
  proof (cases "range_Contains r oid")
    case True
    with lookup_iff [OF t'(2), of oid r] t'(3) show ?thesis by simp
  next
    case False
    then have "lookup t' oid = Some r' \<longleftrightarrow> lookup t oid = Some r'" for r'
      using lookup_iff [OF t'(2), of oid r'] lookup_iff [OF assms(1), of oid r'] t'(3) by auto
    with False show ?thesis by (cases "lookup t oid"; cases "lookup t' oid") auto
  qed
  with t' show ?thesis by blast
qed

end

definition has_room :: "RangeTable \<Rightarrow> bool" where
  "has_room t = (rt_n t \<noteq> length (rt_ranges t))"

interpretation obR: oid_ranges LookupOID objC_AddRange table_ok has_room content
proof
  fix t oid r assume "table_ok t"
  then show "LookupOID t oid = Some r \<longleftrightarrow> r \<in> content t \<and> range_Contains r oid"
    by (rule LookupOID_correct)
next
  fix t r
  assume a: "table_ok t" "has_room t" "rng_start r < rng_end r" "\<forall>r' \<in> content t. rng_disjoint r' r"
  then have "rt_n t < length (rt_ranges t)"
    using table_okD(1) [OF a(1)] by (simp add: has_room_def)
  from AddRange_ok [OF a(1) this a(3,4)] a(2)
  show "\<exists>t'. objC_AddRange r t = Some t' \<and> table_ok t' \<and> content t' = insert r (content t)"
    by (simp add: objC_AddRange_def has_room_def)
next
  fix t r assume "\<not> has_room t"
  then show "objC_AddRange r t = None" by (simp add: has_room_def objC_AddRange_def)
qed

section \<open>Properties\<close>

definition ex_table :: RangeTable where
  "ex_table = \<lparr>rt_ranges = [\<lparr>rng_start = 0x100, rng_end = 0x200, rng_source = 0\<rparr>,
     \<lparr>rng_start = 0x300, rng_end = 0x400, rng_source = 1\<rparr>,
     \<lparr>rng_start = 0, rng_end = 0, rng_source = 0\<rparr>], rt_n = 2\<rparr>"

lemma ex_table_ok: "table_ok ex_table"
  by (auto simp: table_ok_def ex_table_def rng_at_def less_2_cases_iff)

lemma ex_content: "content ex_table = {\<lparr>rng_start = 0x100, rng_end = 0x200, rng_source = 0\<rparr>,
    \<lparr>rng_start = 0x300, rng_end = 0x400, rng_source = 1\<rparr>}"
  by (auto simp: content_def ex_table_def rng_at_def less_2_cases_iff
      intro: exI [of _ 0] exI [of _ 1])

text \<open>
  C35. The bisection of the range table is correct: looking up an OID returns a range exactly when
  the table has a range that contains it, and then that range, for every table in order and
  every OID.
\<close>

theorem LookupOID_finds:
  assumes "table_ok t"
  shows "(LookupOID t oid = Some r \<longleftrightarrow> r \<in> content t \<and> range_Contains r oid)
    \<and> (objC_HaveSource oid t \<longleftrightarrow> (\<exists>r \<in> content t. range_Contains r oid))"
  using obR.lookup_iff [OF assms] by (auto simp: objC_HaveSource_def)

theorem LookupOID_finds_witness:
  "LookupOID ex_table 0x3a0 = Some \<lparr>rng_start = 0x300, rng_end = 0x400, rng_source = 1\<rparr>"
  using LookupOID_finds [OF ex_table_ok, of "0x3a0" "\<lparr>rng_start = 0x300, rng_end = 0x400, rng_source = 1\<rparr>"]
  by (simp add: ex_content range_Contains_def)

text \<open>
  C36. Mounting a range that overlaps no mounted range succeeds while the table has room, keeps
  the table in order, and changes lookup exactly for the OIDs of the new range.
\<close>

theorem AddRange_then_lookup:
  assumes "table_ok t" "has_room t" "rng_start r < rng_end r"
    and "\<forall>r' \<in> content t. rng_disjoint r' r"
  shows "\<exists>t'. objC_AddRange r t = Some t' \<and> table_ok t'
    \<and> (\<forall>oid. LookupOID t' oid = (if range_Contains r oid then Some r else LookupOID t oid))"
  using assms by (rule obR.lookup_add)

theorem AddRange_then_lookup_witness:
  "\<exists>t'. objC_AddRange \<lparr>rng_start = 0x200, rng_end = 0x280, rng_source = 2\<rparr> ex_table = Some t'
     \<and> table_ok t' \<and> LookupOID t' 0x210 = Some \<lparr>rng_start = 0x200, rng_end = 0x280, rng_source = 2\<rparr>
     \<and> LookupOID t' 0x280 = LookupOID ex_table 0x280"
proof -
  have "has_room ex_table" by (simp add: has_room_def ex_table_def)
  from AddRange_then_lookup [OF ex_table_ok this, of "\<lparr>rng_start = 0x200, rng_end = 0x280, rng_source = 2\<rparr>"]
  show ?thesis by (auto simp: ex_content rng_disjoint_def range_Contains_def)
qed

lemma CalcLogExtent_loop_mounted:
  assumes "table_ok t" "\<forall>lid < limit. objC_HaveSource lid t"
  shows "(\<forall>lid < CalcLogExtent_loop t limit. objC_HaveSource lid t)
    \<and> \<not> objC_HaveSource (CalcLogExtent_loop t limit) t"
  using assms
proof (induction t limit rule: CalcLogExtent_loop.induct)
  case (1 t limit)
  show ?case
  proof (cases "LookupOID t limit")
    case None
    with 1(3) show ?thesis by (simp add: CalcLogExtent_loop.simps [of t limit] objC_HaveSource_def)
  next
    case (Some rng)
    then have rng: "rng \<in> content t" "range_Contains rng limit"
      using LookupOID_correct [OF 1(2)] by auto
    have "objC_HaveSource lid t" if "lid < rng_end rng" for lid
    proof (cases "lid < limit")
      case False
      with rng that have "range_Contains rng lid" by (auto simp: range_Contains_def)
      with rng(1) have "LookupOID t lid = Some rng" using LookupOID_correct [OF 1(2)] by simp
      then show ?thesis by (simp add: objC_HaveSource_def)
    qed (use 1(3) in simp)
    with 1(1) [OF Some 1(2)] Some show ?thesis by (simp add: CalcLogExtent_loop.simps [of t limit])
  qed
qed

text \<open>
  C37. \<^verbatim>\<open>CalcLogExtent\<close> computes the log wrap point: every smaller log location is mounted, and the
  wrap point itself is not.
\<close>

theorem CalcLogExtent_is_wrap_point:
  assumes "table_ok lidRanges"
  shows "(\<forall>lid < CalcLogExtent lidRanges. objC_HaveSource lid lidRanges)
    \<and> \<not> objC_HaveSource (CalcLogExtent lidRanges) lidRanges"
  unfolding CalcLogExtent_def
  by (rule CalcLogExtent_loop_mounted [OF assms]) simp

definition ex_log :: RangeTable where
  "ex_log = \<lparr>rt_ranges = [\<lparr>rng_start = 0, rng_end = 0x200, rng_source = 0\<rparr>,
     \<lparr>rng_start = 0x200, rng_end = 0x400, rng_source = 1\<rparr>], rt_n = 2\<rparr>"

theorem CalcLogExtent_is_wrap_point_witness:
  "objC_HaveSource 0x3ff ex_log \<and> \<not> objC_HaveSource (CalcLogExtent ex_log) ex_log
   \<and> CalcLogExtent ex_log = 0x400"
proof -
  have ok: "table_ok ex_log"
    by (auto simp: table_ok_def ex_log_def rng_at_def less_2_cases_iff)
  have "CalcLogExtent ex_log = 0x400"
    by (simp add: CalcLogExtent_def CalcLogExtent_loop.simps LookupOID_def LookupRange_def
        LookupRange_loop.simps ex_log_def)
  with CalcLogExtent_is_wrap_point [OF ok] show ?thesis by auto
qed

section \<open>The first subrange\<close>

text \<open>
  \<^verbatim>\<open>objC_FindFirstSubrange\<close> is meant to find the first part of an interval of OIDs that is
  mounted. It compares the exclusive end of a range with \<^verbatim>\<open><\<close>, so it does not go on to the next
  range when the interval begins just where a range ends.
\<close>

definition first_subrange :: "RangeTable \<Rightarrow> OID \<Rightarrow> OID \<Rightarrow> (OID \<times> OID) option \<Rightarrow> bool" where
  "first_subrange t limStart limLast res =
     (case res of
        None \<Rightarrow> (\<forall>oid. limStart \<le> oid \<and> oid \<le> limLast \<longrightarrow> \<not> objC_HaveSource oid t)
      | Some (a, b) \<Rightarrow>
          limStart \<le> a \<and> a \<le> b \<and> b \<le> limLast
          \<and> (\<forall>oid. limStart \<le> oid \<and> oid < a \<longrightarrow> \<not> objC_HaveSource oid t)
          \<and> (\<exists>r \<in> content t. range_Contains r a \<and> range_Contains r b
               \<and> (b = limLast \<or> \<not> range_Contains r (b + 1))))"

text \<open>The range the search starts from: the first one that ends after the start of the interval.\<close>

lemma FindFirstSubrange_index:
  assumes "table_ok t" "v = LookupRange limStart t"
    and "i = (if v < 0 \<or> rng_end (rng_at t (nat v)) \<le> limStart then nat (v + 1) else nat v)"
  shows "\<And>j. j < i \<Longrightarrow> rng_end (rng_at t j) \<le> limStart"
    and "i < rt_n t \<Longrightarrow> limStart < rng_end (rng_at t i)"
    and "i < rt_n t \<Longrightarrow> j < rt_n t \<Longrightarrow> i < j \<Longrightarrow> rng_end (rng_at t i) \<le> rng_start (rng_at t j)"
proof -
  note v = LookupRange_correct [OF assms(1,2)]
  note ok = table_okD [OF assms(1)]
  show "rng_end (rng_at t j) \<le> limStart" if "j < i" for j
  proof (cases "int j = v")
    case True
    with that assms(3) show ?thesis by (auto split: if_splits)
  next
    case False
    with that assms(3) have "int j < v" by (auto split: if_splits)
    then have "rng_end (rng_at t j) \<le> rng_start (rng_at t (nat v))" using v(2) by (intro ok(3)) auto
    also have "\<dots> \<le> limStart" using v(3) [of "nat v"] \<open>int j < v\<close> by simp
    finally show ?thesis .
  qed
  show "limStart < rng_end (rng_at t i)" if "i < rt_n t"
  proof (cases "v < 0 \<or> rng_end (rng_at t (nat v)) \<le> limStart")
    case True
    then have "limStart < rng_start (rng_at t i)" using that v(1) assms(3) by (intro v(4)) auto
    also note ok(2) [OF that]
    finally show ?thesis .
  next
    case False
    with assms(3) show ?thesis by (simp add: not_le)
  qed
  show "i < rt_n t \<Longrightarrow> j < rt_n t \<Longrightarrow> i < j \<Longrightarrow> rng_end (rng_at t i) \<le> rng_start (rng_at t j)"
    using ok(3) by simp
qed

lemma FindFirstSubrange_skip:
  assumes "table_ok t" "v = LookupRange limStart t"
    and "objC_HaveSource limStart t \<or> (\<forall>r \<in> content t. rng_end r \<noteq> limStart)" "0 \<le> v"
  shows "rng_end (rng_at t (nat v)) < limStart \<longleftrightarrow> rng_end (rng_at t (nat v)) \<le> limStart"
proof -
  note v = LookupRange_correct [OF assms(1,2)]
  have "rng_end (rng_at t (nat v)) \<noteq> limStart"
  proof
    assume e: "rng_end (rng_at t (nat v)) = limStart"
    moreover have "rng_at t (nat v) \<in> content t" using v(2) assms(4) by (auto simp: content_def)
    ultimately have "objC_HaveSource limStart t" using assms(3) by blast
    then show False
      using e assms(2,4) by (auto simp: objC_HaveSource_def LookupOID_def rng_at_def Let_def)
  qed
  then show ?thesis by auto
qed

lemma word_le_pred: "(0 :: 'a::len word) < e \<Longrightarrow> x \<le> e - 1 \<longleftrightarrow> x < e"
  by (auto simp: less_eq_dec_iff)

lemma FindFirstSubrange_at:
  assumes "table_ok t" "limStart \<le> limLast" "i \<le> rt_n t"
    and "\<And>j. j < i \<Longrightarrow> rng_end (rng_at t j) \<le> limStart"
    and "i < rt_n t \<Longrightarrow> limStart < rng_end (rng_at t i)"
    and "res = (if i = rt_n t then None
       else let a = max limStart (rng_start (rng_at t i)); b = min limLast (rng_end (rng_at t i) - 1)
            in if b < a then None else Some (a, b))"
  shows "first_subrange t limStart limLast res"
proof -
  have src: "objC_HaveSource oid t \<longleftrightarrow> (\<exists>j < rt_n t. range_Contains (rng_at t j) oid)" for oid
    using LookupOID_correct [OF assms(1), of oid] by (auto simp: objC_HaveSource_def content_def)
  have below: "\<not> range_Contains (rng_at t j) oid" if "j < i" "limStart \<le> oid" for j oid
    using assms(4) [OF that(1)] that(2) by (auto simp: range_Contains_def)
  show ?thesis
  proof (cases "i = rt_n t")
    case True
    with below assms(6) show ?thesis by (auto simp: first_subrange_def src)
  next
    case False
    with assms(3) have i: "i < rt_n t" by simp
    define r where "r = rng_at t i"
    have r: "rng_start r < rng_end r" "limStart < rng_end r"
      using table_okD(2) [OF assms(1) i] assms(5) [OF i] by (simp_all add: r_def)
    then have pos: "0 < rng_end r" by (metis word_gt_0 not_less_zero order_less_trans word_neq_0_conv)
    have above: "rng_end r \<le> oid" if "i < j" "j < rt_n t" "range_Contains (rng_at t j) oid" for j oid
      using table_okD(3) [OF assms(1) that(1,2)] that(3) by (auto simp: r_def range_Contains_def)
    have first: "range_Contains r oid"
      if "objC_HaveSource oid t" "limStart \<le> oid" "oid < rng_end r" for oid
    proof -
      from that(1) obtain j where j: "j < rt_n t" "range_Contains (rng_at t j) oid" by (auto simp: src)
      with below that(2) above that(3) have "j = i" by (metis leD linorder_neqE_nat)
      with j show ?thesis by (simp add: r_def)
    qed
    define a where "a = max limStart (rng_start r)"
    define b where "b = min limLast (rng_end r - 1)"
    have b: "x \<le> b \<longleftrightarrow> x \<le> limLast \<and> x < rng_end r" for x
      using word_le_pred [OF pos] by (simp add: b_def)
    have a: "a < rng_end r" using r by (simp add: a_def)
    show ?thesis
    proof (cases "b < a")
      case True
      then have last: "limLast < a" using b [of a] a by (auto simp: not_le [symmetric])
      have "\<not> objC_HaveSource oid t" if "limStart \<le> oid" "oid \<le> limLast" for oid
      proof
        assume s: "objC_HaveSource oid t"
        have "oid < a" using that(2) last by (rule order_le_less_trans)
        with a have "oid < rng_end r" by (rule order_less_trans [rotated])
        with first [OF s that(1)] have "a \<le> oid" using that(1) by (simp add: a_def range_Contains_def)
        with \<open>oid < a\<close> show False by simp
      qed
      with True False assms(6) show ?thesis
        by (simp add: first_subrange_def r_def [symmetric] a_def [symmetric] b_def [symmetric])
    next
      case False': False
      then have ab: "a \<le> b" by simp
      have "\<not> objC_HaveSource oid t" if "limStart \<le> oid" "oid < a" for oid
      proof
        assume s: "objC_HaveSource oid t"
        have "oid < rng_end r" using that(2) a by (rule order_less_trans)
        with first [OF s that(1)] that have "a \<le> oid" by (simp add: a_def range_Contains_def)
        with that(2) show False by simp
      qed
      moreover have "range_Contains r a" "range_Contains r b"
        using ab a b [of b] by (auto simp: range_Contains_def a_def)
      moreover have "b = limLast \<or> \<not> range_Contains r (b + 1)"
        by (auto simp: b_def min_def range_Contains_def)
      moreover have "r \<in> content t" using i by (auto simp: content_def r_def)
      ultimately show ?thesis using ab b [of b] False False' assms(6)
        by (auto simp: first_subrange_def r_def [symmetric] a_def [symmetric] b_def [symmetric]
            intro!: bexI [of _ r]) (simp_all add: a_def)
    qed
  qed
qed

text \<open>
  C38. \<^verbatim>\<open>objC_FindFirstSubrange\<close> finds the first mounted part of the interval, extended as far as the
  range goes, or reports correctly that nothing in the interval is mounted, provided the interval
  does not begin at the (exclusive) end of a range without beginning another.
\<close>

theorem FindFirstSubrange_correct:
  assumes "table_ok t" "limStart \<le> limLast"
    and "objC_HaveSource limStart t \<or> (\<forall>r \<in> content t. rng_end r \<noteq> limStart)"
  shows "first_subrange t limStart limLast (objC_FindFirstSubrange limStart limLast t)"
proof -
  define v where "v = LookupRange limStart t"
  note v = LookupRange_correct [OF assms(1) v_def]
  define i where
    "i = (if v < 0 \<or> rng_end (rng_at t (nat v)) \<le> limStart then nat (v + 1) else nat v)"
  note ix = FindFirstSubrange_index [OF assms(1) v_def i_def]
  note skip = FindFirstSubrange_skip [OF assms(1) v_def assms(3)]
  have i: "i \<le> rt_n t" using v(1,2) by (auto simp: i_def)
  have "objC_FindFirstSubrange limStart limLast t = (if i = rt_n t then None
       else let a = max limStart (rng_start (rng_at t i)); b = min limLast (rng_end (rng_at t i) - 1)
            in if b < a then None else Some (a, b))"
  proof (cases "v < 0 \<or> rng_end (rng_at t (nat v)) \<le> limStart")
    case True
    then have "v < 0 \<or> rng_end (rt_ranges t ! nat v) < limStart"
      using skip unfolding rng_at_def by linarith
    moreover from True have "i = nat (v + 1)" by (simp add: i_def)
    moreover have "v + 1 \<ge> int (rt_n t) \<longleftrightarrow> nat (v + 1) = rt_n t" using v(1,2) by linarith
    ultimately show ?thesis
      by (simp add: objC_FindFirstSubrange_def v_def [symmetric] rng_at_def Let_def)
  next
    case False
    then have "\<not> (v < 0 \<or> rng_end (rt_ranges t ! nat v) < limStart)"
      using skip unfolding rng_at_def by linarith
    moreover from False have "i = nat v" by (simp add: i_def)
    moreover have "nat v \<noteq> rt_n t" using False v(2) by auto
    ultimately show ?thesis
      by (simp add: objC_FindFirstSubrange_def v_def [symmetric] rng_at_def Let_def)
  qed
  with ix i show ?thesis by (intro FindFirstSubrange_at [OF assms(1,2)]) auto
qed

theorem FindFirstSubrange_correct_witness:
  "first_subrange ex_table 0x180 0x3ff (objC_FindFirstSubrange 0x180 0x3ff ex_table)
   \<and> objC_FindFirstSubrange 0x180 0x3ff ex_table = Some (0x180, 0x1ff)"
proof -
  have "objC_FindFirstSubrange 0x180 0x3ff ex_table = Some (0x180, 0x1ff)"
    by (simp add: objC_FindFirstSubrange_def LookupRange_def LookupRange_loop.simps ex_table_def)
  with FindFirstSubrange_correct [OF ex_table_ok, of "0x180" "0x3ff"] show ?thesis
    by (simp add: ex_content)
qed

text \<open>
  C39. The boundary case that the theorem before leaves out, for every table: when the interval begins at the (exclusive) end
  of a mounted range and its first OID is not mounted, the search answers that nothing in the interval is
  mounted, whatever is mounted further on in it. The answer is wrong as soon as some later OID of
  the interval has a source.
\<close>

theorem FindFirstSubrange_misses_next:
  assumes "table_ok t" "r \<in> content t" "rng_end r = limStart" "\<not> objC_HaveSource limStart t"
    and "limStart \<le> oid" "oid \<le> limLast" "objC_HaveSource oid t"
  shows "objC_FindFirstSubrange limStart limLast t = None
    \<and> \<not> first_subrange t limStart limLast (objC_FindFirstSubrange limStart limLast t)"
proof -
  define v where "v = LookupRange limStart t"
  note v = LookupRange_correct [OF assms(1) v_def]
  from assms(2) obtain j where j: "j < rt_n t" "r = rng_at t j" by (auto simp: content_def)
  have r: "rng_start r < limStart" using table_okD(2) [OF assms(1) j(1)] j(2) assms(3) by simp
  have jv: "int j \<le> v" using v(4) [of j] j r by (metis not_le order_less_asym)
  then have v0: "0 \<le> v" by linarith
  have "\<not> int j < v"
  proof
    assume "int j < v"
    then have "limStart \<le> rng_start (rng_at t (nat v))" "nat v < rt_n t"
      using table_okD(3) [OF assms(1), of j "nat v"] v(2) v0 j(2) assms(3) by auto
    moreover from this have "rng_start (rng_at t (nat v)) < rng_end (rng_at t (nat v))"
      using table_okD(2) [OF assms(1)] by blast
    moreover have "rng_start (rng_at t (nat v)) \<le> limStart" using v(3) [of "nat v"] v0 by simp
    ultimately have "objC_HaveSource limStart t"
      using v0 by (simp add: objC_HaveSource_def LookupOID_def rng_at_def v_def [symmetric])
    with assms(4) show False ..
  qed
  with jv have "nat v = j" by linarith
  then have at: "rt_ranges t ! nat v = r" using j(2) by (simp add: rng_at_def)
  have "limStart - 1 < limStart" using r by (metis word_le_pred order_refl word_gt_0 not_less_zero order_less_trans word_neq_0_conv)
  then have "min limLast (limStart - 1) < max limStart (rng_start r)" by (auto simp: min_less_iff_disj less_max_iff_disj)
  then have none: "objC_FindFirstSubrange limStart limLast t = None"
    using v0 at assms(3) by (simp add: objC_FindFirstSubrange_def v_def [symmetric] Let_def)
  with assms(5-7) show ?thesis by (auto simp: first_subrange_def)
qed

theorem FindFirstSubrange_misses_next_witness:
  "objC_FindFirstSubrange 0x200 0x3ff ex_table = None \<and> \<not> first_subrange ex_table 0x200 0x3ff None"
proof -
  have "\<not> objC_HaveSource 0x200 ex_table" "objC_HaveSource 0x300 ex_table"
    by (simp_all add: objC_HaveSource_def LookupOID_def LookupRange_def LookupRange_loop.simps ex_table_def)
  then have "objC_FindFirstSubrange 0x200 0x3ff ex_table = None
    \<and> \<not> first_subrange ex_table 0x200 0x3ff (objC_FindFirstSubrange 0x200 0x3ff ex_table)"
    using ex_table_ok
    by (intro FindFirstSubrange_misses_next [where r = "\<lparr>rng_start = 0x100, rng_end = 0x200, rng_source = 0\<rparr>" and oid = "0x300"])
      (simp_all add: ex_content)
  then show ?thesis by metis
qed

end
