(* ===== verification/Sched.thy ===== *)
theory Sched
  imports Key_Struct
begin

text \<open>
  Activities, their queues and the choice of the next one to run (sys/kernel/kern_Activity.c,
  sys/kerninc/Activity.h, sys/kerninc/Process-inline.h, eros/fls.h), and the queue of sleepers of
  sys/kernel/kern_SysTimer.c. CPU reserves (sys/kernel/kern_CpuReserve.c) are not modelled: an
  operation on the ready queue of a reserve has no result.
\<close>

section \<open>State\<close>

type_synonym act_ptr = nat

datatype RunState = RS_Available | RS_Running | RS_Waiting

datatype act_State = act_Free | act_Ready | act_Running | act_Stall | act_Sleeping

datatype act_Haz = actHaz_None | actHaz_WakeOK | actHaz_WakeRestart | actHaz_WakeResume

datatype ready_q = RQ_Prio nat | RQ_Reserve nat

datatype stall_q = SQ_Free | SQ_Ready ready_q | SQ_Proc proc_ptr | SQ_Obj nat | SQ_Sleep

text \<open>
  \<^verbatim>\<open>act_q\<close> is the queue whose list the activity's \<^verbatim>\<open>q_link\<close> is on, \<^const>\<open>None\<close> when the
  link is a singleton. \<^verbatim>\<open>hasProcess\<close> and \<^verbatim>\<open>id.actProcess\<close> are one option. The call count
  and the wake-up time share a word in the source; only one of them is used at a time.
\<close>

record Activity =
  act_q :: "stall_q option"
  act_state :: act_State
  act_actHazard :: act_Haz
  act_proc :: "proc_ptr option"
  act_oid :: OID
  act_callCount :: ObCount
  act_wakeTime :: u64
  act_readyQ :: "ready_q option"

text \<open>
  \<^verbatim>\<open>struct Process\<close>, without what the key operations use (the key ring, the key registers and
  the root node, which are in the state of the keys). The registers are those of the trap frame.
\<close>

record Process =
  hazards :: u8
  runState :: RunState
  processFlags :: u8
  proc_readyQ :: ready_q
  curActivity :: "act_ptr option"
  trapFrame :: "nat \<Rightarrow> u32"
  faultCode :: u32
  faultInfo :: u32
  isUserContext :: bool
  kernelFlags :: u8

record sched =
  acts :: "act_ptr \<Rightarrow> Activity"
  procs :: "proc_ptr \<Rightarrow> Process"
  queues :: "stall_q \<Rightarrow> act_ptr list"
  numFreeActivities :: nat
  act_RunQueueMap :: u32
  act_curActivity :: "act_ptr option"
  proc_curProcess :: "proc_ptr option"
  allocatedActivity :: "act_ptr option"
  dw_reschedule :: bool
  nActivity :: nat

text \<open>\<^const>\<open>nActivity\<close> is the size of the activity table, \<^verbatim>\<open>KTUNE_NACTIVITY\<close>.\<close>

definition capros_SchedC_Priority_Never :: nat where "capros_SchedC_Priority_Never = 0"
definition pr_Reserve :: nat where "pr_Reserve = 14"
definition capros_SchedC_Priority_Max :: nat where "capros_SchedC_Priority_Max = 15"
definition hz_Malformed :: u8 where "hz_Malformed = 1"
definition hz_DomRoot :: u8 where "hz_DomRoot = 2"
definition hz_KeyRegs :: u8 where "hz_KeyRegs = 4"
definition capros_Process_PF_FaultToProcessKeeper :: u8 where "capros_Process_PF_FaultToProcessKeeper = 1"
definition capros_Process_PF_ExpectingMessage :: u8 where "capros_Process_PF_ExpectingMessage = 2"

definition upd_act :: "act_ptr \<Rightarrow> (Activity \<Rightarrow> Activity) \<Rightarrow> sched \<Rightarrow> sched" where
  "upd_act a f x = x\<lparr>acts := (acts x)(a := f (acts x a))\<rparr>"

definition upd_proc :: "proc_ptr \<Rightarrow> (Process \<Rightarrow> Process) \<Rightarrow> sched \<Rightarrow> sched" where
  "upd_proc p f x = x\<lparr>procs := (procs x)(p := f (procs x p))\<rparr>"

lemma upd_act_simps [simp]:
  "acts (upd_act a f x) = (acts x)(a := f (acts x a))" "procs (upd_act a f x) = procs x"
  "queues (upd_act a f x) = queues x" "numFreeActivities (upd_act a f x) = numFreeActivities x"
  "act_RunQueueMap (upd_act a f x) = act_RunQueueMap x"
  "act_curActivity (upd_act a f x) = act_curActivity x"
  "proc_curProcess (upd_act a f x) = proc_curProcess x"
  "allocatedActivity (upd_act a f x) = allocatedActivity x" "nActivity (upd_act a f x) = nActivity x"
  by (simp_all add: upd_act_def)

lemma upd_proc_simps [simp]:
  "procs (upd_proc p g x) = (procs x)(p := g (procs x p))" "acts (upd_proc p g x) = acts x"
  "queues (upd_proc p g x) = queues x" "numFreeActivities (upd_proc p g x) = numFreeActivities x"
  "act_RunQueueMap (upd_proc p g x) = act_RunQueueMap x"
  "act_curActivity (upd_proc p g x) = act_curActivity x"
  "proc_curProcess (upd_proc p g x) = proc_curProcess x"
  "allocatedActivity (upd_proc p g x) = allocatedActivity x" "nActivity (upd_proc p g x) = nActivity x"
  by (simp_all add: upd_proc_def)

section \<open>Processes\<close>

definition proc_IsRunnable :: "Process \<Rightarrow> bool" where
  "proc_IsRunnable p = (hazards p = 0)"

definition proc_IsExpectingMsg :: "Process \<Rightarrow> bool" where
  "proc_IsExpectingMsg p = (processFlags p AND capros_Process_PF_ExpectingMessage \<noteq> 0)"

definition proc_IsWellFormed :: "Process \<Rightarrow> bool" where
  "proc_IsWellFormed p = (hazards p AND (hz_DomRoot OR hz_KeyRegs OR hz_Malformed) = 0)"

definition proc_ClearFault :: "Process \<Rightarrow> Process" where
  "proc_ClearFault p = p\<lparr>faultCode := 0, faultInfo := 0,
     processFlags := processFlags p AND NOT capros_Process_PF_FaultToProcessKeeper\<rparr>"

definition proc_Deactivate :: "proc_ptr \<Rightarrow> sched \<Rightarrow> sched option" where
  "proc_Deactivate p x = do {
     assert_that (isUserContext (procs x p));
     Some (upd_proc p (curActivity_update (\<lambda>_. None)) x) }"

definition proc_SetActivity :: "proc_ptr \<Rightarrow> act_ptr \<Rightarrow> sched \<Rightarrow> sched option" where
  "proc_SetActivity p a x = do {
     assert_that (curActivity (procs x p) = None \<or> curActivity (procs x p) = Some a);
     Some (upd_proc p (curActivity_update (\<lambda>_. Some a)) x) }"

section \<open>Queues\<close>

definition act_Enqueue :: "act_ptr \<Rightarrow> stall_q \<Rightarrow> sched \<Rightarrow> sched option" where
  "act_Enqueue t q x = do {
     assert_that (act_q (acts x t) = None);
     Some (upd_act t (act_q_update (\<lambda>_. Some q)) (x\<lparr>queues := (queues x)(q := queues x q @ [t])\<rparr>)) }"

definition link_Unlink :: "act_ptr \<Rightarrow> sched \<Rightarrow> sched" where
  "link_Unlink t x =
     (case act_q (acts x t) of
        None \<Rightarrow> x
      | Some q \<Rightarrow> upd_act t (act_q_update (\<lambda>_. None)) (x\<lparr>queues := (queues x)(q := remove1 t (queues x q))\<rparr>))"

text \<open>Cancelling the alarm of a sleeper takes it off the queue of sleepers, whose first alarm may
  have to be set again (the hardware timer is not modelled).\<close>

definition act_Dequeue :: "act_ptr \<Rightarrow> sched \<Rightarrow> sched" where
  "act_Dequeue t x = link_Unlink t x"

definition act_DequeueNext :: "stall_q \<Rightarrow> sched \<Rightarrow> act_ptr option \<times> sched" where
  "act_DequeueNext q x =
     (case queues x q of
        [] \<Rightarrow> (None, x)
      | t # _ \<Rightarrow> (Some t, link_Unlink t x))"

section \<open>Waking up\<close>

fun rq_mask :: "ready_q \<Rightarrow> u32" where
  "rq_mask (RQ_Prio n) = push_bit n 1"
| "rq_mask (RQ_Reserve i) = push_bit pr_Reserve 1"

definition act_ForceResched :: "sched \<Rightarrow> sched" where
  "act_ForceResched x = x\<lparr>dw_reschedule := True\<rparr>"

definition readyq_GenericWakeup :: "ready_q \<Rightarrow> act_ptr \<Rightarrow> sched \<Rightarrow> sched option" where
  "readyq_GenericWakeup r t x = do {
     assert_that (act_q (acts x t) = None);
     assert_that (rq_mask r \<le> push_bit capros_SchedC_Priority_Max 1);
     let x = x\<lparr>act_RunQueueMap := act_RunQueueMap x OR rq_mask r\<rparr>;
     x \<leftarrow> act_Enqueue t (SQ_Ready r) x;
     Some (upd_act t (act_state_update (\<lambda>_. act_Ready)) x) }"

text \<open>
  The wake-up function of a ready queue. There are queues for 16 priorities; that of the reserve
  priority needs a reserve.
\<close>

definition doWakeup :: "ready_q \<Rightarrow> act_ptr \<Rightarrow> sched \<Rightarrow> sched option" where
  "doWakeup r t x =
     (case r of
        RQ_Prio n \<Rightarrow> if n = pr_Reserve \<or> n > capros_SchedC_Priority_Max then None
                       else readyq_GenericWakeup r t x
      | RQ_Reserve i \<Rightarrow> None)"

definition act_Wakeup :: "act_ptr \<Rightarrow> sched \<Rightarrow> sched option" where
  "act_Wakeup t x = do {
     r \<leftarrow> act_readyQ (acts x t);
     x \<leftarrow> doWakeup r t x;
     case act_curActivity x of
       None \<Rightarrow> Some x
     | Some c \<Rightarrow> do {
         rc \<leftarrow> act_readyQ (acts x c);
         Some (if rq_mask r > rq_mask rc then act_ForceResched x else x) } }"

definition readyq_Timeout :: "act_ptr \<Rightarrow> sched \<Rightarrow> sched option" where
  "readyq_Timeout t x = act_Wakeup t x"

section \<open>Activities and processes\<close>

definition act_AllocActivity :: "sched \<Rightarrow> (act_ptr \<times> sched) option" where
  "act_AllocActivity x =
     (case act_DequeueNext SQ_Free x of
        (None, _) \<Rightarrow> None
      | (Some a, x) \<Rightarrow> do {
          assert_that (numFreeActivities x > 0);
          Some (a, upd_act a (act_actHazard_update (\<lambda>_. actHaz_None))
            (x\<lparr>numFreeActivities := numFreeActivities x - 1\<rparr>)) })"

definition act_SetProcess :: "act_ptr \<Rightarrow> proc_ptr \<Rightarrow> sched \<Rightarrow> sched option" where
  "act_SetProcess a p x = do {
     assert_that (act_actHazard (acts x a) \<noteq> actHaz_WakeResume);
     proc_SetActivity p a (upd_act a (act_proc_update (\<lambda>_. Some p)) x) }"

definition act_AssignTo :: "act_ptr \<Rightarrow> proc_ptr \<Rightarrow> sched \<Rightarrow> sched option" where
  "act_AssignTo a p x = do {
     x \<leftarrow> act_SetProcess a p x;
     Some (if act_curActivity x = Some a then x\<lparr>proc_curProcess := Some p\<rparr> else x) }"

definition act_AssignToRunnable :: "act_ptr \<Rightarrow> proc_ptr \<Rightarrow> sched \<Rightarrow> sched option" where
  "act_AssignToRunnable a p x = do {
     x \<leftarrow> act_AssignTo a p x;
     assert_that (proc_IsRunnable (procs x p));
     Some (upd_act a (act_readyQ_update (\<lambda>_. Some (proc_readyQ (procs x p)))) x) }"

definition act_FreeActivity :: "act_ptr \<Rightarrow> sched \<Rightarrow> sched option" where
  "act_FreeActivity a x = do {
     x \<leftarrow> act_Enqueue a SQ_Free (upd_act a (\<lambda>t. t\<lparr>act_readyQ := None, act_proc := None,
            act_state := act_Free\<rparr>) x);
     Some (x\<lparr>numFreeActivities := numFreeActivities x + 1\<rparr>) }"

text \<open>The activity of a reserve sets its reserve inactive, which is not modelled.\<close>

definition act_DeleteActivity :: "act_ptr \<Rightarrow> sched \<Rightarrow> sched option" where
  "act_DeleteActivity a x = do {
     assert_that (case act_proc (acts x a) of None \<Rightarrow> True | Some p \<Rightarrow> curActivity (procs x p) = None);
     let x = (if act_curActivity x = Some a
              then act_ForceResched (x\<lparr>act_curActivity := None, proc_curProcess := None\<rparr>) else x);
     r \<leftarrow> act_readyQ (acts x a);
     assert_that (rq_mask r AND push_bit pr_Reserve 1 = 0);
     act_FreeActivity a x }"

definition act_DeleteCurrent :: "sched \<Rightarrow> sched option" where
  "act_DeleteCurrent x = do {
     a \<leftarrow> act_curActivity x;
     x \<leftarrow> (case act_proc (acts x a) of None \<Rightarrow> Some x | Some p \<Rightarrow> proc_Deactivate p x);
     act_DeleteActivity a (x\<lparr>proc_curProcess := None\<rparr>) }"

definition MigrateAllocatedActivity :: "proc_ptr \<Rightarrow> sched \<Rightarrow> sched option" where
  "MigrateAllocatedActivity p x = do {
     a \<leftarrow> allocatedActivity x;
     if act_state (acts x a) = act_Running then do {
       assert_that (act_curActivity x = Some a);
       x \<leftarrow> (case act_proc (acts x a) of None \<Rightarrow> Some x | Some q \<Rightarrow> proc_Deactivate q x);
       act_AssignToRunnable a p x }
     else do {
       assert_that (act_state (acts x a) = act_Free);
       x \<leftarrow> act_AssignToRunnable a p x;
       act_Wakeup a x } }"

definition proc_ClearActivity :: "proc_ptr \<Rightarrow> sched \<Rightarrow> (act_ptr \<times> sched) option" where
  "proc_ClearActivity p x = do {
     a \<leftarrow> curActivity (procs x p);
     x \<leftarrow> proc_Deactivate p (act_Dequeue a x);
     Some (a, if act_curActivity x = Some a then x\<lparr>proc_curProcess := None\<rparr> else x) }"

definition act_UnloadProcess :: "act_ptr \<Rightarrow> OID \<Rightarrow> sched \<Rightarrow> sched option" where
  "act_UnloadProcess a oid x = do {
     p \<leftarrow> act_proc (acts x a);
     assert_that (curActivity (procs x p) = Some a);
     assert_that (act_actHazard (acts x a) = actHaz_None);
     x \<leftarrow> proc_Deactivate p (upd_act a (\<lambda>t. t\<lparr>act_oid := oid, act_proc := None\<rparr>) x);
     Some (if act_curActivity x = Some a then x\<lparr>proc_curProcess := None\<rparr> else x) }"

definition StartActivity :: "OID \<Rightarrow> ObCount \<Rightarrow> act_Haz \<Rightarrow> sched \<Rightarrow> sched option" where
  "StartActivity oid count haz x = do {
     (a, x) \<leftarrow> act_AllocActivity x;
     act_Wakeup a (upd_act a (\<lambda>t. t\<lparr>act_proc := None, act_oid := oid, act_callCount := count,
       act_actHazard := haz, act_readyQ := Some (RQ_Prio capros_SchedC_Priority_Max)\<rparr>) x) }"

text \<open>
  The search for the activity of a process that is not loaded: \<open>oid\<close> and \<open>callCount\<close> are those of
  its root node, \<open>i\<close> runs over the activity table.
\<close>

fun act_FindByOid_loop :: "OID \<Rightarrow> ObCount \<Rightarrow> nat list \<Rightarrow> sched \<Rightarrow> (act_ptr option \<times> sched) option" where
  "act_FindByOid_loop oid count [] x = Some (None, x)"
| "act_FindByOid_loop oid count (i # is) x =
     (let t = acts x i in
      if act_state t \<noteq> act_Free \<and> act_proc t = None \<and> act_oid t = oid then
        (if act_actHazard t = actHaz_WakeResume then
           (if act_callCount t \<noteq> count then do {
              assert_that (act_curActivity x \<noteq> Some i);
              x \<leftarrow> act_DeleteActivity i (act_Dequeue i x);
              Some (None, x) }
            else Some (Some i, upd_act i (act_actHazard_update (\<lambda>_. actHaz_WakeRestart)) x))
         else Some (Some i, x))
      else act_FindByOid_loop oid count is x)"

definition act_FindByOid :: "OID \<Rightarrow> ObCount \<Rightarrow> sched \<Rightarrow> (act_ptr option \<times> sched) option" where
  "act_FindByOid oid count x = act_FindByOid_loop oid count [0..<nActivity x] x"

text \<open>
  The activity of a process that is rescinded (\<^verbatim>\<open>objH_Rescind\<close>): that of the loaded process, or one
  that is found by the OID of the root.
\<close>

definition delete_proc_activity :: "proc_ptr \<Rightarrow> sched \<Rightarrow> sched option" where
  "delete_proc_activity p x = do { (a, x) \<leftarrow> proc_ClearActivity p x; act_DeleteActivity a x }"

definition delete_oid_activity :: "OID \<Rightarrow> ObCount \<Rightarrow> sched \<Rightarrow> sched option" where
  "delete_oid_activity oid count x = do {
     (act, x) \<leftarrow> act_FindByOid oid count x;
     case act of
       None \<Rightarrow> Some x
     | Some a \<Rightarrow> do {
         assert_that (act_proc (acts x a) = None);
         assert_that (act_curActivity x \<noteq> Some a);
         act_DeleteActivity a (act_Dequeue a x) } }"

text \<open>\<^verbatim>\<open>act_ValidateActivity\<close>: what the debug build asserts of an activity.\<close>

definition act_ValidateActivity :: "act_ptr \<Rightarrow> sched \<Rightarrow> bool" where
  "act_ValidateActivity a x =
     (let t = acts x a;
          loaded = (\<lambda>P. case act_proc t of
             Some p \<Rightarrow> hazards (procs x p) AND hz_DomRoot = 0 \<longrightarrow> P (procs x p) | None \<Rightarrow> True);
          has_run = loaded (\<lambda>p. act_actHazard t \<noteq> actHaz_WakeResume
            \<and> (runState p \<noteq> RS_Available \<or> allocatedActivity x = Some a))
      in a < nActivity x
         \<and> (case act_state t of
              act_Free \<Rightarrow> act_proc t = None
            | act_Running \<Rightarrow> act_curActivity x = Some a \<and> has_run
            | act_Ready \<Rightarrow> has_run
            | act_Stall \<Rightarrow> has_run
            | act_Sleeping \<Rightarrow> loaded (\<lambda>p. runState p = RS_Waiting)))"

section \<open>Sleeping\<close>

definition act_SleepOn :: "stall_q \<Rightarrow> sched \<Rightarrow> sched option" where
  "act_SleepOn q x = do {
     t \<leftarrow> act_curActivity x;
     assert_that (act_ValidateActivity t x);
     assert_that (act_state (acts x t) = act_Running \<or> act_q (acts x t) = None);
     x \<leftarrow> act_Enqueue t q x;
     let x = upd_act t (act_state_update (\<lambda>_. act_Stall)) x;
     r \<leftarrow> act_readyQ (acts x t);
     assert_that (rq_mask r AND push_bit pr_Reserve 1 = 0);
     Some x }"

partial_function (option) sq_WakeAll :: "stall_q \<Rightarrow> sched \<Rightarrow> sched option" where
  "sq_WakeAll q x =
     (case act_DequeueNext q x of
        (None, x) \<Rightarrow> Some x
      | (Some t, x) \<Rightarrow> do {
          assert_that (act_ValidateActivity t x);
          x \<leftarrow> act_Wakeup t x;
          sq_WakeAll q x })"

text \<open>The queue of sleepers is ordered by the time of waking up.\<close>

fun sleep_insert :: "(act_ptr \<Rightarrow> u64) \<Rightarrow> act_ptr \<Rightarrow> act_ptr list \<Rightarrow> act_ptr list" where
  "sleep_insert w t [] = [t]"
| "sleep_insert w t (u # us) = (if w u \<ge> w t then t # u # us else u # sleep_insert w t us)"

definition sysT_AddSleeper :: "act_ptr \<Rightarrow> u64 \<Rightarrow> sched \<Rightarrow> sched option" where
  "sysT_AddSleeper t wakeTime x = do {
     assert_that (act_q (acts x t) = None);
     p \<leftarrow> act_proc (acts x t);
     assert_that (curActivity (procs x p) = Some t);
     assert_that (hazards (procs x p) AND hz_DomRoot = 0);
     assert_that (runState (procs x p) = RS_Waiting);
     let x = upd_act t (\<lambda>a. a\<lparr>act_wakeTime := wakeTime, act_state := act_Sleeping,
               act_q := Some SQ_Sleep\<rparr>) x;
     Some (x\<lparr>queues := (queues x)(SQ_Sleep :=
       sleep_insert (\<lambda>a. act_wakeTime (acts x a)) t (queues x SQ_Sleep))\<rparr>) }"

definition act_SleepUntilTick :: "act_ptr \<Rightarrow> u64 \<Rightarrow> sched \<Rightarrow> sched option" where
  "act_SleepUntilTick t tick x = do {
     x \<leftarrow> sysT_AddSleeper t tick x;
     r \<leftarrow> act_readyQ (acts x t);
     assert_that (rq_mask r AND push_bit pr_Reserve 1 = 0);
     Some x }"

section \<open>Choosing the next activity\<close>

definition fls32 :: "u32 \<Rightarrow> nat" where
  "fls32 x =
     (if x = 0 then 0
      else let r = 1;
               (r, x) = (if x AND 0xffff0000 \<noteq> 0 then (r + 16, drop_bit 16 x) else (r, x));
               (r, x) = (if x AND 0xff00 \<noteq> 0 then (r + 8, drop_bit 8 x) else (r, x));
               (x, r) = (if x AND 0xf0 \<noteq> 0 then (drop_bit 4 x, r + 4) else (x, r));
               (x, r) = (if x AND 0xc \<noteq> 0 then (drop_bit 2 x, r + 2) else (x, r))
           in if x AND 0x2 \<noteq> 0 then r + 1 else r)"

text \<open>The position of the most significant 1-bit, which the search is meant to find.\<close>
definition is_msb :: "'a::len word \<Rightarrow> nat \<Rightarrow> bool" where
  "is_msb w n = (bit w n \<and> (\<forall>m>n. \<not> bit w m))"

definition fls_stage :: "nat \<Rightarrow> nat \<times> 'a::len word \<Rightarrow> nat \<times> 'a word" where
  "fls_stage k = (\<lambda>(r, w). if w AND push_bit k (mask k) \<noteq> 0 then (r + k, drop_bit k w) else (r, w))"

lemma is_msb_shift: "is_msb (drop_bit k w) j \<Longrightarrow> is_msb w (k + j)"
  unfolding is_msb_def bit_drop_bit_eq o_def
  by (metis add_diff_inverse_nat less_diff_conv2 nat_add_left_cancel_less not_less_iff_gr_or_eq trans_less_add1)

text \<open>What holds between the stages of the search for the most significant bit of \<open>w0\<close>.\<close>

definition fls_ok :: "'a::len word \<Rightarrow> nat \<Rightarrow> nat \<times> 'a word \<Rightarrow> bool" where
  "fls_ok w0 k = (\<lambda>(r, w). w \<noteq> 0 \<and> (\<forall>i\<ge>k. \<not> bit w i) \<and> (\<forall>j. is_msb w j \<longrightarrow> is_msb w0 (r + j)))"

lemma high_bits_iff:
  fixes w :: "'a::len word"
  assumes "\<forall>i\<ge>2 * k. \<not> bit w i"
  shows "(w AND push_bit k (mask k) \<noteq> 0) = (drop_bit k w \<noteq> 0)"
proof
  assume "w AND push_bit k (mask k) \<noteq> 0"
  then obtain i where i: "bit w i" "i \<ge> k" by (auto simp: bit_eq_iff bit_simps)
  then have "bit (drop_bit k w) (i - k)" by (simp add: bit_drop_bit_eq)
  then show "drop_bit k w \<noteq> 0" by auto
next
  assume "drop_bit k w \<noteq> 0"
  then obtain i where i: "bit w (k + i)" by (auto simp: bit_eq_iff bit_simps)
  with assms have "k + i < 2 * k" by (meson not_less)
  with i have "bit (w AND push_bit k (mask k)) (k + i)"
    using bit_imp_le_length [OF i] by (auto simp: bit_simps)
  then show "w AND push_bit k (mask k) \<noteq> 0" by auto
qed

lemma fls_stage_step:
  assumes "fls_ok w0 (2 * k) (r, w)"
  shows "fls_ok w0 k (fls_stage k (r, w))"
proof -
  have high: "(w AND push_bit k (mask k) \<noteq> 0) = (drop_bit k w \<noteq> 0)"
    using assms by (intro high_bits_iff) (simp add: fls_ok_def)
  show ?thesis
  proof (cases "drop_bit k w = 0")
    case True
    then have "\<not> bit w i" if "i \<ge> k" for i
      using that by (metis bit_0_eq bit_drop_bit_eq bot_apply bot_bool_def comp_apply le_add_diff_inverse)
    with True high assms show ?thesis by (auto simp: fls_stage_def fls_ok_def)
  next
    case False
    have "is_msb w0 (r + k + j)" if "is_msb (drop_bit k w) j" for j
      using is_msb_shift [OF that] assms by (simp add: fls_ok_def add.assoc)
    with False high assms show ?thesis by (auto simp: fls_stage_def fls_ok_def bit_drop_bit_eq)
  qed
qed

lemma high_masks:
  "push_bit 16 (mask 16) = (0xffff0000 :: u32)" "push_bit 8 (mask 8) = (0xff00 :: u32)"
  "push_bit 4 (mask 4) = (0xf0 :: u32)" "push_bit 2 (mask 2) = (0xc :: u32)"
  "push_bit 1 (mask 1) = (0x2 :: u32)"
  by (simp_all add: mask_eq_exp_minus_1 push_bit_eq_mult)

lemma fls32_stages:
  assumes "w \<noteq> 0"
  shows "fls32 w = Suc (fst (fls_stage 1 (fls_stage 2 (fls_stage 4 (fls_stage 8 (fls_stage 16 (0, w)))))))"
proof -
  obtain r1 w1 where s1: "fls_stage 16 (0, w) = (r1, w1)" by fastforce
  obtain r2 w2 where s2: "fls_stage 8 (r1, w1) = (r2, w2)" by fastforce
  obtain r3 w3 where s3: "fls_stage 4 (r2, w2) = (r3, w3)" by fastforce
  obtain r4 w4 where s4: "fls_stage 2 (r3, w3) = (r4, w4)" by fastforce
  obtain r5 w5 where s5: "fls_stage 1 (r4, w4) = (r5, w5)" by fastforce
  have e1: "(if w AND 0xffff0000 \<noteq> 0 then (1 + 16, drop_bit 16 w) else (1, w)) = (Suc r1, w1)"
    using s1 by (simp add: fls_stage_def high_masks split: if_splits)
  have e2: "(if w1 AND 0xff00 \<noteq> 0 then (Suc r1 + 8, drop_bit 8 w1) else (Suc r1, w1)) = (Suc r2, w2)"
    using s2 by (simp add: fls_stage_def high_masks split: if_splits)
  have e3: "(if w2 AND 0xf0 \<noteq> 0 then (drop_bit 4 w2, Suc r2 + 4) else (w2, Suc r2)) = (w3, Suc r3)"
    using s3 by (simp add: fls_stage_def high_masks split: if_splits)
  have e4: "(if w3 AND 0xc \<noteq> 0 then (drop_bit 2 w3, Suc r3 + 2) else (w3, Suc r3)) = (w4, Suc r4)"
    using s4 by (simp add: fls_stage_def high_masks split: if_splits)
  have e5: "(if w4 AND 0x2 \<noteq> 0 then Suc r4 + 1 else Suc r4) = Suc r5"
    using s5 by (simp only: fls_stage_def high_masks split_conv split: if_splits) auto
  show ?thesis using assms
    by (simp only: fls32_def e1 e2 e3 e4 e5 s1 s2 s3 s4 s5 Let_def split_conv if_False fst_conv)
qed

lemma fls32_is_msb:
  assumes "w \<noteq> 0"
  shows "fls32 w > 0 \<and> is_msb w (fls32 w - 1)"
proof -
  let ?f = "fls_stage 1 (fls_stage 2 (fls_stage 4 (fls_stage 8 (fls_stage 16 (0, w)))))"
  have step: "fls_ok w (2 * k) y \<Longrightarrow> fls_ok w k (fls_stage k y)" for k y
    by (cases y) (simp add: fls_stage_step)
  have "fls_ok w (2 * 16) (0, w)" using assms bit_imp_le_length [of w] by (fastforce simp: fls_ok_def)
  from step [OF this] have "fls_ok w (2 * 8) (fls_stage 16 (0, w))" by simp
  from step [OF this] have "fls_ok w (2 * 4) (fls_stage 8 (fls_stage 16 (0, w)))" by simp
  from step [OF this] have "fls_ok w (2 * 2) (fls_stage 4 (fls_stage 8 (fls_stage 16 (0, w))))" by simp
  from step [OF this] have "fls_ok w (2 * 1) (fls_stage 2 (fls_stage 4 (fls_stage 8 (fls_stage 16 (0, w)))))"
    by simp
  from step [OF this] have ok: "fls_ok w 1 ?f" by simp
  have "is_msb (snd ?f) 0"
  proof -
    from ok obtain i where "bit (snd ?f) i" by (auto simp: fls_ok_def bit_eq_iff split: prod.splits)
    with ok show ?thesis by (cases i) (auto simp: fls_ok_def is_msb_def split: prod.splits)
  qed
  with ok have "is_msb w (fst ?f)" by (fastforce simp: fls_ok_def split: prod.splits)
  then show ?thesis using fls32_stages [OF assms] by simp
qed

lemma clear_msb_less:
  fixes w :: "'a::len word"
  assumes "bit w n"
  shows "unat (w AND NOT (push_bit n 1)) < unat w"
proof -
  have "\<not> bit (w AND NOT (push_bit n 1)) n" using bit_imp_le_length [OF assms] by (simp add: bit_simps)
  with assms have "w AND NOT (push_bit n 1) \<noteq> w" by metis
  moreover have "w AND NOT (push_bit n 1) \<le> w" by (rule word_and_le2)
  ultimately show ?thesis by (simp add: word_less_nat_alt [symmetric])
qed

text \<open>
  The loop looks for the first non-empty queue; \<^verbatim>\<open>act_RunQueueMap\<close> is advisory. It ends with the
  index of the queue. The queue of the reserves is not modelled.
\<close>

definition clear_run_bit :: "nat \<Rightarrow> sched \<Rightarrow> sched" where
  "clear_run_bit n x = x\<lparr>act_RunQueueMap := act_RunQueueMap x AND NOT (push_bit n 1)\<rparr>"

lemma clear_top_run_bit:
  assumes "act_RunQueueMap x \<noteq> 0"
  shows "unat (act_RunQueueMap (clear_run_bit (fls32 (act_RunQueueMap x) - 1) x)) < unat (act_RunQueueMap x)"
proof -
  have "bit (act_RunQueueMap x) (fls32 (act_RunQueueMap x) - 1)"
    using fls32_is_msb [OF assms] by (simp add: is_msb_def)
  from clear_msb_less [OF this] show ?thesis by (simp add: clear_run_bit_def)
qed

function choose_queue :: "sched \<Rightarrow> (nat \<times> sched) option" where
  "choose_queue x =
     (if act_RunQueueMap x = 0 then None
      else let runQueueNdx = fls32 (act_RunQueueMap x) - 1 in
        if runQueueNdx = pr_Reserve \<or> runQueueNdx > capros_SchedC_Priority_Max then None
        else if queues x (SQ_Ready (RQ_Prio runQueueNdx)) \<noteq> [] then Some (runQueueNdx, x)
        else choose_queue (clear_run_bit runQueueNdx x))"
  by pat_completeness auto
termination
  by (relation "measure (\<lambda>x. unat (act_RunQueueMap x))")
    (simp_all only: wf_measure in_measure clear_top_run_bit not_False_eq_True)

declare choose_queue.simps [simp del]

definition act_ChooseNewCurrentActivity :: "sched \<Rightarrow> sched option" where
  "act_ChooseNewCurrentActivity x = do {
     (runQueueNdx, x) \<leftarrow> choose_queue x;
     assert_that (runQueueNdx > capros_SchedC_Priority_Never);
     let q = SQ_Ready (RQ_Prio runQueueNdx);
     let a = hd (queues x q);
     let x = link_Unlink a x;
     let x = upd_act a (act_state_update (\<lambda>_. act_Running))
               (x\<lparr>act_curActivity := Some a, proc_curProcess := act_proc (acts x a)\<rparr>);
     Some (if queues x q = [] then clear_run_bit runQueueNdx x else x) }"

end
