(* ===== verification/Kern_State.thy ===== *)
theory Kern_State
  imports Guard Obj_Source Sched
begin

text \<open>
  The part of the kernel's memory that key operations read and write: the object headers of the
  in-core objects (sys/kerninc/ObjectHeader.h, sys/kerninc/Node.h), the key slots that hold keys
  (node slots, the key registers of processes, the scratch keys of the invocation) addressed by
  reference, so that two names for one slot really are one slot, and the invocation block
  (sys/kerninc/Invocation.h).
\<close>

section \<open>Objects\<close>

datatype ObType =
    ot_NtUnprepared | ot_NtSegment | ot_NtProcessRoot | ot_NtKeyRegs | ot_NtRegAnnex
  | ot_NtFreeFrame
  | ot_PtDataPage | ot_PtDevBlock | ot_PtDMABlock | ot_PtSecondary
  | ot_PtTagPot | ot_PtHomePot | ot_PtLogPot | ot_PtWorkingCopy | ot_PtNewAlloc
  | ot_PtKernelUse | ot_PtFreeFrame | ot_PtFreeSecondary

fun ot_is_node :: "ObType \<Rightarrow> bool" where
  "ot_is_node t = (t \<in> {ot_NtUnprepared, ot_NtSegment, ot_NtProcessRoot, ot_NtKeyRegs,
     ot_NtRegAnnex, ot_NtFreeFrame})"

text \<open>obType \<open>\<le>\<close> ot_PtLAST_OBJECT_TYPE: not a pot, a working copy or a free page.\<close>

fun ot_is_object :: "ObType \<Rightarrow> bool" where
  "ot_is_object t =
     (ot_is_node t \<or> t \<in> {ot_PtDataPage, ot_PtDevBlock, ot_PtDMABlock, ot_PtSecondary})"

text \<open>
  One record for \<^verbatim>\<open>ObjectHeader\<close> and what \<^verbatim>\<open>Node\<close> and \<^verbatim>\<open>PageHeader\<close> add to it
  (\<^verbatim>\<open>callCount\<close>, \<^verbatim>\<open>nodeData\<close>, the page's bytes); the slots of a node are in the key
  store. The age and pin fields, the hash chain and the mapping tables a memory object
  produced are not kept.
\<close>

record ObjectHeader =
  obType :: ObType
  obFlags :: u8
  obOid :: OID
  allocCount :: ObCount
  callCount :: ObCount
  nodeData :: u16
  prep_context :: proc_ptr
  pageData :: "u8 list"

definition OFLG_DIRTY :: u8 where "OFLG_DIRTY = 0x01"
definition OFLG_Fetching :: u8 where "OFLG_Fetching = 0x02"
definition OFLG_Cleanable :: u8 where "OFLG_Cleanable = 0x04"
definition OFLG_KRO :: u8 where "OFLG_KRO = 0x20"
definition OFLG_CallCntUsed :: u8 where "OFLG_CallCntUsed = 0x40"
definition OFLG_AllocCntUsed :: u8 where "OFLG_AllocCntUsed = 0x80"

lemmas OFLG_defs = OFLG_DIRTY_def OFLG_Fetching_def OFLG_Cleanable_def OFLG_KRO_def
  OFLG_CallCntUsed_def OFLG_AllocCntUsed_def

definition EROS_NODE_SIZE :: nat where [kdefs]: "EROS_NODE_SIZE = 32"
definition EROS_PAGE_SIZE :: nat where "EROS_PAGE_SIZE = 4096"
definition EROS_PAGE_LGSIZE :: nat where [kdefs]: "EROS_PAGE_LGSIZE = 12"

datatype baseType = otPage | otNode

definition objH_isNodeType :: "ObjectHeader \<Rightarrow> bool" where
  "objH_isNodeType ob = ot_is_node (obType ob)"

definition objH_GetBaseType :: "ObjectHeader \<Rightarrow> baseType" where
  "objH_GetBaseType ob = (if ot_is_node (obType ob) then otNode else otPage)"

definition objH_GetFlags :: "ObjectHeader \<Rightarrow> u8 \<Rightarrow> bool" where
  "objH_GetFlags ob w = (obFlags ob AND w \<noteq> 0)"

definition objH_SetFlags :: "ObjectHeader \<Rightarrow> u8 \<Rightarrow> ObjectHeader" where
  "objH_SetFlags ob w = ob\<lparr>obFlags := obFlags ob OR w\<rparr>"

definition objH_ClearFlags :: "ObjectHeader \<Rightarrow> u8 \<Rightarrow> ObjectHeader" where
  "objH_ClearFlags ob w = ob\<lparr>obFlags := obFlags ob AND NOT w\<rparr>"

section \<open>Key slots\<close>

datatype kref =
    KSlot obj_ptr nat
  | KReg proc_ptr nat
  | KScratch
  | KKeeperArg
  | KTmp
  | KVoidKey

text \<open>
  The keys that point to an object are linked on the object's key ring; keys to a process
  are on the ring of the process structure.
\<close>

datatype ring_id = ObjRing obj_ptr | ProcRing proc_ptr

section \<open>Invocations\<close>

text \<open>
  The order codes and result codes are constants that CapIDL generates from the .idl files;
  here they are the constructors of two datatypes. Any other order code is \<open>OC_other\<close>.
\<close>

datatype process_OC =
    OC_capros_Process_getSchedule | OC_capros_Process_swapSchedule
  | OC_capros_Process_getAddrSpace | OC_capros_Process_swapAddrSpace
  | OC_capros_Process_swapAddrSpaceAndPC32Proto | OC_capros_Process_swapAddrSpaceAndPC32
  | OC_capros_Process_setIOSpace | OC_capros_Process_getKeeper | OC_capros_Process_swapKeeper
  | OC_capros_Process_getSymSpace | OC_capros_Process_swapSymSpace
  | OC_capros_Process_getKeyReg | OC_capros_Process_swapKeyReg
  | OC_capros_Process_makeStartKey | OC_capros_Process_makeResumeKey
  | OC_capros_Process_getRegisters32 | OC_capros_Process_setRegisters32
  | OC_capros_arch_arm_Process_getRegisters | OC_capros_arch_arm_Process_setRegisters

datatype procTool_OC =
    OC_capros_ProcTool_makeProcess | OC_capros_ProcTool_canOpener
  | OC_capros_ProcTool_identifyProcess | OC_capros_ProcTool_identGPTKeeper
  | OC_capros_ProcTool_identForwarderTarget

datatype sleep_OC =
    OC_capros_Sleep_getTimeMonotonic | OC_capros_Sleep_getPersistentMonotonicTime
  | OC_capros_Sleep_sleep | OC_capros_Sleep_sleepForNanoseconds
  | OC_capros_Sleep_sleepTillPersistentOrRestart | OC_capros_Sleep_sleepTill
  | OC_capros_Sleep_getDelayCalibration

datatype OC =
    OC_capros_key_getType | OC_capros_key_destroy
  | OC_capros_Node_getSlot | OC_capros_Node_swapSlot | OC_capros_Node_getSlotExtended
  | OC_capros_Node_swapSlotExtended | OC_capros_Node_reduce | OC_capros_Node_writeNumber
  | OC_capros_Node_getL2v | OC_capros_Node_setL2v | OC_capros_Node_makeGuarded
  | OC_capros_Node_getGuard | OC_capros_Node_setKeeper | OC_capros_Node_clearKeeper
  | OC_capros_Node_setBlocked | OC_capros_Node_clearBlocked | OC_capros_Node_clone
  | OC_capros_Memory_getRestrictions | OC_capros_Memory_reduce
  | OC_capros_Memory_makeGuarded | OC_capros_Memory_getGuard
  | OC_capros_GPT_getL2v | OC_capros_GPT_setL2v | OC_capros_GPT_getSlot
  | OC_capros_GPT_setSlot | OC_capros_GPT_setWindow | OC_capros_GPT_clone
  | OC_capros_GPT_setKeeper | OC_capros_GPT_clearKeeper | OC_capros_GPT_setBackground
  | OC_capros_GPT_clearBackground
  | OC_capros_Range_query | OC_capros_Range_nextSubrange | OC_capros_Range_makeSubrange
  | OC_capros_Range_identify | OC_capros_Range_rescind | OC_capros_Range_getCap
  | OC_capros_Range_waitCap | OC_capros_Range_compare | OC_capros_Range_getFrameCounts
  | OC_capros_Range_retypeFrame
  | OC_capros_Page_zero | OC_capros_Page_clone | OC_capros_Page_getNthPage
  | OC_capros_Forwarder_getTarget | OC_capros_Forwarder_getSlot
  | OC_capros_Forwarder_swapTarget | OC_capros_Forwarder_swapSlot
  | OC_capros_Forwarder_getDataWord | OC_capros_Forwarder_swapDataWord
  | OC_capros_Forwarder_clearBlocked | OC_capros_Forwarder_setBlocked
  | OC_capros_Forwarder_getOpaqueForwarder
  | OC_capros_Number_get
  | OC_capros_Discrim_classify | OC_capros_Discrim_verify | OC_capros_Discrim_compare
  | OC_capros_KeyBits_get
  | OC_capros_Memory_fault | OC_capros_ProcessKeeper_fault
  | Process_OC process_OC | ProcTool_OC procTool_OC | Sleep_OC sleep_OC
  | OC_other u32

datatype RC =
    RC_OK | RC_capros_key_Void | RC_capros_key_UnknownRequest | RC_capros_key_RequestError
  | RC_capros_key_NoAccess | RC_capros_Node_NoAddr | RC_capros_Node_Nondecreasing
  | RC_capros_Node_UnrepresentableGuard | RC_capros_Memory_UnrepresentableGuard
  | RC_capros_Range_RangeErr

record Invocation =
  inv_flags :: u32
  inv_key :: kref
  invType :: u32
  entry_code :: OC
  entry_w1 :: u32
  entry_w2 :: u32
  entry_w3 :: u32
  entry_data :: "u8 list"
  entry_key :: "nat \<Rightarrow> kref"
  exit_code :: RC
  exit_w1 :: u32
  exit_w2 :: u32
  exit_w3 :: u32
  exit_rcvLen :: nat
  exit_data :: "u8 list"
  exit_pKey :: "nat \<Rightarrow> kref option"
  sentLen :: nat
  invokee :: "proc_ptr option"

text \<open>
  The clock. \<^verbatim>\<open>sysT_latestTime\<close> is the time in ticks that the last reading of the hardware timer
  gave; the timer does not move during the operations that are modelled.
\<close>

record clock =
  sysT_latestTime :: u64
  lastUnique :: u64
  monotonicTimeOfRestart :: u64
  restartIsDone :: bool
  loopsPer8us :: u32

record kern =
  keys :: "kref \<Rightarrow> KeyBits"
  rings :: "ring_id \<Rightarrow> kref list"
  objs :: "obj_ptr \<Rightarrow> ObjectHeader"
  nObjs :: nat
  obBucket :: "nat \<Rightarrow> obj_ptr list"
  procRoot :: "proc_ptr \<Rightarrow> obj_ptr option"
  k_inv :: Invocation
  k_akt :: "kkt \<Rightarrow> u32"
  log_room :: bool
  maxNPCount :: ObCount
  InvocationCommitted :: bool
  obRanges :: RangeTable
  pmiEnd :: "obj_ptr \<Rightarrow> obj_ptr"
  k_sched :: sched
  ReturneeSetUp :: bool
  k_OC :: "OC \<Rightarrow> u32"
  k_RC :: "RC \<Rightarrow> u32"
  rcv_mapped :: "proc_ptr \<Rightarrow> nat \<Rightarrow> bool"
  k_clock :: clock

text \<open>
  An \<^verbatim>\<open>ObjectHeader *\<close> is an index below \<^const>\<open>nObjs\<close> into the table of object headers.
  \<^const>\<open>obBucket\<close> holds the hash chains of kern_CoreObHash.c. \<^const>\<open>k_akt\<close> gives the alleged type
  codes (\<^verbatim>\<open>AKT_*\<close>, \<^verbatim>\<open>IKT_*\<close>) of the generated headers. \<^const>\<open>log_room\<close> stands for the
  checkpoint code's decision that one more object may be dirtied. \<^const>\<open>InvocationCommitted\<close> is
  the debug build's record that the invocation has passed its commit point. \<^const>\<open>obRanges\<close> is
  the table of mounted ranges (kern_ObjectSource.c). \<^const>\<open>pmiEnd\<close> gives, for a page header, the
  end of the physical memory region it belongs to. \<^const>\<open>k_sched\<close> holds the activities and what
  the process structures keep besides keys. \<^const>\<open>k_OC\<close> and \<^const>\<open>k_RC\<close> give the numbers of the
  order and result codes; \<^const>\<open>rcv_mapped\<close> \<open>p n\<close> says that the memory in which process \<open>p\<close>
  receives \<open>n\<close> bytes is mapped. \<^const>\<open>k_clock\<close> is the time.
\<close>

definition obj_at :: "kern \<Rightarrow> obj_ptr \<Rightarrow> ObjectHeader" where
  "obj_at s p = objs s p"

definition upd_obj :: "obj_ptr \<Rightarrow> (ObjectHeader \<Rightarrow> ObjectHeader) \<Rightarrow> kern \<Rightarrow> kern" where
  "upd_obj p f s = s\<lparr>objs := (objs s)(p := f (objs s p))\<rparr>"

definition upd_key :: "kref \<Rightarrow> KeyBits \<Rightarrow> kern \<Rightarrow> kern" where
  "upd_key r k s = s\<lparr>keys := (keys s)(r := k)\<rparr>"

definition upd_ring :: "ring_id \<Rightarrow> (kref list \<Rightarrow> kref list) \<Rightarrow> kern \<Rightarrow> kern" where
  "upd_ring rid f s = s\<lparr>rings := (rings s)(rid := f (rings s rid))\<rparr>"

definition upd_inv :: "(Invocation \<Rightarrow> Invocation) \<Rightarrow> kern \<Rightarrow> kern" where
  "upd_inv f s = s\<lparr>k_inv := f (k_inv s)\<rparr>"

definition on_sched :: "(sched \<Rightarrow> sched option) \<Rightarrow> kern \<Rightarrow> kern option" where
  "on_sched f s = do { x \<leftarrow> f (k_sched s); Some (s\<lparr>k_sched := x\<rparr>) }"

lemma on_sched_Some: "on_sched f s = Some s' \<longleftrightarrow> (\<exists>x. f (k_sched s) = Some x \<and> s' = s\<lparr>k_sched := x\<rparr>)"
  by (auto simp: on_sched_def bind_eq_Some_conv)

abbreviation set_exit_code :: "RC \<Rightarrow> kern \<Rightarrow> kern" where
  "set_exit_code c s \<equiv> upd_inv (exit_code_update (\<lambda>_. c)) s"

abbreviation set_exit_w1 :: "u32 \<Rightarrow> kern \<Rightarrow> kern" where
  "set_exit_w1 w s \<equiv> upd_inv (exit_w1_update (\<lambda>_. w)) s"

abbreviation set_exit_w2 :: "u32 \<Rightarrow> kern \<Rightarrow> kern" where
  "set_exit_w2 w s \<equiv> upd_inv (exit_w2_update (\<lambda>_. w)) s"

abbreviation set_exit_w3 :: "u32 \<Rightarrow> kern \<Rightarrow> kern" where
  "set_exit_w3 w s \<equiv> upd_inv (exit_w3_update (\<lambda>_. w)) s"

lemma upd_key_simps [simp]:
  "keys (upd_key r k s) = (keys s)(r := k)" "rings (upd_key r k s) = rings s" "objs (upd_key r k s) = objs s"
  "procRoot (upd_key r k s) = procRoot s" "k_inv (upd_key r k s) = k_inv s"
  "k_akt (upd_key r k s) = k_akt s" "log_room (upd_key r k s) = log_room s" "nObjs (upd_key r k s) = nObjs s"
  "obBucket (upd_key r k s) = obBucket s"
  "maxNPCount (upd_key r k s) = maxNPCount s"
  "InvocationCommitted (upd_key r k s) = InvocationCommitted s"
  "obRanges (upd_key r k s) = obRanges s" "pmiEnd (upd_key r k s) = pmiEnd s"
  "k_sched (upd_key r k s) = k_sched s" "ReturneeSetUp (upd_key r k s) = ReturneeSetUp s"
  "k_OC (upd_key r k s) = k_OC s" "k_RC (upd_key r k s) = k_RC s" "rcv_mapped (upd_key r k s) = rcv_mapped s"
  by (simp_all add: upd_key_def)

lemma upd_obj_simps [simp]:
  "keys (upd_obj p f s) = keys s" "rings (upd_obj p f s) = rings s" "objs (upd_obj p f s) = (objs s)(p := f (objs s p))"
  "procRoot (upd_obj p f s) = procRoot s" "k_inv (upd_obj p f s) = k_inv s"
  "k_akt (upd_obj p f s) = k_akt s" "log_room (upd_obj p f s) = log_room s" "nObjs (upd_obj p f s) = nObjs s"
  "obBucket (upd_obj p f s) = obBucket s"
  "maxNPCount (upd_obj p f s) = maxNPCount s"
  "InvocationCommitted (upd_obj p f s) = InvocationCommitted s"
  "obRanges (upd_obj p f s) = obRanges s" "pmiEnd (upd_obj p f s) = pmiEnd s"
  "k_sched (upd_obj p f s) = k_sched s" "ReturneeSetUp (upd_obj p f s) = ReturneeSetUp s"
  "k_OC (upd_obj p f s) = k_OC s" "k_RC (upd_obj p f s) = k_RC s" "rcv_mapped (upd_obj p f s) = rcv_mapped s"
  by (simp_all add: upd_obj_def)

lemma upd_inv_simps [simp]:
  "keys (upd_inv f s) = keys s" "rings (upd_inv f s) = rings s" "objs (upd_inv f s) = objs s"
  "procRoot (upd_inv f s) = procRoot s" "k_inv (upd_inv f s) = f (k_inv s)"
  "k_akt (upd_inv f s) = k_akt s" "log_room (upd_inv f s) = log_room s" "nObjs (upd_inv f s) = nObjs s"
  "obBucket (upd_inv f s) = obBucket s"
  "maxNPCount (upd_inv f s) = maxNPCount s"
  "InvocationCommitted (upd_inv f s) = InvocationCommitted s"
  "obRanges (upd_inv f s) = obRanges s" "pmiEnd (upd_inv f s) = pmiEnd s"
  "k_sched (upd_inv f s) = k_sched s" "ReturneeSetUp (upd_inv f s) = ReturneeSetUp s"
  "k_OC (upd_inv f s) = k_OC s" "k_RC (upd_inv f s) = k_RC s" "rcv_mapped (upd_inv f s) = rcv_mapped s"
  by (simp_all add: upd_inv_def)

lemma upd_ring_simps [simp]:
  "rings (upd_ring rid f s) = (rings s)(rid := f (rings s rid))" "keys (upd_ring rid f s) = keys s"
  "objs (upd_ring rid f s) = objs s"
  "procRoot (upd_ring rid f s) = procRoot s" "k_inv (upd_ring rid f s) = k_inv s"
  "k_akt (upd_ring rid f s) = k_akt s" "log_room (upd_ring rid f s) = log_room s"
  "nObjs (upd_ring rid f s) = nObjs s"
  "obBucket (upd_ring rid f s) = obBucket s" "maxNPCount (upd_ring rid f s) = maxNPCount s"
  "InvocationCommitted (upd_ring rid f s) = InvocationCommitted s"
  "obRanges (upd_ring rid f s) = obRanges s" "pmiEnd (upd_ring rid f s) = pmiEnd s"
  "k_sched (upd_ring rid f s) = k_sched s" "ReturneeSetUp (upd_ring rid f s) = ReturneeSetUp s"
  "k_OC (upd_ring rid f s) = k_OC s" "k_RC (upd_ring rid f s) = k_RC s" "rcv_mapped (upd_ring rid f s) = rcv_mapped s"
  by (simp_all add: upd_ring_def)

lemma upd_key_twice [simp]: "upd_key r k (upd_key r k' s) = upd_key r k s"
  by (simp add: upd_key_def)

lemma obj_at_simps [simp]:
  "obj_at (upd_key r k s) p = obj_at s p" "obj_at (upd_inv g s) p = obj_at s p"
  "obj_at (upd_ring rid h s) p = obj_at s p" "obj_at (s\<lparr>maxNPCount := c\<rparr>) p = obj_at s p"
  "obj_at (s\<lparr>InvocationCommitted := b\<rparr>) p = obj_at s p" "obj_at (s\<lparr>k_sched := x\<rparr>) p = obj_at s p"
  "obj_at (s\<lparr>ReturneeSetUp := b\<rparr>) p = obj_at s p"
  by (simp_all add: obj_at_def)

lemma obj_at_upd_obj:
  "obj_at (upd_obj p f s) q = (if p = q then f (obj_at s p) else obj_at s q)"
  by (simp add: obj_at_def)

section \<open>Nodes\<close>

text \<open>The l2v field is the first byte of \<^verbatim>\<open>nodeData\<close> (little-endian).\<close>

definition node_GetL2vField :: "ObjectHeader \<Rightarrow> u8" where
  "node_GetL2vField ob = ucast (nodeData ob)"

definition node_SetL2vField :: "u8 \<Rightarrow> ObjectHeader \<Rightarrow> ObjectHeader" where
  "node_SetL2vField f ob = ob\<lparr>nodeData := (nodeData ob AND 0xff00) OR ucast f\<rparr>"

definition NODE_L2V_MASK :: u8 where "NODE_L2V_MASK = 0x3f"
definition NODE_BLOCKED :: u8 where "NODE_BLOCKED = 0x40"
definition NODE_KEEPER :: u8 where "NODE_KEEPER = 0x80"

lemma GetL2v_SetL2v [simp]: "node_GetL2vField (node_SetL2vField f ob) = f"
  by (auto simp: node_GetL2vField_def node_SetL2vField_def bit_eq_iff bit_simps)

lemma node_SetL2vField_fields [simp]:
  "obType (node_SetL2vField f ob) = obType ob" "obFlags (node_SetL2vField f ob) = obFlags ob"
  "obOid (node_SetL2vField f ob) = obOid ob"
  "allocCount (node_SetL2vField f ob) = allocCount ob"
  "callCount (node_SetL2vField f ob) = callCount ob"
  "prep_context (node_SetL2vField f ob) = prep_context ob"
  "pageData (node_SetL2vField f ob) = pageData ob"
  by (simp_all add: node_SetL2vField_def)

text \<open>
  \<^verbatim>\<open>objH_EnsureWritable\<close>: an object that is dirty and not kernel-read-only is writable
  already. Otherwise the object is persistent; whether the log has room for it is
  \<^const>\<open>log_room\<close>, and a kernel-read-only object is first copied aside, which can yield.
\<close>

definition objH_EnsureWritable :: "obj_ptr \<Rightarrow> kern \<Rightarrow> kern option" where
  "objH_EnsureWritable p s =
     (let ob = obj_at s p in
      if objH_GetFlags ob OFLG_DIRTY \<and> \<not> objH_GetFlags ob OFLG_KRO then Some s
      else do {
        assert_that (objH_GetFlags ob OFLG_Cleanable);
        assert_that (\<not> objH_GetFlags ob OFLG_Fetching);
        assert_that (\<not> InvocationCommitted s);
        assert_that (log_room s \<and> \<not> objH_GetFlags ob OFLG_KRO);
        Some (upd_obj p (\<lambda>ob. objH_SetFlags ob OFLG_DIRTY) s)
      })"

lemma objH_EnsureWritable_Some:
  assumes "objH_EnsureWritable p s = Some s'"
  shows "s' = s \<or> s' = upd_obj p (\<lambda>ob. objH_SetFlags ob OFLG_DIRTY) s"
  using assms by (auto simp: objH_EnsureWritable_def Let_def split: if_splits)

text \<open>
  \<^verbatim>\<open>node_ClearHazard\<close>: for a GPT the mapping entries that depend on the slot are invalidated
  and the slot loses its hazard bits. A process root's address space slot is handled the
  same way; the other slots of process nodes have their state in the process structure,
  which is not modelled.
\<close>

definition ProcAddrSpace :: nat where "ProcAddrSpace = 2"

definition node_ClearHazard :: "obj_ptr \<Rightarrow> nat \<Rightarrow> kern \<Rightarrow> kern option" where
  "node_ClearHazard p ndx s =
     (let pKey = keys s (KSlot p ndx) in
      if \<not> keyBits_IsHazard pKey then Some s
      else case obType (obj_at s p) of
          ot_NtSegment \<Rightarrow>
            (if keyBits_IsRdHazard pKey then None
             else Some (upd_key (KSlot p ndx) (keyBits_UnHazard pKey) s))
        | ot_NtProcessRoot \<Rightarrow>
            (if ndx = ProcAddrSpace
             then Some (upd_key (KSlot p ndx) (keyBits_UnHazard pKey) s)
             else None)
        | _ \<Rightarrow> None)"

fun node_ClearHazards_from :: "obj_ptr \<Rightarrow> nat list \<Rightarrow> kern \<Rightarrow> kern option" where
  "node_ClearHazards_from p [] s = Some s"
| "node_ClearHazards_from p (k # ks) s =
     do { s \<leftarrow> node_ClearHazard p k s; node_ClearHazards_from p ks s }"

definition node_ClearAllHazards :: "obj_ptr \<Rightarrow> kern \<Rightarrow> kern option" where
  "node_ClearAllHazards p s = node_ClearHazards_from p [0..<EROS_NODE_SIZE] s"

end
