(* ===== verification/Key_Ops.thy ===== *)
theory Key_Ops
  imports Kern_State
begin

text \<open>
  The operations on keys of sys/kernel/kern_Key.c: preparing a key (turning the OID and count of
  its disk form into a pointer to the in-core object, or voiding it when the count shows it was
  rescinded), unpreparing it, and copying, moving and setting keys.

  \<open>None\<close> is an operation that does not complete: an assertion fails, or the object is not in
  memory and the kernel yields until it is. Object fetch itself is not modelled, so the object
  locator is always an object header. The debug build is modelled: assertions are checked.
\<close>

section \<open>Finding objects\<close>

text \<open>
  The hash table of cached objects (kern_CoreObHash.c): the chain of a bucket is a list, the
  most recently interned object first. Lookup is for objects (type 0); pots are not looked up.
\<close>

definition KTUNE_NOBBUCKETS :: u32 where "KTUNE_NOBBUCKETS = 1024"

definition bucket_ndx :: "OID \<Rightarrow> nat" where
  "bucket_ndx oid =
     (let oid32 = ucast oid :: u32
      in unat ((drop_bit 8 oid32 XOR push_bit 9 (oid32 AND 0xff)) mod KTUNE_NOBBUCKETS))"

definition objH_Intern :: "obj_ptr \<Rightarrow> kern \<Rightarrow> kern" where
  "objH_Intern p s =
     (let ndx = bucket_ndx (obOid (obj_at s p))
      in s\<lparr>obBucket := (obBucket s)(ndx := p # obBucket s ndx)\<rparr>)"

definition objH_Unintern :: "obj_ptr \<Rightarrow> kern \<Rightarrow> kern" where
  "objH_Unintern p s =
     (let ndx = bucket_ndx (obOid (obj_at s p))
      in s\<lparr>obBucket := (obBucket s)(ndx := remove1 p (obBucket s ndx))\<rparr>)"

definition objH_Lookup :: "kern \<Rightarrow> OID \<Rightarrow> obj_ptr option" where
  "objH_Lookup s oid =
     List.find (\<lambda>p. obOid (obj_at s p) = oid \<and> ot_is_object (obType (obj_at s p)))
       (obBucket s (bucket_ndx oid))"

definition GetObjectType :: "kern \<Rightarrow> OID \<Rightarrow> (obj_ptr \<times> baseType) option" where
  "GetObjectType s oid =
     (case objH_Lookup s oid of
        Some pObj \<Rightarrow> Some (pObj, objH_GetBaseType (obj_at s pObj))
      | None \<Rightarrow> None)"

definition objH_EnsureNotFetching :: "kern \<Rightarrow> obj_ptr \<Rightarrow> unit option" where
  "objH_EnsureNotFetching s p = assert_that (\<not> objH_GetFlags (obj_at s p) OFLG_Fetching)"

definition GetObjectCount :: "kern \<Rightarrow> obj_ptr \<Rightarrow> bool \<Rightarrow> ObCount option" where
  "GetObjectCount s p cc = do {
     objH_EnsureNotFetching s p;
     Some (if cc \<and> objH_isNodeType (obj_at s p) then callCount (obj_at s p)
           else allocCount (obj_at s p)) }"

definition GetObject :: "kern \<Rightarrow> obj_ptr \<Rightarrow> obj_ptr option" where
  "GetObject s p = do { objH_EnsureNotFetching s p; Some p }"

definition CheckObjectType :: "kern \<Rightarrow> OID \<Rightarrow> baseType \<Rightarrow> (obj_ptr \<times> bool) option" where
  "CheckObjectType s oid baseType = do {
     (p, t) \<leftarrow> GetObjectType s oid;
     Some (p, t = baseType) }"

section \<open>Reading keys\<close>

text \<open>The \<^verbatim>\<open>unprep\<close> member of the union.\<close>

definition key_unprep :: "KeyBits \<Rightarrow> (OID \<times> ObCount) option" where
  "key_unprep k = (case key_u k of U_unprep oid cnt \<Rightarrow> Some (oid, cnt) | _ \<Rightarrow> None)"

definition key_pContext :: "KeyBits \<Rightarrow> proc_ptr option" where
  "key_pContext k = (case key_u k of U_gk pr \<Rightarrow> Some pr | _ \<Rightarrow> None)"

definition key_pObj :: "KeyBits \<Rightarrow> obj_ptr option" where
  "key_pObj k = (case key_u k of U_ok p \<Rightarrow> Some p | _ \<Rightarrow> None)"

definition key_GetObjectPtr :: "kern \<Rightarrow> KeyBits \<Rightarrow> obj_ptr option" where
  "key_GetObjectPtr s k = do {
     assert_that (keyBits_IsPreparedObjectKey k);
     if keyBits_IsProcessType k then do { pr \<leftarrow> key_pContext k; procRoot s pr }
     else key_pObj k }"

definition key_GetKeyOid :: "kern \<Rightarrow> KeyBits \<Rightarrow> OID option" where
  "key_GetKeyOid s k = do {
     assert_that (keyBits_IsObjectKey k);
     if keyBits_IsPreparedObjectKey k
     then do { p \<leftarrow> key_GetObjectPtr s k; Some (obOid (obj_at s p)) }
     else do { (oid, cnt) \<leftarrow> key_unprep k; Some oid } }"

definition key_GetAllocCount :: "kern \<Rightarrow> KeyBits \<Rightarrow> ObCount option" where
  "key_GetAllocCount s k = do {
     assert_that (\<not> keyBits_IsGateKey k);
     assert_that (keyBits_IsObjectKey k);
     if keyBits_IsPreparedObjectKey k
     then do { p \<leftarrow> key_GetObjectPtr s k; Some (allocCount (obj_at s p)) }
     else do { (oid, cnt) \<leftarrow> key_unprep k; Some cnt } }"

section \<open>Key rings\<close>

text \<open>The ring a key is linked on: only prepared object keys are on one.\<close>

definition key_ring :: "KeyBits \<Rightarrow> ring_id option" where
  "key_ring k =
     (if \<not> keyBits_IsPreparedObjectKey k then None
      else if keyBits_IsProcessType k then do { pr \<leftarrow> key_pContext k; Some (ProcRing pr) }
      else do { p \<leftarrow> key_pObj k; Some (ObjRing p) })"

definition keyBits_Unchain :: "kref \<Rightarrow> kern \<Rightarrow> kern" where
  "keyBits_Unchain r s =
     (case key_ring (keys s r) of
        Some rid \<Rightarrow> upd_ring rid (remove1 r) s
      | None \<Rightarrow> s)"

text \<open>
  Inserting after the head of a ring makes a key the first of the ring, inserting before the
  head makes it the last.
\<close>

definition link_insertAfter :: "ring_id \<Rightarrow> kref \<Rightarrow> kern \<Rightarrow> kern" where
  "link_insertAfter rid r s = upd_ring rid (\<lambda>xs. r # xs) s"

definition link_insertBefore :: "ring_id \<Rightarrow> kref \<Rightarrow> kern \<Rightarrow> kern" where
  "link_insertBefore rid r s = upd_ring rid (\<lambda>xs. xs @ [r]) s"

section \<open>Writing keys\<close>

definition key_NH_SetToVoid :: "kref \<Rightarrow> kern \<Rightarrow> kern" where
  "key_NH_SetToVoid r s =
     (let s = keyBits_Unchain r s in upd_key r (keyBits_InitToVoid (keys s r)) s)"

text \<open>A copy of a prepared key is linked in just before the key it is a copy of.\<close>

definition key_NH_Set :: "kref \<Rightarrow> kref \<Rightarrow> kern \<Rightarrow> kern" where
  "key_NH_Set dst kb s =
     (if kb = dst then s
      else let s = keyBits_Unchain dst s;
               s = upd_key dst
                     ((keys s kb)\<lparr>keyFlags := keyFlags (keys s kb) AND NOT KFL_HAZARD_BITS\<rparr>) s
           in case key_ring (keys s dst) of
                Some rid \<Rightarrow> upd_ring rid (insert_before dst kb) s
              | None \<Rightarrow> s)"

definition key_NH_Move :: "kref \<Rightarrow> kref \<Rightarrow> kern \<Rightarrow> kern option" where
  "key_NH_Move to from s = do {
     assert_that (\<not> keyBits_IsHazard (keys s to));
     assert_that (\<not> keyBits_IsHazard (keys s from));
     assert_that (\<not> keyBits_IsPrepared (keys s to));
     let s = upd_key to (keys s from) s;
     let s = (case key_ring (keys s from) of
                Some rid \<Rightarrow> upd_ring rid (list_replace from to) s
              | None \<Rightarrow> s);
     Some (upd_key from (keyBits_InitToVoid (keys s from)) s) }"

definition key_SetToObj :: "kref \<Rightarrow> obj_ptr \<Rightarrow> kkt \<Rightarrow> 5 word \<Rightarrow> u16 \<Rightarrow> kern \<Rightarrow> kern option" where
  "key_SetToObj r pObj kkt perms dat s = do {
     assert_that (\<not> keyBits_IsHazard (keys s r));
     let k = keyBits_InitType (keys s r) kkt;
     let k = k\<lparr>key_u := U_ok pObj, keyData := dat, keyPerms := perms\<rparr>;
     let s = link_insertAfter (ObjRing pObj) r s;
     Some (upd_key r (keyBits_SetPrepared k) s) }"

definition key_SetToProcess :: "kref \<Rightarrow> proc_ptr \<Rightarrow> kkt \<Rightarrow> u16 \<Rightarrow> kern \<Rightarrow> kern" where
  "key_SetToProcess r p kkt dat s =
     (let k = keyBits_InitType (keys s r) kkt;
          k = k\<lparr>keyData := dat, keyPerms := 0, key_u := U_gk p\<rparr>;
          s = link_insertAfter (ProcRing p) r s
      in upd_key r (keyBits_SetPrepared k) s)"

definition key_SetToNumber :: "kref \<Rightarrow> u32 \<Rightarrow> u32 \<Rightarrow> u32 \<Rightarrow> kern \<Rightarrow> kern" where
  "key_SetToNumber r hi mid lo s =
     (let s = keyBits_Unchain r s;
          k = keyBits_InitType (keys s r) KKT_Number;
          k = keyBits_SetUnprepared k;
          k = keyBits_SetReadOnly k
      in upd_key r (k\<lparr>key_u := U_nk lo mid hi\<rparr>) s)"

text \<open>
  Register moves of the current process \<open>p\<close>; register 0 (\<^verbatim>\<open>KR_VOID\<close>) is never written.
  The local key \<^verbatim>\<open>tmp\<close> of the exchange is \<^const>\<open>KTmp\<close>, void when it comes into scope and
  unchained and voided when it goes out of scope.
\<close>

definition copy_key :: "proc_ptr \<Rightarrow> nat \<Rightarrow> nat \<Rightarrow> kern \<Rightarrow> kern" where
  "copy_key p fromSlot toSlot s =
     (if toSlot \<noteq> 0 then key_NH_Set (KReg p toSlot) (KReg p fromSlot) s else s)"

definition xchg_key :: "proc_ptr \<Rightarrow> nat \<Rightarrow> nat \<Rightarrow> kern \<Rightarrow> kern" where
  "xchg_key p slot0 slot1 s =
     (if slot0 = 0 then copy_key p slot0 slot1 s
      else let key0 = KReg p slot0;
               s = key_NH_SetToVoid KTmp s;
               s = key_NH_Set KTmp key0 s;
               key1 = KReg p slot1;
               s = key_NH_Set key0 key1 s;
               s = (if slot1 \<noteq> 0 then key_NH_Set key1 KTmp s else s)
           in key_NH_SetToVoid KTmp s)"

section \<open>Preparing\<close>

text \<open>
  \<^verbatim>\<open>node_GetProcess\<close> for a node that is already prepared as a process root. A node that is
  not needs a free process structure first (kern_Process.c), which is not modelled.
\<close>

definition node_GetProcess :: "kern \<Rightarrow> obj_ptr \<Rightarrow> proc_ptr option" where
  "node_GetProcess s p =
     (if obType (obj_at s p) = ot_NtProcessRoot then Some (prep_context (obj_at s p)) else None)"

definition PrepareKeyToProcess :: "kref \<Rightarrow> proc_ptr \<Rightarrow> kern \<Rightarrow> kern" where
  "PrepareKeyToProcess r pr s =
     (let k = (keys s r)\<lparr>key_u := U_gk pr\<rparr>;
          s = (if keyBits_IsType k KKT_Resume then link_insertBefore (ProcRing pr) r s
               else link_insertAfter (ProcRing pr) r s)
      in upd_key r (keyBits_SetPrepared k) s)"

text \<open>Returns whether the key is rescinded.\<close>

definition CheckTypeAndAllocCount :: "kref \<Rightarrow> baseType \<Rightarrow> kern \<Rightarrow> (bool \<times> kern) option" where
  "CheckTypeAndAllocCount r baseType s = do {
     (oid, cnt) \<leftarrow> key_unprep (keys s r);
     (pObj, typeOk) \<leftarrow> CheckObjectType s oid baseType;
     if \<not> typeOk then Some (True, s)
     else do {
       count \<leftarrow> GetObjectCount s pObj False;
       if count \<noteq> cnt then Some (True, s)
       else if \<not> objH_GetFlags (obj_at s pObj) OFLG_Fetching
       then Some (False, upd_key r (keyBits_SetPrepared ((keys s r)\<lparr>key_u := U_ok pObj\<rparr>))
                    (link_insertAfter (ObjRing pObj) r s))
       else Some (False, s) } }"

text \<open>The common part of validating and preparing a key to a process.\<close>

definition CheckProcessKey :: "kref \<Rightarrow> kern \<Rightarrow> (bool \<times> kern) option" where
  "CheckProcessKey r s = do {
     (oid, cnt) \<leftarrow> key_unprep (keys s r);
     (pObj, typeOk) \<leftarrow> CheckObjectType s oid otNode;
     if \<not> typeOk then Some (True, s)
     else do {
       countToCompare \<leftarrow> GetObjectCount s pObj (keyBits_IsType (keys s r) KKT_Resume);
       if countToCompare \<noteq> cnt then Some (True, s)
       else do {
         pr \<leftarrow> node_GetProcess s pObj;
         Some (False, PrepareKeyToProcess r pr s) } } }"

definition key_DoValidate :: "kref \<Rightarrow> kern \<Rightarrow> (bool \<times> kern) option" where
  "key_DoValidate r s = do {
     assert_that (\<not> keyBits_IsPrepared (keys s r));
     (rescinded, s) \<leftarrow>
       (case keyType (keys s r) of
          KKT_Resume \<Rightarrow> CheckProcessKey r s
        | KKT_Start \<Rightarrow> CheckProcessKey r s
        | KKT_Process \<Rightarrow> CheckProcessKey r s
        | KKT_Page \<Rightarrow> CheckTypeAndAllocCount r otPage s
        | KKT_Node \<Rightarrow> CheckTypeAndAllocCount r otNode s
        | KKT_Forwarder \<Rightarrow> CheckTypeAndAllocCount r otNode s
        | KKT_GPT \<Rightarrow> CheckTypeAndAllocCount r otNode s
        | _ \<Rightarrow> Some (False, s));
     if rescinded then do {
       assert_that (\<not> keyBits_IsHazard (keys s r));
       Some (True, key_NH_SetToVoid r s) }
     else Some (False, s) }"

definition DoGetObject :: "kref \<Rightarrow> baseType \<Rightarrow> kern \<Rightarrow> (obj_ptr option \<times> kern) option" where
  "DoGetObject r baseType s = do {
     (oid, cnt) \<leftarrow> key_unprep (keys s r);
     (pObj, typeOk) \<leftarrow> CheckObjectType s oid baseType;
     if \<not> typeOk then Some (None, s)
     else do {
       count \<leftarrow> GetObjectCount s pObj False;
       if count \<noteq> cnt then Some (None, s)
       else do {
         pObj \<leftarrow> GetObject s pObj;
         Some (Some pObj, upd_key r ((keys s r)\<lparr>key_u := U_ok pObj\<rparr>)
                 (link_insertAfter (ObjRing pObj) r s)) } } }"

text \<open>
  \<^verbatim>\<open>key_DoPrepare\<close>: the last part of the source (after the switch) is
  \<open>DoPrepare_finish\<close>, which voids the key when no object was found.
\<close>

definition DoPrepare_finish :: "kref \<Rightarrow> obj_ptr option \<times> kern \<Rightarrow> (bool \<times> kern) option" where
  "DoPrepare_finish r = (\<lambda>(pObj, s).
     if pObj = None then do {
       assert_that (\<not> keyBits_IsHazard (keys s r));
       assert_that (\<not> keyBits_IsPrepared (keys s r));
       let s = key_NH_SetToVoid r s;
       Some (True, upd_key r (keyBits_SetPrepared (keys s r)) s) }
     else Some (False, upd_key r (keyBits_SetPrepared (keys s r)) s))"

definition DoPrepare_process :: "kref \<Rightarrow> kern \<Rightarrow> (bool \<times> kern) option" where
  "DoPrepare_process r s = do {
     (rescinded, s) \<leftarrow> CheckProcessKey r s;
     if rescinded then DoPrepare_finish r (None, s) else Some (False, s) }"

definition DoPrepare_object :: "kref \<Rightarrow> baseType \<Rightarrow> kern \<Rightarrow> (bool \<times> kern) option" where
  "DoPrepare_object r baseType s = do {
     res \<leftarrow> DoGetObject r baseType s;
     DoPrepare_finish r res }"

definition key_DoPrepare :: "kref \<Rightarrow> kern \<Rightarrow> (bool \<times> kern) option" where
  "key_DoPrepare r s = do {
     assert_that (\<not> keyBits_IsPrepared (keys s r));
     case keyType (keys s r) of
        KKT_Resume \<Rightarrow> DoPrepare_process r s
      | KKT_Start \<Rightarrow> DoPrepare_process r s
      | KKT_Process \<Rightarrow> DoPrepare_process r s
      | KKT_Page \<Rightarrow> DoPrepare_object r otPage s
      | KKT_Node \<Rightarrow> DoPrepare_object r otNode s
      | KKT_Forwarder \<Rightarrow> DoPrepare_object r otNode s
      | KKT_GPT \<Rightarrow> DoPrepare_object r otNode s
      | _ \<Rightarrow> Some (False, upd_key r (keyBits_SetPrepared (keys s r)) s) }"

text \<open>\<^verbatim>\<open>key_Prepare\<close>, \<^verbatim>\<open>key_PrepareForInv\<close> and \<^verbatim>\<open>key_ValidateForInv\<close> of Key-inline.h.\<close>

definition key_Prepare :: "kref \<Rightarrow> kern \<Rightarrow> kern option" where
  "key_Prepare r s = do {
     assert_that (\<not> InvocationCommitted s);
     if \<not> keyBits_IsPrepared (keys s r)
     then do { (_, s) \<leftarrow> key_DoPrepare r s; Some s } else Some s }"

definition key_PrepareForInv :: "kref \<Rightarrow> kern \<Rightarrow> (bool \<times> kern) option" where
  "key_PrepareForInv r s = do {
     assert_that (\<not> InvocationCommitted s);
     if \<not> keyBits_IsPrepared (keys s r) then key_DoPrepare r s else Some (False, s) }"

definition key_ValidateForInv :: "kref \<Rightarrow> kern \<Rightarrow> (bool \<times> kern) option" where
  "key_ValidateForInv r s = do {
     assert_that (\<not> InvocationCommitted s);
     if \<not> keyBits_IsPrepared (keys s r) then key_DoValidate r s else Some (False, s) }"

section \<open>Unpreparing\<close>

text \<open>
  The object and count an unprepared form records, and the object with the flag that says a
  key with that count exists.
\<close>

definition unprepared_form :: "kern \<Rightarrow> KeyBits \<Rightarrow> (obj_ptr \<times> ObCount \<times> u8) option" where
  "unprepared_form s k =
     (if keyBits_IsProcessType k then do {
        pr \<leftarrow> key_pContext k;
        pObj \<leftarrow> procRoot s pr;
        if keyBits_IsType k KKT_Resume
        then Some (pObj, callCount (obj_at s pObj), OFLG_CallCntUsed)
        else Some (pObj, allocCount (obj_at s pObj), OFLG_AllocCntUsed) }
      else do {
        pObj \<leftarrow> key_pObj k;
        Some (pObj, allocCount (obj_at s pObj), OFLG_AllocCntUsed) })"

definition key_MakeUnpreparedCopy :: "kref \<Rightarrow> kref \<Rightarrow> kern \<Rightarrow> kern option" where
  "key_MakeUnpreparedCopy dst src s =
     (let k = keys s src;
          d = k\<lparr>keyFlags := keyFlags k AND NOT (KFL_HAZARD_BITS OR KFL_PREPARED)\<rparr>
      in if \<not> keyBits_IsObjectKey k \<or> \<not> keyBits_IsPrepared k then Some (upd_key dst d s)
         else do {
           (pObj, cnt, flg) \<leftarrow> unprepared_form s k;
           let s = upd_obj pObj (\<lambda>ob. objH_SetFlags ob flg) s;
           Some (upd_key dst (d\<lparr>key_u := U_unprep (obOid (obj_at s pObj)) cnt\<rparr>) s) })"

definition key_NH_Unprepare :: "kref \<Rightarrow> kern \<Rightarrow> kern option" where
  "key_NH_Unprepare r s = do {
     assert_that (\<not> keyBits_IsHazard (keys s r));
     if \<not> keyBits_IsPrepared (keys s r) then Some s
     else if keyBits_IsObjectKey (keys s r) then do {
       (pObj, cnt, flg) \<leftarrow> unprepared_form s (keys s r);
       let s = upd_obj pObj (\<lambda>ob. objH_SetFlags ob flg) s;
       let s = keyBits_Unchain r s;
       let k = (keys s r)\<lparr>key_u := U_unprep (obOid (obj_at s pObj)) cnt\<rparr>;
       Some (upd_key r (keyBits_SetUnprepared k) s) }
     else Some (upd_key r (keyBits_SetUnprepared (keys s r)) s) }"

end
