(* ===== verification/Key_Ring.thy ===== *)
theory Key_Ring
  imports Key_Ops
begin

text \<open>
  Key rings: the flag bits of keys, and the invariant that the ring of an object (or of a process
  structure) holds exactly the prepared keys that point to it, each once, with the resume keys of
  a process after all its other keys (sys/kernel/kern_Key.c, sys/kernel/kern_KeyRing.c).
\<close>

section \<open>Flag bits\<close>

lemma and_bit_iff:
  "(w AND 4 \<noteq> 0) = bit (w :: 3 word) 2" "(w AND 2 \<noteq> 0) = bit w (Suc 0)"
  "(w AND 1 \<noteq> 0) = bit w 0"
  using and_exp_eq_0_iff_not_bit [of w 2] and_exp_eq_0_iff_not_bit [of w 1]
    and_exp_eq_0_iff_not_bit [of w 0] by simp_all

lemma and_hazard_iff: "(w AND 3 \<noteq> 0) = (bit (w :: 3 word) 0 \<or> bit w (Suc 0))"
proof -
  have "(3 :: 3 word) = mask 2" by (simp add: mask_eq_exp_minus_1)
  then show ?thesis using and_mask_eq_0_iff [of w 2]
    by (simp add: numeral_2_eq_2 less_Suc_eq) blast
qed

lemma key_flag_bits:
  "keyBits_IsPrepared k = bit (keyFlags k) 2"
  "keyBits_IsRdHazard k = bit (keyFlags k) (Suc 0)"
  "keyBits_IsWrHazard k = bit (keyFlags k) 0"
  "keyBits_IsHazard k = (bit (keyFlags k) 0 \<or> bit (keyFlags k) (Suc 0))"
  by (simp_all add: keyBits_IsPrepared_def keyBits_IsRdHazard_def keyBits_IsWrHazard_def
      keyBits_IsHazard_def KFL_PREPARED_def KFL_RHAZARD_def KFL_WHAZARD_def
      KFL_HAZARD_BITS_def and_bit_iff and_hazard_iff)

lemma Prepared_SetPrepared [simp]: "keyBits_IsPrepared (keyBits_SetPrepared k)"
  by (simp add: key_flag_bits keyBits_SetPrepared_def KFL_PREPARED_def bit_or_iff)

lemma Prepared_SetUnprepared [simp]: "\<not> keyBits_IsPrepared (keyBits_SetUnprepared k)"
  by (simp add: key_flag_bits keyBits_SetUnprepared_def KFL_PREPARED_def bit_simps)

lemma Prepared_InitType [simp]: "\<not> keyBits_IsPrepared (keyBits_InitType k t)"
  by (simp add: key_flag_bits keyBits_InitType_def)

lemma Prepared_InitToVoid [simp]: "\<not> keyBits_IsPrepared (keyBits_InitToVoid k)"
  by (simp add: key_flag_bits keyBits_InitToVoid_def keyBits_InitType_def)

lemma Hazard_InitToVoid [simp]: "\<not> keyBits_IsHazard (keyBits_InitToVoid k)"
  by (simp add: key_flag_bits keyBits_InitToVoid_def keyBits_InitType_def)

text \<open>A key without its hazard bits, as \<^const>\<open>key_NH_Set\<close> copies it.\<close>

definition unhazarded :: "KeyBits \<Rightarrow> KeyBits" where
  "unhazarded k = k\<lparr>keyFlags := keyFlags k AND NOT KFL_HAZARD_BITS\<rparr>"

lemma unhazarded_fields [simp]:
  "keyType (unhazarded k) = keyType k" "keyPerms (unhazarded k) = keyPerms k"
  "keyData (unhazarded k) = keyData k" "key_u (unhazarded k) = key_u k"
  by (simp_all add: unhazarded_def)

lemma unhazarded_flags [simp]:
  "keyBits_IsPrepared (unhazarded k) = keyBits_IsPrepared k" "\<not> keyBits_IsHazard (unhazarded k)"
  "\<not> keyBits_IsRdHazard (unhazarded k)" "\<not> keyBits_IsWrHazard (unhazarded k)"
  by (simp_all add: key_flag_bits unhazarded_def KFL_HAZARD_BITS_def bit_simps)

lemma unhazarded_id: "\<not> keyBits_IsHazard k \<Longrightarrow> unhazarded k = k"
proof -
  assume "\<not> keyBits_IsHazard k"
  then have "\<not> bit (keyFlags k) n" if "n < 2" for n
    using that by (auto simp: key_flag_bits less_Suc_eq numeral_2_eq_2)
  then have "keyFlags k AND NOT (mask 2) = keyFlags k"
    by (intro bit_word_eqI) (auto simp: bit_and_iff bit_not_iff bit_mask_iff)
  moreover have "(3 :: 3 word) = mask 2" by (simp add: mask_eq_exp_minus_1)
  ultimately show ?thesis by (simp add: unhazarded_def KFL_HAZARD_BITS_def)
qed

lemma unhazarded_idem [simp]: "unhazarded (unhazarded k) = unhazarded k"
  by (simp add: unhazarded_id)

lemma UnHazard_unhazarded: "keyBits_UnHazard k = unhazarded k"
  by (simp add: keyBits_UnHazard_def unhazarded_def)

section \<open>Key kinds\<close>

lemma key_kinds:
  "keyBits_IsGateKey k = (keyType k \<in> {KKT_Start, KKT_Resume})"
  "keyBits_IsProcessType k = (keyType k \<in> {KKT_Start, KKT_Resume, KKT_Process})"
  "keyBits_IsObjectKey k = (keyType k \<in> {KKT_Start, KKT_Resume, KKT_Process, KKT_Forwarder,
     KKT_Node, KKT_GPT, KKT_Page})"
  by (cases "keyType k"; simp add: keyBits_IsGateKey_def keyBits_IsProcessType_def
      keyBits_IsObjectKey_def less_eq_kkt_def)+

lemma kinds_simps [simp]:
  "keyBits_IsObjectKey (keyBits_SetPrepared k) = keyBits_IsObjectKey k"
  "keyBits_IsObjectKey (keyBits_SetUnprepared k) = keyBits_IsObjectKey k"
  "keyBits_IsObjectKey (unhazarded k) = keyBits_IsObjectKey k"
  "keyBits_IsObjectKey (k\<lparr>key_u := u\<rparr>) = keyBits_IsObjectKey k"
  "keyBits_IsObjectKey (k\<lparr>keyPerms := w\<rparr>) = keyBits_IsObjectKey k"
  "keyBits_IsObjectKey (k\<lparr>keyData := d\<rparr>) = keyBits_IsObjectKey k"
  "keyBits_IsProcessType (keyBits_SetPrepared k) = keyBits_IsProcessType k"
  "keyBits_IsProcessType (keyBits_SetUnprepared k) = keyBits_IsProcessType k"
  "keyBits_IsProcessType (unhazarded k) = keyBits_IsProcessType k"
  "keyBits_IsProcessType (k\<lparr>key_u := u\<rparr>) = keyBits_IsProcessType k"
  "keyBits_IsProcessType (k\<lparr>keyPerms := w\<rparr>) = keyBits_IsProcessType k"
  "keyBits_IsProcessType (k\<lparr>keyData := d\<rparr>) = keyBits_IsProcessType k"
  "keyBits_IsPrepared (k\<lparr>key_u := u\<rparr>) = keyBits_IsPrepared k"
  "keyBits_IsPrepared (k\<lparr>keyPerms := w\<rparr>) = keyBits_IsPrepared k"
  "keyBits_IsPrepared (k\<lparr>keyData := d\<rparr>) = keyBits_IsPrepared k"
  by (simp_all add: keyBits_IsObjectKey_def keyBits_IsProcessType_def keyBits_SetPrepared_def
      keyBits_SetUnprepared_def unhazarded_def keyBits_IsPrepared_def)

section \<open>The ring invariant\<close>

definition is_resume :: "KeyBits \<Rightarrow> bool" where
  "is_resume k = (keyType k = KKT_Resume)"

definition res_flags :: "(kref \<Rightarrow> KeyBits) \<Rightarrow> kref list \<Rightarrow> bool list" where
  "res_flags K xs = map (\<lambda>r. is_resume (K r)) xs"

definition ring_ok :: "(kref \<Rightarrow> KeyBits) \<Rightarrow> (ring_id \<Rightarrow> kref list) \<Rightarrow> bool" where
  "ring_ok K R =
     (\<forall>rid. distinct (R rid) \<and> (\<forall>r. r \<in> set (R rid) \<longleftrightarrow> key_ring (K r) = Some rid)
        \<and> sorted (res_flags K (R rid)))"

lemma ring_okD:
  assumes "ring_ok K R"
  shows "distinct (R rid)" "r \<in> set (R rid) \<longleftrightarrow> key_ring (K r) = Some rid"
    "sorted (res_flags K (R rid))"
  using assms by (auto simp: ring_ok_def)

lemma res_flags_simps [simp]:
  "r \<notin> set xs \<Longrightarrow> res_flags (K(r := k)) xs = res_flags K xs"
  "res_flags K [] = []" "res_flags K (x # xs) = is_resume (K x) # res_flags K xs"
  "res_flags K (xs @ ys) = res_flags K xs @ res_flags K ys"
  "sorted (res_flags K xs) \<Longrightarrow> sorted (res_flags K (remove1 x xs))"
  by (auto simp: res_flags_def sorted_remove1_map)

text \<open>Taking a key off its ring, and giving it a value that is on none.\<close>

definition unchain :: "kref \<Rightarrow> KeyBits \<Rightarrow> (ring_id \<Rightarrow> kref list) \<Rightarrow> ring_id \<Rightarrow> kref list" where
  "unchain r k R = (case key_ring k of Some rid \<Rightarrow> R(rid := remove1 r (R rid)) | None \<Rightarrow> R)"

lemma keyBits_Unchain_simps [simp]:
  "rings (keyBits_Unchain r s) = unchain r (keys s r) (rings s)"
  "keys (keyBits_Unchain r s) = keys s" "objs (keyBits_Unchain r s) = objs s"
  "nObjs (keyBits_Unchain r s) = nObjs s" "obBucket (keyBits_Unchain r s) = obBucket s" "procRoot (keyBits_Unchain r s) = procRoot s"
  "k_inv (keyBits_Unchain r s) = k_inv s" "k_akt (keyBits_Unchain r s) = k_akt s"
  "log_room (keyBits_Unchain r s) = log_room s" "maxNPCount (keyBits_Unchain r s) = maxNPCount s"
  "InvocationCommitted (keyBits_Unchain r s) = InvocationCommitted s"
  "k_sched (keyBits_Unchain r s) = k_sched s" "ReturneeSetUp (keyBits_Unchain r s) = ReturneeSetUp s"
  "obRanges (keyBits_Unchain r s) = obRanges s" "pmiEnd (keyBits_Unchain r s) = pmiEnd s"
  "obj_at (keyBits_Unchain r s) p = obj_at s p"
  by (auto simp: keyBits_Unchain_def unchain_def obj_at_def split: option.splits)

lemma unchain_ok:
  assumes "ring_ok K R" "key_ring k = None"
  shows "ring_ok (K(r := k)) (unchain r (K r) R)"
proof (cases "key_ring (K r)")
  case None
  then have "r \<notin> set (R rid)" for rid using ring_okD(2) [OF assms(1)] by simp
  then show ?thesis
    using assms None unfolding ring_ok_def unchain_def
    by auto
next
  case (Some rid0)
  then have off: "r \<notin> set (R rid)" if "rid \<noteq> rid0" for rid
    using ring_okD(2) [OF assms(1)] that by auto
  have out: "r \<notin> set (remove1 r (R rid0))" using ring_okD(1) [OF assms(1)] by simp
  show ?thesis
    unfolding ring_ok_def
  proof (intro allI)
    fix rid
    show "distinct (unchain r (K r) R rid)
      \<and> (\<forall>r'. r' \<in> set (unchain r (K r) R rid) \<longleftrightarrow> key_ring ((K(r := k)) r') = Some rid)
      \<and> sorted (res_flags (K(r := k)) (unchain r (K r) R rid))"
    proof (cases "rid = rid0")
      case True
      with Some out assms(2) ring_okD [OF assms(1), where rid = rid0] show ?thesis
        by (auto simp: unchain_def)
    next
      case False
      with Some off [OF False] assms(2) ring_okD [OF assms(1), where rid = rid] show ?thesis
        by (auto simp: unchain_def)
    qed
  qed
qed

text \<open>Linking a key that was on no ring into a ring.\<close>

lemma chain_ok:
  assumes "ring_ok K R" "key_ring (K r) = None" "key_ring k = Some rid"
    and "distinct xs" "set xs = insert r (set (R rid))"
    and "sorted (res_flags (K(r := k)) xs)"
  shows "ring_ok (K(r := k)) (R(rid := xs))"
proof -
  have off: "r \<notin> set (R rid')" for rid' using ring_okD(2) [OF assms(1)] assms(2) by simp
  show ?thesis
    unfolding ring_ok_def
  proof (intro allI)
    fix rid'
    show "distinct ((R(rid := xs)) rid')
      \<and> (\<forall>r'. r' \<in> set ((R(rid := xs)) rid') \<longleftrightarrow> key_ring ((K(r := k)) r') = Some rid')
      \<and> sorted (res_flags (K(r := k)) ((R(rid := xs)) rid'))"
    proof (cases "rid' = rid")
      case True
      with assms ring_okD(2) [OF assms(1), of _ rid] show ?thesis by auto
    next
      case False
      with assms off ring_okD [OF assms(1), where rid = rid'] show ?thesis
        by auto
    qed
  qed
qed

lemma chain_first_ok:
  assumes "ring_ok K R" "key_ring (K r) = None" "key_ring k = Some rid" "\<not> is_resume k"
  shows "ring_ok (K(r := k)) (R(rid := r # R rid))"
  using assms ring_okD [OF assms(1)]
  by (intro chain_ok) auto

lemma chain_last_ok:
  assumes "ring_ok K R" "key_ring (K r) = None" "key_ring k = Some rid" "is_resume k"
  shows "ring_ok (K(r := k)) (R(rid := R rid @ [r]))"
  using assms ring_okD [OF assms(1)]
  by (intro chain_ok) (auto simp: sorted_append)

lemma chain_before_ok:
  assumes "ring_ok K R" "key_ring (K r) = None" "key_ring k = Some rid" "r \<noteq> kb"
    and "key_ring (K kb) = Some rid" "is_resume k = is_resume (K kb)"
  shows "ring_ok (K(r := k)) (R(rid := insert_before r kb (R rid)))"
proof -
  have off: "r \<notin> set (R rid)" using ring_okD(2) [OF assms(1)] assms(2) by simp
  have on: "kb \<in> set (R rid)" using ring_okD(2) [OF assms(1)] assms(5) by simp
  have "sorted (res_flags (K(r := k)) (R rid))"
    using off ring_okD(3) [OF assms(1)] by simp
  then have "sorted (res_flags (K(r := k)) (insert_before r kb (R rid)))"
    using assms on unfolding res_flags_def by (intro sorted_insert_before) auto
  with assms off on ring_okD(1) [OF assms(1)] show ?thesis by (intro chain_ok) auto
qed

lemma same_ring_ok:
  assumes "ring_ok K R" "key_ring k = key_ring (K r)"
    and "key_ring k \<noteq> None \<Longrightarrow> is_resume k = is_resume (K r)"
  shows "ring_ok (K(r := k)) R"
proof -
  have "res_flags (K(r := k)) (R rid) = res_flags K (R rid)" for rid
    using assms ring_okD(2) [OF assms(1)] by (auto simp: res_flags_def)
  with assms show ?thesis unfolding ring_ok_def by auto
qed

lemma key_ring_unhazarded [simp]: "key_ring (unhazarded k) = key_ring k"
  and key_ring_void [simp]: "key_ring (keyBits_InitToVoid k) = None"
  and key_ring_unprepared [simp]: "key_ring (keyBits_SetUnprepared k) = None"
  and is_resume_unhazarded [simp]: "is_resume (unhazarded k) = is_resume k"
  by (simp_all add: key_ring_def keyBits_IsPreparedObjectKey_def key_kinds key_pContext_def
      key_pObj_def is_resume_def)

lemma key_ring_not_object: "\<not> keyBits_IsObjectKey k \<Longrightarrow> key_ring k = None"
  and key_ring_not_prepared: "\<not> keyBits_IsPrepared k \<Longrightarrow> key_ring k = None"
  by (simp_all add: key_ring_def keyBits_IsPreparedObjectKey_def)

end
