(* ===== verification/Key_Inv.thy ===== *)
theory Key_Inv
  imports Key_Ring
begin

text \<open>
  What a key designates, the invariant that key operations keep, and the correctness of
  preparing and unpreparing keys.
\<close>

definition base_of :: "kkt \<Rightarrow> baseType" where
  "base_of t = (if t = KKT_Page then otPage else otNode)"

section \<open>What a key designates\<close>

text \<open>
  A prepared key designates the object it points to. An unprepared key designates the object
  whose OID it holds, provided the object has the right type and its count (the call count
  for a resume key, the allocation count otherwise) is the one in the key.
\<close>

definition is_obj :: "kern \<Rightarrow> obj_ptr \<Rightarrow> bool" where
  "is_obj s p = (p < nObjs s \<and> ot_is_object (obType (obj_at s p)))"

lemma is_obj_simps [simp]:
  "is_obj (upd_key r k s) p = is_obj s p" "is_obj (upd_inv g s) p = is_obj s p"
  "is_obj (upd_ring rid h s) p = is_obj s p" "is_obj (keyBits_Unchain r s) p = is_obj s p"
  by (simp_all add: is_obj_def)

definition count_for :: "KeyBits \<Rightarrow> ObjectHeader \<Rightarrow> ObCount" where
  "count_for k ob = (if keyType k = KKT_Resume then callCount ob else allocCount ob)"

lemma count_for_simps [simp]:
  "count_for (keyBits_SetUnprepared k) = count_for k" "count_for (keyBits_SetPrepared k) = count_for k"
  "count_for (k\<lparr>key_u := u\<rparr>) = count_for k"
  by (simp_all add: count_for_def fun_eq_iff keyBits_SetUnprepared_def keyBits_SetPrepared_def)

definition used_for :: "KeyBits \<Rightarrow> u8" where
  "used_for k = (if keyType k = KKT_Resume then OFLG_CallCntUsed else OFLG_AllocCntUsed)"

definition denotes :: "kern \<Rightarrow> KeyBits \<Rightarrow> obj_ptr \<Rightarrow> bool" where
  "denotes s k p =
     (keyBits_IsObjectKey k \<and> is_obj s p \<and>
      (if keyBits_IsPrepared k then key_GetObjectPtr s k = Some p
       else key_u k = U_unprep (obOid (obj_at s p)) (count_for k (obj_at s p))
          \<and> objH_GetBaseType (obj_at s p) = base_of (keyType k)))"

section \<open>The invariant\<close>

text \<open>
  OIDs of cached objects are distinct, and each is in the hash chain of its OID. A key's union member agrees with its type and
  prepared bit, and a prepared key points to a cached object of its type. An unprepared key
  never holds a count above the object's, and if it holds the object's current count, the
  object is flagged (\<^verbatim>\<open>OFLG_AllocCntUsed\<close>, \<^verbatim>\<open>OFLG_CallCntUsed\<close>).
\<close>

definition wf_objs :: "kern \<Rightarrow> bool" where
  "wf_objs s =
     ((\<forall>p q. is_obj s p \<and> is_obj s q \<and> obOid (obj_at s p) = obOid (obj_at s q) \<longrightarrow> p = q)
      \<and> (\<forall>p. is_obj s p \<longrightarrow> p \<in> set (obBucket s (bucket_ndx (obOid (obj_at s p)))))
      \<and> (\<forall>b p. p \<in> set (obBucket s b) \<longrightarrow> p < nObjs s))"

definition wf_key :: "kern \<Rightarrow> KeyBits \<Rightarrow> bool" where
  "wf_key s k =
     (keyBits_IsObjectKey k \<longrightarrow>
      (if keyBits_IsPrepared k then
         (if keyBits_IsProcessType k then
            (\<exists>pr p. key_u k = U_gk pr \<and> procRoot s pr = Some p \<and> is_obj s p
               \<and> obType (obj_at s p) = ot_NtProcessRoot \<and> prep_context (obj_at s p) = pr)
          else (\<exists>p. key_u k = U_ok p \<and> is_obj s p
               \<and> objH_GetBaseType (obj_at s p) = base_of (keyType k)))
       else (\<exists>oid c. key_u k = U_unprep oid c)))"

definition cnt_ok :: "kern \<Rightarrow> KeyBits \<Rightarrow> bool" where
  "cnt_ok s k =
     (\<forall>p c. keyBits_IsObjectKey k \<and> \<not> keyBits_IsPrepared k \<and> is_obj s p
        \<and> key_u k = U_unprep (obOid (obj_at s p)) c
        \<and> objH_GetBaseType (obj_at s p) = base_of (keyType k) \<longrightarrow>
        c \<le> count_for k (obj_at s p)
        \<and> (c = count_for k (obj_at s p) \<longrightarrow> objH_GetFlags (obj_at s p) (used_for k)))"

text \<open>A process root and the process structure loaded from it point to each other.\<close>

definition wf_procs :: "kern \<Rightarrow> bool" where
  "wf_procs s =
     (\<forall>p. is_obj s p \<and> obType (obj_at s p) = ot_NtProcessRoot \<longrightarrow>
        procRoot s (prep_context (obj_at s p)) = Some p)"

definition kern_inv :: "kern \<Rightarrow> bool" where
  "kern_inv s =
     (wf_objs s \<and> wf_procs s \<and> ring_ok (keys s) (rings s) \<and> (\<forall>r. wf_key s (keys s r) \<and> cnt_ok s (keys s r)))"

lemma kern_inv_wf_key: "kern_inv s \<Longrightarrow> wf_key s (keys s r)"
  and kern_inv_cnt_ok: "kern_inv s \<Longrightarrow> cnt_ok s (keys s r)"
  and kern_inv_wf_objs: "kern_inv s \<Longrightarrow> wf_objs s"
  and kern_inv_wf_procs: "kern_inv s \<Longrightarrow> wf_procs s"
  and kern_inv_ring: "kern_inv s \<Longrightarrow> ring_ok (keys s) (rings s)"
  by (simp_all add: kern_inv_def)

text \<open>The invariant depends on the objects, the processes and the keys only.\<close>

lemma denotes_cong:
  "objs s = objs s' \<Longrightarrow> nObjs s = nObjs s' \<Longrightarrow> procRoot s = procRoot s' \<Longrightarrow> denotes s k p = denotes s' k p"
  by (simp add: denotes_def is_obj_def obj_at_def key_GetObjectPtr_def)

lemma key_props_cong:
  assumes "objs s = objs s'" "nObjs s = nObjs s'" "obBucket s = obBucket s'"
    "procRoot s = procRoot s'"
  shows "wf_objs s = wf_objs s'" "wf_procs s = wf_procs s'" "wf_key s k = wf_key s' k"
    "cnt_ok s k = cnt_ok s' k"
  using assms
  by (simp_all add: wf_objs_def wf_procs_def wf_key_def cnt_ok_def is_obj_def obj_at_def)

lemma kern_inv_upd_inv [simp]: "kern_inv (upd_inv f s) = kern_inv s"
  using key_props_cong [of "upd_inv f s" s] by (simp add: kern_inv_def)

lemma kern_inv_sched [simp]:
  "kern_inv (s\<lparr>k_sched := x\<rparr>) = kern_inv s" "kern_inv (s\<lparr>ReturneeSetUp := b\<rparr>) = kern_inv s"
  using key_props_cong [of "s\<lparr>k_sched := x\<rparr>" s] key_props_cong [of "s\<lparr>ReturneeSetUp := b\<rparr>" s]
  by (simp_all add: kern_inv_def)

text \<open>Giving one key a new value, with the rings changed to match.\<close>

lemma kern_inv_set_key:
  assumes "kern_inv s" "wf_key s k" "cnt_ok s k"
    and "keys s' = (keys s)(r := k)" "objs s' = objs s" "nObjs s' = nObjs s"
    and "obBucket s' = obBucket s"
    and "procRoot s' = procRoot s" "ring_ok (keys s') (rings s')"
  shows "kern_inv s'"
  using assms key_props_cong [of s' s] by (simp add: kern_inv_def)

lemma kern_inv_upd_key:
  assumes "kern_inv s" "wf_key s k" "cnt_ok s k" "key_ring k = key_ring (keys s r)"
    and "key_ring k \<noteq> None \<Longrightarrow> is_resume k = is_resume (keys s r)"
  shows "kern_inv (upd_key r k s)"
  using kern_inv_ring [OF assms(1)] same_ring_ok [of "keys s" "rings s" k r] assms(4,5)
  by (intro kern_inv_set_key [OF assms(1-3)]) simp_all

lemma kern_inv_unchain:
  assumes "kern_inv s" "wf_key s k" "cnt_ok s k" "key_ring k = None"
  shows "kern_inv (upd_key r k (keyBits_Unchain r s))"
  using assms kern_inv_ring [OF assms(1)]
  by (intro kern_inv_set_key [OF assms(1-3)]) (simp_all add: unchain_ok)

lemma wf_key_unhazarded [simp]: "wf_key s (unhazarded k) = wf_key s k"
  by (simp add: wf_key_def key_kinds)

lemma cnt_ok_unhazarded [simp]: "cnt_ok s (unhazarded k) = cnt_ok s k"
  by (simp add: cnt_ok_def key_kinds count_for_def used_for_def)

lemma wf_key_not_object [simp]: "\<not> keyBits_IsObjectKey k \<Longrightarrow> wf_key s k"
  and cnt_ok_not_object [simp]: "\<not> keyBits_IsObjectKey k \<Longrightarrow> cnt_ok s k"
  by (simp_all add: wf_key_def cnt_ok_def)

lemma void_not_object [simp]:
  "\<not> keyBits_IsObjectKey (keyBits_InitToVoid k)" "keyType (keyBits_InitToVoid k) = KKT_Void"
  by (simp_all add: key_kinds keyBits_InitToVoid_def keyBits_InitType_def)

lemma void_prepared_not_object [simp]:
  "\<not> keyBits_IsObjectKey (keyBits_SetPrepared (keyBits_InitToVoid k))"
  "key_ring (keyBits_SetPrepared (keyBits_InitToVoid k)) = None"
  by (simp_all add: key_kinds key_ring_not_object keyBits_SetPrepared_def keyBits_InitToVoid_def
      keyBits_InitType_def)

lemma cnt_ok_prepared [simp]: "keyBits_IsPrepared k \<Longrightarrow> cnt_ok s k"
  by (simp add: cnt_ok_def)

text \<open>What copying and voiding a key do, apart from the rings.\<close>

lemma key_NH_Set_simps [simp]:
  "keys (key_NH_Set dst src s)
     = (if src = dst then keys s else (keys s)(dst := unhazarded (keys s src)))"
  "objs (key_NH_Set dst src s) = objs s" "nObjs (key_NH_Set dst src s) = nObjs s"
  "obBucket (key_NH_Set dst src s) = obBucket s"
  "procRoot (key_NH_Set dst src s) = procRoot s" "k_inv (key_NH_Set dst src s) = k_inv s"
  "k_akt (key_NH_Set dst src s) = k_akt s" "log_room (key_NH_Set dst src s) = log_room s"
  "maxNPCount (key_NH_Set dst src s) = maxNPCount s"
  "InvocationCommitted (key_NH_Set dst src s) = InvocationCommitted s"
  "k_sched (key_NH_Set dst src s) = k_sched s" "ReturneeSetUp (key_NH_Set dst src s) = ReturneeSetUp s"
  "obRanges (key_NH_Set dst src s) = obRanges s" "pmiEnd (key_NH_Set dst src s) = pmiEnd s"
  "obj_at (key_NH_Set dst src s) p = obj_at s p"
  by (auto simp: key_NH_Set_def Let_def unhazarded_def obj_at_def split: option.splits)

lemma key_NH_SetToVoid_simps [simp]:
  "keys (key_NH_SetToVoid r s) = (keys s)(r := keyBits_InitToVoid (keys s r))"
  "objs (key_NH_SetToVoid r s) = objs s" "nObjs (key_NH_SetToVoid r s) = nObjs s"
  "obBucket (key_NH_SetToVoid r s) = obBucket s"
  "procRoot (key_NH_SetToVoid r s) = procRoot s" "k_inv (key_NH_SetToVoid r s) = k_inv s"
  "k_akt (key_NH_SetToVoid r s) = k_akt s" "log_room (key_NH_SetToVoid r s) = log_room s"
  "maxNPCount (key_NH_SetToVoid r s) = maxNPCount s"
  "InvocationCommitted (key_NH_SetToVoid r s) = InvocationCommitted s"
  "k_sched (key_NH_SetToVoid r s) = k_sched s" "ReturneeSetUp (key_NH_SetToVoid r s) = ReturneeSetUp s"
  "obRanges (key_NH_SetToVoid r s) = obRanges s" "pmiEnd (key_NH_SetToVoid r s) = pmiEnd s"
  "obj_at (key_NH_SetToVoid r s) p = obj_at s p"
  "rings (key_NH_SetToVoid r s) = unchain r (keys s r) (rings s)"
  by (auto simp: key_NH_SetToVoid_def Let_def obj_at_def)

definition number_key :: "u32 \<Rightarrow> u32 \<Rightarrow> u32 \<Rightarrow> KeyBits" where
  "number_key hi mid lo = \<lparr>keyType = KKT_Number, keyFlags = 0, keyPerms = capros_Memory_readOnly,
     keyData = 0, key_u = U_nk lo mid hi\<rparr>"

lemma key_SetToNumber_eq:
  "key_SetToNumber r hi mid lo s = upd_key r (number_key hi mid lo) (keyBits_Unchain r s)"
proof -
  have "keyBits_SetReadOnly (keyBits_SetUnprepared (keyBits_InitType k KKT_Number))\<lparr>key_u := u\<rparr>
    = \<lparr>keyType = KKT_Number, keyFlags = 0, keyPerms = capros_Memory_readOnly, keyData = 0,
        key_u = u\<rparr>" for k u
    by (cases k) (simp add: keyBits_InitType_def keyBits_SetUnprepared_def keyBits_SetReadOnly_def)
  then show ?thesis by (simp add: key_SetToNumber_def Let_def number_key_def)
qed

lemma keyBits_Unchain_none: "key_ring (keys s r) = None \<Longrightarrow> keyBits_Unchain r s = s"
  by (simp add: keyBits_Unchain_def)

lemma key_NH_Set_ring_ok:
  assumes "ring_ok (keys s) (rings s)"
  shows "ring_ok (keys (key_NH_Set dst src s)) (rings (key_NH_Set dst src s))"
proof (cases "src = dst")
  case True
  with assms show ?thesis by (simp add: key_NH_Set_def)
next
  case False
  let ?v = "(keys s)(dst := keyBits_InitToVoid (keys s dst))"
  let ?k = "unhazarded (keys s src)"
  have v: "ring_ok ?v (unchain dst (keys s dst) (rings s))"
    using assms by (simp add: unchain_ok)
  show ?thesis
  proof (cases "key_ring (keys s src)")
    case None
    then have "ring_ok (?v(dst := ?k)) (unchain dst (keys s dst) (rings s))"
      by (intro same_ring_ok [OF v]) simp_all
    with None False show ?thesis
      by (simp add: key_NH_Set_def Let_def unhazarded_def [symmetric])
  next
    case (Some rid)
    with False have "ring_ok (?v(dst := ?k))
        ((unchain dst (keys s dst) (rings s))
           (rid := insert_before dst src (unchain dst (keys s dst) (rings s) rid)))"
      by (intro chain_before_ok [OF v]) simp_all
    with Some False show ?thesis
      by (simp add: key_NH_Set_def Let_def unhazarded_def [symmetric])
  qed
qed

lemma key_NH_Set_inv [kinv]:
  assumes "kern_inv s"
  shows "kern_inv (key_NH_Set dst src s)"
proof (cases "src = dst")
  case True
  with assms show ?thesis by (simp add: key_NH_Set_def)
next
  case False
  with assms show ?thesis
    using key_NH_Set_ring_ok [OF kern_inv_ring [OF assms], of dst src]
    by (intro kern_inv_set_key [OF assms, where k = "unhazarded (keys s src)" and r = dst])
      (simp_all add: kern_inv_wf_key kern_inv_cnt_ok)
qed

lemma key_NH_SetToVoid_inv [kinv]: "kern_inv s \<Longrightarrow> kern_inv (key_NH_SetToVoid r s)"
  by (simp add: key_NH_SetToVoid_def kern_inv_unchain)

lemma key_SetToNumber_inv [kinv]: "kern_inv s \<Longrightarrow> kern_inv (key_SetToNumber r hi mid lo s)"
  unfolding key_SetToNumber_eq
  by (intro kern_inv_unchain wf_key_not_object cnt_ok_not_object key_ring_not_object)
    (simp_all add: key_kinds number_key_def)

section \<open>Lookup\<close>

lemma objH_Lookup_SomeD:
  assumes "wf_objs s" "objH_Lookup s oid = Some p"
  shows "is_obj s p" "obOid (obj_at s p) = oid"
proof -
  from assms(2) have "p \<in> set (obBucket s (bucket_ndx oid))" "obOid (obj_at s p) = oid"
    "ot_is_object (obType (obj_at s p))"
    by (auto simp: objH_Lookup_def find_Some_iff)
  with assms(1) show "is_obj s p" "obOid (obj_at s p) = oid" by (auto simp: wf_objs_def is_obj_def)
qed

lemma objH_Lookup_is_obj:
  assumes "wf_objs s" "is_obj s p"
  shows "objH_Lookup s (obOid (obj_at s p)) = Some p"
proof -
  have "\<exists>q. objH_Lookup s (obOid (obj_at s p)) = Some q"
    using assms by (auto simp: wf_objs_def objH_Lookup_def find_None_iff is_obj_def
        simp flip: not_None_eq)
  then obtain q where q: "objH_Lookup s (obOid (obj_at s p)) = Some q" ..
  with objH_Lookup_SomeD [OF assms(1) q] assms show ?thesis by (auto simp: wf_objs_def)
qed

section \<open>Preparing finds the designated object\<close>

lemma unprep_iff [simp]: "(key_unprep k = Some (oid, c)) = (key_u k = U_unprep oid c)"
  by (auto simp: key_unprep_def split: key_u.splits)

lemma pContext_iff [simp]: "(key_pContext k = Some pr) = (key_u k = U_gk pr)"
  by (auto simp: key_pContext_def split: key_u.splits)

lemma pObj_iff [simp]: "(key_pObj k = Some p) = (key_u k = U_ok p)"
  by (auto simp: key_pObj_def split: key_u.splits)

lemma key_GetObjectPtr_Some:
  "(key_GetObjectPtr s k = Some p) =
     (keyBits_IsPreparedObjectKey k
      \<and> (if keyBits_IsProcessType k then \<exists>pr. key_u k = U_gk pr \<and> procRoot s pr = Some p
         else key_u k = U_ok p))"
  by (auto simp: key_GetObjectPtr_def bind_eq_Some_conv)

lemma SetPrepared_fields [simp]:
  "keyType (keyBits_SetPrepared k) = keyType k" "keyPerms (keyBits_SetPrepared k) = keyPerms k"
  "keyData (keyBits_SetPrepared k) = keyData k" "key_u (keyBits_SetPrepared k) = key_u k"
  by (simp_all add: keyBits_SetPrepared_def)

lemma SetUnprepared_fields [simp]:
  "keyType (keyBits_SetUnprepared k) = keyType k" "keyPerms (keyBits_SetUnprepared k) = keyPerms k"
  "keyData (keyBits_SetUnprepared k) = keyData k" "key_u (keyBits_SetUnprepared k) = key_u k"
  by (simp_all add: keyBits_SetUnprepared_def)

lemma CheckObjectType_Some:
  assumes "wf_objs s" "CheckObjectType s oid bt = Some (p, b)"
  shows "is_obj s p" "obOid (obj_at s p) = oid" "b = (objH_GetBaseType (obj_at s p) = bt)"
  using assms objH_Lookup_SomeD [OF assms(1)]
  by (auto simp: CheckObjectType_def GetObjectType_def split: option.splits)

text \<open>No cached object but the one found can be designated by the OID.\<close>

lemma not_denotes_other:
  assumes "wf_objs s" "is_obj s p" "key_u k = U_unprep (obOid (obj_at s p)) c"
    and "\<not> keyBits_IsPrepared k"
    and "objH_GetBaseType (obj_at s p) \<noteq> base_of (keyType k) \<or> c \<noteq> count_for k (obj_at s p)"
  shows "\<not> denotes s k q"
  using assms by (auto simp: denotes_def wf_objs_def)

text \<open>
  The two outcomes of finding the object of an unprepared key: it is rescinded and
  designates nothing, or the object is cached and designated.
\<close>

definition link_prepared :: "kref \<Rightarrow> key_u \<Rightarrow> kern \<Rightarrow> kern" where
  "link_prepared r u s =
     (case u of
        U_gk pr \<Rightarrow> (if is_resume (keys s r) then link_insertBefore (ProcRing pr) r s
                   else link_insertAfter (ProcRing pr) r s)
      | U_ok p \<Rightarrow> link_insertAfter (ObjRing p) r s
      | _ \<Rightarrow> s)"

lemma link_prepared_simps [simp]:
  "keys (link_prepared r u s) = keys s" "objs (link_prepared r u s) = objs s"
  "nObjs (link_prepared r u s) = nObjs s" "obBucket (link_prepared r u s) = obBucket s" "procRoot (link_prepared r u s) = procRoot s"
  "k_inv (link_prepared r u s) = k_inv s" "k_akt (link_prepared r u s) = k_akt s"
  "log_room (link_prepared r u s) = log_room s" "maxNPCount (link_prepared r u s) = maxNPCount s"
  "InvocationCommitted (link_prepared r u s) = InvocationCommitted s"
  "k_sched (link_prepared r u s) = k_sched s" "ReturneeSetUp (link_prepared r u s) = ReturneeSetUp s"
  "obRanges (link_prepared r u s) = obRanges s" "pmiEnd (link_prepared r u s) = pmiEnd s"
  "obj_at (link_prepared r u s) p = obj_at s p"
  by (auto simp: link_prepared_def link_insertBefore_def link_insertAfter_def obj_at_def
      split: key_u.split)

lemma link_prepared_ring:
  assumes "ring_ok (keys s) (rings s)" "\<not> keyBits_IsPrepared (keys s r)"
    and "keyBits_IsObjectKey (keys s r)"
    and "if keyBits_IsProcessType (keys s r) then \<exists>pr. u = U_gk pr else \<exists>p. u = U_ok p"
  shows "ring_ok ((keys s)(r := keyBits_SetPrepared ((keys s r)\<lparr>key_u := u\<rparr>)))
           (rings (link_prepared r u s))"
proof -
  let ?k = "keyBits_SetPrepared ((keys s r)\<lparr>key_u := u\<rparr>)"
  have off: "key_ring (keys s r) = None" using assms(2) by (rule key_ring_not_prepared)
  have res: "is_resume ?k = is_resume (keys s r)" by (simp add: is_resume_def)
  have prep: "keyBits_IsPreparedObjectKey ?k"
    using assms(3) by (simp add: keyBits_IsPreparedObjectKey_def key_kinds)
  show ?thesis
  proof (cases "keyBits_IsProcessType (keys s r)")
    case True
    with assms(4) obtain pr where u: "u = U_gk pr" by auto
    with prep True have ring: "key_ring ?k = Some (ProcRing pr)"
      by (simp add: key_ring_def key_kinds key_pContext_def)
    show ?thesis
    proof (cases "is_resume (keys s r)")
      case True
      with chain_last_ok [OF assms(1) off ring] res u show ?thesis
        by (simp add: link_prepared_def link_insertBefore_def)
    next
      case False
      with chain_first_ok [OF assms(1) off ring] res u show ?thesis
        by (simp add: link_prepared_def link_insertAfter_def)
    qed
  next
    case False
    with assms(4) obtain p where u: "u = U_ok p" by auto
    with prep False have ring: "key_ring ?k = Some (ObjRing p)"
      by (simp add: key_ring_def key_kinds key_pObj_def)
    from False have "\<not> is_resume ?k" by (auto simp: is_resume_def key_kinds)
    with chain_first_ok [OF assms(1) off ring] u show ?thesis
      by (simp add: link_prepared_def link_insertAfter_def)
  qed
qed

definition prep_result :: "kern \<Rightarrow> kref \<Rightarrow> bool \<Rightarrow> kern \<Rightarrow> bool" where
  "prep_result s r rescinded s' =
     (if rescinded then s' = s \<and> (\<forall>p. \<not> denotes s (keys s r) p)
      else \<exists>p u. denotes s (keys s r) p
             \<and> s' = upd_key r (keyBits_SetPrepared ((keys s r)\<lparr>key_u := u\<rparr>))
                      (link_prepared r u s)
             \<and> u = (if keyBits_IsProcessType (keys s r) then U_gk (prep_context (obj_at s p))
                    else U_ok p)
             \<and> (keyBits_IsProcessType (keys s r) \<longrightarrow> obType (obj_at s p) = ot_NtProcessRoot))"

lemma CheckProcessKey_result:
  assumes "wf_objs s" "\<not> keyBits_IsPrepared (keys s r)" "keyBits_IsProcessType (keys s r)"
    and "CheckProcessKey r s = Some (rescinded, s')"
  shows "prep_result s r rescinded s'"
proof -
  let ?k = "keys s r"
  from assms(3) have base: "base_of (keyType ?k) = otNode" and obj: "keyBits_IsObjectKey ?k"
    by (auto simp: key_kinds base_of_def)
  from assms(4) obtain oid c p ok where u: "key_u ?k = U_unprep oid c"
    and chk: "CheckObjectType s oid otNode = Some (p, ok)"
    by (auto simp: CheckProcessKey_def bind_eq_Some_conv)
  note p = CheckObjectType_Some [OF assms(1) chk]
  have node: "ok \<Longrightarrow> objH_isNodeType (obj_at s p)"
    using p(3) by (simp add: objH_GetBaseType_def objH_isNodeType_def split: if_splits)
  show ?thesis
  proof (cases "ok \<and> count_for ?k (obj_at s p) = c")
    case False
    then have "rescinded" and "s' = s"
      using assms(4) u chk node
      by (auto simp: CheckProcessKey_def bind_eq_Some_conv GetObjectCount_def count_for_def
          keyBits_IsType_def split: if_splits)
    moreover have "\<not> denotes s ?k q" for q
      using False p u base by (intro not_denotes_other [OF assms(1) p(1)]) (auto simp: assms(2))
    ultimately show ?thesis by (simp add: prep_result_def)
  next
    case True
    then have nr: "\<not> rescinded" and root: "obType (obj_at s p) = ot_NtProcessRoot"
      and s': "s' = PrepareKeyToProcess r (prep_context (obj_at s p)) s"
      using assms(4) u chk node
      by (auto simp: CheckProcessKey_def bind_eq_Some_conv GetObjectCount_def count_for_def
          keyBits_IsType_def node_GetProcess_def split: if_splits)
    have "denotes s ?k p"
      using True p u base obj assms(2) by (simp add: denotes_def)
    with nr root s' assms(3) show ?thesis
      by (auto simp: prep_result_def PrepareKeyToProcess_def link_prepared_def is_resume_def
          keyBits_IsType_def Let_def)
  qed
qed

lemma base_otNode: "keyType k \<in> {KKT_Node, KKT_Forwarder, KKT_GPT} \<Longrightarrow> base_of (keyType k) = otNode"
  by (auto simp: base_of_def)

lemma CheckTypeAndAllocCount_result:
  assumes "wf_objs s" "\<not> keyBits_IsPrepared (keys s r)"
    and "keyType (keys s r) \<in> {KKT_Node, KKT_Forwarder, KKT_GPT, KKT_Page}"
    and "CheckTypeAndAllocCount r (base_of (keyType (keys s r))) s = Some (rescinded, s')"
  shows "prep_result s r rescinded s'"
proof -
  let ?k = "keys s r"
  from assms(3) have obj: "keyBits_IsObjectKey ?k" and np: "\<not> keyBits_IsProcessType ?k"
    and cnt: "count_for ?k ob = allocCount ob" for ob
    by (auto simp: key_kinds count_for_def)
  from assms(4) obtain oid c p ok where u: "key_u ?k = U_unprep oid c"
    and chk: "CheckObjectType s oid (base_of (keyType ?k)) = Some (p, ok)"
    by (auto simp: CheckTypeAndAllocCount_def bind_eq_Some_conv)
  note p = CheckObjectType_Some [OF assms(1) chk]
  show ?thesis
  proof (cases "ok \<and> allocCount (obj_at s p) = c")
    case False
    then have "rescinded" and "s' = s"
      using assms(4) u chk
      by (auto simp: CheckTypeAndAllocCount_def bind_eq_Some_conv GetObjectCount_def
          split: if_splits)
    moreover have "\<not> denotes s ?k q" for q
      using False p u by (intro not_denotes_other [OF assms(1) p(1)]) (auto simp: assms(2) cnt)
    ultimately show ?thesis by (simp add: prep_result_def)
  next
    case True
    then have "\<not> rescinded"
      and "s' = upd_key r (keyBits_SetPrepared (?k\<lparr>key_u := U_ok p\<rparr>))
                  (link_insertAfter (ObjRing p) r s)"
      using assms(4) u chk
      by (auto simp: CheckTypeAndAllocCount_def bind_eq_Some_conv GetObjectCount_def
          objH_EnsureNotFetching_def split: if_splits)
    moreover have "denotes s ?k p"
      using True p u obj assms(2) cnt by (simp add: denotes_def)
    ultimately show ?thesis using np by (auto simp: prep_result_def link_prepared_def)
  qed
qed

text \<open>Fetching the object for a prepare finds what validating it finds.\<close>

lemma DoGetObject_check:
  assumes "DoGetObject r bt s = Some (pObj, s1)"
  shows "if pObj = None then CheckTypeAndAllocCount r bt s = Some (True, s) \<and> s1 = s
    else CheckTypeAndAllocCount r bt s
           = Some (False, upd_key r (keyBits_SetPrepared (keys s1 r)) s1)"
proof -
  from assms obtain oid c p ok where u: "key_unprep (keys s r) = Some (oid, c)"
    and chk: "CheckObjectType s oid bt = Some (p, ok)"
    by (auto simp: DoGetObject_def bind_eq_Some_conv)
  show ?thesis
    using assms
    by (simp add: DoGetObject_def CheckTypeAndAllocCount_def u chk GetObject_def GetObjectCount_def
        objH_EnsureNotFetching_def bind_eq_Some_conv del: unprep_iff split: if_splits)
      (auto simp: u chk)
qed

text \<open>The two outcomes of preparing: voided, or made to point to the designated object.\<close>

definition prepare_outcome :: "kern \<Rightarrow> kref \<Rightarrow> bool \<Rightarrow> kern \<Rightarrow> bool" where
  "prepare_outcome s r voided s' =
     (if voided
      then s' = upd_key r (keyBits_SetPrepared (keyBits_InitToVoid (keys s r))) s
           \<and> (\<forall>p. \<not> denotes s (keys s r) p)
      else prep_result s r False s')"

lemma DoPrepare_object_outcome:
  assumes "wf_objs s" "\<not> keyBits_IsPrepared (keys s r)"
    and "keyType (keys s r) \<in> {KKT_Node, KKT_Forwarder, KKT_GPT, KKT_Page}"
    and "DoPrepare_object r (base_of (keyType (keys s r))) s = Some (voided, s')"
  shows "prepare_outcome s r voided s'"
proof -
  from assms(4) obtain pObj s1
    where get: "DoGetObject r (base_of (keyType (keys s r))) s = Some (pObj, s1)"
      and fin: "DoPrepare_finish r (pObj, s1) = Some (voided, s')"
    by (auto simp: DoPrepare_object_def bind_eq_Some_conv)
  note chk = DoGetObject_check [OF get]
  show ?thesis
  proof (cases pObj)
    case None
    with chk have s1: "s1 = s" and "CheckTypeAndAllocCount r (base_of (keyType (keys s r))) s = Some (True, s)"
      by auto
    note res = CheckTypeAndAllocCount_result [OF assms(1-3) this(2)]
    from fin s1 None have "voided" and "s' = upd_key r (keyBits_SetPrepared (keyBits_InitToVoid (keys s r))) s"
      by (auto simp: DoPrepare_finish_def key_NH_SetToVoid_def Let_def keyBits_Unchain_none
          key_ring_not_prepared)
    with res None show ?thesis by (auto simp: prepare_outcome_def prep_result_def)
  next
    case (Some p)
    with fin have "\<not> voided" and s': "s' = upd_key r (keyBits_SetPrepared (keys s1 r)) s1"
      by (auto simp: DoPrepare_finish_def)
    moreover from Some chk have "CheckTypeAndAllocCount r (base_of (keyType (keys s r))) s = Some (False, s')"
      by (simp add: s')
    ultimately show ?thesis
      using CheckTypeAndAllocCount_result [OF assms(1-3)] by (simp add: prepare_outcome_def)
  qed
qed

lemma DoPrepare_process_outcome:
  assumes "wf_objs s" "\<not> keyBits_IsPrepared (keys s r)" "keyBits_IsProcessType (keys s r)"
    and "DoPrepare_process r s = Some (voided, s')"
  shows "prepare_outcome s r voided s'"
proof -
  from assms(4) obtain rescinded s1
    where chk: "CheckProcessKey r s = Some (rescinded, s1)"
      and fin: "if rescinded then DoPrepare_finish r (None, s1) = Some (voided, s')
                else voided = False \<and> s' = s1"
    by (auto simp: DoPrepare_process_def bind_eq_Some_conv split: if_splits)
  note res = CheckProcessKey_result [OF assms(1-3) chk]
  show ?thesis
  proof (cases rescinded)
    case True
    with res have "s1 = s" by (simp add: prep_result_def)
    with True fin have "voided" and "s' = upd_key r (keyBits_SetPrepared (keyBits_InitToVoid (keys s r))) s"
      by (auto simp: DoPrepare_finish_def key_NH_SetToVoid_def Let_def keyBits_Unchain_none
          key_ring_not_prepared)
    with res True show ?thesis by (simp add: prepare_outcome_def prep_result_def)
  next
    case False
    with fin res show ?thesis by (simp add: prepare_outcome_def)
  qed
qed

lemma key_DoPrepare_outcome:
  assumes "wf_objs s" "keyBits_IsObjectKey (keys s r)"
    and "key_DoPrepare r s = Some (voided, s')"
  shows "prepare_outcome s r voided s'"
proof -
  from assms(3) have np: "\<not> keyBits_IsPrepared (keys s r)"
    by (simp add: key_DoPrepare_def bind_eq_Some_conv)
  show ?thesis
  proof (cases "keyBits_IsProcessType (keys s r)")
    case True
    with assms(3) np have "DoPrepare_process r s = Some (voided, s')"
      by (auto simp: key_DoPrepare_def key_kinds)
    with assms(1) np True show ?thesis by (rule DoPrepare_process_outcome)
  next
    case False
    with assms(2) have t: "keyType (keys s r) \<in> {KKT_Node, KKT_Forwarder, KKT_GPT, KKT_Page}"
      by (auto simp: key_kinds)
    with assms(3) np have "DoPrepare_object r (base_of (keyType (keys s r))) s = Some (voided, s')"
      by (auto simp: key_DoPrepare_def base_of_def)
    with assms(1) np t show ?thesis by (rule DoPrepare_object_outcome)
  qed
qed

lemma prep_result_inv:
  assumes "kern_inv s" "\<not> keyBits_IsPrepared (keys s r)" "prep_result s r False s'"
  shows "kern_inv s'"
proof -
  from assms obtain p u where d: "denotes s (keys s r) p"
    and s': "s' = upd_key r (keyBits_SetPrepared ((keys s r)\<lparr>key_u := u\<rparr>)) (link_prepared r u s)"
    and u: "u = (if keyBits_IsProcessType (keys s r) then U_gk (prep_context (obj_at s p)) else U_ok p)"
    and root: "keyBits_IsProcessType (keys s r) \<longrightarrow> obType (obj_at s p) = ot_NtProcessRoot"
    by (auto simp: prep_result_def)
  have obj: "is_obj s p" "keyBits_IsObjectKey (keys s r)" using d by (auto simp: denotes_def)
  let ?k = "keyBits_SetPrepared ((keys s r)\<lparr>key_u := u\<rparr>)"
  have "wf_key s ?k"
  proof (cases "keyBits_IsProcessType (keys s r)")
    case True
    with u root obj kern_inv_wf_procs [OF assms(1)] show ?thesis
      by (auto simp: wf_key_def wf_procs_def key_kinds)
  next
    case False
    from assms(1) have "wf_key s (keys s r)" by (rule kern_inv_wf_key)
    with False d have "objH_GetBaseType (obj_at s p) = base_of (keyType (keys s r))"
      by (auto simp: denotes_def wf_key_def key_GetObjectPtr_def split: if_splits)
    with False u obj show ?thesis by (auto simp: wf_key_def key_kinds)
  qed
  moreover have "ring_ok ((keys s)(r := ?k)) (rings (link_prepared r u s))"
    using assms(2) obj u by (intro link_prepared_ring kern_inv_ring [OF assms(1)]) simp_all
  ultimately show ?thesis
    by (intro kern_inv_set_key [OF assms(1), where k = ?k and r = r]) (simp_all add: s')
qed

lemma prep_result_denotes:
  assumes "wf_procs s" "prep_result s r False s'"
  shows "\<exists>p. denotes s (keys s r) p \<and> denotes s' (keys s' r) p"
proof -
  from assms obtain p u where d: "denotes s (keys s r) p"
    and s': "s' = upd_key r (keyBits_SetPrepared ((keys s r)\<lparr>key_u := u\<rparr>)) (link_prepared r u s)"
    and u: "u = (if keyBits_IsProcessType (keys s r) then U_gk (prep_context (obj_at s p)) else U_ok p)"
    and root: "keyBits_IsProcessType (keys s r) \<longrightarrow> obType (obj_at s p) = ot_NtProcessRoot"
    by (auto simp: prep_result_def)
  have obj: "is_obj s p" "keyBits_IsObjectKey (keys s r)" using d by (auto simp: denotes_def)
  have "denotes s (keys s' r) p"
    using u root obj assms(1)
    by (simp add: s' denotes_def key_GetObjectPtr_Some keyBits_IsPreparedObjectKey_def
        wf_procs_def key_kinds)
  with d s' show ?thesis using denotes_cong [of s' s] by auto
qed

text \<open>Preparing a key changes that key and the key rings only.\<close>

definition only_key :: "kref \<Rightarrow> kern \<Rightarrow> kern \<Rightarrow> bool" where
  "only_key r s s' =
     (objs s' = objs s \<and> nObjs s' = nObjs s \<and> obBucket s' = obBucket s \<and> procRoot s' = procRoot s \<and> k_inv s' = k_inv s
      \<and> k_akt s' = k_akt s \<and> log_room s' = log_room s \<and> maxNPCount s' = maxNPCount s
      \<and> InvocationCommitted s' = InvocationCommitted s \<and> k_sched s' = k_sched s
      \<and> ReturneeSetUp s' = ReturneeSetUp s \<and> (\<forall>r'. r' \<noteq> r \<longrightarrow> keys s' r' = keys s r'))"

lemma only_keyD:
  assumes "only_key r s s'"
  shows "objs s' = objs s" "nObjs s' = nObjs s" "procRoot s' = procRoot s" "k_inv s' = k_inv s"
    "obBucket s' = obBucket s" "InvocationCommitted s' = InvocationCommitted s"
    "k_akt s' = k_akt s" "log_room s' = log_room s" "maxNPCount s' = maxNPCount s"
    "r' \<noteq> r \<Longrightarrow> keys s' r' = keys s r'" "obj_at s' p = obj_at s p" "k_sched s' = k_sched s"
    "ReturneeSetUp s' = ReturneeSetUp s"
  using assms by (auto simp: only_key_def obj_at_def)

lemma only_key_refl [simp]: "only_key r s s"
  by (simp add: only_key_def)

lemma key_DoPrepare_other:
  assumes "keyBits_IsObjectKey (keys s r) \<Longrightarrow> wf_objs s" "key_DoPrepare r s = Some (voided, s')"
  shows "only_key r s s' \<and> keyBits_IsPrepared (keys s' r)"
proof (cases "keyBits_IsObjectKey (keys s r)")
  case True
  with assms have "prepare_outcome s r voided s'" by (blast intro: key_DoPrepare_outcome)
  then show ?thesis
    by (auto simp: prepare_outcome_def prep_result_def only_key_def split: if_splits)
next
  case False
  with assms(2) show ?thesis
    by (cases "keyType (keys s r)") (auto simp: key_DoPrepare_def key_kinds only_key_def)
qed

lemma key_DoPrepare_inv:
  assumes "kern_inv s" "key_DoPrepare r s = Some (voided, s')"
  shows "kern_inv s'"
proof (cases "keyBits_IsObjectKey (keys s r)")
  case True
  from assms(2) have np: "\<not> keyBits_IsPrepared (keys s r)"
    by (simp add: key_DoPrepare_def bind_eq_Some_conv)
  from key_DoPrepare_outcome [OF kern_inv_wf_objs [OF assms(1)] True assms(2)]
  consider "s' = upd_key r (keyBits_SetPrepared (keyBits_InitToVoid (keys s r))) s"
    | "prep_result s r False s'"
    by (auto simp: prepare_outcome_def split: if_splits)
  then show ?thesis
  proof cases
    case 1
    then show ?thesis
      using assms(1) np by (auto intro!: kern_inv_upd_key simp: key_ring_not_prepared)
  next
    case 2
    with assms(1) np show ?thesis by (rule prep_result_inv)
  qed
next
  case False
  with assms(2) have "s' = upd_key r (keyBits_SetPrepared (keys s r)) s"
    by (cases "keyType (keys s r)") (auto simp: key_DoPrepare_def key_kinds)
  moreover have "\<not> keyBits_IsObjectKey (keyBits_SetPrepared (keys s r))"
    using False by (simp add: key_kinds)
  ultimately show ?thesis using assms(1) False
    by (auto intro!: kern_inv_upd_key simp: key_ring_not_object)
qed

lemma key_Prepare_inv [kinv]: "kern_inv s \<Longrightarrow> key_Prepare r s = Some s' \<Longrightarrow> kern_inv s'"
  by (auto simp: key_Prepare_def bind_eq_Some_conv split: if_splits dest: key_DoPrepare_inv)

section \<open>Unpreparing and preparing again\<close>

lemma objH_SetFlags_fields [simp]:
  "obType (objH_SetFlags ob w) = obType ob" "obOid (objH_SetFlags ob w) = obOid ob"
  "allocCount (objH_SetFlags ob w) = allocCount ob" "callCount (objH_SetFlags ob w) = callCount ob"
  "nodeData (objH_SetFlags ob w) = nodeData ob" "prep_context (objH_SetFlags ob w) = prep_context ob"
  "pageData (objH_SetFlags ob w) = pageData ob"
  by (simp_all add: objH_SetFlags_def)

lemma objH_GetFlags_SetFlags_mono: "objH_GetFlags ob w \<Longrightarrow> objH_GetFlags (objH_SetFlags ob v) w"
  by (simp add: objH_GetFlags_def objH_SetFlags_def and_or_nonzero)

lemma objH_GetFlags_SetFlags_same: "w \<noteq> 0 \<Longrightarrow> objH_GetFlags (objH_SetFlags ob w) w"
proof -
  assume "w \<noteq> 0"
  moreover have "(x OR w) AND w = w" for x by (auto simp: bit_eq_iff bit_simps)
  ultimately show ?thesis by (simp add: objH_GetFlags_def objH_SetFlags_def)
qed

lemma objH_GetFlags_SetFlags_other:
  assumes "w AND v = 0"
  shows "objH_GetFlags (objH_SetFlags ob w) v = objH_GetFlags ob v"
proof -
  have "(x OR w) AND v = (x AND v) OR (w AND v)" for x by (auto simp: bit_eq_iff bit_simps)
  with assms show ?thesis by (simp add: objH_GetFlags_def objH_SetFlags_def)
qed

text \<open>An update that keeps what the invariant reads of an object, and only sets flags.\<close>

definition same_ident :: "ObjectHeader \<Rightarrow> ObjectHeader \<Rightarrow> bool" where
  "same_ident ob ob' =
     (obType ob' = obType ob \<and> obOid ob' = obOid ob \<and> allocCount ob' = allocCount ob
      \<and> callCount ob' = callCount ob \<and> prep_context ob' = prep_context ob
      \<and> (\<forall>w. objH_GetFlags ob w \<longrightarrow> objH_GetFlags ob' w))"

lemma same_ident_SetFlags [simp]: "same_ident ob (objH_SetFlags ob w)"
  by (simp add: same_ident_def objH_GetFlags_SetFlags_mono)

lemma same_ident_SetL2v [simp]: "same_ident ob (node_SetL2vField f ob)"
  by (simp add: same_ident_def objH_GetFlags_def)

lemma upd_obj_same_ident:
  assumes "same_ident (obj_at s p) (f (obj_at s p))"
  shows "is_obj (upd_obj p f s) q = is_obj s q"
    and "wf_objs (upd_obj p f s) = wf_objs s" and "wf_procs (upd_obj p f s) = wf_procs s"
    and "wf_key (upd_obj p f s) k = wf_key s k" and "cnt_ok s k \<Longrightarrow> cnt_ok (upd_obj p f s) k"
    and "count_for k (obj_at (upd_obj p f s) q) = count_for k (obj_at s q)"
    and "obOid (obj_at (upd_obj p f s) q) = obOid (obj_at s q)"
    and "objH_GetBaseType (obj_at (upd_obj p f s) q) = objH_GetBaseType (obj_at s q)"
    and "obType (obj_at (upd_obj p f s) q) = obType (obj_at s q)"
    and "prep_context (obj_at (upd_obj p f s) q) = prep_context (obj_at s q)"
    and "allocCount (obj_at (upd_obj p f s) q) = allocCount (obj_at s q)"
    and "callCount (obj_at (upd_obj p f s) q) = callCount (obj_at s q)"
proof -
  show obj: "is_obj (upd_obj p f s) q = is_obj s q" for q
    using assms by (auto simp: is_obj_def obj_at_upd_obj same_ident_def)
  show cnt: "count_for k (obj_at (upd_obj p f s) q) = count_for k (obj_at s q)" for k q
    using assms by (auto simp: count_for_def obj_at_upd_obj same_ident_def)
  show oid: "obOid (obj_at (upd_obj p f s) q) = obOid (obj_at s q)" for q
    using assms by (auto simp: obj_at_upd_obj same_ident_def)
  show base: "objH_GetBaseType (obj_at (upd_obj p f s) q) = objH_GetBaseType (obj_at s q)" for q
    using assms by (auto simp: objH_GetBaseType_def obj_at_upd_obj same_ident_def)
  show ty: "obType (obj_at (upd_obj p f s) q) = obType (obj_at s q)"
    and ctx: "prep_context (obj_at (upd_obj p f s) q) = prep_context (obj_at s q)"
    and "allocCount (obj_at (upd_obj p f s) q) = allocCount (obj_at s q)"
    and "callCount (obj_at (upd_obj p f s) q) = callCount (obj_at s q)" for q
    using assms by (auto simp: obj_at_upd_obj same_ident_def)
  show "wf_objs (upd_obj p f s) = wf_objs s" by (simp add: wf_objs_def obj oid)
  show "wf_procs (upd_obj p f s) = wf_procs s" by (simp add: wf_procs_def obj ty ctx)
  show "wf_key (upd_obj p f s) k = wf_key s k" by (simp add: wf_key_def obj base ty ctx)
  have "objH_GetFlags (obj_at s q) w \<Longrightarrow> objH_GetFlags (obj_at (upd_obj p f s) q) w" for q w
    using assms by (auto simp: obj_at_upd_obj same_ident_def)
  then show "cnt_ok s k \<Longrightarrow> cnt_ok (upd_obj p f s) k" by (simp add: cnt_ok_def obj base oid cnt)
qed

lemma kern_inv_upd_obj:
  "kern_inv s \<Longrightarrow> same_ident (obj_at s p) (f (obj_at s p)) \<Longrightarrow> kern_inv (upd_obj p f s)"
  by (simp add: kern_inv_def upd_obj_same_ident)

lemma objH_EnsureWritable_inv [kinv]:
  "kern_inv s \<Longrightarrow> objH_EnsureWritable p s = Some s' \<Longrightarrow> kern_inv s'"
  using objH_EnsureWritable_Some [of p s s'] by (auto intro: kern_inv_upd_obj)

lemma unprepared_form_eq:
  assumes "kern_inv s" "keyBits_IsPreparedObjectKey (keys s r)"
  shows "\<exists>p. denotes s (keys s r) p \<and> key_GetObjectPtr s (keys s r) = Some p
    \<and> unprepared_form s (keys s r)
        = Some (p, count_for (keys s r) (obj_at s p), used_for (keys s r))
    \<and> objH_GetBaseType (obj_at s p) = base_of (keyType (keys s r))
    \<and> (keyBits_IsProcessType (keys s r) \<longrightarrow> obType (obj_at s p) = ot_NtProcessRoot)"
proof -
  let ?k = "keys s r"
  from assms have obj: "keyBits_IsObjectKey ?k" and prep: "keyBits_IsPrepared ?k"
    by (auto simp: keyBits_IsPreparedObjectKey_def)
  have wf: "wf_key s ?k" using assms(1) by (rule kern_inv_wf_key)
  show ?thesis
  proof (cases "keyBits_IsProcessType ?k")
    case True
    then have "base_of (keyType ?k) = otNode" by (auto simp: key_kinds base_of_def)
    moreover from True wf obj prep obtain pr p where "key_u ?k = U_gk pr" "procRoot s pr = Some p"
      "is_obj s p" "obType (obj_at s p) = ot_NtProcessRoot"
      by (auto simp: wf_key_def)
    ultimately show ?thesis using True obj prep assms(2)
      by (intro exI [of _ p])
        (simp add: denotes_def key_GetObjectPtr_Some unprepared_form_def key_pContext_def
          count_for_def used_for_def keyBits_IsType_def objH_GetBaseType_def)
  next
    case False
    then have "keyType ?k \<noteq> KKT_Resume" by (auto simp: key_kinds)
    with False wf obj prep assms(2) show ?thesis
      by (auto simp: wf_key_def denotes_def key_GetObjectPtr_Some unprepared_form_def key_pObj_def
          count_for_def used_for_def)
  qed
qed

lemma used_for_nonzero [simp]: "used_for k \<noteq> 0"
  by (simp add: used_for_def OFLG_defs)

text \<open>What unpreparing a prepared object key does, in one equation.\<close>

lemma key_NH_Unprepare_object:
  assumes "kern_inv s" "keyBits_IsPreparedObjectKey (keys s r)" "\<not> keyBits_IsHazard (keys s r)"
  obtains p s1 where "denotes s (keys s r) p"
    and "s1 = upd_obj p (\<lambda>ob. objH_SetFlags ob (used_for (keys s r))) s"
    and "key_NH_Unprepare r s = Some (upd_key r (keyBits_SetUnprepared
          ((keys s r)\<lparr>key_u := U_unprep (obOid (obj_at s p)) (count_for (keys s r) (obj_at s p))\<rparr>))
          (keyBits_Unchain r s1))"
    and "objH_GetBaseType (obj_at s p) = base_of (keyType (keys s r))"
    and "keyBits_IsProcessType (keys s r) \<longrightarrow> obType (obj_at s p) = ot_NtProcessRoot"
    and "key_GetObjectPtr s (keys s r) = Some p"
proof -
  from unprepared_form_eq [OF assms(1,2)] obtain p where p: "denotes s (keys s r) p"
    "unprepared_form s (keys s r) = Some (p, count_for (keys s r) (obj_at s p), used_for (keys s r))"
    "objH_GetBaseType (obj_at s p) = base_of (keyType (keys s r))"
    "keyBits_IsProcessType (keys s r) \<longrightarrow> obType (obj_at s p) = ot_NtProcessRoot"
    "key_GetObjectPtr s (keys s r) = Some p"
    by blast
  have "key_NH_Unprepare r s = Some (upd_key r (keyBits_SetUnprepared
          ((keys s r)\<lparr>key_u := U_unprep (obOid (obj_at s p)) (count_for (keys s r) (obj_at s p))\<rparr>))
          (keyBits_Unchain r (upd_obj p (\<lambda>ob. objH_SetFlags ob (used_for (keys s r))) s)))"
    using assms(2,3) p(2)
    by (simp add: key_NH_Unprepare_def keyBits_IsPreparedObjectKey_def Let_def obj_at_upd_obj)
  with p that show ?thesis by blast
qed

lemma key_NH_Unprepare_inv:
  assumes "kern_inv s" "key_NH_Unprepare r s = Some s'"
  shows "kern_inv s'"
proof (cases "keyBits_IsPreparedObjectKey (keys s r)")
  case True
  from assms(2) have nh: "\<not> keyBits_IsHazard (keys s r)" by (simp add: key_NH_Unprepare_def)
  from key_NH_Unprepare_object [OF assms(1) True nh] obtain p s1
    where d: "denotes s (keys s r) p" and base: "objH_GetBaseType (obj_at s p) = base_of (keyType (keys s r))"
    and s1: "s1 = upd_obj p (\<lambda>ob. objH_SetFlags ob (used_for (keys s r))) s"
    and eq: "key_NH_Unprepare r s = Some (upd_key r (keyBits_SetUnprepared
          ((keys s r)\<lparr>key_u := U_unprep (obOid (obj_at s p)) (count_for (keys s r) (obj_at s p))\<rparr>))
          (keyBits_Unchain r s1))"
    by blast
  let ?k = "keyBits_SetUnprepared
    ((keys s r)\<lparr>key_u := U_unprep (obOid (obj_at s p)) (count_for (keys s r) (obj_at s p))\<rparr>)"
  have inv1: "kern_inv s1" using assms(1) by (simp add: s1 kern_inv_upd_obj)
  have same: "same_ident (obj_at s p) (objH_SetFlags (obj_at s p) (used_for (keys s r)))" by simp
  note up = upd_obj_same_ident [where f = "\<lambda>ob. objH_SetFlags ob (used_for (keys s r))", OF same]
  have "cnt_ok s1 ?k"
    unfolding cnt_ok_def
  proof (intro allI impI)
    fix q c
    assume q: "keyBits_IsObjectKey ?k \<and> \<not> keyBits_IsPrepared ?k \<and> is_obj s1 q
      \<and> key_u ?k = U_unprep (obOid (obj_at s1 q)) c
      \<and> objH_GetBaseType (obj_at s1 q) = base_of (keyType ?k)"
    then have "is_obj s q" "obOid (obj_at s p) = obOid (obj_at s q)" by (simp_all add: s1 up)
    with d kern_inv_wf_objs [OF assms(1)] have "q = p" by (auto simp: denotes_def wf_objs_def)
    with q show "c \<le> count_for ?k (obj_at s1 q)
        \<and> (c = count_for ?k (obj_at s1 q) \<longrightarrow> objH_GetFlags (obj_at s1 q) (used_for ?k))"
      by (simp add: s1 up) (simp add: obj_at_upd_obj count_for_def used_for_def objH_GetFlags_SetFlags_same OFLG_defs)
  qed
  moreover have "wf_key s1 ?k" by (simp add: wf_key_def)
  ultimately show ?thesis using eq assms(2) inv1 by (simp add: kern_inv_unchain)
next
  case False
  then have "key_ring (keys s r) = None" by (simp add: key_ring_def)
  with assms False show ?thesis
    by (auto simp: key_NH_Unprepare_def keyBits_IsPreparedObjectKey_def key_kinds
        intro!: kern_inv_upd_key split: if_splits)
qed

end
