(* ===== verification/Key_Correct.thy ===== *)
theory Key_Correct
  imports Key_Inv
begin

text \<open>
  Correctness of the key operations of sys/kernel/kern_Key.c that is stated over whole operations:
  preparing succeeds exactly for the keys that designate an object, unpreparing a key and
  preparing it again gives the key back, and exchanging registers swaps them.
\<close>

section \<open>Preparing a key that designates an object\<close>

lemma denotes_unprepared_lookup:
  assumes "wf_objs s" "denotes s k p" "\<not> keyBits_IsPrepared k"
  shows "key_unprep k = Some (obOid (obj_at s p), count_for k (obj_at s p))"
    and "CheckObjectType s (obOid (obj_at s p)) (base_of (keyType k)) = Some (p, True)"
    and "keyBits_IsObjectKey k" "objH_GetBaseType (obj_at s p) = base_of (keyType k)"
proof -
  from assms(2,3) have p: "is_obj s p"
    "key_u k = U_unprep (obOid (obj_at s p)) (count_for k (obj_at s p))"
    and base: "objH_GetBaseType (obj_at s p) = base_of (keyType k)"
    by (auto simp: denotes_def)
  from p(2) show "key_unprep k = Some (obOid (obj_at s p), count_for k (obj_at s p))" by simp
  show "CheckObjectType s (obOid (obj_at s p)) (base_of (keyType k)) = Some (p, True)"
    using objH_Lookup_is_obj [OF assms(1) p(1)] base
    by (simp add: CheckObjectType_def GetObjectType_def)
  show "keyBits_IsObjectKey k" "objH_GetBaseType (obj_at s p) = base_of (keyType k)"
    using assms(2) base by (auto simp: denotes_def)
qed

lemma key_DoPrepare_complete:
  assumes "wf_objs s" "denotes s (keys s r) p" "\<not> keyBits_IsPrepared (keys s r)"
    and "\<not> objH_GetFlags (obj_at s p) OFLG_Fetching"
    and "keyBits_IsProcessType (keys s r) \<Longrightarrow> obType (obj_at s p) = ot_NtProcessRoot"
  shows "\<exists>s'. key_DoPrepare r s = Some (False, s')"
proof -
  let ?k = "keys s r"
  note look = denotes_unprepared_lookup [OF assms(1-3)]
  show ?thesis
  proof (cases "keyBits_IsProcessType ?k")
    case True
    then have base: "base_of (keyType ?k) = otNode" by (auto simp: key_kinds base_of_def)
    have "objH_isNodeType (obj_at s p)" using assms(5) [OF True] by (simp add: objH_isNodeType_def)
    then have "GetObjectCount s p (keyBits_IsType ?k KKT_Resume) = Some (count_for ?k (obj_at s p))"
      using assms(4) by (simp add: GetObjectCount_def objH_EnsureNotFetching_def count_for_def
          keyBits_IsType_def)
    with look base assms(5) [OF True] have "\<exists>s'. CheckProcessKey r s = Some (False, s')"
      by (simp add: CheckProcessKey_def node_GetProcess_def del: unprep_iff)
    with True assms(3) show ?thesis
      by (auto simp: key_DoPrepare_def DoPrepare_process_def key_kinds)
  next
    case False
    with look(3) have t: "keyType ?k \<in> {KKT_Node, KKT_Forwarder, KKT_GPT, KKT_Page}"
      by (auto simp: key_kinds)
    then have "count_for ?k (obj_at s p) = allocCount (obj_at s p)" by (auto simp: count_for_def)
    with look assms(4) have "\<exists>s'. DoPrepare_object r (base_of (keyType ?k)) s = Some (False, s')"
      by (simp add: DoPrepare_object_def DoGetObject_def GetObjectCount_def GetObject_def
          objH_EnsureNotFetching_def DoPrepare_finish_def del: unprep_iff)
    with t assms(3) show ?thesis by (auto simp: key_DoPrepare_def base_of_def)
  qed
qed

lemma denotes_unique:
  assumes "wf_objs s" "denotes s k p" "denotes s k q"
  shows "p = q"
  using assms by (auto simp: denotes_def wf_objs_def split: if_splits)

section \<open>A round trip\<close>

lemma SetPrepared_SetUnprepared:
  assumes "keyBits_IsPrepared k"
  shows "keyBits_SetPrepared ((keyBits_SetUnprepared (k\<lparr>key_u := u\<rparr>))\<lparr>key_u := key_u k\<rparr>) = k"
proof -
  have "(keyFlags k AND NOT 4) OR 4 = keyFlags k"
  proof (rule bit_word_eqI)
    fix n assume "n < LENGTH(3)"
    moreover have "bit (4 :: 3 word) n \<longleftrightarrow> n = 2" if "n < 3"
      using that by (auto simp: less_Suc_eq numeral_3_eq_3 numeral_2_eq_2)
    ultimately show "bit ((keyFlags k AND NOT 4) OR 4) n = bit (keyFlags k) n"
      using assms by (auto simp: bit_simps key_flag_bits)
  qed
  then show ?thesis
    by (cases k) (simp add: keyBits_SetPrepared_def keyBits_SetUnprepared_def KFL_PREPARED_def)
qed

section \<open>A small kernel state\<close>

text \<open>
  A state with two nodes and a page, one of the nodes the root of process 0, for evaluating the
  operations: register 1 of process 0 holds an unprepared node key, register 2 a prepared one,
  register 3 a start key whose count is out of date, registers 9 and 10 a prepared start key and
  a prepared resume key to the process itself.
\<close>

definition void_key :: KeyBits where
  "void_key = \<lparr>keyType = KKT_Void, keyFlags = 0, keyPerms = 0, keyData = 0, key_u = U_nk 0 0 0\<rparr>"

definition ex_node :: ObjectHeader where
  "ex_node = \<lparr>obType = ot_NtSegment, obFlags = 0x81, obOid = 0x500, allocCount = 3,
     callCount = 1, nodeData = 0, prep_context = 0, pageData = []\<rparr>"

definition ex_root :: ObjectHeader where
  "ex_root = \<lparr>obType = ot_NtProcessRoot, obFlags = 0x41, obOid = 0x600, allocCount = 8,
     callCount = 2, nodeData = 0, prep_context = 0, pageData = []\<rparr>"

definition ex_page :: ObjectHeader where
  "ex_page = \<lparr>obType = ot_PtDataPage, obFlags = 0x01, obOid = 0x700, allocCount = 0,
     callCount = 0, nodeData = 0, prep_context = 0, pageData = replicate 4 7\<rparr>"

definition ex_inv :: Invocation where
  "ex_inv = \<lparr>inv_flags = 0, inv_key = KReg 0 2, invType = 2, entry_code = OC_other 0, entry_w1 = 0, entry_w2 = 0, entry_w3 = 0,
     entry_data = [], entry_key = (\<lambda>i. KReg 0 (4 + i)), exit_code = RC_OK, exit_w1 = 0, exit_w2 = 0,
     exit_w3 = 0, exit_rcvLen = 0, exit_data = [], exit_pKey = (\<lambda>i. if i = 0 then Some (KReg 0 8) else None),
     sentLen = 0, invokee = None\<rparr>"

text \<open>Two processes: 0 waits (keys to it exist), 1 runs on activity 0; activity 1 is free.\<close>

definition ex_proc :: Process where
  "ex_proc = \<lparr>hazards = 0, runState = RS_Waiting, processFlags = 2, proc_readyQ = RQ_Prio 8, curActivity = None,
     trapFrame = (\<lambda>_. 0), faultCode = 0, faultInfo = 0, isUserContext = True, kernelFlags = 0\<rparr>"

definition ex_act :: Activity where
  "ex_act = \<lparr>act_q = None, act_state = act_Running, act_actHazard = actHaz_None, act_proc = Some 1, act_oid = 0,
     act_callCount = 0, act_wakeTime = 0, act_readyQ = Some (RQ_Prio 8)\<rparr>"

definition ex_sched :: sched where
  "ex_sched = \<lparr>acts = (\<lambda>a. if a = 0 then ex_act
       else ex_act\<lparr>act_q := if a = 1 then Some SQ_Free else None, act_state := act_Free, act_proc := None,
         act_readyQ := None\<rparr>),
     procs = (\<lambda>p. if p = 1 then ex_proc\<lparr>runState := RS_Running, curActivity := Some 0,
       trapFrame := (\<lambda>_. 0)(14 := 8)\<rparr> else ex_proc),
     queues = (\<lambda>_. [])(SQ_Free := [1]), numFreeActivities = 1, act_RunQueueMap = 0,
     act_curActivity = Some 0, proc_curProcess = Some 1, allocatedActivity = None, dw_reschedule = False,
     nActivity = 2\<rparr>"

definition ex_keys :: "kref \<Rightarrow> KeyBits" where
  "ex_keys = (\<lambda>_. void_key)
     (KReg 0 1 := \<lparr>keyType = KKT_Node, keyFlags = 0, keyPerms = 0, keyData = 0,
                   key_u = U_unprep 0x500 3\<rparr>,
      KReg 0 2 := \<lparr>keyType = KKT_Node, keyFlags = 4, keyPerms = 0, keyData = 0, key_u = U_ok 0\<rparr>,
      KReg 0 3 := \<lparr>keyType = KKT_Start, keyFlags = 0, keyPerms = 0, keyData = 0,
                   key_u = U_unprep 0x600 7\<rparr>,
      KReg 0 9 := \<lparr>keyType = KKT_Start, keyFlags = 4, keyPerms = 0, keyData = 0, key_u = U_gk 0\<rparr>,
      KReg 0 10 := \<lparr>keyType = KKT_Resume, keyFlags = 4, keyPerms = 0, keyData = 0,
                    key_u = U_gk 0\<rparr>)"

definition ex_kern :: kern where
  "ex_kern = \<lparr>keys = ex_keys, rings = (\<lambda>_. [])(ObjRing 0 := [KReg 0 2], ProcRing 0 := [KReg 0 9, KReg 0 10]),
     objs = (\<lambda>p. if p = 0 then ex_node else if p = 1 then ex_root else ex_page), nObjs = 3,
     obBucket = (\<lambda>b. if b = 5 then [0] else if b = 6 then [1] else if b = 7 then [2] else []),
     procRoot = (\<lambda>pr. if pr = 0 then Some 1 else None),
     k_inv = ex_inv, k_akt = (\<lambda>t. word_of_nat (kkt_num t)), log_room = True, maxNPCount = 0,
     InvocationCommitted = False,
     obRanges = ex_table, pmiEnd = (\<lambda>_. 3), k_sched = ex_sched, ReturneeSetUp = False,
     k_OC = (\<lambda>oc. case oc of OC_other n \<Rightarrow> n | _ \<Rightarrow> 1), k_RC = (\<lambda>rc. if rc = RC_OK then 0 else 1),
     rcv_mapped = (\<lambda>_ _. True),
     k_clock = \<lparr>sysT_latestTime = 1000, lastUnique = 0, monotonicTimeOfRestart = 0, restartIsDone = True, loopsPer8us = 1\<rparr>\<rparr>"

lemma ex_kern_simps [simp]:
  "keys ex_kern = ex_keys"
  "rings ex_kern = (\<lambda>_. [])(ObjRing 0 := [KReg 0 2], ProcRing 0 := [KReg 0 9, KReg 0 10])"
  "objs ex_kern = (\<lambda>p. if p = 0 then ex_node else if p = 1 then ex_root else ex_page)"
  "obj_at ex_kern p = (if p = 0 then ex_node else if p = 1 then ex_root else ex_page)"
  "nObjs ex_kern = 3"
  "obBucket ex_kern = (\<lambda>b. if b = 5 then [0] else if b = 6 then [1] else if b = 7 then [2] else [])"
  "procRoot ex_kern = (\<lambda>pr. if pr = 0 then Some 1 else None)"
  "k_inv ex_kern = ex_inv" "log_room ex_kern" "\<not> InvocationCommitted ex_kern"
  "k_sched ex_kern = ex_sched"
  by (simp_all add: ex_kern_def obj_at_def)

lemmas ex_obj_defs = ex_node_def ex_root_def ex_page_def
lemmas ex_key_defs = ex_keys_def void_key_def

lemma ex_is_obj [simp]: "is_obj ex_kern p = (p < 3)"
  by (auto simp: is_obj_def ex_obj_defs)

lemma ex_kern_inv [simp]: "kern_inv ex_kern"
proof -
  have "wf_objs ex_kern" by (auto simp: wf_objs_def ex_obj_defs bucket_ndx_def KTUNE_NOBBUCKETS_def Let_def
        split: if_splits)
  moreover have "wf_procs ex_kern" by (auto simp: wf_procs_def ex_obj_defs split: if_splits)
  moreover have "ring_ok (keys ex_kern) (rings ex_kern)"
    by (auto simp: ring_ok_def ex_key_defs key_ring_def keyBits_IsPreparedObjectKey_def key_kinds
        key_flag_bits key_pObj_def key_pContext_def res_flags_def is_resume_def)
  moreover have "wf_key ex_kern (keys ex_kern r)" for r
    by (auto simp: wf_key_def ex_key_defs ex_obj_defs key_kinds key_flag_bits
        objH_GetBaseType_def base_of_def)
  moreover have "cnt_ok ex_kern (keys ex_kern r)" for r
    by (auto simp: cnt_ok_def ex_key_defs ex_obj_defs key_kinds key_flag_bits objH_GetBaseType_def
        base_of_def count_for_def used_for_def objH_GetFlags_def OFLG_defs split: if_splits)
  ultimately show ?thesis by (simp add: kern_inv_def)
qed

lemmas prepare_defs = key_DoPrepare_def DoPrepare_object_def DoGetObject_def
  DoPrepare_process_def CheckProcessKey_def
  CheckObjectType_def GetObjectType_def objH_Lookup_def bucket_ndx_def KTUNE_NOBBUCKETS_def Let_def objH_GetBaseType_def
  GetObjectCount_def GetObject_def objH_EnsureNotFetching_def objH_GetFlags_def OFLG_defs
  DoPrepare_finish_def keyBits_IsPrepared_def KFL_PREPARED_def keyBits_SetPrepared_def
  link_insertAfter_def

lemma ex_prepare:
  "key_DoPrepare (KReg 0 1) ex_kern = Some (False, upd_key (KReg 0 1)
      \<lparr>keyType = KKT_Node, keyFlags = 4, keyPerms = 0, keyData = 0, key_u = U_ok 0\<rparr>
      (link_insertAfter (ObjRing 0) (KReg 0 1) ex_kern))"
  by (simp add: prepare_defs key_unprep_def ex_key_defs ex_obj_defs)

section \<open>Properties\<close>

text \<open>
  C28. Preparing a key either voids it, and then it designated no object (its object was
  rescinded or is of another type), or makes it a pointer to exactly the object it
  designated, with its type, permissions and data unchanged. No other key changes, and the
  kernel invariant is kept.
\<close>

theorem key_DoPrepare_correct:
  assumes "kern_inv s" "keyBits_IsObjectKey (keys s r)" "key_DoPrepare r s = Some (voided, s')"
  shows "(if voided then keyType (keys s' r) = KKT_Void \<and> (\<forall>p. \<not> denotes s (keys s r) p)
          else keyBits_IsPrepared (keys s' r)
             \<and> (\<exists>p. denotes s (keys s r) p \<and> denotes s' (keys s' r) p)
             \<and> keyType (keys s' r) = keyType (keys s r)
             \<and> keyPerms (keys s' r) = keyPerms (keys s r)
             \<and> keyData (keys s' r) = keyData (keys s r))
         \<and> (\<forall>r'. r' \<noteq> r \<longrightarrow> keys s' r' = keys s r') \<and> objs s' = objs s \<and> kern_inv s'"
proof -
  note out = key_DoPrepare_outcome [OF kern_inv_wf_objs [OF assms(1)] assms(2,3)]
  have inv: "kern_inv s'" using assms(1,3) by (rule key_DoPrepare_inv)
  show ?thesis
  proof (cases voided)
    case True
    with out inv show ?thesis by (simp add: prepare_outcome_def)
  next
    case False
    with out have pr: "prep_result s r False s'" by (simp add: prepare_outcome_def)
    with False inv prep_result_denotes [OF kern_inv_wf_procs [OF assms(1)] pr] show ?thesis
      by (auto simp: prep_result_def)
  qed
qed

theorem key_DoPrepare_correct_witness:
  "\<exists>s'. key_DoPrepare (KReg 0 1) ex_kern = Some (False, s') \<and> kern_inv s'
     \<and> (\<exists>p. denotes s' (keys s' (KReg 0 1)) p)"
proof -
  have obj: "keyBits_IsObjectKey (keys ex_kern (KReg 0 1))" by (simp add: ex_key_defs key_kinds)
  from key_DoPrepare_correct [OF ex_kern_inv obj ex_prepare] show ?thesis
    unfolding ex_prepare by (metis (no_types, lifting))
qed

text \<open>
  C29. Unpreparing a prepared, unhazarded object key succeeds and leaves a key that designates
  the same object; preparing it again succeeds and gives back exactly the keys there were, with
  the kernel invariant kept.
\<close>

theorem unprepare_prepare_roundtrip:
  assumes "kern_inv s" "keyBits_IsPreparedObjectKey (keys s r)" "\<not> keyBits_IsHazard (keys s r)"
    and "key_GetObjectPtr s (keys s r) = Some p" "\<not> objH_GetFlags (obj_at s p) OFLG_Fetching"
  shows "\<exists>s1 s2. key_NH_Unprepare r s = Some s1 \<and> \<not> keyBits_IsPrepared (keys s1 r)
    \<and> denotes s1 (keys s1 r) p \<and> key_DoPrepare r s1 = Some (False, s2) \<and> keys s2 = keys s
    \<and> kern_inv s2"
proof -
  let ?k = "keys s r"
  from key_NH_Unprepare_object [OF assms(1-3)] assms(4) obtain s1 where
    d: "denotes s ?k p" and s1: "s1 = upd_obj p (\<lambda>ob. objH_SetFlags ob (used_for ?k)) s"
    and eq: "key_NH_Unprepare r s = Some (upd_key r (keyBits_SetUnprepared
          (?k\<lparr>key_u := U_unprep (obOid (obj_at s p)) (count_for ?k (obj_at s p))\<rparr>))
          (keyBits_Unchain r s1))" (is "_ = Some ?s2")
    and base: "objH_GetBaseType (obj_at s p) = base_of (keyType ?k)"
    and root: "keyBits_IsProcessType ?k \<longrightarrow> obType (obj_at s p) = ot_NtProcessRoot"
    by (metis option.inject)
  have inv: "kern_inv ?s2" using assms(1) eq by (rule key_NH_Unprepare_inv)
  have up: "obOid (obj_at s1 p) = obOid (obj_at s p)" "is_obj s1 p = is_obj s p"
    "count_for k (obj_at s1 p) = count_for k (obj_at s p)"
    "objH_GetBaseType (obj_at s1 p) = objH_GetBaseType (obj_at s p)"
    "obType (obj_at s1 p) = obType (obj_at s p)"
    "objH_GetFlags (obj_at s1 p) OFLG_Fetching = objH_GetFlags (obj_at s p) OFLG_Fetching"
    for k
    by (simp_all add: s1 upd_obj_same_ident)
      (simp add: obj_at_upd_obj objH_GetFlags_SetFlags_other used_for_def OFLG_defs)
  have same: "obj_at ?s2 q = obj_at s1 q" for q by simp
  have obj: "keyBits_IsObjectKey (keys ?s2 r)"
    using d by (simp add: denotes_def)
  have d2: "denotes ?s2 (keys ?s2 r) p"
    using d obj base by (simp add: denotes_def up)
  obtain s3 where prep: "key_DoPrepare r ?s2 = Some (False, s3)"
    using key_DoPrepare_complete [OF kern_inv_wf_objs [OF inv] d2] assms(5) root
    by (auto simp: up)
  from key_DoPrepare_outcome [OF kern_inv_wf_objs [OF inv] obj prep]
  have "prep_result ?s2 r False s3" by (simp add: prepare_outcome_def)
  then obtain q u where q: "denotes ?s2 (keys ?s2 r) q"
    and s3: "s3 = upd_key r (keyBits_SetPrepared ((keys ?s2 r)\<lparr>key_u := u\<rparr>)) (link_prepared r u ?s2)"
    and u: "u = (if keyBits_IsProcessType (keys ?s2 r) then U_gk (prep_context (obj_at ?s2 q))
                 else U_ok q)"
    by (auto simp: prep_result_def)
  have "q = p" using kern_inv_wf_objs [OF inv] q d2 by (rule denotes_unique)
  moreover have "key_u ?k = (if keyBits_IsProcessType ?k then U_gk (prep_context (obj_at s p)) else U_ok p)"
    using kern_inv_wf_key [OF assms(1), of r] assms(2,4)
    by (auto simp: wf_key_def key_GetObjectPtr_Some keyBits_IsPreparedObjectKey_def split: if_splits)
  moreover have "prep_context (obj_at s1 p) = prep_context (obj_at s p)"
    by (simp add: s1 upd_obj_same_ident)
  ultimately have "u = key_u ?k" by (simp add: u)
  with assms(2) have "keys s3 = keys s"
    by (simp add: s3 s1 SetPrepared_SetUnprepared keyBits_IsPreparedObjectKey_def fun_eq_iff)
  moreover have "kern_inv s3" using inv prep by (rule key_DoPrepare_inv)
  ultimately show ?thesis using eq d2 prep by (intro exI [of _ ?s2] exI [of _ s3]) simp
qed

theorem unprepare_prepare_roundtrip_witness:
  "\<exists>s1 s2. key_NH_Unprepare (KReg 0 2) ex_kern = Some s1
     \<and> \<not> keyBits_IsPrepared (keys s1 (KReg 0 2))
     \<and> key_DoPrepare (KReg 0 2) s1 = Some (False, s2) \<and> keys s2 = keys ex_kern"
proof -
  let ?k = "keys ex_kern (KReg 0 2)"
  have prep: "keyBits_IsPreparedObjectKey ?k" "\<not> keyBits_IsHazard ?k"
    by (simp_all add: ex_key_defs key_kinds key_flag_bits keyBits_IsPreparedObjectKey_def)
  have ptr: "key_GetObjectPtr ex_kern ?k = Some 0"
    using prep(1) unfolding key_GetObjectPtr_Some by (simp add: ex_key_defs key_kinds)
  have "\<not> objH_GetFlags (obj_at ex_kern 0) OFLG_Fetching"
    by (simp add: ex_obj_defs objH_GetFlags_def OFLG_defs)
  from unprepare_prepare_roundtrip [OF ex_kern_inv prep ptr this] show ?thesis by blast
qed

lemma xchg_key_inv [kinv]: "kern_inv s \<Longrightarrow> kern_inv (xchg_key p slot0 slot1 s)"
  by (auto simp: xchg_key_def copy_key_def Let_def intro!: key_NH_Set_inv key_NH_SetToVoid_inv)

text \<open>
  C34. Exchanging two key registers swaps their keys (a copy never carries the hazard bits of its
  source), leaves every other register alone, never changes register 0, the void register, and
  keeps the kernel invariant, whichever registers are named, the same one twice included.
\<close>

theorem xchg_key_swaps:
  assumes "kern_inv s" "\<forall>i. \<not> keyBits_IsHazard (keys s (KReg p i))"
    and "s' = xchg_key p slot0 slot1 s"
  shows "(slot0 \<noteq> 0 \<longrightarrow> keys s' (KReg p slot0) = keys s (KReg p slot1))
    \<and> (slot1 \<noteq> 0 \<longrightarrow> keys s' (KReg p slot1) = keys s (KReg p slot0))
    \<and> keys s' (KReg p 0) = keys s (KReg p 0)
    \<and> (\<forall>r. r \<notin> {KReg p slot0, KReg p slot1, KTmp} \<longrightarrow> keys s' r = keys s r)
    \<and> kern_inv s'"
proof -
  have nh: "unhazarded (keys s (KReg p i)) = keys s (KReg p i)" for i
    using assms(2) by (simp add: unhazarded_id)
  have "kern_inv s'" using assms(1,3) by (simp add: xchg_key_inv)
  then show ?thesis
    by (auto simp: assms(3) xchg_key_def copy_key_def Let_def nh)
qed

theorem xchg_key_swaps_witness:
  "keys (xchg_key 0 1 2 ex_kern) (KReg 0 1) = ex_keys (KReg 0 2)
   \<and> keys (xchg_key 0 1 2 ex_kern) (KReg 0 2) = ex_keys (KReg 0 1)
   \<and> kern_inv (xchg_key 0 1 2 ex_kern)"
proof -
  have "\<forall>i. \<not> keyBits_IsHazard (keys ex_kern (KReg 0 i))"
    by (simp add: ex_key_defs key_flag_bits)
  from xchg_key_swaps [OF ex_kern_inv this refl, of 1 2] show ?thesis by simp
qed

end
