(* ===== verification/Key_Rings_Ops.thy ===== *)
theory Key_Rings_Ops
  imports Key_Correct
begin

text \<open>
  The operations on whole key rings of sys/kernel/kern_KeyRing.c: rescinding, unpreparing and
  moving all the keys of an object, and voiding the resume keys of a process.
\<close>

section \<open>Operations\<close>

definition key_ClearHazard :: "kref \<Rightarrow> kern \<Rightarrow> kern option" where
  "key_ClearHazard r s = (case r of KSlot p ndx \<Rightarrow> node_ClearHazard p ndx s | _ \<Rightarrow> None)"

text \<open>
  The loop looks at the first key of the ring until the ring is empty. Clearing a hazard restarts
  it. It returns when the hazards of the keys can be cleared, which is proved below.
\<close>

partial_function (option) keyR_RescindAll :: "ring_id \<Rightarrow> kern \<Rightarrow> kern option" where
  "keyR_RescindAll rid s =
     (case rings s rid of
        [] \<Rightarrow> Some s
      | pKey # _ \<Rightarrow>
          (if \<not> keyBits_IsPreparedObjectKey (keys s pKey) then None
           else if keyBits_IsHazard (keys s pKey)
           then Option.bind (key_ClearHazard pKey s) (keyR_RescindAll rid)
           else keyR_RescindAll rid (key_NH_SetToVoid pKey s)))"

partial_function (option) keyR_UnprepareAll :: "ring_id \<Rightarrow> kern \<Rightarrow> kern option" where
  "keyR_UnprepareAll rid s =
     (case rings s rid of
        [] \<Rightarrow> Some s
      | pKey # _ \<Rightarrow>
          (if \<not> keyBits_IsPreparedObjectKey (keys s pKey) then None
           else if keyBits_IsHazard (keys s pKey)
           then Option.bind (key_ClearHazard pKey s) (keyR_UnprepareAll rid)
           else Option.bind (key_NH_Unprepare pKey s) (keyR_UnprepareAll rid)))"

text \<open>
  \<^verbatim>\<open>keyR_ObjectMoved\<close> redirects the keys of the ring one by one, then moves the whole ring to
  the new object, replacing the new object's ring.
\<close>

fun ObjectMoved_keys :: "kref list \<Rightarrow> obj_ptr \<Rightarrow> kern \<Rightarrow> kern option" where
  "ObjectMoved_keys [] newObj s = Some s"
| "ObjectMoved_keys (pKey # ks) newObj s = do {
     assert_that (keyBits_IsPrepared (keys s pKey));
     s \<leftarrow> (if keyBits_IsHazard (keys s pKey) then key_ClearHazard pKey s else Some s);
     let s = upd_key pKey ((keys s pKey)\<lparr>key_u := U_ok newObj\<rparr>) s;
     ObjectMoved_keys ks newObj s }"

definition keyR_ObjectMoved :: "ring_id \<Rightarrow> obj_ptr \<Rightarrow> kern \<Rightarrow> kern option" where
  "keyR_ObjectMoved keyR newObj s = do {
     s \<leftarrow> ObjectMoved_keys (rings s keyR) newObj s;
     let chain = rings s keyR;
     let s = upd_ring keyR (\<lambda>_. []) s;
     Some (upd_ring (ObjRing newObj) (\<lambda>_. chain) s) }"

text \<open>
  The last key of the ring is a resume key. For an empty ring \<^verbatim>\<open>keyR_HasResumeKeys\<close> itself, which nothing
  calls, reads the head of the ring as a key; \<^verbatim>\<open>keyR_ZapResumeKeys\<close> makes the test below, with the empty
  ring excluded.
\<close>

definition keyR_HasResumeKeys :: "ring_id \<Rightarrow> kern \<Rightarrow> bool" where
  "keyR_HasResumeKeys rid s =
     (rings s rid \<noteq> [] \<and> keyBits_IsPreparedResumeKey (keys s (last (rings s rid))))"

text \<open>
  \<^verbatim>\<open>keyR_ZapResumeKeys\<close> goes backwards from the end of the ring: it stops at the first key that
  is not a resume key.
\<close>

function (sequential) keyR_ZapResumeKeys :: "ring_id \<Rightarrow> kern \<Rightarrow> kern option" where
  "keyR_ZapResumeKeys rid s =
     (if keyR_HasResumeKeys rid s then
        (let pKey = last (rings s rid) in
         if keyBits_IsHazard (keys s pKey) then None
         else let s = upd_ring rid butlast s;
                  s = upd_key pKey (keyBits_InitToVoid (keys s pKey)) s
              in keyR_ZapResumeKeys rid s)
      else Some s)"
  by pat_completeness auto
termination
  by (relation "measure (\<lambda>(rid, s). length (rings s rid))") (auto simp: keyR_HasResumeKeys_def)

declare keyR_ZapResumeKeys.simps [simp del]

text \<open>The validity check of a ring that the debug build makes.\<close>

definition keyR_IsValid :: "ring_id \<Rightarrow> kern \<Rightarrow> bool" where
  "keyR_IsValid rid s = list_all (\<lambda>r. key_ring (keys s r) = Some rid) (rings s rid)"

section \<open>Hazards\<close>

text \<open>
  Hazards of keys that are used to build mapping tables; these can be cleared. (The other
  hazards are on the slots of process nodes whose contents are in the process structure.)
\<close>

definition mapping_hazard :: "kern \<Rightarrow> kref \<Rightarrow> bool" where
  "mapping_hazard s r =
     (case r of
        KSlot p ndx \<Rightarrow>
          (obType (obj_at s p) = ot_NtSegment \<and> \<not> keyBits_IsRdHazard (keys s r)
           \<or> obType (obj_at s p) = ot_NtProcessRoot \<and> ndx = ProcAddrSpace)
      | _ \<Rightarrow> False)"

definition clearable :: "kern \<Rightarrow> bool" where
  "clearable s = (\<forall>r. keyBits_IsHazard (keys s r) \<longrightarrow> mapping_hazard s r)"

lemma key_ClearHazard_mapping:
  assumes "keyBits_IsHazard (keys s r)" "mapping_hazard s r"
  shows "key_ClearHazard r s = Some (upd_key r (unhazarded (keys s r)) s)"
  using assms
  by (auto simp: key_ClearHazard_def mapping_hazard_def node_ClearHazard_def UnHazard_unhazarded
      Let_def split: kref.splits)

lemma node_ClearHazard_eq:
  assumes "node_ClearHazard p ndx s = Some s'"
  shows "s' = s \<and> \<not> keyBits_IsHazard (keys s (KSlot p ndx))
    \<or> s' = upd_key (KSlot p ndx) (unhazarded (keys s (KSlot p ndx))) s"
  using assms
  by (auto simp: node_ClearHazard_def UnHazard_unhazarded Let_def split: ObType.splits if_splits)

lemma clearable_upd:
  assumes "clearable s" "\<not> keyBits_IsHazard k" "keys s' = (keys s)(r := k)" "objs s' = objs s"
  shows "clearable s'"
  using assms by (auto simp: clearable_def mapping_hazard_def obj_at_def split: kref.splits)

lemma kern_inv_unhazarded:
  assumes "kern_inv s"
  shows "kern_inv (upd_key r (unhazarded (keys s r)) s)"
  using assms by (auto intro!: kern_inv_upd_key simp: kern_inv_wf_key kern_inv_cnt_ok)

lemma node_ClearHazard_inv [kinv]:
  "kern_inv s \<Longrightarrow> node_ClearHazard p ndx s = Some s' \<Longrightarrow> kern_inv s'"
  using node_ClearHazard_eq [of p ndx s s'] by (auto intro: kern_inv_unhazarded)

section \<open>Rescinding a ring\<close>

lemma InitToVoid_void_key [simp]: "keyBits_InitToVoid k = void_key"
  by (cases k) (simp add: keyBits_InitToVoid_def keyBits_InitType_def void_key_def)

lemma void_key_simps [simp]:
  "keyType void_key = KKT_Void" "key_ring void_key = None" "\<not> keyBits_IsHazard void_key"
  "\<not> keyBits_IsPrepared void_key" "\<not> keyBits_IsObjectKey void_key"
  by (simp_all add: void_key_def key_ring_def keyBits_IsPreparedObjectKey_def key_kinds
      key_flag_bits)

lemma key_ring_Some_prepared: "key_ring k = Some rid \<Longrightarrow> keyBits_IsPreparedObjectKey k"
  by (auto simp: key_ring_def split: if_splits)

text \<open>One turn of the loop, both for a hazarded key and for one that is not.\<close>

lemma keyR_RescindAll_step:
  assumes "ring_ok (keys s) (rings s)" "clearable s" "rings s rid = r # rs"
  shows "\<exists>s1. keyR_RescindAll rid s = keyR_RescindAll rid s1 \<and> ring_ok (keys s1) (rings s1)
    \<and> clearable s1 \<and> rings s1 = (rings s)(rid := rs) \<and> only_key r s s1 \<and> keys s1 r = void_key"
proof -
  have ring: "key_ring (keys s r) = Some rid" using ring_okD(2) [OF assms(1), of r rid] assms(3) by simp
  note prep = key_ring_Some_prepared [OF ring]
  define s0 where "s0 = (if keyBits_IsHazard (keys s r) then upd_key r (unhazarded (keys s r)) s else s)"
  have s0: "rings s0 = rings s" "objs s0 = objs s" "only_key r s s0" "\<not> keyBits_IsHazard (keys s0 r)"
    "key_ring (keys s0 r) = Some rid" "is_resume (keys s0 r) = is_resume (keys s r)"
    using ring by (simp_all add: s0_def only_key_def)
  have "clearable s0"
    using assms(2) clearable_upd [of s "unhazarded (keys s r)" "upd_key r (unhazarded (keys s r)) s" r]
    by (simp add: s0_def)
  have ok0: "ring_ok (keys s0) (rings s0)"
    using same_ring_ok [OF assms(1), of "unhazarded (keys s r)" r] assms(1) by (simp add: s0_def)
  have eq0: "keyR_RescindAll rid s = keyR_RescindAll rid s0"
  proof (cases "keyBits_IsHazard (keys s r)")
    case True
    with assms(2) have "mapping_hazard s r" by (simp add: clearable_def)
    with True prep assms(3) show ?thesis
      by (simp add: keyR_RescindAll.simps [of rid s] key_ClearHazard_mapping s0_def)
  qed (simp add: s0_def)
  have "keyR_RescindAll rid s0 = keyR_RescindAll rid (key_NH_SetToVoid r s0)"
    using s0 assms(3) key_ring_Some_prepared [OF s0(5)]
    by (simp add: keyR_RescindAll.simps [of rid s0])
  moreover have "ring_ok (keys (key_NH_SetToVoid r s0)) (rings (key_NH_SetToVoid r s0))"
    using unchain_ok [OF ok0] by simp
  moreover have "clearable (key_NH_SetToVoid r s0)"
    using \<open>clearable s0\<close> by (rule clearable_upd) simp_all
  ultimately show ?thesis
    using s0 assms(3) eq0
    by (intro exI [of _ "key_NH_SetToVoid r s0"]) (simp add: unchain_def only_key_def)
qed

definition void_ring :: "kref list \<Rightarrow> kern \<Rightarrow> kern \<Rightarrow> bool" where
  "void_ring rs s s' =
     (objs s' = objs s \<and> nObjs s' = nObjs s \<and> obBucket s' = obBucket s \<and> procRoot s' = procRoot s \<and> k_inv s' = k_inv s
      \<and> k_akt s' = k_akt s \<and> log_room s' = log_room s \<and> maxNPCount s' = maxNPCount s
      \<and> k_sched s' = k_sched s
      \<and> keys s' = (\<lambda>r. if r \<in> set rs then void_key else keys s r))"

lemma void_ringD:
  assumes "void_ring rs s s'"
  shows "objs s' = objs s" "nObjs s' = nObjs s" "procRoot s' = procRoot s" "k_inv s' = k_inv s"
    "k_akt s' = k_akt s" "log_room s' = log_room s" "maxNPCount s' = maxNPCount s"
    "keys s' = (\<lambda>r. if r \<in> set rs then void_key else keys s r)" "obj_at s' p = obj_at s p"
    "is_obj s' p = is_obj s p" "obBucket s' = obBucket s" "k_sched s' = k_sched s"
  using assms by (auto simp: void_ring_def obj_at_def is_obj_def)

lemma keyR_RescindAll_result:
  assumes "ring_ok (keys s) (rings s)" "clearable s"
  shows "\<exists>s'. keyR_RescindAll rid s = Some s' \<and> void_ring (rings s rid) s s'
    \<and> rings s' = (rings s)(rid := []) \<and> ring_ok (keys s') (rings s') \<and> clearable s'"
  using assms
proof (induction "rings s rid" arbitrary: s)
  case Nil
  then have "keyR_RescindAll rid s = Some s" by (simp add: keyR_RescindAll.simps [of rid s])
  moreover have "(rings s)(rid := []) = rings s" using Nil(1) by auto
  ultimately show ?case using Nil by (simp add: void_ring_def)
next
  case (Cons r rs)
  from keyR_RescindAll_step [OF Cons(3,4) Cons(2) [symmetric]] obtain s1
    where s1: "keyR_RescindAll rid s = keyR_RescindAll rid s1" "ring_ok (keys s1) (rings s1)"
      "clearable s1" "rings s1 = (rings s)(rid := rs)" "only_key r s s1" "keys s1 r = void_key"
    by blast
  from s1(4) have rs: "rs = rings s1 rid" by simp
  from Cons(1) [OF rs s1(2,3)] obtain s' where "keyR_RescindAll rid s1 = Some s'"
    "void_ring rs s1 s'" "rings s' = (rings s1)(rid := [])" "ring_ok (keys s') (rings s')"
    "clearable s'"
    by (auto simp: rs)
  moreover from this(2) s1(5,6) Cons(2) have "void_ring (rings s rid) s s'"
    by (auto simp: void_ring_def only_key_def fun_eq_iff simp flip: Cons(2))
  ultimately show ?case using s1 by auto
qed

lemma void_ring_inv:
  assumes "kern_inv s" "void_ring rs s s'" "ring_ok (keys s') (rings s')"
  shows "kern_inv s'"
  using assms key_props_cong [of s' s] by (auto simp: kern_inv_def void_ring_def)

section \<open>Resume keys\<close>

lemma sorted_bool_last:
  assumes "sorted bs" "bs \<noteq> []" "\<not> last bs" "b \<in> set bs"
  shows "\<not> b"
proof
  assume b
  with assms(4) obtain i where i: "i < length bs" "bs ! i" by (auto simp: in_set_conv_nth)
  moreover from assms(2) have "last bs = bs ! (length bs - 1)" by (simp add: last_conv_nth)
  moreover have "bs ! i \<le> bs ! (length bs - 1)" using assms(1) i by (intro sorted_nth_mono) auto
  ultimately show False using assms(3) by simp
qed

lemma HasResumeKeys_iff:
  assumes "ring_ok (keys s) (rings s)"
  shows "keyR_HasResumeKeys rid s = (\<exists>r \<in> set (rings s rid). is_resume (keys s r))"
proof (cases "rings s rid = []")
  case False
  let ?xs = "rings s rid"
  have prep: "keyBits_IsPrepared (keys s r)" if "r \<in> set ?xs" for r
    using ring_okD(2) [OF assms, of r rid] that key_ring_Some_prepared
    by (auto simp: keyBits_IsPreparedObjectKey_def)
  have last: "last (res_flags (keys s) ?xs) = is_resume (keys s (last ?xs))"
    using False by (simp add: res_flags_def last_map)
  have "\<not> is_resume (keys s r)" if "r \<in> set ?xs" "\<not> is_resume (keys s (last ?xs))" for r
    using sorted_bool_last [OF ring_okD(3) [OF assms, of rid], of "is_resume (keys s r)"] False that
      last by (auto simp: res_flags_def)
  with False prep show ?thesis
    by (auto simp: keyR_HasResumeKeys_def keyBits_IsPreparedResumeKey_def keyBits_IsType_def
        is_resume_def dest: last_in_set)
qed (simp add: keyR_HasResumeKeys_def)

lemma chain_off_last:
  assumes "ring_ok K R" "R rid = xs @ [r]"
  shows "ring_ok (K(r := void_key)) (R(rid := xs))"
proof -
  have ring: "key_ring (K r) = Some rid" using ring_okD(2) [OF assms(1), of r rid] assms(2) by simp
  have "distinct (xs @ [r])" using ring_okD(1) [OF assms(1), of rid] assms(2) by simp
  then have "unchain r (K r) R = R(rid := xs)"
    using ring assms(2) by (simp add: unchain_def remove1_append)
  with unchain_ok [OF assms(1), of void_key r] show ?thesis by simp
qed

lemma keyR_ZapResumeKeys_result:
  assumes "ring_ok (keys s) (rings s)"
    and "\<forall>r \<in> set (rings s rid). is_resume (keys s r) \<longrightarrow> \<not> keyBits_IsHazard (keys s r)"
  shows "\<exists>s'. keyR_ZapResumeKeys rid s = Some s'
    \<and> void_ring (filter (\<lambda>r. is_resume (keys s r)) (rings s rid)) s s'
    \<and> rings s' = (rings s)(rid := filter (\<lambda>r. \<not> is_resume (keys s r)) (rings s rid))
    \<and> ring_ok (keys s') (rings s')"
  using assms
proof (induction "rings s rid" arbitrary: s rule: rev_induct)
  case Nil
  then have "(rings s)(rid := []) = rings s" by auto
  with Nil show ?case
    by (simp add: keyR_ZapResumeKeys.simps [of rid s] keyR_HasResumeKeys_def void_ring_def)
next
  case (snoc r rs)
  show ?case
  proof (cases "is_resume (keys s r)")
    case False
    then have last: "\<not> keyR_HasResumeKeys rid s"
      by (simp add: keyR_HasResumeKeys_def is_resume_def keyBits_IsPreparedResumeKey_def
          keyBits_IsType_def flip: snoc(2))
    then have none: "\<not> is_resume (keys s r')" if "r' \<in> set (rings s rid)" for r'
      using HasResumeKeys_iff [OF snoc(3), of rid] that by auto
    then have "filter (\<lambda>r. \<not> is_resume (keys s r)) (rings s rid) = rings s rid"
      "filter (\<lambda>r. is_resume (keys s r)) (rings s rid) = []"
      by (auto simp: filter_id_conv filter_empty_conv)
    with last snoc(3) show ?thesis
      by (simp add: keyR_ZapResumeKeys.simps [of rid s] void_ring_def)
  next
    case True
    let ?s = "upd_key r void_key (upd_ring rid butlast s)"
    have has: "keyR_HasResumeKeys rid s"
      using HasResumeKeys_iff [OF snoc(3), of rid] True by (auto simp flip: snoc(2))
    have "\<not> keyBits_IsHazard (keys s r)" using snoc(4) True by (auto simp flip: snoc(2))
    with has have step: "keyR_ZapResumeKeys rid s = keyR_ZapResumeKeys rid ?s"
      by (simp add: keyR_ZapResumeKeys.simps [of rid s] flip: snoc(2))
    have ok: "ring_ok (keys ?s) (rings ?s)"
      using chain_off_last [OF snoc(3) snoc(2) [symmetric]] by (simp flip: snoc(2))
    have rs: "rs = rings ?s rid" by (simp flip: snoc(2))
    have dist: "r \<notin> set rs" using ring_okD(1) [OF snoc(3), of rid] by (simp flip: snoc(2))
    then have same: "keys ?s r' = keys s r'" if "r' \<in> set rs" for r' using that by auto
    have "\<forall>r \<in> set (rings ?s rid). is_resume (keys ?s r) \<longrightarrow> \<not> keyBits_IsHazard (keys ?s r)"
      using snoc(4) same by (simp flip: snoc(2))
    from snoc(1) [OF rs ok this, folded rs] obtain s' where s': "keyR_ZapResumeKeys rid ?s = Some s'"
      "void_ring (filter (\<lambda>r. is_resume (keys ?s r)) rs) ?s s'"
      "rings s' = (rings ?s)(rid := filter (\<lambda>r. \<not> is_resume (keys ?s r)) rs)"
      "ring_ok (keys s') (rings s')"
      by blast
    have flt: "filter (\<lambda>r. is_resume (keys ?s r)) rs = filter (\<lambda>r. is_resume (keys s r)) rs"
      "filter (\<lambda>r. \<not> is_resume (keys ?s r)) rs = filter (\<lambda>r. \<not> is_resume (keys s r)) rs"
      using dist by (auto intro!: filter_cong)
    have "void_ring (filter (\<lambda>r. is_resume (keys s r)) (rings s rid)) s s'"
      using s'(2) True unfolding flt by (auto simp: void_ring_def fun_eq_iff simp flip: snoc(2))
    moreover have "rings s' = (rings s)(rid := filter (\<lambda>r. \<not> is_resume (keys s r)) (rings s rid))"
      using s'(3) True unfolding flt by (simp flip: snoc(2))
    ultimately show ?thesis using step s' by auto
  qed
qed

text \<open>
  C30. Invoking a process voids its resume keys: \<^verbatim>\<open>keyR_ZapResumeKeys\<close>, which stops at the first
  key from the end of the ring that is not a resume key, nevertheless voids every prepared resume
  key of the process, and nothing else. This rests on the invariant that the resume keys are at
  the end of the ring.
\<close>

theorem ZapResumeKeys_zaps_all:
  assumes "kern_inv s"
    and "\<forall>r. key_ring (keys s r) = Some rid \<and> is_resume (keys s r) \<longrightarrow> \<not> keyBits_IsHazard (keys s r)"
  shows "\<exists>s'. keyR_ZapResumeKeys rid s = Some s'
    \<and> (\<forall>r. keys s' r = (if key_ring (keys s r) = Some rid \<and> is_resume (keys s r)
                        then void_key else keys s r))
    \<and> \<not> keyR_HasResumeKeys rid s' \<and> objs s' = objs s \<and> kern_inv s'"
proof -
  note ring = kern_inv_ring [OF assms(1)]
  have "\<forall>r \<in> set (rings s rid). is_resume (keys s r) \<longrightarrow> \<not> keyBits_IsHazard (keys s r)"
    using assms(2) ring_okD(2) [OF ring] by simp
  from keyR_ZapResumeKeys_result [OF ring this] obtain s' where s': "keyR_ZapResumeKeys rid s = Some s'"
    "void_ring (filter (\<lambda>r. is_resume (keys s r)) (rings s rid)) s s'"
    "rings s' = (rings s)(rid := filter (\<lambda>r. \<not> is_resume (keys s r)) (rings s rid))"
    "ring_ok (keys s') (rings s')"
    by blast
  have keys: "keys s' r = (if key_ring (keys s r) = Some rid \<and> is_resume (keys s r)
      then void_key else keys s r)" for r
    using void_ringD(8) [OF s'(2)] ring_okD(2) [OF ring, of r rid] by auto
  moreover have "\<not> keyR_HasResumeKeys rid s'"
    unfolding HasResumeKeys_iff [OF s'(4)] using keys s'(3) by (auto simp: is_resume_def)
  moreover have "kern_inv s'" using assms(1) s'(2,4) by (rule void_ring_inv)
  ultimately show ?thesis using s'(1) void_ringD(1) [OF s'(2)] by auto
qed

theorem ZapResumeKeys_zaps_all_witness:
  "\<exists>s'. keyR_ZapResumeKeys (ProcRing 0) ex_kern = Some s' \<and> keys s' (KReg 0 10) = void_key
     \<and> keys s' (KReg 0 9) = ex_keys (KReg 0 9) \<and> kern_inv s'"
proof -
  have "\<forall>r. key_ring (keys ex_kern r) = Some (ProcRing 0) \<and> is_resume (keys ex_kern r)
      \<longrightarrow> \<not> keyBits_IsHazard (keys ex_kern r)"
    by (simp add: ex_key_defs key_flag_bits)
  from ZapResumeKeys_zaps_all [OF ex_kern_inv this] show ?thesis
    by (auto simp: ex_key_defs key_ring_def keyBits_IsPreparedObjectKey_def key_kinds key_flag_bits
        key_pContext_def is_resume_def)
qed

end
