(* ===== verification/Sched_Inv.thy ===== *)
theory Sched_Inv
  imports Sched
begin

text \<open>
  The invariant of the activities and their queues, what each operation of the scheduler keeps of
  it, and what the choice of the next activity is.
\<close>

section \<open>The invariant\<close>

text \<open>
  The queues are what the links of the activities say. An activity that has been taken off its
  queue and not put anywhere yet is \<^emph>\<open>loose\<close>: \<open>L\<close> is the set of these.
\<close>

definition queues_ok :: "sched \<Rightarrow> bool" where
  "queues_ok x = ((\<forall>q. distinct (queues x q))
     \<and> (\<forall>a q. (a \<in> set (queues x q)) = (act_q (acts x a) = Some q))
     \<and> (\<forall>a. act_q (acts x a) \<noteq> None \<longrightarrow> a < nActivity x))"

fun sleepable :: "stall_q \<Rightarrow> bool" where
  "sleepable (SQ_Proc p) = True"
| "sleepable (SQ_Obj i) = True"
| "sleepable _ = False"

definition state_ok :: "act_ptr option \<Rightarrow> act_ptr \<Rightarrow> Activity \<Rightarrow> bool" where
  "state_ok cur a t = (case act_state t of
       act_Free \<Rightarrow> act_q t = Some SQ_Free \<and> act_proc t = None
     | act_Ready \<Rightarrow> (\<exists>r. act_q t = Some (SQ_Ready r) \<and> act_readyQ t = Some r)
     | act_Running \<Rightarrow> act_q t = None \<and> cur = Some a \<and> act_readyQ t \<noteq> None
     | act_Stall \<Rightarrow> (\<exists>q. act_q t = Some q \<and> sleepable q) \<and> act_readyQ t \<noteq> None
     | act_Sleeping \<Rightarrow> act_q t = Some SQ_Sleep \<and> act_readyQ t \<noteq> None)"

definition states_ok :: "act_ptr set \<Rightarrow> sched \<Rightarrow> bool" where
  "states_ok L x = ((\<forall>a\<in>L. act_q (acts x a) = None \<and> a < nActivity x)
     \<and> (\<forall>a < nActivity x. a \<notin> L \<longrightarrow> state_ok (act_curActivity x) a (acts x a)))"

definition pairs_ok :: "act_ptr set \<Rightarrow> sched \<Rightarrow> bool" where
  "pairs_ok L x = ((\<forall>p a. curActivity (procs x p) = Some a \<longrightarrow> act_proc (acts x a) = Some p)
     \<and> (\<forall>a p. a \<notin> L \<longrightarrow> act_proc (acts x a) = Some p \<longrightarrow> curActivity (procs x p) = Some a))"

text \<open>A queue of ready activities that is not empty is one the scheduler looks at.\<close>

definition run_ok :: "sched \<Rightarrow> bool" where
  "run_ok x = (\<forall>r. queues x (SQ_Ready r) \<noteq> [] \<longrightarrow>
     (\<exists>n. r = RQ_Prio n \<and> n \<le> capros_SchedC_Priority_Max \<and> n \<noteq> pr_Reserve \<and> bit (act_RunQueueMap x) n))"

definition sleepers_ok :: "sched \<Rightarrow> bool" where
  "sleepers_ok x = sorted (map (\<lambda>a. act_wakeTime (acts x a)) (queues x SQ_Sleep))"

definition free_ok :: "sched \<Rightarrow> bool" where
  "free_ok x = (numFreeActivities x = length (queues x SQ_Free))"

definition sched_inv :: "act_ptr set \<Rightarrow> sched \<Rightarrow> bool" where
  "sched_inv L x = (queues_ok x \<and> states_ok L x \<and> pairs_ok L x \<and> run_ok x \<and> sleepers_ok x \<and> free_ok x)"

lemma sched_invI:
  "queues_ok x \<Longrightarrow> states_ok L x \<Longrightarrow> pairs_ok L x \<Longrightarrow> run_ok x \<Longrightarrow> sleepers_ok x \<Longrightarrow> free_ok x \<Longrightarrow> sched_inv L x"
  by (simp add: sched_inv_def)

lemma sched_invD:
  assumes "sched_inv L x"
  shows "queues_ok x" "states_ok L x" "pairs_ok L x" "run_ok x" "sleepers_ok x" "free_ok x"
  using assms by (simp_all add: sched_inv_def)

lemma sched_inv_queue:
  "sched_inv L x \<Longrightarrow> (a \<in> set (queues x q)) = (act_q (acts x a) = Some q)"
  by (simp add: sched_inv_def queues_ok_def)

lemma sched_inv_queued: "sched_inv L x \<Longrightarrow> act_q (acts x a) = Some q \<Longrightarrow> a < nActivity x"
  unfolding sched_inv_def queues_ok_def by (metis option.distinct(1))

lemma sched_inv_loose: "sched_inv L x \<Longrightarrow> a \<in> L \<Longrightarrow> act_q (acts x a) = None"
  by (simp add: sched_inv_def states_ok_def)

lemma sched_inv_loose_less: "sched_inv L x \<Longrightarrow> a \<in> L \<Longrightarrow> a < nActivity x"
  by (simp add: sched_inv_def states_ok_def)

lemma sched_inv_state: "sched_inv L x \<Longrightarrow> a < nActivity x \<Longrightarrow> a \<notin> L \<Longrightarrow> state_ok (act_curActivity x) a (acts x a)"
  by (simp add: sched_inv_def states_ok_def)

lemma sched_inv_readyQ:
  assumes "sched_inv L x" "a < nActivity x" "a \<notin> L" "act_state (acts x a) \<noteq> act_Free"
  shows "\<exists>r. act_readyQ (acts x a) = Some r"
  using sched_inv_state [OF assms(1,2,3)] assms(4)
  by (cases "act_state (acts x a)") (auto simp: state_ok_def)

text \<open>What the parts of the invariant depend on.\<close>

lemma queues_ok_cong:
  "queues x' = queues x \<Longrightarrow> (\<And>a. act_q (acts x' a) = act_q (acts x a)) \<Longrightarrow> nActivity x' = nActivity x
    \<Longrightarrow> queues_ok x' = queues_ok x"
  by (simp add: queues_ok_def)

lemma sleepers_ok_cong:
  assumes "queues x' SQ_Sleep = queues x SQ_Sleep"
    "\<And>a. a \<in> set (queues x SQ_Sleep) \<Longrightarrow> act_wakeTime (acts x' a) = act_wakeTime (acts x a)"
  shows "sleepers_ok x' = sleepers_ok x"
proof -
  have "map (\<lambda>a. act_wakeTime (acts x' a)) (queues x SQ_Sleep) = map (\<lambda>a. act_wakeTime (acts x a)) (queues x SQ_Sleep)"
    using assms(2) by (intro map_cong) simp_all
  then show ?thesis unfolding sleepers_ok_def assms(1) by (simp only:)
qed

lemma pairs_ok_same:
  assumes "pairs_ok L x" "L \<subseteq> L'" "\<And>p. curActivity (procs x' p) = curActivity (procs x p)"
    "\<And>a. act_proc (acts x' a) = act_proc (acts x a)"
  shows "pairs_ok L' x'"
  using assms(1,2) unfolding pairs_ok_def assms(3,4) by blast

lemma pairs_okI:
  assumes "\<And>p a. curActivity (procs x p) = Some a \<Longrightarrow> act_proc (acts x a) = Some p"
    and "\<And>p a. act_proc (acts x a) = Some p \<Longrightarrow> a \<notin> L \<Longrightarrow> curActivity (procs x p) = Some a"
  shows "pairs_ok L x"
  using assms unfolding pairs_ok_def by blast

lemma pairs_okD:
  assumes "pairs_ok L x"
  shows "curActivity (procs x p) = Some a \<Longrightarrow> act_proc (acts x a) = Some p"
    and "a \<notin> L \<Longrightarrow> act_proc (acts x a) = Some p \<Longrightarrow> curActivity (procs x p) = Some a"
  using assms unfolding pairs_ok_def by blast+

lemma run_ok_cong:
  "(\<And>r. queues x' (SQ_Ready r) = queues x (SQ_Ready r)) \<Longrightarrow> act_RunQueueMap x' = act_RunQueueMap x \<Longrightarrow> run_ok x' = run_ok x"
  by (simp add: run_ok_def)

lemma free_ok_cong:
  "queues x' SQ_Free = queues x SQ_Free \<Longrightarrow> numFreeActivities x' = numFreeActivities x \<Longrightarrow> free_ok x' = free_ok x"
  by (simp add: free_ok_def)

section \<open>Links\<close>

lemma link_Unlink_simps [simp]:
  "procs (link_Unlink t x) = procs x" "act_RunQueueMap (link_Unlink t x) = act_RunQueueMap x"
  "act_curActivity (link_Unlink t x) = act_curActivity x"
  "proc_curProcess (link_Unlink t x) = proc_curProcess x"
  "allocatedActivity (link_Unlink t x) = allocatedActivity x"
  "numFreeActivities (link_Unlink t x) = numFreeActivities x" "nActivity (link_Unlink t x) = nActivity x"
  "acts (link_Unlink t x) = (acts x)(t := (acts x t)\<lparr>act_q := None\<rparr>)"
  by (auto simp: link_Unlink_def split: option.splits)

lemma link_Unlink_queues:
  assumes "queues_ok x"
  shows "queues (link_Unlink t x) = (\<lambda>q. remove1 t (queues x q))"
  using assms by (auto simp: link_Unlink_def queues_ok_def fun_eq_iff remove1_idem split: option.splits)

lemma queues_ok_Unlink: "queues_ok x \<Longrightarrow> queues_ok (link_Unlink t x)"
  by (simp add: queues_ok_def [of "link_Unlink t x"] link_Unlink_queues) (auto simp: queues_ok_def)

lemma sched_inv_Unlink:
  assumes "sched_inv L x" "act_q (acts x t) \<noteq> Some SQ_Free" "t < nActivity x"
  shows "sched_inv (insert t L) (link_Unlink t x)"
proof -
  note D = sched_invD [OF assms(1)]
  have "t \<notin> set (queues x SQ_Free)" using assms by (simp add: sched_inv_queue)
  then have "free_ok (link_Unlink t x)" using D(6)
    by (simp add: free_ok_def link_Unlink_queues [OF D(1)] remove1_idem)
  moreover have "states_ok (insert t L) (link_Unlink t x)" using D(2) assms(3) by (simp add: states_ok_def)
  moreover have "pairs_ok (insert t L) (link_Unlink t x)" by (rule pairs_ok_same [OF D(3)]) auto
  moreover have "run_ok (link_Unlink t x)"
    unfolding run_ok_def
  proof (intro allI impI)
    fix r assume "queues (link_Unlink t x) (SQ_Ready r) \<noteq> []"
    then have "queues x (SQ_Ready r) \<noteq> []" by (cases "queues x (SQ_Ready r)") (simp_all add: link_Unlink_queues [OF D(1)])
    with D(4) show "\<exists>n. r = RQ_Prio n \<and> n \<le> capros_SchedC_Priority_Max \<and> n \<noteq> pr_Reserve
        \<and> bit (act_RunQueueMap (link_Unlink t x)) n" by (simp add: run_ok_def)
  qed
  moreover have "sleepers_ok (link_Unlink t x)"
  proof -
    have "(\<lambda>a. act_wakeTime (((acts x)(t := (acts x t)\<lparr>act_q := None\<rparr>)) a)) = (\<lambda>a. act_wakeTime (acts x a))"
      by auto
    then show ?thesis using D(5)
      by (simp add: sleepers_ok_def link_Unlink_queues [OF D(1)] sorted_remove1_map)
  qed
  ultimately show ?thesis using queues_ok_Unlink [OF D(1)] by (simp add: sched_inv_def)
qed

text \<open>Changing a loose activity.\<close>

lemma sched_inv_upd_loose:
  assumes "sched_inv L x" "a \<in> L" "act_q (f (acts x a)) = None"
    and "\<And>p. curActivity (procs x p) = Some a \<Longrightarrow> act_proc (f (acts x a)) = Some p"
  shows "sched_inv L (upd_act a f x)"
proof -
  note D = sched_invD [OF assms(1)]
  have q: "act_q (acts x a) = None" using assms(1,2) by (rule sched_inv_loose)
  have "a \<notin> set (queues x SQ_Sleep)" using q by (simp add: sched_inv_queue [OF assms(1)])
  then have "act_wakeTime (acts (upd_act a f x) b) = act_wakeTime (acts x b)" if "b \<in> set (queues x SQ_Sleep)" for b
    using that by auto
  then have "sleepers_ok (upd_act a f x)" using D(5) sleepers_ok_cong [of "upd_act a f x" x] by simp
  moreover have "queues_ok (upd_act a f x)" using D(1) assms(3) q queues_ok_cong [of "upd_act a f x" x] by simp
  moreover have "states_ok L (upd_act a f x)" using D(2) assms(2,3) by (simp add: states_ok_def)
  moreover have "pairs_ok L (upd_act a f x)"
  proof (rule pairs_okI)
    fix p b assume "curActivity (procs (upd_act a f x) p) = Some b"
    then show "act_proc (acts (upd_act a f x) b) = Some p"
      by (cases "b = a") (simp_all add: assms(4) pairs_okD(1) [OF D(3)])
  next
    fix p b assume "act_proc (acts (upd_act a f x) b) = Some p" "b \<notin> L"
    then show "curActivity (procs (upd_act a f x) p) = Some b"
      using assms(2) by (cases "b = a") (simp_all add: pairs_okD(2) [OF D(3)])
  qed
  moreover have "run_ok (upd_act a f x)" "free_ok (upd_act a f x)" using D(4,6)
    by (simp_all add: run_ok_def free_ok_def)
  ultimately show ?thesis by (simp add: sched_inv_def)
qed

section \<open>Queues\<close>

text \<open>Putting a loose activity on a queue.\<close>

lemma act_Enqueue_Some:
  "act_Enqueue t q x = Some x' \<longleftrightarrow> act_q (acts x t) = None
     \<and> x' = upd_act t (act_q_update (\<lambda>_. Some q)) (x\<lparr>queues := (queues x)(q := queues x q @ [t])\<rparr>)"
  by (auto simp: act_Enqueue_def)

lemma queues_ok_append:
  assumes "queues_ok x" "act_q (acts x t) = None" "act_q u = Some q" "t < nActivity x" "nActivity x' = nActivity x"
    and "queues x' = (queues x)(q := queues x q @ [t])" "acts x' = (acts x)(t := u)"
  shows "queues_ok x'"
  using assms by (auto simp: queues_ok_def)

lemma sched_inv_ready:
  assumes "sched_inv L x" "t \<in> L" "act_readyQ (acts x t) = Some (RQ_Prio n)"
    and "n \<le> capros_SchedC_Priority_Max" "n \<noteq> pr_Reserve" "n < 32"
    and "\<And>p. act_proc (acts x t) = Some p \<Longrightarrow> curActivity (procs x p) = Some t"
  shows "sched_inv (L - {t}) (upd_act t (\<lambda>a. a\<lparr>act_q := Some (SQ_Ready (RQ_Prio n)), act_state := act_Ready\<rparr>)
    (x\<lparr>act_RunQueueMap := act_RunQueueMap x OR push_bit n 1,
       queues := (queues x)(SQ_Ready (RQ_Prio n) := queues x (SQ_Ready (RQ_Prio n)) @ [t])\<rparr>))"
    (is "sched_inv _ ?x")
proof (rule sched_invI)
  note D = sched_invD [OF assms(1)]
  have q: "act_q (acts x t) = None" using assms(1,2) by (rule sched_inv_loose)
  have tn: "t < nActivity x" using assms(1,2) by (rule sched_inv_loose_less)
  show "queues_ok ?x" using tn by (intro queues_ok_append [OF D(1) q]) simp_all
  show "states_ok (L - {t}) ?x" using D(2) assms(3) by (simp add: states_ok_def state_ok_def)
  show "pairs_ok (L - {t}) ?x"
  proof (rule pairs_okI)
    fix p b assume "curActivity (procs ?x p) = Some b"
    then show "act_proc (acts ?x b) = Some p"
      by (cases "b = t") (simp_all add: pairs_okD(1) [OF D(3)])
  next
    fix p b assume "act_proc (acts ?x b) = Some p" "b \<notin> L - {t}"
    then show "curActivity (procs ?x p) = Some b"
      by (cases "b = t") (simp_all add: assms(7) pairs_okD(2) [OF D(3)])
  qed
  show "run_ok ?x" unfolding run_ok_def
  proof (intro allI impI)
    fix r assume "queues ?x (SQ_Ready r) \<noteq> []"
    then have "r = RQ_Prio n \<or> queues x (SQ_Ready r) \<noteq> []" by (auto split: if_splits)
    with D(4) assms(4,5,6) show "\<exists>n. r = RQ_Prio n \<and> n \<le> capros_SchedC_Priority_Max \<and> n \<noteq> pr_Reserve
        \<and> bit (act_RunQueueMap ?x) n"
      by (auto simp: run_ok_def bit_simps)
  qed
  have "t \<notin> set (queues x SQ_Sleep)" using q by (simp add: sched_inv_queue [OF assms(1)])
  then show "sleepers_ok ?x" using D(5) by (subst sleepers_ok_cong [where x = x]) auto
  show "free_ok ?x" using D(6) by (simp add: free_ok_def)
qed

lemma sched_inv_resched [simp]:
  "sched_inv L (x\<lparr>dw_reschedule := b\<rparr>) = sched_inv L x"
  "sched_inv L (act_ForceResched x) = sched_inv L x"
  "sched_inv L (x\<lparr>proc_curProcess := p\<rparr>) = sched_inv L x"
  "sched_inv L (x\<lparr>allocatedActivity := a\<rparr>) = sched_inv L x"
  unfolding sched_inv_def queues_ok_def states_ok_def pairs_ok_def run_ok_def sleepers_ok_def free_ok_def
    act_ForceResched_def by simp_all

text \<open>Waking up a loose activity puts it on its ready queue.\<close>

lemma act_Wakeup_result:
  assumes "act_Wakeup t x = Some x'"
  shows "\<exists>n. act_readyQ (acts x t) = Some (RQ_Prio n) \<and> n \<le> capros_SchedC_Priority_Max \<and> n \<noteq> pr_Reserve
    \<and> act_q (acts x t) = None \<and> x'\<lparr>dw_reschedule := False\<rparr> =
        (upd_act t (\<lambda>a. a\<lparr>act_q := Some (SQ_Ready (RQ_Prio n)), act_state := act_Ready\<rparr>)
          (x\<lparr>act_RunQueueMap := act_RunQueueMap x OR push_bit n 1,
             queues := (queues x)(SQ_Ready (RQ_Prio n) := queues x (SQ_Ready (RQ_Prio n)) @ [t])\<rparr>))\<lparr>dw_reschedule := False\<rparr>"
proof -
  from assms obtain r x1 where r: "act_readyQ (acts x t) = Some r" and w: "doWakeup r t x = Some x1"
    and x': "x'\<lparr>dw_reschedule := False\<rparr> = x1\<lparr>dw_reschedule := False\<rparr>"
    by (auto simp: act_Wakeup_def bind_eq_Some_conv act_ForceResched_def split: option.splits if_splits)
  from w obtain n where n: "r = RQ_Prio n" "n \<le> capros_SchedC_Priority_Max" "n \<noteq> pr_Reserve"
    and g: "readyq_GenericWakeup r t x = Some x1"
    by (auto simp: doWakeup_def split: ready_q.splits if_splits)
  from g have q: "act_q (acts x t) = None" and x1: "x1 = upd_act t (act_state_update (\<lambda>_. act_Ready))
      (upd_act t (act_q_update (\<lambda>_. Some (SQ_Ready r))) (x\<lparr>act_RunQueueMap := act_RunQueueMap x OR rq_mask r,
        queues := (queues x)(SQ_Ready r := queues x (SQ_Ready r) @ [t])\<rparr>))"
    by (auto simp: readyq_GenericWakeup_def Let_def bind_eq_Some_conv act_Enqueue_Some)
  have "x1 = upd_act t (\<lambda>a. a\<lparr>act_q := Some (SQ_Ready (RQ_Prio n)), act_state := act_Ready\<rparr>)
      (x\<lparr>act_RunQueueMap := act_RunQueueMap x OR push_bit n 1,
         queues := (queues x)(SQ_Ready (RQ_Prio n) := queues x (SQ_Ready (RQ_Prio n)) @ [t])\<rparr>)"
    unfolding x1 n(1) by (simp add: upd_act_def)
  with r n(1,2,3) q x' show ?thesis by (intro exI [of _ n]) simp
qed

lemma act_Wakeup_inv:
  assumes "sched_inv L x" "t \<in> L" "act_Wakeup t x = Some x'"
    and "\<And>p. act_proc (acts x t) = Some p \<Longrightarrow> curActivity (procs x p) = Some t"
  shows "sched_inv (L - {t}) x'"
proof -
  from act_Wakeup_result [OF assms(3)] obtain n where n: "act_readyQ (acts x t) = Some (RQ_Prio n)"
    "n \<le> capros_SchedC_Priority_Max" "n \<noteq> pr_Reserve"
    and x': "x'\<lparr>dw_reschedule := False\<rparr> = (upd_act t (\<lambda>a. a\<lparr>act_q := Some (SQ_Ready (RQ_Prio n)), act_state := act_Ready\<rparr>)
          (x\<lparr>act_RunQueueMap := act_RunQueueMap x OR push_bit n 1,
             queues := (queues x)(SQ_Ready (RQ_Prio n) := queues x (SQ_Ready (RQ_Prio n)) @ [t])\<rparr>))\<lparr>dw_reschedule := False\<rparr>"
    by blast
  from n(2) have "n < 32" by (simp add: capros_SchedC_Priority_Max_def)
  from sched_inv_ready [OF assms(1,2) n this assms(4)] have "sched_inv (L - {t}) (x'\<lparr>dw_reschedule := False\<rparr>)"
    unfolding x' by simp
  then show ?thesis by simp
qed

section \<open>Allocating and freeing\<close>

lemma act_AllocActivity_inv:
  assumes "sched_inv L x" "act_AllocActivity x = Some (a, x')"
  shows "sched_inv (insert a L) x' \<and> act_proc (acts x' a) = None \<and> act_state (acts x' a) = act_Free
    \<and> a \<notin> L \<and> procs x' = procs x \<and> act_curActivity x' = act_curActivity x"
proof -
  note D = sched_invD [OF assms(1)]
  from assms(2) obtain as where as: "queues x SQ_Free = a # as"
    and x': "x' = upd_act a (act_actHazard_update (\<lambda>_. actHaz_None))
      ((link_Unlink a x)\<lparr>numFreeActivities := numFreeActivities x - 1\<rparr>)"
    by (auto simp: act_AllocActivity_def act_DequeueNext_def split: list.splits)
  have a: "act_q (acts x a) = Some SQ_Free" using as sched_inv_queue [OF assms(1), of a SQ_Free] by simp
  then have "a \<notin> L" using sched_inv_loose [OF assms(1)] by fastforce
  have an: "a < nActivity x" using assms(1) a by (rule sched_inv_queued)
  from sched_inv_state [OF assms(1) an \<open>a \<notin> L\<close>] a have st: "act_state (acts x a) = act_Free" "act_proc (acts x a) = None"
    by (auto simp: state_ok_def split: act_State.splits)
  have qs: "queues x' = (queues x)(SQ_Free := as)" using a as
    by (auto simp: x' link_Unlink_def)
  have acts: "acts x' = (acts x)(a := (acts x a)\<lparr>act_q := None, act_actHazard := actHaz_None\<rparr>)"
    by (simp add: x')
  have "sched_inv (insert a L) x'"
  proof (rule sched_invI)
    show "queues_ok x'" using queues_ok_Unlink [OF D(1), of a] queues_ok_cong [of x' "link_Unlink a x"]
      by (simp add: x')
    show "states_ok (insert a L) x'" using D(2) an by (simp add: states_ok_def x')
    show "pairs_ok (insert a L) x'" by (rule pairs_ok_same [OF D(3)]) (auto simp: x')
    show "run_ok x'" using D(4) by (simp add: run_ok_def qs) (simp add: x')
    show "sleepers_ok x'" using D(5) by (subst sleepers_ok_cong [where x = x]) (auto simp: qs acts)
    show "free_ok x'" using D(6) as by (simp add: free_ok_def qs) (simp add: x')
  qed
  with st \<open>a \<notin> L\<close> show ?thesis by (simp add: x')
qed

lemma act_FreeActivity_inv:
  assumes "sched_inv L x" "a \<in> L" "act_FreeActivity a x = Some x'" "\<And>p. curActivity (procs x p) \<noteq> Some a"
  shows "sched_inv (L - {a}) x'"
proof -
  note D = sched_invD [OF assms(1)]
  have q: "act_q (acts x a) = None" using assms(1,2) by (rule sched_inv_loose)
  from assms(3) have qs: "queues x' = (queues x)(SQ_Free := queues x SQ_Free @ [a])"
    and acts: "acts x' = (acts x)(a := (acts x a)\<lparr>act_readyQ := None, act_proc := None, act_state := act_Free,
      act_q := Some SQ_Free\<rparr>)"
    and rest: "procs x' = procs x" "act_RunQueueMap x' = act_RunQueueMap x"
      "act_curActivity x' = act_curActivity x" "numFreeActivities x' = numFreeActivities x + 1"
      "nActivity x' = nActivity x"
    by (auto simp: act_FreeActivity_def bind_eq_Some_conv act_Enqueue_Some)
  have an: "a < nActivity x" using assms(1,2) by (rule sched_inv_loose_less)
  show ?thesis
  proof (rule sched_invI)
    show "queues_ok x'" using an rest(5) by (intro queues_ok_append [OF D(1) q _ _ _ qs acts]) simp_all
    show "states_ok (L - {a}) x'" using D(2) by (simp add: states_ok_def state_ok_def acts rest)
    show "pairs_ok (L - {a}) x'"
    proof (rule pairs_okI)
      fix p b assume "curActivity (procs x' p) = Some b"
      then show "act_proc (acts x' b) = Some p"
        using assms(4) by (cases "b = a") (simp_all add: rest acts pairs_okD(1) [OF D(3)])
    next
      fix p b assume "act_proc (acts x' b) = Some p" "b \<notin> L - {a}"
      then show "curActivity (procs x' p) = Some b"
        by (cases "b = a") (simp_all add: rest acts pairs_okD(2) [OF D(3)])
    qed
    show "run_ok x'" using D(4) by (simp add: run_ok_def qs rest)
    have "a \<notin> set (queues x SQ_Sleep)" using q by (simp add: sched_inv_queue [OF assms(1)])
    then show "sleepers_ok x'" using D(5) by (subst sleepers_ok_cong [where x = x]) (auto simp: qs acts)
    show "free_ok x'" using D(6) by (simp add: free_ok_def qs rest)
  qed
qed

section \<open>Assigning activities to processes\<close>

text \<open>
  Assigning a loose or running activity that no other process has. The activity may still name
  the process it was taken from.
\<close>

definition sched_inv_but :: "act_ptr \<Rightarrow> act_ptr set \<Rightarrow> sched \<Rightarrow> bool" where
  "sched_inv_but a L x = (queues_ok x \<and> states_ok L x \<and> pairs_ok (insert a L) x \<and> run_ok x \<and> sleepers_ok x \<and> free_ok x)"

lemma sched_inv_butI: "sched_inv L x \<Longrightarrow> sched_inv_but a L x"
  by (auto simp: sched_inv_def sched_inv_but_def intro: pairs_ok_same)

lemma act_AssignToRunnable_result:
  assumes "act_AssignToRunnable a p x = Some x'"
  shows "(curActivity (procs x p) = None \<or> curActivity (procs x p) = Some a)
    \<and> acts x' = (acts x)(a := (acts x a)\<lparr>act_proc := Some p, act_readyQ := Some (proc_readyQ (procs x p))\<rparr>)
    \<and> procs x' = (procs x)(p := (procs x p)\<lparr>curActivity := Some a\<rparr>)
    \<and> queues x' = queues x \<and> act_RunQueueMap x' = act_RunQueueMap x
    \<and> act_curActivity x' = act_curActivity x \<and> numFreeActivities x' = numFreeActivities x
    \<and> allocatedActivity x' = allocatedActivity x \<and> nActivity x' = nActivity x
    \<and> (act_curActivity x = Some a \<longrightarrow> proc_curProcess x' = Some p)
    \<and> (act_curActivity x \<noteq> Some a \<longrightarrow> proc_curProcess x' = proc_curProcess x)"
  using assms
  by (auto simp: act_AssignToRunnable_def act_AssignTo_def act_SetProcess_def proc_SetActivity_def
      bind_eq_Some_conv Let_def)

lemma act_AssignToRunnable_inv:
  assumes "sched_inv_but a L x" "act_AssignToRunnable a p x = Some x'"
    and "a \<in> L \<or> act_state (acts x a) = act_Running"
    and "\<And>q. curActivity (procs x q) = Some a \<Longrightarrow> q = p"
  shows "sched_inv L x'"
proof (rule sched_invI)
  have D: "queues_ok x" "states_ok L x" "pairs_ok (insert a L) x" "run_ok x" "sleepers_ok x" "free_ok x"
    using assms(1) by (simp_all add: sched_inv_but_def)
  note R = act_AssignToRunnable_result [OF assms(2)]
  have qs: "queues x' = queues x" and q: "act_q (acts x' b) = act_q (acts x b)" for b using R by auto
  show "queues_ok x'" using D(1) queues_ok_cong [OF qs q] R by simp
  have "state_ok (act_curActivity x') b (acts x' b)" if b: "b \<notin> L" "b < nActivity x" for b
  proof (cases "b = a")
    case True
    then have "act_state (acts x a) = act_Running" using b assms(3) by simp
    with D(2) R True b show ?thesis by (auto simp: state_ok_def states_ok_def dest!: spec [where x = a])
  next
    case False
    with D(2) R b show ?thesis by (simp add: states_ok_def)
  qed
  then show "states_ok L x'" using D(2) q R by (simp add: states_ok_def)
  show "pairs_ok L x'"
  proof (rule pairs_okI)
    fix r b assume c: "curActivity (procs x' r) = Some b"
    show "act_proc (acts x' b) = Some r"
    proof (cases "r = p")
      case True
      with c R have "b = a" by simp
      with True R show ?thesis by simp
    next
      case False
      with c R have c: "curActivity (procs x r) = Some b" by simp
      then have "b \<noteq> a" using assms(4) False by blast
      with R pairs_okD(1) [OF D(3) c] show ?thesis by simp
    qed
  next
    fix r b assume b: "act_proc (acts x' b) = Some r" "b \<notin> L"
    show "curActivity (procs x' r) = Some b"
    proof (cases "b = a")
      case True
      with b R show ?thesis by auto
    next
      case False
      with b R have "act_proc (acts x b) = Some r" by simp
      with pairs_okD(2) [OF D(3), of b r] b(2) False have c: "curActivity (procs x r) = Some b" by simp
      then have "r \<noteq> p" using R False by auto
      with c R show ?thesis by simp
    qed
  qed
  show "run_ok x'" using D(4) R by (simp add: run_ok_def)
  show "sleepers_ok x'" using D(5) qs R by (subst sleepers_ok_cong [where x = x]) auto
  show "free_ok x'" using D(6) R by (simp add: free_ok_def)
qed

text \<open>Taking the activity of a process away leaves the activity loose or current.\<close>

lemma proc_Deactivate_Some:
  "proc_Deactivate p x = Some x' \<longleftrightarrow> isUserContext (procs x p) \<and> x' = upd_proc p (curActivity_update (\<lambda>_. None)) x"
  by (auto simp: proc_Deactivate_def)

lemma pairs_ok_Deactivate:
  assumes "pairs_ok L x" "act_proc (acts x a) = Some p" "a \<notin> L"
  shows "pairs_ok (insert a L) (upd_proc p (curActivity_update (\<lambda>_. None)) x)"
proof (rule pairs_okI)
  fix q b assume "curActivity (procs (upd_proc p (curActivity_update (\<lambda>_. None)) x) q) = Some b"
  then show "act_proc (acts (upd_proc p (curActivity_update (\<lambda>_. None)) x) b) = Some q"
    by (cases "q = p") (simp_all add: pairs_okD(1) [OF assms(1)])
next
  fix q b assume b: "act_proc (acts (upd_proc p (curActivity_update (\<lambda>_. None)) x) b) = Some q" "b \<notin> insert a L"
  then have c: "curActivity (procs x q) = Some b" using pairs_okD(2) [OF assms(1), of b q] by simp
  have "curActivity (procs x p) = Some a" using pairs_okD(2) [OF assms(1,3,2)] .
  then have "q \<noteq> p" using c b(2) by auto
  with c show "curActivity (procs (upd_proc p (curActivity_update (\<lambda>_. None)) x) q) = Some b" by simp
qed

lemma sched_inv_Deactivate:
  assumes "sched_inv L x" "act_proc (acts x a) = Some p" "a \<notin> L"
  shows "sched_inv_but a L (upd_proc p (curActivity_update (\<lambda>_. None)) x)"
  using sched_invD [OF assms(1)] pairs_ok_Deactivate [OF _ assms(2,3)]
  by (simp add: sched_inv_but_def queues_ok_def states_ok_def run_ok_def sleepers_ok_def free_ok_def)

text \<open>
  The activity of an invocation goes to the process that is invoked: the invoker's own, or one
  newly allocated, which is loose until then.
\<close>

lemma MigrateAllocatedActivity_inv:
  assumes "sched_inv L x" "allocatedActivity x = Some a" "MigrateAllocatedActivity p x = Some x'"
    and "L = (if act_state (acts x a) = act_Running then {} else {a})"
    and "act_state (acts x a) \<noteq> act_Running \<Longrightarrow> \<forall>q. curActivity (procs x q) \<noteq> Some a"
  shows "sched_inv {} x' \<and> curActivity (procs x' p) = Some a \<and> (\<forall>q. runState (procs x' q) = runState (procs x q))"
proof (cases "act_state (acts x a) = act_Running")
  case True
  with assms(4) have L: "L = {}" by simp
  from True assms(2,3) obtain x1 where
    x1: "(case act_proc (acts x a) of None \<Rightarrow> Some x | Some q \<Rightarrow> proc_Deactivate q x) = Some x1"
    and x': "act_AssignToRunnable a p x1 = Some x'"
    by (auto simp: MigrateAllocatedActivity_def bind_eq_Some_conv)
  have but: "sched_inv_but a {} x1" and st: "act_state (acts x1 a) = act_Running"
    and rs: "\<forall>q. runState (procs x1 q) = runState (procs x q)"
    using x1 assms(1) L True sched_inv_Deactivate [of "{}" x a]
    by (auto simp: proc_Deactivate_Some sched_inv_butI split: option.splits)
  have "curActivity (procs x1 q) \<noteq> Some a" for q
  proof
    assume c: "curActivity (procs x1 q) = Some a"
    with but have n: "act_proc (acts x1 a) = Some q" using pairs_okD(1) by (auto simp: sched_inv_but_def)
    with x1 have "x1 = upd_proc q (curActivity_update (\<lambda>_. None)) x"
      by (auto simp: proc_Deactivate_Some split: option.splits)
    with c show False by simp
  qed
  then have "sched_inv {} x'" by (intro act_AssignToRunnable_inv [OF but x' disjI2 [OF st]]) auto
  with act_AssignToRunnable_result [OF x'] rs show ?thesis by simp
next
  case False
  with assms(4) have L: "L = {a}" by simp
  from False assms(2,3) obtain x1 where x1: "act_AssignToRunnable a p x = Some x1"
    and x': "act_Wakeup a x1 = Some x'"
    by (auto simp: MigrateAllocatedActivity_def bind_eq_Some_conv)
  note R = act_AssignToRunnable_result [OF x1]
  have i1: "sched_inv {a} x1"
    using assms(1,5) False L by (intro act_AssignToRunnable_inv [OF sched_inv_butI x1]) auto
  have "sched_inv ({a} - {a}) x'" using R by (intro act_Wakeup_inv [OF i1 _ x']) auto
  moreover have "procs x' = procs x1" using act_Wakeup_result [OF x'] by (auto dest: arg_cong [where f = procs])
  ultimately show ?thesis using R by simp
qed

text \<open>Deleting activities.\<close>

lemma act_DeleteActivity_inv:
  assumes "sched_inv_but a L x" "act_DeleteActivity a x = Some x'" "act_q (acts x a) = None" "a < nActivity x"
    and "\<And>p. curActivity (procs x p) \<noteq> Some a"
  shows "sched_inv (L - {a}) x'"
proof -
  have D: "queues_ok x" "states_ok L x" "pairs_ok (insert a L) x" "run_ok x" "sleepers_ok x" "free_ok x"
    using assms(1) by (simp_all add: sched_inv_but_def)
  let ?x = "if act_curActivity x = Some a
     then act_ForceResched (x\<lparr>act_curActivity := None, proc_curProcess := None\<rparr>) else x"
  from assms(2) have f: "act_FreeActivity a ?x = Some x'"
    by (auto simp: act_DeleteActivity_def bind_eq_Some_conv Let_def split: if_splits)
  have "states_ok (insert a L) ?x" unfolding states_ok_def
  proof (intro conjI ballI allI impI)
    fix b assume "b \<in> insert a L"
    then show "act_q (acts ?x b) = None" "b < nActivity ?x" using D(2) assms(3,4)
      by (auto simp: states_ok_def act_ForceResched_def)
  next
    fix b assume n: "b < nActivity ?x" and b: "b \<notin> insert a L"
    then have "b < nActivity x" by (simp add: act_ForceResched_def split: if_splits)
    with b D(2) have "state_ok (act_curActivity x) b (acts x b)" by (simp add: states_ok_def)
    with b show "state_ok (act_curActivity ?x) b (acts ?x b)"
      by (auto simp: state_ok_def act_ForceResched_def split: act_State.splits)
  qed
  moreover have "pairs_ok (insert a L) ?x" by (rule pairs_ok_same [OF D(3)]) (auto simp: act_ForceResched_def)
  moreover have "queues_ok ?x" "run_ok ?x" "sleepers_ok ?x" "free_ok ?x" using D(1,4,5,6)
    by (simp_all add: queues_ok_def run_ok_def sleepers_ok_def free_ok_def act_ForceResched_def)
  ultimately have "sched_inv (insert a L) ?x" by (simp add: sched_inv_def)
  then have "sched_inv (insert a L - {a}) x'" using assms(5)
    by (intro act_FreeActivity_inv [OF _ _ f]) (auto simp: act_ForceResched_def)
  then show ?thesis by simp
qed

lemma act_DeleteCurrent_inv:
  assumes "sched_inv {} x" "act_curActivity x = Some a" "act_state (acts x a) = act_Running"
    and "act_DeleteCurrent x = Some x'" "a < nActivity x"
  shows "sched_inv {} x'"
proof -
  from assms(2,4) obtain x1 where
    x1: "(case act_proc (acts x a) of None \<Rightarrow> Some x | Some q \<Rightarrow> proc_Deactivate q x) = Some x1"
    and x': "act_DeleteActivity a (x1\<lparr>proc_curProcess := None\<rparr>) = Some x'"
    by (auto simp: act_DeleteCurrent_def bind_eq_Some_conv)
  have but: "sched_inv_but a {} x1" and q: "act_q (acts x1 a) = None" and n: "nActivity x1 = nActivity x"
    using x1 assms(1) sched_inv_Deactivate [of "{}" x a] sched_inv_state [OF assms(1,5)] assms(3)
    by (auto simp: proc_Deactivate_Some sched_inv_butI state_ok_def split: option.splits)
  have "curActivity (procs x1 p) \<noteq> Some a" for p
  proof
    assume c: "curActivity (procs x1 p) = Some a"
    with but have n: "act_proc (acts x1 a) = Some p" using pairs_okD(1) by (auto simp: sched_inv_but_def)
    with x1 have "x1 = upd_proc p (curActivity_update (\<lambda>_. None)) x"
      by (auto simp: proc_Deactivate_Some split: option.splits)
    with c show False by simp
  qed
  moreover have "sched_inv_but a {} (x1\<lparr>proc_curProcess := None\<rparr>)"
    using but pairs_ok_same [of "{a}" x1 "{a}" "x1\<lparr>proc_curProcess := None\<rparr>"]
    by (simp add: sched_inv_but_def queues_ok_def states_ok_def run_ok_def sleepers_ok_def free_ok_def)
  ultimately have "sched_inv ({} - {a}) x'" using q n assms(5) by (intro act_DeleteActivity_inv [OF _ x']) simp_all
  then show ?thesis by simp
qed

text \<open>Deleting the activity of a process that is rescinded.\<close>

lemma sched_inv_butL: "sched_inv (insert a L) x \<Longrightarrow> sched_inv_but a (insert a L) x"
  by (rule sched_inv_butI)

lemma delete_proc_activity_inv:
  assumes "sched_inv {} x" "delete_proc_activity p x = Some x'" "\<And>a. curActivity (procs x p) = Some a \<Longrightarrow> a < nActivity x"
  shows "sched_inv {} x'"
proof -
  from assms(2) obtain a y where a: "curActivity (procs x p) = Some a"
    and y: "y = upd_proc p (curActivity_update (\<lambda>_. None)) (link_Unlink a x)"
    and x': "act_DeleteActivity a (if act_curActivity x = Some a then y\<lparr>proc_curProcess := None\<rparr> else y) = Some x'"
    by (auto simp: delete_proc_activity_def proc_ClearActivity_def act_Dequeue_def bind_eq_Some_conv
        proc_Deactivate_Some)
  have n: "a < nActivity x" using assms(3) a by blast
  have ap: "act_proc (acts x a) = Some p" using pairs_okD(1) [OF sched_invD(3) [OF assms(1)] a] .
  have "act_q (acts x a) \<noteq> Some SQ_Free" using ap sched_inv_state [OF assms(1) n]
    by (auto simp: state_ok_def split: act_State.splits)
  from sched_inv_Unlink [OF assms(1) this n] have u: "sched_inv {a} (link_Unlink a x)" by simp
  have one: "b = a" if "curActivity (procs x p) = Some b" for b using that a by simp
  have "pairs_ok {a} y"
  proof (rule pairs_okI)
    fix q b assume "curActivity (procs y q) = Some b"
    then show "act_proc (acts y b) = Some q" using pairs_okD(1) [OF sched_invD(3) [OF u], of q b]
      by (cases "q = p") (simp_all add: y)
  next
    fix q b assume b: "act_proc (acts y b) = Some q" "b \<notin> {a}"
    then have "curActivity (procs x q) = Some b" using pairs_okD(2) [OF sched_invD(3) [OF u], of b q] by (simp add: y)
    with b one show "curActivity (procs y q) = Some b" by (cases "q = p") (auto simp: y)
  qed
  with sched_invD [OF u] have "sched_inv {a} y"
    by (simp add: sched_inv_def y queues_ok_def states_ok_def run_ok_def sleepers_ok_def free_ok_def)
  moreover have nc: "curActivity (procs y q) \<noteq> Some a" for q
    using ap pairs_okD(1) [OF sched_invD(3) [OF assms(1)], of q a] by (auto simp: y)
  ultimately have "sched_inv ({a} - {a}) x'" using n
    by (intro act_DeleteActivity_inv [OF sched_inv_butI x']) (simp_all add: y split: if_splits)
  then show ?thesis by simp
qed

text \<open>
  No activity has a CPU reserve; the deletions below then complete.
\<close>

definition no_reserves :: "sched \<Rightarrow> bool" where
  "no_reserves x = (\<forall>a r. act_readyQ (acts x a) = Some r \<longrightarrow> rq_mask r AND push_bit pr_Reserve 1 = 0)"

definition current_has_process :: "sched \<Rightarrow> bool" where
  "current_has_process x = (\<forall>c. act_curActivity x = Some c \<longrightarrow> act_proc (acts x c) \<noteq> None)"

lemma act_DeleteActivity_total:
  assumes "no_reserves x" "act_readyQ (acts x a) \<noteq> None" "act_q (acts x a) = None"
    and "\<And>p. act_proc (acts x a) = Some p \<Longrightarrow> curActivity (procs x p) = None"
  shows "\<exists>x'. act_DeleteActivity a x = Some x'"
  using assms unfolding no_reserves_def
  by (cases "act_proc (acts x a)")
    (auto simp: act_DeleteActivity_def act_FreeActivity_def act_Enqueue_def act_ForceResched_def Let_def
      split: if_splits)

lemma delete_proc_activity_total:
  assumes "sched_inv {} x" "no_reserves x" "isUserContext (procs x p)" "curActivity (procs x p) = Some a" "a < nActivity x"
  shows "\<exists>x'. delete_proc_activity p x = Some x'"
proof -
  let ?y = "upd_proc p (curActivity_update (\<lambda>_. None)) (link_Unlink a x)"
  let ?z = "if act_curActivity x = Some a then ?y\<lparr>proc_curProcess := None\<rparr> else ?y"
  have ap: "act_proc (acts x a) = Some p" using pairs_okD(1) [OF sched_invD(3) [OF assms(1)] assms(4)] .
  then have "act_state (acts x a) \<noteq> act_Free" using sched_inv_state [OF assms(1,5)] by (auto simp: state_ok_def)
  then have "act_readyQ (acts x a) \<noteq> None" using sched_inv_readyQ [OF assms(1,5)] by fastforce
  then have "\<exists>x'. act_DeleteActivity a ?z = Some x'" using assms(2) ap
    by (intro act_DeleteActivity_total) (auto simp: no_reserves_def split: if_splits)
  then show ?thesis using assms(3,4)
    by (simp add: delete_proc_activity_def proc_ClearActivity_def act_Dequeue_def proc_Deactivate_def)
qed

lemma delete_oid_activity_total:
  assumes "sched_inv {} x" "no_reserves x" "current_has_process x"
  shows "\<exists>x'. delete_oid_activity oid count x = Some x'"
proof -
  have del: "\<exists>x'. act_DeleteActivity i (act_Dequeue i y) = Some x'"
    if "i < nActivity x" "act_state (acts x i) \<noteq> act_Free" "act_proc (acts x i) = None"
      "y = x \<or> y = upd_act i (act_actHazard_update (\<lambda>_. actHaz_WakeRestart)) x" for i y
  proof -
    have "act_readyQ (acts x i) \<noteq> None" using sched_inv_readyQ [OF assms(1) that(1)] that(2) by fastforce
    with assms(2) that show ?thesis
      by (intro act_DeleteActivity_total) (auto simp: act_Dequeue_def no_reserves_def)
  qed
  have "\<exists>r y. act_FindByOid_loop oid count is x = Some (r, y)
      \<and> (\<forall>i. r = Some i \<longrightarrow> i < nActivity x \<and> act_state (acts x i) \<noteq> act_Free \<and> act_proc (acts x i) = None
        \<and> (y = x \<or> y = upd_act i (act_actHazard_update (\<lambda>_. actHaz_WakeRestart)) x))"
    if "\<forall>i \<in> set is. i < nActivity x" for "is"
    using that
  proof (induction "is")
    case (Cons i "is")
    show ?case
    proof (cases "act_state (acts x i) \<noteq> act_Free \<and> act_proc (acts x i) = None \<and> act_oid (acts x i) = oid")
      case True
      with assms(3) have nc: "act_curActivity x \<noteq> Some i" by (auto simp: current_has_process_def)
      from True Cons.prems del [of i x] obtain x' where "act_DeleteActivity i (act_Dequeue i x) = Some x'" by auto
      with True nc Cons.prems show ?thesis by (simp add: Let_def)
    next
      case False
      with Cons show ?thesis by (auto simp: Let_def)
    qed
  qed simp
  from this [of "[0..<nActivity x]"] obtain r y where f: "act_FindByOid oid count x = Some (r, y)"
    and r: "\<forall>i. r = Some i \<longrightarrow> i < nActivity x \<and> act_state (acts x i) \<noteq> act_Free \<and> act_proc (acts x i) = None
        \<and> (y = x \<or> y = upd_act i (act_actHazard_update (\<lambda>_. actHaz_WakeRestart)) x)"
    by (auto simp: act_FindByOid_def)
  show ?thesis
  proof (cases r)
    case (Some i)
    with r have i: "i < nActivity x" "act_state (acts x i) \<noteq> act_Free" "act_proc (acts x i) = None"
      "y = x \<or> y = upd_act i (act_actHazard_update (\<lambda>_. actHaz_WakeRestart)) x" by auto
    have "act_curActivity y \<noteq> Some i" "act_proc (acts y i) = None"
      using i assms(3) by (auto simp: current_has_process_def)
    with f Some del [OF i] show ?thesis by (auto simp: delete_oid_activity_def)
  qed (simp add: delete_oid_activity_def f)
qed

section \<open>Sleeping and waking\<close>

text \<open>The current activity goes to sleep on a stall queue.\<close>

lemma act_SleepOn_inv:
  assumes "sched_inv {} x" "act_SleepOn q x = Some x'" "sleepable q"
  shows "sched_inv {} x'"
proof -
  note D = sched_invD [OF assms(1)]
  from assms(2) obtain t where t: "act_q (acts x t) = None"
    and x': "x' = upd_act t (\<lambda>a. a\<lparr>act_q := Some q, act_state := act_Stall\<rparr>)
      (x\<lparr>queues := (queues x)(q := queues x q @ [t])\<rparr>)"
    and r: "act_readyQ (acts x t) \<noteq> None" and n: "t < nActivity x"
    by (auto simp: act_ValidateActivity_def act_SleepOn_def bind_eq_Some_conv Let_def act_Enqueue_Some upd_act_def)
  have nq: "q \<noteq> SQ_Free" "q \<noteq> SQ_Ready r" "q \<noteq> SQ_Sleep" for r using assms(3) by auto
  show ?thesis
  proof (rule sched_invI)
    show "queues_ok x'" using n by (intro queues_ok_append [OF D(1) t]) (simp_all add: x')
    show "states_ok {} x'" using D(2) r assms(3) by (simp add: states_ok_def state_ok_def x')
    show "pairs_ok {} x'" by (rule pairs_ok_same [OF D(3)]) (auto simp: x')
    show "run_ok x'" using D(4) nq(2) by (subst run_ok_cong [where x = x]) (auto simp: x')
    show "sleepers_ok x'" using D(5) nq by (subst sleepers_ok_cong [where x = x]) (auto simp: x')
    show "free_ok x'" using D(6) nq by (simp add: free_ok_def x')
  qed
qed

text \<open>The timer queue stays in order.\<close>

lemma set_sleep_insert [simp]: "set (sleep_insert w t us) = insert t (set us)"
  by (induction us) auto

lemma sleep_insert_sorted: "sorted (map w us) \<Longrightarrow> sorted (map w (sleep_insert w t us))"
  by (induction us) auto

lemma sleep_insert_distinct: "distinct us \<Longrightarrow> t \<notin> set us \<Longrightarrow> distinct (sleep_insert w t us)"
  by (induction us) auto

lemma act_SleepUntilTick_inv:
  assumes "sched_inv L x" "act_SleepUntilTick t tick x = Some x'" "t < nActivity x"
  shows "sched_inv (L - {t}) x'"
proof -
  note D = sched_invD [OF assms(1)]
  let ?w = "\<lambda>a. act_wakeTime (acts x' a)"
  from assms(2) obtain p where t: "act_q (acts x t) = None" and p: "act_proc (acts x t) = Some p"
      "curActivity (procs x p) = Some t"
    and acts: "acts x' = (acts x)(t := (acts x t)\<lparr>act_wakeTime := tick, act_state := act_Sleeping, act_q := Some SQ_Sleep\<rparr>)"
    and qs: "queues x' = (queues x)(SQ_Sleep := sleep_insert ?w t (queues x SQ_Sleep))"
    and rest: "procs x' = procs x" "act_RunQueueMap x' = act_RunQueueMap x"
      "act_curActivity x' = act_curActivity x" "numFreeActivities x' = numFreeActivities x"
      "nActivity x' = nActivity x"
    and r: "act_readyQ (acts x t) \<noteq> None"
    by (auto simp: act_SleepUntilTick_def sysT_AddSleeper_def bind_eq_Some_conv Let_def)
  have nt: "t \<notin> set (queues x q)" for q using t by (simp add: sched_inv_queue [OF assms(1)])
  show ?thesis
  proof (rule sched_invI)
    show "queues_ok x'" using D(1) nt assms(3)
      by (auto simp: queues_ok_def qs acts rest sleep_insert_distinct)
    show "states_ok (L - {t}) x'" using D(2) r by (simp add: states_ok_def state_ok_def acts rest)
    show "pairs_ok (L - {t}) x'"
    proof (rule pairs_okI)
      fix r b assume "curActivity (procs x' r) = Some b"
      then show "act_proc (acts x' b) = Some r" by (simp add: rest acts pairs_okD(1) [OF D(3)])
    next
      fix r b assume "act_proc (acts x' b) = Some r" "b \<notin> L - {t}"
      then show "curActivity (procs x' r) = Some b"
        using p by (cases "b = t") (simp_all add: rest acts pairs_okD(2) [OF D(3)])
    qed
    show "run_ok x'" using D(4) by (simp add: run_ok_def qs rest)
    have "map ?w (queues x SQ_Sleep) = map (\<lambda>a. act_wakeTime (acts x a)) (queues x SQ_Sleep)"
      using nt by (intro map_cong) (auto simp: acts)
    then have "sorted (map ?w (queues x SQ_Sleep))" using D(5) by (simp only: sleepers_ok_def)
    then show "sleepers_ok x'" by (simp add: sleepers_ok_def qs sleep_insert_sorted)
    show "free_ok x'" using D(6) by (simp add: free_ok_def qs rest)
  qed
qed

text \<open>Taking the first activity off a stall queue and waking it.\<close>

lemma act_DequeueNext_inv:
  assumes "sched_inv {} x" "act_DequeueNext q x = (Some t, x1)" "sleepable q"
  shows "sched_inv {t} x1 \<and> act_state (acts x t) = act_Stall \<and> x1 = link_Unlink t x"
proof -
  from assms(2) have t: "t \<in> set (queues x q)" and x1: "x1 = link_Unlink t x"
    by (auto simp: act_DequeueNext_def split: list.splits)
  then have q: "act_q (acts x t) = Some q" by (simp add: sched_inv_queue [OF assms(1)])
  with assms(3) have "act_state (acts x t) = act_Stall"
    using sched_inv_state [OF assms(1) sched_inv_queued [OF assms(1) q]] by (auto simp: state_ok_def split: act_State.splits)
  moreover have "act_q (acts x t) \<noteq> Some SQ_Free" using q assms(3) by auto
  ultimately show ?thesis using sched_inv_Unlink [OF assms(1) _ sched_inv_queued [OF assms(1) q]] x1 by simp
qed

text \<open>One round of waking all the activities of a stall queue.\<close>

lemma wake_first:
  assumes "sched_inv {} x" "sleepable q" "queues x q = t # ts" "act_Wakeup t (link_Unlink t x) = Some x'"
  shows "sched_inv {} x' \<and> queues x' q = ts \<and> procs x' = procs x
    \<and> act_curActivity x' = act_curActivity x \<and> allocatedActivity x' = allocatedActivity x
    \<and> nActivity x' = nActivity x
    \<and> (\<forall>a. act_state (acts x' a) = (if a = t then act_Ready else act_state (acts x a))
        \<and> act_readyQ (acts x' a) = act_readyQ (acts x a) \<and> act_proc (acts x' a) = act_proc (acts x a)
        \<and> act_actHazard (acts x' a) = act_actHazard (acts x a))"
proof -
  have d: "act_DequeueNext q x = (Some t, link_Unlink t x)" using assms(3) by (simp add: act_DequeueNext_def)
  note i1 = act_DequeueNext_inv [OF assms(1) d assms(2)]
  from act_Wakeup_result [OF assms(4)] obtain n where
    x': "x'\<lparr>dw_reschedule := False\<rparr> = (upd_act t (\<lambda>a. a\<lparr>act_q := Some (SQ_Ready (RQ_Prio n)), act_state := act_Ready\<rparr>)
        ((link_Unlink t x)\<lparr>act_RunQueueMap := act_RunQueueMap (link_Unlink t x) OR push_bit n 1,
         queues := (queues (link_Unlink t x))(SQ_Ready (RQ_Prio n) := queues (link_Unlink t x) (SQ_Ready (RQ_Prio n)) @ [t])\<rparr>))
        \<lparr>dw_reschedule := False\<rparr>" by blast
  have "act_proc (acts (link_Unlink t x) t) = Some p \<Longrightarrow> curActivity (procs (link_Unlink t x) p) = Some t" for p
    using pairs_okD(2) [OF sched_invD(3) [OF assms(1)], of t p] by simp
  then have "sched_inv ({t} - {t}) x'" using i1 by (intro act_Wakeup_inv [OF _ _ assms(4)]) auto
  moreover have "queues x' q = ts"
  proof -
    have "q \<noteq> SQ_Ready (RQ_Prio n)" using assms(2) by auto
    then show ?thesis using arg_cong [OF x', of queues] assms(3) i1
      by (simp add: link_Unlink_queues [OF sched_invD(1) [OF assms(1)]])
  qed
  ultimately show ?thesis
    using arg_cong [OF x', of procs] arg_cong [OF x', of acts] arg_cong [OF x', of act_curActivity]
      arg_cong [OF x', of allocatedActivity] arg_cong [OF x', of nActivity]
    by simp
qed

lemma sq_WakeAll_inv:
  assumes "sched_inv {} x" "sleepable q" "sq_WakeAll q x = Some x'"
  shows "sched_inv {} x' \<and> procs x' = procs x \<and> act_curActivity x' = act_curActivity x
    \<and> allocatedActivity x' = allocatedActivity x \<and> queues x' q = [] \<and> nActivity x' = nActivity x
    \<and> (\<forall>a. act_state (acts x' a) = (if a \<in> set (queues x q) then act_Ready else act_state (acts x a))
        \<and> act_proc (acts x' a) = act_proc (acts x a))"
  using assms(1,3)
proof (induction "queues x q" arbitrary: x)
  case Nil
  then have e: "queues x q = []" by simp
  with Nil.prems show ?case by (simp add: sq_WakeAll.simps [of q x] act_DequeueNext_def)
next
  case (Cons t ts)
  have e: "queues x q = t # ts" using Cons.hyps(2) by simp
  from Cons.prems(2) obtain x1 where w: "act_Wakeup t (link_Unlink t x) = Some x1"
    and r: "sq_WakeAll q x1 = Some x'"
    by (auto simp: sq_WakeAll.simps [of q x] act_DequeueNext_def e bind_eq_Some_conv)
  note W = wake_first [OF Cons.prems(1) assms(2) e w]
  have nt: "t \<notin> set ts" using sched_invD(1) [OF Cons.prems(1)] e by (metis distinct.simps(2) queues_ok_def)
  from Cons.hyps(1) [of x1] W r show ?case using e nt by auto
qed

text \<open>
  Waking all ends, if the debug build's check of the activities holds and their ready queues are
  those of the 16 priorities.
\<close>

definition wakeable :: "sched \<Rightarrow> act_ptr \<Rightarrow> bool" where
  "wakeable x t = (act_ValidateActivity t x
     \<and> (\<exists>n. act_readyQ (acts x t) = Some (RQ_Prio n) \<and> n \<le> capros_SchedC_Priority_Max \<and> n \<noteq> pr_Reserve))"

lemma act_ValidateActivity_cong:
  assumes "procs x' = procs x" "act_curActivity x' = act_curActivity x" "nActivity x' = nActivity x"
    "allocatedActivity x' = allocatedActivity x" "act_state (acts x' a) = act_state (acts x a)"
    "act_proc (acts x' a) = act_proc (acts x a)" "act_actHazard (acts x' a) = act_actHazard (acts x a)"
  shows "act_ValidateActivity a x' = act_ValidateActivity a x"
  unfolding act_ValidateActivity_def Let_def assms ..

lemma act_Wakeup_total:
  assumes "act_readyQ (acts x t) = Some (RQ_Prio n)" "n \<le> capros_SchedC_Priority_Max" "n \<noteq> pr_Reserve"
    and "act_q (acts x t) = None"
    and "\<And>c. act_curActivity x = Some c \<Longrightarrow> act_readyQ (acts x c) \<noteq> None"
  shows "\<exists>x'. act_Wakeup t x = Some x'"
proof -
  have le: "push_bit n (1 :: u32) \<le> push_bit capros_SchedC_Priority_Max 1"
  proof -
    have "unat (push_bit n (1 :: u32)) = 2 ^ n" if "n < 32" for n
    proof -
      have "push_bit n (1 :: u32) = of_nat (2 ^ n)" by simp
      then have "unat (push_bit n (1 :: u32)) = 2 ^ n mod 2 ^ 32"
        by (simp only: unat_of_nat) simp
      moreover have "(2 :: nat) ^ n < 2 ^ 32" using that by (rule power_strict_increasing) simp
      ultimately show ?thesis by (metis mod_less)
    qed
    moreover have "(2 :: nat) ^ n \<le> 2 ^ capros_SchedC_Priority_Max" using assms(2) by (rule power_increasing) simp
    moreover have "n < 32" "capros_SchedC_Priority_Max < 32" using assms(2) by (simp_all add: capros_SchedC_Priority_Max_def)
    ultimately show ?thesis unfolding word_le_nat_alt by metis
  qed
  show ?thesis
    using assms le
    by (auto simp: act_Wakeup_def doWakeup_def readyq_GenericWakeup_def act_Enqueue_def Let_def
        split: option.splits)
qed

lemma sq_WakeAll_total:
  assumes "sched_inv {} x" "sleepable q" "\<forall>t \<in> set (queues x q). wakeable x t"
    and "\<And>c. act_curActivity x = Some c \<Longrightarrow> act_readyQ (acts x c) \<noteq> None"
  shows "\<exists>x'. sq_WakeAll q x = Some x'"
  using assms(1,3,4)
proof (induction "queues x q" arbitrary: x)
  case Nil
  then have e: "queues x q = []" by simp
  with Nil.prems show ?case by (simp add: sq_WakeAll.simps [of q x] act_DequeueNext_def)
next
  case (Cons t ts)
  have e: "queues x q = t # ts" using Cons.hyps(2) by simp
  have t: "wakeable x t" using Cons.prems(2) e by simp
  then obtain n where n: "act_readyQ (acts x t) = Some (RQ_Prio n)" "n \<le> capros_SchedC_Priority_Max" "n \<noteq> pr_Reserve"
    by (auto simp: wakeable_def)
  have "\<exists>x1. act_Wakeup t (link_Unlink t x) = Some x1"
    using n Cons.prems(3) by (intro act_Wakeup_total [where n = n]) auto
  then obtain x1 where w: "act_Wakeup t (link_Unlink t x) = Some x1" ..
  note W = wake_first [OF Cons.prems(1) assms(2) e w]
  have "wakeable x1 u" if "u \<in> set ts" for u
  proof -
    have ne: "u \<noteq> t" using that sched_invD(1) [OF Cons.prems(1)] e
      by (metis distinct.simps(2) queues_ok_def)
    have "wakeable x u" using Cons.prems(2) e that by simp
    moreover have "act_ValidateActivity u x1 = act_ValidateActivity u x"
      using W ne by (intro act_ValidateActivity_cong) simp_all
    ultimately show ?thesis using W by (simp add: wakeable_def)
  qed
  with W Cons.prems(3) have "\<exists>x'. sq_WakeAll q x1 = Some x'" by (intro Cons.hyps(1)) auto
  moreover have "act_ValidateActivity t (link_Unlink t x)"
    using t act_ValidateActivity_cong [of "link_Unlink t x" x t] by (simp add: wakeable_def)
  ultimately show ?case using w
    by (auto simp: sq_WakeAll.simps [of q x] act_DequeueNext_def e)
qed

section \<open>The choice of the next activity\<close>

text \<open>The highest priority with a ready activity.\<close>

definition top_queue :: "sched \<Rightarrow> nat \<Rightarrow> bool" where
  "top_queue x n = (queues x (SQ_Ready (RQ_Prio n)) \<noteq> []
     \<and> (\<forall>m>n. queues x (SQ_Ready (RQ_Prio m)) = []))"

lemma clear_run_bit_simps [simp]:
  "queues (clear_run_bit n x) = queues x" "acts (clear_run_bit n x) = acts x" "procs (clear_run_bit n x) = procs x"
  "act_curActivity (clear_run_bit n x) = act_curActivity x"
  "proc_curProcess (clear_run_bit n x) = proc_curProcess x"
  "numFreeActivities (clear_run_bit n x) = numFreeActivities x" "nActivity (clear_run_bit n x) = nActivity x"
  by (simp_all add: clear_run_bit_def)

lemma bit_clear_run_bit: "bit (act_RunQueueMap (clear_run_bit n x)) m = (bit (act_RunQueueMap x) m \<and> m \<noteq> n)"
proof -
  have "m < 32" if "bit (act_RunQueueMap x) m" using bit_imp_le_length [OF that] by simp
  then show ?thesis by (auto simp: clear_run_bit_def bit_simps)
qed

lemma run_ok_clear_empty:
  assumes "run_ok x" "queues x (SQ_Ready (RQ_Prio n)) = []"
  shows "run_ok (clear_run_bit n x)"
  unfolding run_ok_def
proof (intro allI impI)
  fix r assume "queues (clear_run_bit n x) (SQ_Ready r) \<noteq> []"
  then have r: "queues x (SQ_Ready r) \<noteq> []" by simp
  with assms(1) obtain m where "r = RQ_Prio m" "m \<le> capros_SchedC_Priority_Max" "m \<noteq> pr_Reserve"
    "bit (act_RunQueueMap x) m" unfolding run_ok_def by blast
  moreover from this r assms(2) have "m \<noteq> n" by auto
  ultimately show "\<exists>n'. r = RQ_Prio n' \<and> n' \<le> capros_SchedC_Priority_Max \<and> n' \<noteq> pr_Reserve
      \<and> bit (act_RunQueueMap (clear_run_bit n x)) n'" by (simp add: bit_clear_run_bit)
qed

text \<open>The map has no bit for a priority above the last one, nor for the reserves.\<close>

definition map_ok :: "sched \<Rightarrow> bool" where
  "map_ok x = (\<forall>n. bit (act_RunQueueMap x) n \<longrightarrow> n \<le> capros_SchedC_Priority_Max \<and> n \<noteq> pr_Reserve)"

lemma choose_queue_correct:
  assumes "run_ok x" "map_ok x" "top_queue x n"
  shows "\<exists>x'. choose_queue x = Some (n, x') \<and> queues x' = queues x \<and> acts x' = acts x
    \<and> procs x' = procs x \<and> act_curActivity x' = act_curActivity x \<and> nActivity x' = nActivity x
    \<and> numFreeActivities x' = numFreeActivities x \<and> run_ok x' \<and> map_ok x'"
  using assms
proof (induction x rule: choose_queue.induct)
  case (1 x)
  let ?m = "fls32 (act_RunQueueMap x) - 1"
  from 1(2,4) have n: "bit (act_RunQueueMap x) n" unfolding run_ok_def top_queue_def by blast
  then have nz: "act_RunQueueMap x \<noteq> 0" by auto
  have msb: "is_msb (act_RunQueueMap x) ?m" using fls32_is_msb [OF nz] by simp
  then have m: "?m \<noteq> pr_Reserve" "\<not> ?m > capros_SchedC_Priority_Max"
    using 1(3) by (auto simp: is_msb_def map_ok_def not_less)
  have le: "n \<le> ?m" using msb n by (auto simp: is_msb_def not_less [symmetric])
  show ?case
  proof (cases "queues x (SQ_Ready (RQ_Prio ?m)) = []")
    case True
    have "map_ok (clear_run_bit ?m x)" using 1(3) by (simp add: map_ok_def bit_clear_run_bit)
    moreover have "top_queue (clear_run_bit ?m x) n" using 1(4) by (simp add: top_queue_def)
    ultimately show ?thesis
      using 1(1) [OF nz refl _ _ run_ok_clear_empty [OF 1(2) True]] m nz True
      by (simp add: choose_queue.simps [of x] Let_def)
  next
    case False
    with 1(4) le have "?m = n" by (metis le_neq_implies_less top_queue_def)
    with False m nz 1(2,3) show ?thesis by (simp add: choose_queue.simps [of x] Let_def)
  qed
qed

lemma act_ChooseNewCurrentActivity_correct:
  assumes "sched_inv {} x" "map_ok x" "top_queue x n" "n > capros_SchedC_Priority_Never"
    and "\<And>a. a < nActivity x \<Longrightarrow> act_state (acts x a) \<noteq> act_Running"
  shows "\<exists>x'. act_ChooseNewCurrentActivity x = Some x' \<and> sched_inv {} x' \<and> map_ok x'
    \<and> act_curActivity x' = Some (hd (queues x (SQ_Ready (RQ_Prio n))))
    \<and> queues x' = (queues x)(SQ_Ready (RQ_Prio n) := tl (queues x (SQ_Ready (RQ_Prio n))))
    \<and> procs x' = procs x \<and> nActivity x' = nActivity x"
proof -
  let ?q = "SQ_Ready (RQ_Prio n)"
  note D = sched_invD [OF assms(1)]
  from choose_queue_correct [OF D(4) assms(2,3)] obtain y where y: "choose_queue x = Some (n, y)"
    "queues y = queues x" "acts y = acts x" "procs y = procs x" "act_curActivity y = act_curActivity x"
    "numFreeActivities y = numFreeActivities x" "run_ok y" "map_ok y" "nActivity y = nActivity x" by blast
  from assms(3) obtain a as where as: "queues x ?q = a # as" by (cases "queues x ?q") (auto simp: top_queue_def)
  have q: "act_q (acts x a) = Some ?q" using as sched_inv_queue [OF assms(1), of a ?q] by simp
  then have r: "act_state (acts x a) = act_Ready \<and> act_readyQ (acts x a) = Some (RQ_Prio n)"
    using sched_inv_state [OF assms(1) sched_inv_queued [OF assms(1) q]] by (auto simp: state_ok_def split: act_State.splits)
  have uq: "queues (link_Unlink a y) = (queues x)(?q := as)" using q as y(2,3) by (simp add: link_Unlink_def)
  define z where "z = upd_act a (act_state_update (\<lambda>_. act_Running))
    ((link_Unlink a y)\<lparr>act_curActivity := Some a, proc_curProcess := act_proc (acts (link_Unlink a y) a)\<rparr>)"
  have z: "queues z = (queues x)(?q := as)" "procs z = procs x" "act_curActivity z = Some a"
    "act_RunQueueMap z = act_RunQueueMap y" "numFreeActivities z = numFreeActivities x"
    "acts z = (acts x)(a := (acts x a)\<lparr>act_q := None, act_state := act_Running\<rparr>)" "nActivity z = nActivity x"
    using y uq by (simp_all add: z_def)
  have run: "run_ok z"
    unfolding run_ok_def z(4)
  proof (intro allI impI)
    fix r assume "queues z (SQ_Ready r) \<noteq> []"
    then have "queues y (SQ_Ready r) \<noteq> []" using z(1) y(2) as by (auto split: if_splits)
    with y(7) show "\<exists>n. r = RQ_Prio n \<and> n \<le> capros_SchedC_Priority_Max \<and> n \<noteq> pr_Reserve
        \<and> bit (act_RunQueueMap y) n" unfolding run_ok_def by blast
  qed
  have "sched_inv {} z"
  proof (rule sched_invI)
    have "queues_ok (link_Unlink a y)" by (intro queues_ok_Unlink) (use D(1) y(2,3,9) in \<open>simp add: queues_ok_def\<close>)
    then show "queues_ok z" using queues_ok_cong [of z "link_Unlink a y"] by (simp add: z_def)
    show "states_ok {} z" unfolding states_ok_def
    proof (intro conjI allI impI)
      fix b assume "b < nActivity z"
      then have bn: "b < nActivity x" by (simp add: z)
      show "state_ok (act_curActivity z) b (acts z b)"
      proof (cases "b = a")
        case False
        with sched_inv_state [OF assms(1) bn] assms(5) [OF bn] show ?thesis
          by (auto simp: z state_ok_def split: act_State.splits)
      qed (use r in \<open>simp add: z state_ok_def\<close>)
    qed simp
    show "pairs_ok {} z" by (rule pairs_ok_same [OF D(3)]) (simp_all add: z)
    show "run_ok z" by (rule run)
    show "sleepers_ok z" using D(5) by (subst sleepers_ok_cong [where x = x]) (auto simp: z)
    show "free_ok z" using D(6) by (simp add: free_ok_def z)
  qed
  moreover have "sched_inv {} (clear_run_bit n z)" if "as = []"
  proof -
    have "run_ok (clear_run_bit n z)" using run that by (intro run_ok_clear_empty) (simp_all add: z)
    with \<open>sched_inv {} z\<close> pairs_ok_same [of "{}" z "{}" "clear_run_bit n z"] show ?thesis
      by (simp add: sched_inv_def queues_ok_def states_ok_def sleepers_ok_def free_ok_def)
  qed
  moreover have "act_ChooseNewCurrentActivity x = Some (if as = [] then clear_run_bit n z else z)"
    using y(1,2) assms(4) as z(1) by (simp add: act_ChooseNewCurrentActivity_def Let_def z_def)
  moreover have "map_ok z" "map_ok (clear_run_bit n z)" using y(8) z(4)
    by (simp_all add: map_ok_def bit_clear_run_bit)
  ultimately show ?thesis using as z by auto
qed

end
