(* ===== verification/Rescind.thy ===== *)
theory Rescind
  imports Key_Rings_Ops Sched_Inv
begin

text \<open>
  Rescinding an object (sys/kernel/kern_ObjectHeader.c) and clearing it (sys/kernel/kern_Node.c):
  after \<^verbatim>\<open>objH_Rescind\<close> no key in the system designates the object. Keys that are prepared are
  found on the key rings and voided; keys that are not are made stale by raising the count.
\<close>

section \<open>Operations\<close>

definition node_DoBumpCallCount :: "obj_ptr \<Rightarrow> kern \<Rightarrow> kern option" where
  "node_DoBumpCallCount p s =
     (let s = upd_obj p (\<lambda>ob. ob\<lparr>callCount := callCount ob + 1\<rparr>) s;
          s = (if \<not> objH_GetFlags (obj_at s p) OFLG_Cleanable
                  \<and> callCount (obj_at s p) > maxNPCount s
               then s\<lparr>maxNPCount := callCount (obj_at s p)\<rparr> else s);
          s = upd_obj p (\<lambda>ob. objH_ClearFlags ob OFLG_CallCntUsed) s
      in do { assert_that (objH_GetFlags (obj_at s p) OFLG_DIRTY); Some s })"

definition node_BumpCallCount :: "obj_ptr \<Rightarrow> kern \<Rightarrow> kern option" where
  "node_BumpCallCount p s =
     (if objH_GetFlags (obj_at s p) OFLG_CallCntUsed then node_DoBumpCallCount p s else Some s)"

text \<open>
  The last part of \<^verbatim>\<open>objH_Rescind\<close>, which makes the unprepared keys stale.
\<close>

definition Rescind_BumpAllocCount :: "obj_ptr \<Rightarrow> kern \<Rightarrow> kern option" where
  "Rescind_BumpAllocCount p s =
     (if objH_GetFlags (obj_at s p) OFLG_AllocCntUsed then
        let s = upd_obj p (\<lambda>ob. ob\<lparr>allocCount := allocCount ob + 1\<rparr>) s;
            s = (if \<not> objH_GetFlags (obj_at s p) OFLG_Cleanable
                    \<and> allocCount (obj_at s p) > maxNPCount s
                 then s\<lparr>maxNPCount := allocCount (obj_at s p)\<rparr> else s);
            s = upd_obj p (\<lambda>ob. objH_ClearFlags ob OFLG_AllocCntUsed) s
        in do { assert_that (objH_GetFlags (obj_at s p) OFLG_DIRTY); Some s }
      else Some s)"

text \<open>
  The part of \<^verbatim>\<open>objH_Rescind\<close> for a node that may be the root of a process: its keys and its
  activity.
\<close>

definition Rescind_Process :: "obj_ptr \<Rightarrow> kern \<Rightarrow> kern option" where
  "Rescind_Process p s =
     (if obType (obj_at s p) = ot_NtProcessRoot then do {
        let proc = prep_context (obj_at s p);
        s \<leftarrow> keyR_RescindAll (ProcRing proc) s;
        if curActivity (procs (k_sched s) proc) \<noteq> None then on_sched (delete_proc_activity proc) s
        else on_sched (delete_oid_activity (obOid (obj_at s p)) (callCount (obj_at s p))) s }
      else on_sched (delete_oid_activity (obOid (obj_at s p)) (callCount (obj_at s p))) s)"

definition objH_Rescind :: "obj_ptr \<Rightarrow> kern \<Rightarrow> kern option" where
  "objH_Rescind p s = do {
     s \<leftarrow> keyR_RescindAll (ObjRing p) s;
     s \<leftarrow> (if objH_isNodeType (obj_at s p) then do {
              s \<leftarrow> node_BumpCallCount p s;
              Rescind_Process p s }
            else Some s);
     Rescind_BumpAllocCount p s }"

fun node_VoidSlots :: "obj_ptr \<Rightarrow> nat list \<Rightarrow> kern \<Rightarrow> kern option" where
  "node_VoidSlots p [] s = Some s"
| "node_VoidSlots p (k # ks) s = do {
     assert_that (\<not> keyBits_IsHazard (keys s (KSlot p k)));
     node_VoidSlots p ks (key_NH_SetToVoid (KSlot p k) s) }"

definition node_DoClearThisNode :: "obj_ptr \<Rightarrow> kern \<Rightarrow> kern option" where
  "node_DoClearThisNode p s = do {
     assert_that (InvocationCommitted s);
     s \<leftarrow> node_ClearAllHazards p s;
     s \<leftarrow> node_VoidSlots p [0..<EROS_NODE_SIZE] s;
     Some (upd_obj p (\<lambda>ob. ob\<lparr>nodeData := 0\<rparr>) s) }"

definition objH_ClearObj :: "obj_ptr \<Rightarrow> kern \<Rightarrow> kern option" where
  "objH_ClearObj p s =
     (if objH_isNodeType (obj_at s p) then node_DoClearThisNode p s
      else case obType (obj_at s p) of
          ot_PtDataPage \<Rightarrow> Some (upd_obj p (\<lambda>ob. ob\<lparr>pageData := replicate EROS_PAGE_SIZE 0\<rparr>) s)
        | ot_PtDevBlock \<Rightarrow> Some s
        | ot_PtDMABlock \<Rightarrow> Some s
        | ot_PtSecondary \<Rightarrow> Some s
        | _ \<Rightarrow> None)"

section \<open>What the parts do\<close>

lemma bump_fields:
  "obType (objH_ClearFlags ob w) = obType ob" "obOid (objH_ClearFlags ob w) = obOid ob"
  "allocCount (objH_ClearFlags ob w) = allocCount ob" "callCount (objH_ClearFlags ob w) = callCount ob"
  "prep_context (objH_ClearFlags ob w) = prep_context ob"
  by (simp_all add: objH_ClearFlags_def)

text \<open>The effect of the two counter bumps on the object and on what is left alone.\<close>

definition bumped :: "obj_ptr \<Rightarrow> kern \<Rightarrow> kern \<Rightarrow> bool" where
  "bumped p s s' =
     (keys s' = keys s \<and> rings s' = rings s \<and> nObjs s' = nObjs s \<and> obBucket s' = obBucket s \<and> procRoot s' = procRoot s
      \<and> k_inv s' = k_inv s \<and> k_sched s' = k_sched s \<and> (\<forall>q. q \<noteq> p \<longrightarrow> obj_at s' q = obj_at s q)
      \<and> obType (obj_at s' p) = obType (obj_at s p) \<and> obOid (obj_at s' p) = obOid (obj_at s p)
      \<and> prep_context (obj_at s' p) = prep_context (obj_at s p))"

lemma ClearFlags_other:
  assumes "v AND w = 0"
  shows "objH_GetFlags (objH_ClearFlags ob w) v = objH_GetFlags ob v"
proof -
  have "(x AND NOT w) AND v = x AND v" for x
  proof (rule bit_word_eqI)
    fix n
    have "\<not> (bit v n \<and> bit w n)" using assms by (metis bit_0_eq bit_and_iff bot_apply bot_bool_def)
    then show "bit ((x AND NOT w) AND v) n = bit (x AND v) n" if "n < LENGTH(8)"
      using that by (auto simp: bit_simps)
  qed
  then show ?thesis by (simp add: objH_GetFlags_def objH_ClearFlags_def)
qed

lemma ClearFlags_same: "\<not> objH_GetFlags (objH_ClearFlags ob w) w"
proof -
  have "(x AND NOT w) AND w = 0" for x :: u8 by (auto simp: bit_eq_iff bit_simps)
  then show ?thesis by (simp add: objH_GetFlags_def objH_ClearFlags_def)
qed

lemma GetFlags_count [simp]:
  "objH_GetFlags (ob\<lparr>callCount := c\<rparr>) w = objH_GetFlags ob w"
  "objH_GetFlags (ob\<lparr>allocCount := c\<rparr>) w = objH_GetFlags ob w"
  by (simp_all add: objH_GetFlags_def)

lemma node_BumpCallCount_result:
  assumes "node_BumpCallCount p s = Some s'"
  shows "bumped p s s'" "allocCount (obj_at s' p) = allocCount (obj_at s p)"
    "objH_GetFlags (obj_at s' p) OFLG_AllocCntUsed = objH_GetFlags (obj_at s p) OFLG_AllocCntUsed"
    "if objH_GetFlags (obj_at s p) OFLG_CallCntUsed
     then callCount (obj_at s' p) = callCount (obj_at s p) + 1
     else callCount (obj_at s' p) = callCount (obj_at s p)"
    "\<not> objH_GetFlags (obj_at s' p) OFLG_CallCntUsed"
  using assms
  by (auto simp: node_BumpCallCount_def node_DoBumpCallCount_def Let_def bumped_def obj_at_def
      bump_fields ClearFlags_other ClearFlags_same OFLG_AllocCntUsed_def OFLG_CallCntUsed_def
      split: if_splits)

lemma Rescind_BumpAllocCount_result:
  assumes "Rescind_BumpAllocCount p s = Some s'"
  shows "bumped p s s'" "callCount (obj_at s' p) = callCount (obj_at s p)"
    "objH_GetFlags (obj_at s' p) OFLG_CallCntUsed = objH_GetFlags (obj_at s p) OFLG_CallCntUsed"
    "if objH_GetFlags (obj_at s p) OFLG_AllocCntUsed
     then allocCount (obj_at s' p) = allocCount (obj_at s p) + 1
     else allocCount (obj_at s' p) = allocCount (obj_at s p)"
    "\<not> objH_GetFlags (obj_at s' p) OFLG_AllocCntUsed"
  using assms
  by (auto simp: Rescind_BumpAllocCount_def Let_def bumped_def obj_at_def
      bump_fields ClearFlags_other ClearFlags_same OFLG_AllocCntUsed_def OFLG_CallCntUsed_def
      split: if_splits)

lemma bumped_obType: "bumped p s s' \<Longrightarrow> obType (obj_at s' q) = obType (obj_at s q)"
  by (cases "q = p") (auto simp: bumped_def)

lemma bumped_clearable: "clearable s \<Longrightarrow> bumped p s s' \<Longrightarrow> clearable s'"
proof -
  assume "clearable s" and b: "bumped p s s'"
  moreover have "mapping_hazard s' r = mapping_hazard s r" for r
    using bumped_obType [OF b] b by (simp add: mapping_hazard_def bumped_def split: kref.split)
  ultimately show ?thesis by (simp add: clearable_def bumped_def)
qed

section \<open>What rescinding does\<close>

definition ring_keys :: "obj_ptr \<Rightarrow> kern \<Rightarrow> kref set" where
  "ring_keys p s = set (rings s (ObjRing p))
     \<union> (if obType (obj_at s p) = ot_NtProcessRoot
        then set (rings s (ProcRing (prep_context (obj_at s p)))) else {})"

definition rescinded_state :: "obj_ptr \<Rightarrow> kern \<Rightarrow> kern \<Rightarrow> bool" where
  "rescinded_state p s s' =
     (keys s' = (\<lambda>r. if r \<in> ring_keys p s then void_key else keys s r)
      \<and> ring_ok (keys s') (rings s') \<and> nObjs s' = nObjs s \<and> obBucket s' = obBucket s \<and> procRoot s' = procRoot s
      \<and> (\<forall>q. q \<noteq> p \<longrightarrow> obj_at s' q = obj_at s q)
      \<and> obType (obj_at s' p) = obType (obj_at s p) \<and> obOid (obj_at s' p) = obOid (obj_at s p)
      \<and> prep_context (obj_at s' p) = prep_context (obj_at s p)
      \<and> (if objH_GetFlags (obj_at s p) OFLG_AllocCntUsed
         then allocCount (obj_at s' p) = allocCount (obj_at s p) + 1
         else allocCount (obj_at s' p) = allocCount (obj_at s p))
      \<and> (objH_isNodeType (obj_at s p) \<longrightarrow>
           (if objH_GetFlags (obj_at s p) OFLG_CallCntUsed
            then callCount (obj_at s' p) = callCount (obj_at s p) + 1
            else callCount (obj_at s' p) = callCount (obj_at s p)))
      \<and> (\<not> objH_isNodeType (obj_at s p) \<longrightarrow> callCount (obj_at s' p) = callCount (obj_at s p)))"

lemma objH_Rescind_result:
  assumes "ring_ok (keys s) (rings s)" "clearable s" "objH_Rescind p s = Some s'"
  shows "rescinded_state p s s'"
proof -
  from keyR_RescindAll_result [OF assms(1,2)] obtain s1
    where s1: "keyR_RescindAll (ObjRing p) s = Some s1" "void_ring (rings s (ObjRing p)) s s1"
      "rings s1 = (rings s)(ObjRing p := [])" "ring_ok (keys s1) (rings s1)" "clearable s1"
    by blast
  note o1 = void_ringD [OF s1(2)]
  show ?thesis
  proof (cases "objH_isNodeType (obj_at s p)")
    case False
    then have np: "obType (obj_at s p) \<noteq> ot_NtProcessRoot" by (auto simp: objH_isNodeType_def)
    from False assms(3) s1(1) have "Rescind_BumpAllocCount p s1 = Some s'"
      by (simp add: objH_Rescind_def o1)
    note b = Rescind_BumpAllocCount_result [OF this]
    show ?thesis using b s1(4) o1 False np
      by (simp add: rescinded_state_def ring_keys_def bumped_def)
  next
    case True
    with assms(3) s1(1) obtain s2 where s2: "node_BumpCallCount p s1 = Some s2"
      by (auto simp: objH_Rescind_def o1 bind_eq_Some_conv)
    note b2 = node_BumpCallCount_result [OF s2]
    have ok2: "ring_ok (keys s2) (rings s2)" "clearable s2"
      using b2(1) s1(4,5) by (auto simp: bumped_def intro: bumped_clearable)
    define rid where "rid = ProcRing (prep_context (obj_at s p))"
    from assms(3) s1(1) s2 True obtain s4 where s4: "Rescind_Process p s2 = Some s4"
      and s': "Rescind_BumpAllocCount p s4 = Some s'"
      by (auto simp: objH_Rescind_def o1 bind_eq_Some_conv)
    have same: "obType (obj_at s2 p) = obType (obj_at s p)" "ProcRing (prep_context (obj_at s2 p)) = rid"
      using b2(1) o1 by (simp_all add: bumped_def rid_def)
    from s4 obtain s3 x where s3: "if obType (obj_at s p) = ot_NtProcessRoot
        then keyR_RescindAll rid s2 = Some s3 else s3 = s2" and s4': "s4 = s3\<lparr>k_sched := x\<rparr>"
      by (auto simp: Rescind_Process_def Let_def bind_eq_Some_conv on_sched_Some same split: if_splits)
    have v3: "(if obType (obj_at s p) = ot_NtProcessRoot then void_ring (rings s2 rid) s2 s3 else s3 = s2)
        \<and> ring_ok (keys s3) (rings s3)"
      using keyR_RescindAll_result [OF ok2, of rid] ok2 s3 by (auto split: if_splits)
    have o3: "obj_at s3 = obj_at s2" "nObjs s3 = nObjs s2" "obBucket s3 = obBucket s2" "procRoot s3 = procRoot s2"
      "keys s3 = (\<lambda>r. if r \<in> ring_keys p s then void_key else keys s r)"
      using v3 b2(1) o1 s1(3)
      by (auto simp: void_ring_def bumped_def obj_at_def ring_keys_def rid_def fun_eq_iff
          split: if_splits)
    have s3': "ring_ok (keys s4) (rings s4)" "obj_at s4 = obj_at s3" "nObjs s4 = nObjs s3" "obBucket s4 = obBucket s3"
      "procRoot s4 = procRoot s3" "keys s4 = keys s3"
      using v3 by (simp_all add: s4' fun_eq_iff)
    note b = Rescind_BumpAllocCount_result [OF s']
    show ?thesis using b b2 s3' o1 o3 True by (simp add: rescinded_state_def bumped_def)
  qed
qed

text \<open>An unprepared key to the object is stale afterwards, as long as the count did not wrap.\<close>

lemma rescinded_count:
  assumes "kern_inv s" "rescinded_state p s s'" "is_obj s p"
    and "allocCount (obj_at s p) + 1 \<noteq> 0" "callCount (obj_at s p) + 1 \<noteq> 0"
    and "\<not> keyBits_IsPrepared (keys s r)" "keyBits_IsObjectKey (keys s r)"
    and "key_u (keys s r) = U_unprep (obOid (obj_at s p)) c"
    and "objH_GetBaseType (obj_at s p) = base_of (keyType (keys s r))"
  shows "c < count_for (keys s r) (obj_at s' p)"
proof -
  let ?k = "keys s r"
  have le: "c \<le> count_for ?k (obj_at s p)"
    and used: "c = count_for ?k (obj_at s p) \<Longrightarrow> objH_GetFlags (obj_at s p) (used_for ?k)"
    using kern_inv_cnt_ok [OF assms(1), of r] assms(3,6-9) by (auto simp: cnt_ok_def)
  have node: "keyType ?k = KKT_Resume \<Longrightarrow> objH_isNodeType (obj_at s p)"
    using assms(9) by (simp add: base_of_def objH_GetBaseType_def objH_isNodeType_def split: if_splits)
  have "count_for ?k (obj_at s' p)
      = (if objH_GetFlags (obj_at s p) (used_for ?k) then count_for ?k (obj_at s p) + 1
         else count_for ?k (obj_at s p))"
    using assms(2) node by (simp add: rescinded_state_def count_for_def used_for_def)
  moreover have "x < x + 1" if "x + 1 \<noteq> 0" for x :: u32
    using that by (rule word_less_inc)
  moreover have "count_for ?k (obj_at s p) + 1 \<noteq> 0" using assms(4,5) by (simp add: count_for_def)
  ultimately show ?thesis using le used by (metis order_le_less_trans order_le_less)
qed

lemma ring_keys_prepared:
  assumes "kern_inv s" "is_obj s p" "keyBits_IsPrepared (keys s r)"
    and "keyBits_IsObjectKey (keys s r)"
  shows "r \<in> ring_keys p s \<longleftrightarrow> key_GetObjectPtr s (keys s r) = Some p"
proof -
  let ?k = "keys s r"
  have prep: "keyBits_IsPreparedObjectKey ?k"
    using assms(3,4) by (simp add: keyBits_IsPreparedObjectKey_def)
  note ring = ring_okD(2) [OF kern_inv_ring [OF assms(1)]]
  note wf = kern_inv_wf_key [OF assms(1), of r]
  show ?thesis
  proof (cases "keyBits_IsProcessType ?k")
    case True
    with wf assms(3,4) obtain pr q where q: "key_u ?k = U_gk pr" "procRoot s pr = Some q"
      "is_obj s q" "obType (obj_at s q) = ot_NtProcessRoot" "prep_context (obj_at s q) = pr"
      by (auto simp: wf_key_def)
    have "key_ring ?k = Some (ProcRing pr)"
      using prep True q(1) by (simp add: key_ring_def key_pContext_def)
    then have "r \<in> ring_keys p s
        \<longleftrightarrow> obType (obj_at s p) = ot_NtProcessRoot \<and> prep_context (obj_at s p) = pr"
      by (auto simp: ring_keys_def ring)
    moreover have "procRoot s (prep_context (obj_at s p)) = Some p"
      if "obType (obj_at s p) = ot_NtProcessRoot"
      using kern_inv_wf_procs [OF assms(1)] assms(2) that by (simp add: wf_procs_def)
    ultimately have "r \<in> ring_keys p s \<longleftrightarrow> q = p"
      using q(2,4,5) by (metis option.inject)
    then show ?thesis using q True prep by (simp add: key_GetObjectPtr_Some)
  next
    case False
    with wf assms(3,4) obtain q where q: "key_u ?k = U_ok q" by (auto simp: wf_key_def)
    then have "key_ring ?k = Some (ObjRing q)" using prep False by (simp add: key_ring_def key_pObj_def)
    with q False prep show ?thesis by (auto simp: ring_keys_def ring key_GetObjectPtr_Some)
  qed
qed

lemma ring_keys_object:
  "kern_inv s \<Longrightarrow> r \<in> ring_keys p s \<Longrightarrow> keyBits_IsPreparedObjectKey (keys s r)"
  by (auto simp: ring_keys_def ring_okD(2) [OF kern_inv_ring] dest: key_ring_Some_prepared
      split: if_splits)

lemma rescinded_frame:
  assumes "rescinded_state p s s'"
  shows "is_obj s' q = is_obj s q" "obOid (obj_at s' q) = obOid (obj_at s q)"
    "obType (obj_at s' q) = obType (obj_at s q)"
    "objH_GetBaseType (obj_at s' q) = objH_GetBaseType (obj_at s q)"
    "prep_context (obj_at s' q) = prep_context (obj_at s q)" "procRoot s' = procRoot s"
    "obBucket s' = obBucket s" "nObjs s' = nObjs s" "key_GetObjectPtr s' k = key_GetObjectPtr s k"
proof -
  show t: "obType (obj_at s' q) = obType (obj_at s q)" "obOid (obj_at s' q) = obOid (obj_at s q)"
    "prep_context (obj_at s' q) = prep_context (obj_at s q)"
    using assms by (cases "q = p"; simp add: rescinded_state_def)+
  show "is_obj s' q = is_obj s q" using t assms by (simp add: is_obj_def rescinded_state_def)
  show "objH_GetBaseType (obj_at s' q) = objH_GetBaseType (obj_at s q)"
    using t by (simp add: objH_GetBaseType_def)
  show "obBucket s' = obBucket s" "nObjs s' = nObjs s"
    using assms by (simp_all add: rescinded_state_def)
  show "procRoot s' = procRoot s" using assms by (simp add: rescinded_state_def)
  then show "key_GetObjectPtr s' k = key_GetObjectPtr s k" by (simp add: key_GetObjectPtr_def)
qed

lemma rescinded_not_denoted:
  assumes "kern_inv s" "rescinded_state p s s'" "is_obj s p"
    and "allocCount (obj_at s p) + 1 \<noteq> 0" "callCount (obj_at s p) + 1 \<noteq> 0"
  shows "\<not> denotes s' (keys s' r) p"
proof
  assume d: "denotes s' (keys s' r) p"
  note fr = rescinded_frame [OF assms(2)]
  have out: "r \<notin> ring_keys p s" and key: "keys s' r = keys s r"
    using d assms(2) by (auto simp: denotes_def rescinded_state_def split: if_splits)
  have obj: "keyBits_IsObjectKey (keys s r)" using d key by (simp add: denotes_def)
  show False
  proof (cases "keyBits_IsPrepared (keys s r)")
    case True
    with d key out ring_keys_prepared [OF assms(1,3) True obj] show False
      by (simp add: denotes_def fr)
  next
    case False
    with d key have "key_u (keys s r) = U_unprep (obOid (obj_at s p)) (count_for (keys s r) (obj_at s' p))"
      "objH_GetBaseType (obj_at s p) = base_of (keyType (keys s r))"
      by (simp_all add: denotes_def fr)
    from rescinded_count [OF assms False obj this] show False by simp
  qed
qed

lemma rescinded_denotes_other:
  assumes "kern_inv s" "rescinded_state p s s'" "is_obj s p" "q \<noteq> p"
  shows "denotes s' (keys s' r) q = denotes s (keys s r) q"
proof (cases "r \<in> ring_keys p s")
  case True
  then have "keyBits_IsPrepared (keys s r)" "keyBits_IsObjectKey (keys s r)"
    using ring_keys_object [OF assms(1)] by (auto simp: keyBits_IsPreparedObjectKey_def)
  with ring_keys_prepared [OF assms(1,3) this] True assms(4) have "\<not> denotes s (keys s r) q"
    by (simp add: denotes_def)
  moreover have "\<not> denotes s' (keys s' r) q"
    using True assms(2) by (simp add: denotes_def rescinded_state_def)
  ultimately show ?thesis by simp
next
  case False
  with assms(2,4) show ?thesis
    using rescinded_frame [OF assms(2)] by (simp add: denotes_def rescinded_state_def)
qed

lemma rescinded_inv:
  assumes "kern_inv s" "rescinded_state p s s'" "is_obj s p"
    and "allocCount (obj_at s p) + 1 \<noteq> 0" "callCount (obj_at s p) + 1 \<noteq> 0"
  shows "kern_inv s'"
proof -
  note fr = rescinded_frame [OF assms(2)]
  have "wf_objs s'" "wf_procs s'"
    using kern_inv_wf_objs [OF assms(1)] kern_inv_wf_procs [OF assms(1)]
    by (simp_all add: wf_objs_def wf_procs_def fr)
  moreover have "wf_key s' (keys s' r)" for r
  proof (cases "r \<in> ring_keys p s")
    case False
    then have "keys s' r = keys s r" using assms(2) by (simp add: rescinded_state_def)
    moreover have "wf_key s' k = wf_key s k" for k by (simp add: wf_key_def fr)
    ultimately show ?thesis using kern_inv_wf_key [OF assms(1)] by simp
  qed (use assms(2) in \<open>simp add: rescinded_state_def\<close>)
  moreover have "cnt_ok s' (keys s' r)" for r
    unfolding cnt_ok_def
  proof (intro allI impI)
    fix q c
    assume q: "keyBits_IsObjectKey (keys s' r) \<and> \<not> keyBits_IsPrepared (keys s' r) \<and> is_obj s' q
      \<and> key_u (keys s' r) = U_unprep (obOid (obj_at s' q)) c
      \<and> objH_GetBaseType (obj_at s' q) = base_of (keyType (keys s' r))"
    then have key: "keys s' r = keys s r"
      using assms(2) by (auto simp: rescinded_state_def split: if_splits)
    show "c \<le> count_for (keys s' r) (obj_at s' q)
      \<and> (c = count_for (keys s' r) (obj_at s' q) \<longrightarrow> objH_GetFlags (obj_at s' q) (used_for (keys s' r)))"
    proof (cases "q = p")
      case True
      then have "c < count_for (keys s r) (obj_at s' p)"
        using q by (intro rescinded_count [OF assms]) (simp_all add: key fr)
      with True key show ?thesis by (auto simp: order_less_imp_le)
    next
      case False
      then have "obj_at s' q = obj_at s q" using assms(2) by (simp add: rescinded_state_def)
      with q key kern_inv_cnt_ok [OF assms(1), of r] show ?thesis by (simp add: cnt_ok_def fr)
    qed
  qed
  moreover have "ring_ok (keys s') (rings s')" using assms(2) unfolding rescinded_state_def by blast
  ultimately show ?thesis by (simp add: kern_inv_def)
qed

text \<open>
  C2. Rescission is complete and precise: after \<^verbatim>\<open>objH_Rescind\<close> no key anywhere in the system,
  prepared or not, designates the object, every key designates exactly the other objects it
  designated before, and the kernel invariant is kept. (The counts must not be about to wrap
  round, which is what the \<^verbatim>\<open>CntUsed\<close> flags are there to delay.)
\<close>

theorem objH_Rescind_sound:
  assumes "kern_inv s" "clearable s" "is_obj s p" "objH_Rescind p s = Some s'"
    and "allocCount (obj_at s p) + 1 \<noteq> 0" "callCount (obj_at s p) + 1 \<noteq> 0"
  shows "(\<forall>r. \<not> denotes s' (keys s' r) p)
    \<and> (\<forall>r q. q \<noteq> p \<longrightarrow> denotes s' (keys s' r) q = denotes s (keys s r) q) \<and> kern_inv s'"
proof -
  have "rescinded_state p s s'"
    using kern_inv_ring [OF assms(1)] assms(2,4) by (rule objH_Rescind_result)
  with assms show ?thesis
    by (simp add: rescinded_not_denoted rescinded_denotes_other rescinded_inv)
qed

text \<open>
  Rescinding returns: the loops over the key rings end, and the only other way to stop is the
  assertion that the object is dirty.
\<close>

lemma upd_dirty [simp]:
  "objH_GetFlags (objH_ClearFlags ob OFLG_CallCntUsed) OFLG_DIRTY = objH_GetFlags ob OFLG_DIRTY"
  "objH_GetFlags (objH_ClearFlags ob OFLG_AllocCntUsed) OFLG_DIRTY = objH_GetFlags ob OFLG_DIRTY"
  by (simp_all add: ClearFlags_other OFLG_defs)

lemma node_BumpCallCount_dirty:
  assumes "objH_GetFlags (obj_at s p) OFLG_DIRTY"
  shows "\<exists>s'. node_BumpCallCount p s = Some s' \<and> objH_GetFlags (obj_at s' p) OFLG_DIRTY"
  using assms
  by (auto simp: node_BumpCallCount_def node_DoBumpCallCount_def Let_def obj_at_def)

lemma Rescind_BumpAllocCount_dirty:
  assumes "objH_GetFlags (obj_at s p) OFLG_DIRTY"
  shows "\<exists>s'. Rescind_BumpAllocCount p s = Some s'"
  using assms by (auto simp: Rescind_BumpAllocCount_def Let_def obj_at_def)

text \<open>The activity of a rescinded process can be deleted, as long as no CPU reserve is involved.\<close>

definition activities_ok :: "kern \<Rightarrow> bool" where
  "activities_ok s = (let x = k_sched s in sched_inv {} x \<and> no_reserves x \<and> current_has_process x
     \<and> (\<forall>p a. curActivity (procs x p) = Some a \<longrightarrow> isUserContext (procs x p) \<and> a < nActivity x))"

lemma Rescind_Process_total:
  assumes "ring_ok (keys s) (rings s)" "clearable s" "activities_ok s"
  shows "\<exists>s'. Rescind_Process p s = Some s' \<and> objs s' = objs s"
proof -
  let ?proc = "prep_context (obj_at s p)"
  from keyR_RescindAll_result [OF assms(1,2), of "ProcRing ?proc"] obtain s1
    where s1: "keyR_RescindAll (ProcRing ?proc) s = Some s1" "objs s1 = objs s" "k_sched s1 = k_sched s"
    by (metis void_ringD(1,12))
  note A = assms(3) [unfolded activities_ok_def Let_def]
  have f: "\<exists>x'. delete_oid_activity oid c (k_sched s) = Some x'" for oid c
    using A by (intro delete_oid_activity_total) simp_all
  have d: "\<exists>x'. delete_proc_activity ?proc (k_sched s) = Some x'"
    if "curActivity (procs (k_sched s) ?proc) = Some a" for a
    using A that by (intro delete_proc_activity_total) auto
  have del: "\<exists>s'. on_sched g s0 = Some s' \<and> objs s' = objs s"
    if "\<exists>x'. g (k_sched s) = Some x'" "k_sched s0 = k_sched s" "objs s0 = objs s" for g s0
    using that by (auto simp: on_sched_def)
  show ?thesis
  proof (cases "obType (obj_at s p) = ot_NtProcessRoot")
    case True
    show ?thesis
    proof (cases "curActivity (procs (k_sched s) ?proc)")
      case None
      with del [of "delete_oid_activity (obOid (obj_at s1 p)) (callCount (obj_at s1 p))" s1, OF f s1(3,2)] True s1 show ?thesis by (simp add: Rescind_Process_def Let_def)
    next
      case (Some a)
      with del [of "delete_proc_activity ?proc" s1, OF d [OF Some] s1(3,2)] True s1 show ?thesis by (simp add: Rescind_Process_def Let_def)
    qed
  next
    case False
    with del [of "delete_oid_activity (obOid (obj_at s p)) (callCount (obj_at s p))" s, OF f refl refl] show ?thesis by (simp add: Rescind_Process_def)
  qed
qed

text \<open>
  C31. Rescinding a dirty object always completes, whatever keys are on its rings, hazarded
  or not, and whether or not it is a process with an activity.
\<close>

theorem objH_Rescind_total:
  assumes "kern_inv s" "clearable s" "objH_GetFlags (obj_at s p) OFLG_DIRTY" "activities_ok s"
  shows "\<exists>s'. objH_Rescind p s = Some s'"
proof -
  from keyR_RescindAll_result [OF kern_inv_ring [OF assms(1)] assms(2)] obtain s1
    where s1: "keyR_RescindAll (ObjRing p) s = Some s1" "void_ring (rings s (ObjRing p)) s s1"
      "ring_ok (keys s1) (rings s1)" "clearable s1" by blast
  note o1 = void_ringD [OF s1(2)]
  from assms(3) node_BumpCallCount_dirty [of s1 p] obtain s2
    where s2: "node_BumpCallCount p s1 = Some s2" "objH_GetFlags (obj_at s2 p) OFLG_DIRTY"
    by (auto simp: o1)
  note b = node_BumpCallCount_result(1) [OF s2(1)]
  have "ring_ok (keys s2) (rings s2)" "clearable s2"
    using b s1(3,4) by (auto simp: bumped_def intro: bumped_clearable)
  moreover have "activities_ok s2"
    using assms(4) b o1 by (simp add: bumped_def activities_ok_def)
  ultimately obtain s3 where s3: "Rescind_Process p s2 = Some s3" "objs s3 = objs s2"
    using Rescind_Process_total by blast
  have "objH_GetFlags (obj_at s3 p) OFLG_DIRTY" using s2(2) s3(2) by (simp add: obj_at_def)
  with s1(1) s2 s3(1) assms(3) Rescind_BumpAllocCount_dirty [of s1 p] Rescind_BumpAllocCount_dirty [of s3 p]
  show ?thesis by (simp add: objH_Rescind_def o1)
qed

lemma ex_sched_inv: "sched_inv {} ex_sched"
  unfolding ex_sched_def ex_act_def ex_proc_def
  by (auto simp: sched_inv_def queues_ok_def states_ok_def state_ok_def pairs_ok_def run_ok_def sleepers_ok_def
      free_ok_def less_2_cases_iff)

lemma ex_activities: "activities_ok ex_kern"
  using ex_sched_inv
  by (auto simp: activities_ok_def Let_def no_reserves_def current_has_process_def ex_sched_def ex_act_def
      ex_proc_def pr_Reserve_def split: if_splits)

lemma ex_clearable: "clearable ex_kern"
  by (simp add: clearable_def ex_key_defs key_flag_bits)

theorem objH_Rescind_total_witness: "\<exists>s'. objH_Rescind 0 ex_kern = Some s'"
  by (rule objH_Rescind_total [OF ex_kern_inv ex_clearable _ ex_activities])
    (simp add: ex_obj_defs objH_GetFlags_def OFLG_defs)

lemma ex_FindByOid: "act_FindByOid 0x500 1 ex_sched = Some (None, ex_sched)"
  by (simp add: act_FindByOid_def ex_sched_def ex_act_def numeral_2_eq_2)

lemma ex_rescind: "\<exists>s'. objH_Rescind 0 ex_kern = Some s'"
  by (simp add: objH_Rescind_def Rescind_Process_def on_sched_def delete_oid_activity_def ex_FindByOid
      keyR_RescindAll.simps ex_key_defs keyBits_IsPreparedObjectKey_def
      key_kinds key_flag_bits key_NH_SetToVoid_def keyBits_Unchain_def key_ring_def key_pObj_def
      node_BumpCallCount_def Rescind_BumpAllocCount_def Let_def ex_obj_defs objH_GetFlags_def
      OFLG_defs objH_ClearFlags_def obj_at_upd_obj)

theorem objH_Rescind_sound_witness:
  "\<exists>s'. objH_Rescind 0 ex_kern = Some s' \<and> (\<forall>r. \<not> denotes s' (keys s' r) 0) \<and> kern_inv s'"
proof -
  from ex_rescind obtain s' where s': "objH_Rescind 0 ex_kern = Some s'" ..
  from objH_Rescind_sound [OF ex_kern_inv ex_clearable _ s'] s' show ?thesis
    by (simp add: ex_obj_defs)
qed

end
