(* ===== verification/Inv_Block.thy ===== *)
theory Inv_Block
  imports Rescind Sched_Inv
begin

text \<open>
  What an invocation does before it takes effect: finding the process that receives the answer
  and the key registers it receives keys into (\<^verbatim>\<open>inv_GetReturnee\<close> of sys/kernel/kern_Invoke.c,
  \<^verbatim>\<open>proc_SetupExitBlock\<close> of sys/arch/arm/kernel/InvokeArm.c), and the commit point
  (\<^verbatim>\<open>inv_Commit\<close>), where the invoker gives up its activity or a new activity is allocated.

  Preparing a process that is not runnable (\<^verbatim>\<open>proc_DoPrepare\<close>) is not modelled, nor is the retry
  of an invocation at its commit point when memory maps were invalidated under it.
\<close>

section \<open>Kinds of invocations\<close>

definition IT_Return :: u32 where [kdefs]: "IT_Return = 0"
definition IT_PReturn :: u32 where [kdefs]: "IT_PReturn = 1"
definition IT_Call :: u32 where [kdefs]: "IT_Call = 2"
definition IT_Send :: u32 where [kdefs]: "IT_Send = 4"
definition IT_KeeperCall :: u32 where [kdefs]: "IT_KeeperCall = 6"

lemmas IT_defs = IT_Return_def IT_PReturn_def IT_Call_def IT_Send_def IT_KeeperCall_def

definition invType_IsCall :: "u32 \<Rightarrow> bool" where
  "invType_IsCall t = (t AND IT_Call \<noteq> 0)"

definition invType_IsPrompt :: "u32 \<Rightarrow> bool" where
  "invType_IsPrompt t = (t AND IT_PReturn \<noteq> 0)"

section \<open>Registers of the receiver\<close>

text \<open>Index 16 of the trap frame is the program status register \<^verbatim>\<open>CPSR\<close>.\<close>

definition MASK_CPSR_Thumb :: u32 where "MASK_CPSR_Thumb = 0x20"

definition proc_AdvancePostInvocationPC :: "Process \<Rightarrow> Process" where
  "proc_AdvancePostInvocationPC p =
     (let tf = trapFrame p
      in p\<lparr>trapFrame := tf(15 := tf 15 + (if tf 16 AND MASK_CPSR_Thumb \<noteq> 0 then 2 else 4))\<rparr>)"

definition ProcKeeper :: nat where "ProcKeeper = 1"
definition capros_Process_FC_MalformedSyscall :: u32 where "capros_Process_FC_MalformedSyscall = 1"
definition capros_key_messageLimit :: nat where "capros_key_messageLimit = 65536"
definition RESUME_SLOT :: nat where "RESUME_SLOT = 3"

definition proc_SetFault :: "proc_ptr \<Rightarrow> u32 \<Rightarrow> u32 \<Rightarrow> kern \<Rightarrow> kern option" where
  "proc_SetFault p code info s = do {
     assert_that (code \<noteq> 0);
     root \<leftarrow> procRoot s p;
     assert_that (keyBits_IsType (keys s (KSlot root ProcKeeper)) KKT_Start);
     Some (s\<lparr>k_sched := upd_proc p (\<lambda>q. q\<lparr>faultCode := code, faultInfo := info,
       processFlags := processFlags q OR capros_Process_PF_FaultToProcessKeeper\<rparr>) (k_sched s)\<rparr>) }"

text \<open>The four key registers that keys are received into, one byte of register r14 each; register 0
  stands for none.\<close>

definition rcv_key :: "proc_ptr \<Rightarrow> u32 \<Rightarrow> nat \<Rightarrow> kref option" where
  "rcv_key p r14 i =
     (let n = unat (drop_bit (8 * i) r14 AND 0xff)
      in if i < 4 \<and> n \<noteq> 0 then Some (KReg p n) else None)"

definition clear_exit :: "Invocation \<Rightarrow> Invocation" where
  "clear_exit i = i\<lparr>exit_code := RC_OK, exit_w1 := 0, exit_w2 := 0, exit_w3 := 0,
     exit_pKey := (\<lambda>_. None)\<rparr>"

definition proc_SetupExitBlock :: "proc_ptr option \<Rightarrow> kern \<Rightarrow> kern option" where
  "proc_SetupExitBlock thisPtr s =
     (let s = upd_inv clear_exit s in
      case thisPtr of
        None \<Rightarrow> Some (upd_inv (exit_rcvLen_update (\<lambda>_. 0)) s)
      | Some p \<Rightarrow>
          (let proc = procs (k_sched s) p; r14 = trapFrame proc 14 in
           if \<not> proc_IsExpectingMsg proc then Some (upd_inv (exit_rcvLen_update (\<lambda>_. 0)) s)
           else if r14 AND 0xe0e0e0e0 \<noteq> 0 then do {
             s \<leftarrow> proc_SetFault p capros_Process_FC_MalformedSyscall 0 s;
             Some (upd_inv (\<lambda>i. i\<lparr>invokee := None, exit_rcvLen := 0\<rparr>) s) }
           else Some (upd_inv (\<lambda>i. i\<lparr>exit_pKey := rcv_key p r14,
                  exit_rcvLen := min (unat (trapFrame proc 12)) capros_key_messageLimit\<rparr>) s)))"

definition inv_SetupExitBlock :: "kern \<Rightarrow> kern option" where
  "inv_SetupExitBlock s = do {
     assert_that (case invokee (k_inv s) of None \<Rightarrow> True
       | Some p \<Rightarrow> proc_IsRunnable (procs (k_sched s) p));
     proc_SetupExitBlock (invokee (k_inv s)) s }"

text \<open>The string of the message: what is sent, and whether the receiver can take it.\<close>

definition proc_SetupExitString :: "proc_ptr option \<Rightarrow> nat \<Rightarrow> kern \<Rightarrow> kern option" where
  "proc_SetupExitString thisPtr senderLen s =
     (let s = upd_inv (sentLen_update (\<lambda>_. senderLen)) s;
          n = min senderLen (exit_rcvLen (k_inv s))
      in if n = 0 then Some s
         else do {
           p \<leftarrow> thisPtr;
           assert_that (proc_IsRunnable (procs (k_sched s) p));
           assert_that (rcv_mapped s p n);
           Some (s\<lparr>k_sched := upd_proc p proc_ClearFault (k_sched s)\<rparr>) })"

definition inv_CopyOut :: "u8 list \<Rightarrow> kern \<Rightarrow> kern option" where
  "inv_CopyOut dat s = do {
     assert_that (InvocationCommitted s);
     assert_that (sentLen (k_inv s) = length dat);
     Some (upd_inv (\<lambda>i. i\<lparr>exit_data := take (exit_rcvLen i) dat\<rparr>) s) }"

definition inv_CopyIn :: "nat \<Rightarrow> kern \<Rightarrow> u8 list" where
  "inv_CopyIn len s = take len (entry_data (k_inv s))"

section \<open>The returnee\<close>

definition set_invokee :: "proc_ptr option \<Rightarrow> kern \<Rightarrow> kern" where
  "set_invokee p s = upd_inv (invokee_update (\<lambda>_. p)) s"

definition inv_GetReturnee :: "kern \<Rightarrow> kern option" where
  "inv_GetReturnee s = do {
     s \<leftarrow> (if invType_IsCall (invType (k_inv s)) then do {
             p \<leftarrow> proc_curProcess (k_sched s);
             Some (set_invokee (Some p) s) }
           else do {
             let rk = entry_key (k_inv s) RESUME_SLOT;
             s \<leftarrow> key_Prepare rk s;
             assert_that (\<not> keyBits_IsHazard (keys s rk));
             if keyBits_IsPreparedResumeKey (keys s rk) then do {
               p \<leftarrow> key_pContext (keys s rk);
               assert_that (proc_IsRunnable (procs (k_sched s) p));
               assert_that (runState (procs (k_sched s) p) = RS_Waiting);
               Some (set_invokee (Some p) s) }
             else Some (set_invokee None s) });
     s \<leftarrow> inv_SetupExitBlock s;
     Some (s\<lparr>ReturneeSetUp := True\<rparr>) }"

section \<open>The commit point\<close>

text \<open>The invoker loses its activity, which is kept for the invokee.\<close>

definition commit_inactivate :: "proc_ptr \<Rightarrow> sched \<Rightarrow> sched option" where
  "commit_inactivate invoker x = do {
     a \<leftarrow> curActivity (procs x invoker);
     assert_that (act_curActivity x = Some a);
     assert_that (act_proc (acts x a) = Some invoker);
     assert_that (proc_curProcess x = Some invoker);
     assert_that (act_state (acts x a) = act_Running);
     Some (x\<lparr>allocatedActivity := Some a\<rparr>) }"

definition commit_sched :: "Invocation \<Rightarrow> sched \<Rightarrow> sched option" where
  "commit_sched i x = do {
     invoker \<leftarrow> proc_curProcess x;
     assert_that (runState (procs x invoker) = RS_Running);
     assert_that (allocatedActivity x = None);
     if invType i = IT_Return then do {
       assert_that (invokee i \<noteq> Some invoker);
       let x = upd_proc invoker (runState_update (\<lambda>_. RS_Available)) x;
       x \<leftarrow> sq_WakeAll (SQ_Proc invoker) x;
       commit_inactivate invoker x }
     else if invType i = IT_Send then do {
       assert_that (invokee i \<noteq> Some invoker);
       (a, x) \<leftarrow> act_AllocActivity x;
       assert_that (act_state (acts x a) = act_Free);
       Some (upd_proc invoker proc_AdvancePostInvocationPC (x\<lparr>allocatedActivity := Some a\<rparr>)) }
     else if invType i = IT_Call \<or> invType i = IT_KeeperCall then do {
       let x = upd_proc invoker (runState_update (\<lambda>_. RS_Waiting)) x;
       if invokee i \<noteq> Some invoker then commit_inactivate invoker x else Some x }
     else None }"

definition inv_Commit :: "kern \<Rightarrow> kern option" where
  "inv_Commit s = do {
     assert_that (\<not> InvocationCommitted s);
     assert_that (ReturneeSetUp s);
     s \<leftarrow> on_sched (commit_sched (k_inv s)) s;
     Some (s\<lparr>InvocationCommitted := True\<rparr>) }"

abbreviation COMMIT_POINT :: "kern \<Rightarrow> kern option" where
  "COMMIT_POINT \<equiv> inv_Commit"

section \<open>What they change\<close>

lemma COMMIT_POINT_Some:
  "COMMIT_POINT s = Some s' \<longleftrightarrow> \<not> InvocationCommitted s \<and> ReturneeSetUp s
     \<and> (\<exists>x. commit_sched (k_inv s) (k_sched s) = Some x
            \<and> s' = s\<lparr>k_sched := x, InvocationCommitted := True\<rparr>)"
  by (auto simp: inv_Commit_def on_sched_Some bind_eq_Some_conv)

text \<open>The request is what the invoker passed; the exit block is what is returned.\<close>

definition same_request :: "Invocation \<Rightarrow> Invocation \<Rightarrow> bool" where
  "same_request i j = (inv_key j = inv_key i \<and> invType j = invType i \<and> entry_code j = entry_code i
     \<and> entry_w1 j = entry_w1 i \<and> entry_w2 j = entry_w2 i \<and> entry_w3 j = entry_w3 i
     \<and> entry_data j = entry_data i \<and> entry_key j = entry_key i \<and> inv_flags j = inv_flags i)"

text \<open>
  The changes to the activities and processes that an invocation makes beside the commit point:
  what a process keeps of a fault, and activities that wait for an object.
\<close>

definition quiet_proc :: "(Process \<Rightarrow> Process) \<Rightarrow> bool" where
  "quiet_proc f = (\<forall>q. runState (f q) = runState q \<and> curActivity (f q) = curActivity q
     \<and> hazards (f q) = hazards q \<and> isUserContext (f q) = isUserContext q \<and> proc_readyQ (f q) = proc_readyQ q)"

inductive quiet :: "sched \<Rightarrow> sched \<Rightarrow> bool" where
  quiet_refl: "quiet x x"
| quiet_fault: "quiet x y \<Longrightarrow> quiet_proc f \<Longrightarrow> quiet x (upd_proc p f y)"
| quiet_wake: "quiet x y \<Longrightarrow> sq_WakeAll (SQ_Obj i) y = Some z \<Longrightarrow> quiet x z"
| quiet_sleep: "quiet x y \<Longrightarrow> act_SleepOn (SQ_Obj i) y = Some z \<Longrightarrow> quiet x z"

lemma quiet_trans:
  assumes "quiet y z" "quiet x y"
  shows "quiet x z"
  using assms by (induction rule: quiet.induct) (auto intro: quiet.intros)

lemma act_Wakeup_procs:
  assumes "act_Wakeup t x = Some x'"
  shows "procs x' = procs x \<and> proc_curProcess x' = proc_curProcess x"
proof -
  from act_Wakeup_result [OF assms] obtain y where y: "x'\<lparr>dw_reschedule := False\<rparr> = y\<lparr>dw_reschedule := False\<rparr>"
    and f: "procs y = procs x" "proc_curProcess y = proc_curProcess x" by force
  show ?thesis using arg_cong [OF y, of procs] arg_cong [OF y, of proc_curProcess] f by simp
qed

lemma act_DequeueNext_procs:
  "act_DequeueNext q x = (t, x') \<Longrightarrow> procs x' = procs x \<and> proc_curProcess x' = proc_curProcess x"
  by (auto simp: act_DequeueNext_def split: list.splits)

lemma sq_WakeAll_procs:
  assumes "sq_WakeAll q x = Some x'"
  shows "procs x' = procs x \<and> proc_curProcess x' = proc_curProcess x"
proof -
  let ?P = "\<lambda>q x x'. procs x' = procs x \<and> proc_curProcess x' = proc_curProcess x"
  have "(case (q, x) of (q, x) \<Rightarrow> ?P q x) x'"
  proof (rule sq_WakeAll.raw_induct)
    show "(case (q, x) of (q, x) \<Rightarrow> sq_WakeAll q x) = Some x'" using assms by simp
  next
    fix WakeAll q x x'
    assume IH: "\<And>q x x'. WakeAll q x = Some x' \<Longrightarrow> ?P q x x'"
      and w: "(case act_DequeueNext q x of (None, x) \<Rightarrow> Some x
          | (Some t, x) \<Rightarrow> assert_that (act_ValidateActivity t x) \<bind> (\<lambda>_. act_Wakeup t x \<bind> WakeAll q)) = Some x'"
    obtain t y where d: "act_DequeueNext q x = (t, y)" by fastforce
    show "?P q x x'"
      using w d act_DequeueNext_procs [OF d] IH act_Wakeup_procs
      by (cases t) (force simp: bind_eq_Some_conv)+
  qed
  then show ?thesis by simp
qed

lemma act_SleepOn_procs:
  "act_SleepOn q x = Some x' \<Longrightarrow> procs x' = procs x \<and> proc_curProcess x' = proc_curProcess x"
  by (auto simp: act_SleepOn_def act_Enqueue_def Let_def bind_eq_Some_conv)

definition same_runs :: "sched \<Rightarrow> sched \<Rightarrow> bool" where
  "same_runs x y = ((\<forall>p. runState (procs y p) = runState (procs x p)) \<and> proc_curProcess y = proc_curProcess x)"

lemma quiet_runs:
  assumes "quiet x y"
  shows "same_runs x y"
  using assms
proof (induction rule: quiet.induct)
  case (quiet_wake x y i z)
  then show ?case using sq_WakeAll_procs [OF quiet_wake(2)] by (simp add: same_runs_def)
next
  case (quiet_sleep x y i z)
  then show ?case using act_SleepOn_procs [OF quiet_sleep(2)] by (simp add: same_runs_def)
qed (auto simp: same_runs_def quiet_proc_def)

text \<open>A step that changes only the exit block, and quietly the processes.\<close>

definition exit_step :: "kern \<Rightarrow> kern \<Rightarrow> bool" where
  "exit_step s s' = (\<exists>i x b. s' = s\<lparr>k_inv := i, k_sched := x, ReturneeSetUp := b\<rparr> \<and> same_request (k_inv s) i
     \<and> quiet (k_sched s) x)"

lemma exit_stepI:
  "s' = s\<lparr>k_inv := i, k_sched := x, ReturneeSetUp := b\<rparr> \<Longrightarrow> same_request (k_inv s) i \<Longrightarrow> quiet (k_sched s) x
    \<Longrightarrow> exit_step s s'"
  by (auto simp: exit_step_def)

lemma same_request_refl [simp]: "same_request i i"
  and same_request_trans: "same_request i j \<Longrightarrow> same_request j k \<Longrightarrow> same_request i k"
  by (simp_all add: same_request_def)

lemma exit_step_trans:
  assumes "exit_step s s1" "exit_step s1 s2"
  shows "exit_step s s2"
proof -
  from assms obtain i x b j y c where "s1 = s\<lparr>k_inv := i, k_sched := x, ReturneeSetUp := b\<rparr>"
    "s2 = s1\<lparr>k_inv := j, k_sched := y, ReturneeSetUp := c\<rparr>" "same_request (k_inv s) i" "same_request (k_inv s1) j"
    "quiet (k_sched s) x" "quiet (k_sched s1) y"
    unfolding exit_step_def by blast
  then show ?thesis by (intro exit_stepI [where i = j and x = y and b = c]) (auto intro: same_request_trans quiet_trans)
qed

lemma exit_step_sched [simp]: "quiet (k_sched s) x \<Longrightarrow> exit_step s (s\<lparr>k_sched := x\<rparr>)"
  by (rule exit_stepI [where i = "k_inv s" and x = x and b = "ReturneeSetUp s"]) simp_all

lemma exit_step_SetUp [simp]: "exit_step s (s\<lparr>ReturneeSetUp := b\<rparr>)"
  by (rule exit_stepI [where i = "k_inv s" and x = "k_sched s" and b = b]) (simp_all add: quiet_refl)

lemma exit_step_refl [simp]: "exit_step s s"
  by (rule exit_stepI [where i = "k_inv s" and x = "k_sched s" and b = "ReturneeSetUp s"]) (simp_all add: quiet_refl)

lemma exit_step_inv [simp]: "same_request (k_inv s) (f (k_inv s)) \<Longrightarrow> exit_step s (upd_inv f s)"
  by (rule exit_stepI [where i = "f (k_inv s)" and x = "k_sched s" and b = "ReturneeSetUp s"])
    (simp_all add: upd_inv_def quiet_refl)

lemma exit_step_inv_trans:
  "exit_step s s1 \<Longrightarrow> same_request (k_inv s1) (f (k_inv s1)) \<Longrightarrow> exit_step s (upd_inv f s1)"
  by (erule exit_step_trans) simp

lemma quiet_upd_proc [simp]: "quiet_proc f \<Longrightarrow> quiet x (upd_proc p f x)"
  by (rule quiet_fault [OF quiet_refl])

lemma quiet_proc_fault [simp]:
  "quiet_proc (\<lambda>q. q\<lparr>faultCode := c, faultInfo := i, processFlags := g q\<rparr>)" "quiet_proc proc_ClearFault"
  by (simp_all add: quiet_proc_def proc_ClearFault_def)

lemma same_request_exit [simp]:
  "same_request i (clear_exit i)" "same_request i (i\<lparr>exit_rcvLen := n\<rparr>)" "same_request i (i\<lparr>invokee := v\<rparr>)"
  "same_request i (i\<lparr>invokee := v, exit_rcvLen := n\<rparr>)" "same_request i (i\<lparr>exit_pKey := g, exit_rcvLen := n\<rparr>)"
  "same_request i (i\<lparr>sentLen := n\<rparr>)" "same_request i (i\<lparr>exit_data := d\<rparr>)"
  by (simp_all add: same_request_def clear_exit_def)

lemma proc_SetFault_step: "proc_SetFault p code info s = Some s' \<Longrightarrow> exit_step s s'"
  by (auto simp: proc_SetFault_def bind_eq_Some_conv)

lemma proc_SetupExitBlock_step:
  assumes "proc_SetupExitBlock p s = Some s'"
  shows "exit_step s s'"
proof (rule exit_step_trans [of s "upd_inv clear_exit s"])
  show "exit_step (upd_inv clear_exit s) s'"
    using assms unfolding proc_SetupExitBlock_def Let_def
    by (auto simp: bind_eq_Some_conv simp del: upd_inv_simps split: option.splits if_splits
        dest!: proc_SetFault_step intro: exit_step_inv_trans)
qed simp

lemma inv_SetupExitBlock_step: "inv_SetupExitBlock s = Some s' \<Longrightarrow> exit_step s s'"
  by (auto simp: inv_SetupExitBlock_def intro: proc_SetupExitBlock_step)

lemma proc_SetupExitString_step:
  assumes "proc_SetupExitString p n s = Some s'"
  shows "exit_step s s'"
  using assms unfolding proc_SetupExitString_def Let_def
  by (auto simp: bind_eq_Some_conv split: if_splits intro: exit_step_trans [OF _ exit_step_sched])

text \<open>Finding the returnee prepares at most the resume key, and then changes only the exit block.\<close>

lemma inv_GetReturnee_step:
  assumes "inv_GetReturnee s = Some s'"
  shows "\<exists>s1. (s1 = s \<or> key_Prepare (entry_key (k_inv s) RESUME_SLOT) s = Some s1) \<and> exit_step s1 s' \<and> ReturneeSetUp s'"
proof -
  from assms obtain s1 p s2 where "s1 = s \<or> key_Prepare (entry_key (k_inv s) RESUME_SLOT) s = Some s1"
    and s2: "inv_SetupExitBlock (set_invokee p s1) = Some s2" and s': "s' = s2\<lparr>ReturneeSetUp := True\<rparr>"
    by (auto simp: inv_GetReturnee_def bind_eq_Some_conv Let_def split: if_splits)
  moreover have "exit_step s1 (set_invokee p s1)" by (simp add: set_invokee_def)
  then have "exit_step s1 s'" unfolding s'
    by (rule exit_step_trans [OF exit_step_trans [OF _ inv_SetupExitBlock_step [OF s2]] exit_step_SetUp])
  ultimately show ?thesis by auto
qed

text \<open>The commit point changes the run state of the invoker only, from running.\<close>

lemma act_AllocActivity_procs:
  "act_AllocActivity x = Some (a, x') \<Longrightarrow> procs x' = procs x \<and> proc_curProcess x' = proc_curProcess x"
  by (auto simp: act_AllocActivity_def bind_eq_Some_conv split: prod.splits option.splits dest!: act_DequeueNext_procs)

lemma commit_sched_runs:
  assumes "commit_sched i x = Some x'"
  shows "\<exists>p. proc_curProcess x = Some p \<and> proc_curProcess x' = Some p \<and> runState (procs x p) = RS_Running
    \<and> (\<forall>q. q \<noteq> p \<longrightarrow> procs x' q = procs x q)
    \<and> runState (procs x' p) = (if invType i = IT_Return then RS_Available
        else if invType i = IT_Send then RS_Running else RS_Waiting)"
proof -
  have inact: "procs y' = procs y \<and> proc_curProcess y' = proc_curProcess y"
    if "commit_inactivate p y = Some y'" for p y y'
    using that by (auto simp: commit_inactivate_def bind_eq_Some_conv)
  from assms obtain p where p: "proc_curProcess x = Some p" "runState (procs x p) = RS_Running"
    by (auto simp: commit_sched_def bind_eq_Some_conv)
  consider "invType i = IT_Return" | "invType i = IT_Send" | "invType i = IT_Call \<or> invType i = IT_KeeperCall"
    using assms p by (auto simp: commit_sched_def split: if_splits)
  then show ?thesis
  proof cases
    case 1
    with assms p obtain y where "sq_WakeAll (SQ_Proc p) (upd_proc p (runState_update (\<lambda>_. RS_Available)) x) = Some y"
      "commit_inactivate p y = Some x'"
      by (auto simp: commit_sched_def Let_def bind_eq_Some_conv)
    then show ?thesis using 1 p inact sq_WakeAll_procs by force
  next
    case 2
    with assms p obtain a y where "act_AllocActivity x = Some (a, y)"
      "x' = upd_proc p proc_AdvancePostInvocationPC (y\<lparr>allocatedActivity := Some a\<rparr>)"
      by (auto simp: commit_sched_def Let_def bind_eq_Some_conv IT_defs)
    then show ?thesis using 2 p
      by (auto simp: IT_defs proc_AdvancePostInvocationPC_def Let_def dest!: act_AllocActivity_procs)
  next
    case 3
    with assms p have "x' = upd_proc p (runState_update (\<lambda>_. RS_Waiting)) x
        \<or> commit_inactivate p (upd_proc p (runState_update (\<lambda>_. RS_Waiting)) x) = Some x'"
      by (auto simp: commit_sched_def Let_def IT_defs split: if_splits)
    then show ?thesis using 3 p inact by (fastforce simp: IT_defs)
  qed
qed

end
