(* ===== verification/Invoke.thy ===== *)
theory Invoke
  imports Inv_Block
begin

text \<open>
  The parts of an invocation that all kernel keys share (sys/kernel/kern_Invoke.c,
  sys/kerninc/Invocation.h, sys/key/mk_VoidKey.c). A handler of a kernel key takes the state with
  the invocation block set up. It ends with the call \<^verbatim>\<open>ReturnMessage(inv)\<close>, or with
  \<^verbatim>\<open>GateKey(inv)\<close> when it passes the invocation on to the keeper of an object, or by putting the
  invoker to sleep. These calls come last; the handlers here return the state they are made in, and
  the dispatcher of the theory Dispatch makes them. The handlers of process keys and of the sleep
  key change processes themselves; they are left to the dispatcher as a whole.
\<close>

section \<open>Definitions\<close>

datatype outcome = Returned kern | ToGate kern | OnProcess kern | Slept kern

primrec out_state :: "outcome \<Rightarrow> kern" where
  "out_state (Returned s) = s"
| "out_state (ToGate s) = s"
| "out_state (OnProcess s) = s"
| "out_state (Slept s) = s"

definition INV_SCRATCHKEY :: u32 where "INV_SCRATCHKEY = 0x200"
definition INV_KEEPERARG :: u32 where "INV_KEEPERARG = 0x400"

definition inv_SetExitKey :: "nat \<Rightarrow> kref \<Rightarrow> kern \<Rightarrow> kern option" where
  "inv_SetExitKey ndx k s = do {
     assert_that (InvocationCommitted s);
     Some (case exit_pKey (k_inv s) ndx of Some d \<Rightarrow> key_NH_Set d k s | None \<Rightarrow> s) }"

definition tail_ReturnMessage :: "kern \<Rightarrow> outcome option" where
  "tail_ReturnMessage s = do {
     assert_that (InvocationCommitted s);
     Some (Returned s) }"

text \<open>Ending a handler with a result code.\<close>

definition ReturnCode :: "RC \<Rightarrow> kern \<Rightarrow> outcome option" where
  "ReturnCode rc s = tail_ReturnMessage (set_exit_code rc s)"

definition VoidKey :: "kern \<Rightarrow> outcome option" where
  "VoidKey s = do {
     s \<leftarrow> inv_GetReturnee s;
     s \<leftarrow> COMMIT_POINT s;
     ReturnCode RC_capros_key_Void s }"

definition inv_InvokeGateOrVoid :: "kref \<Rightarrow> kern \<Rightarrow> outcome option" where
  "inv_InvokeGateOrVoid invKey s = do {
     s \<leftarrow> key_Prepare invKey s;
     if keyBits_IsGateKey (keys s invKey)
     then Some (ToGate (upd_inv (inv_key_update (\<lambda>_. invKey)) s))
     else VoidKey s }"

definition proc_BuildResumeKey :: "proc_ptr \<Rightarrow> kref \<Rightarrow> kern \<Rightarrow> kern" where
  "proc_BuildResumeKey p resumeKey s =
     (let s = keyBits_Unchain resumeKey s;
          k = keyBits_SetPrepared (keyBits_InitType (keys s resumeKey) KKT_Resume);
          s = upd_key resumeKey (k\<lparr>key_u := U_gk p\<rparr>) s
      in link_insertBefore (ProcRing p) resumeKey s)"

definition node_SetSlot :: "obj_ptr \<Rightarrow> nat \<Rightarrow> kern \<Rightarrow> kern option" where
  "node_SetSlot p slot s = do {
     s \<leftarrow> objH_EnsureWritable p s;
     s \<leftarrow> COMMIT_POINT s;
     s \<leftarrow> node_ClearHazard p slot s;
     let s = key_NH_Set (KSlot p slot) (entry_key (k_inv s) 0) s;
     Some (set_exit_code RC_OK s) }"

section \<open>Keeping the invariant\<close>

lemma kern_inv_committed [simp]: "kern_inv (s\<lparr>InvocationCommitted := b\<rparr>) = kern_inv s"
  using key_props_cong [of "s\<lparr>InvocationCommitted := b\<rparr>" s] by (simp add: kern_inv_def)

lemma tail_ReturnMessage_Some: "tail_ReturnMessage s = Some out \<longleftrightarrow> InvocationCommitted s \<and> out = Returned s"
  by (auto simp: tail_ReturnMessage_def)

lemma ReturnCode_Some:
  "ReturnCode rc s = Some out \<longleftrightarrow> InvocationCommitted s \<and> out = Returned (set_exit_code rc s)"
  by (simp add: ReturnCode_def tail_ReturnMessage_Some)

lemma inv_SetExitKey_Some:
  "inv_SetExitKey ndx k s = Some s' \<longleftrightarrow> InvocationCommitted s
     \<and> s' = (case exit_pKey (k_inv s) ndx of Some d \<Rightarrow> key_NH_Set d k s | None \<Rightarrow> s)"
  by (auto simp: inv_SetExitKey_def)

lemmas handler_Some = COMMIT_POINT_Some tail_ReturnMessage_Some ReturnCode_Some inv_SetExitKey_Some

lemma proc_BuildResumeKey_inv:
  assumes "kern_inv s" "procRoot s p = Some q" "is_obj s q" "obType (obj_at s q) = ot_NtProcessRoot"
    and "prep_context (obj_at s q) = p"
  shows "kern_inv (proc_BuildResumeKey p r s)"
proof -
  let ?k = "(keyBits_SetPrepared (keyBits_InitType (keys s r) KKT_Resume))\<lparr>key_u := U_gk p\<rparr>"
  have t: "keyType ?k = KKT_Resume" by (simp add: keyBits_InitType_def)
  have prep: "keyBits_IsPrepared ?k" by simp
  have kinds: "keyBits_IsObjectKey ?k" "keyBits_IsProcessType ?k" using t by (simp_all add: key_kinds)
  have ring: "key_ring ?k = Some (ProcRing p)" "is_resume ?k"
    using prep kinds t by (simp_all add: key_ring_def keyBits_IsPreparedObjectKey_def key_pContext_def is_resume_def)
  have v: "ring_ok ((keys s)(r := void_key)) (unchain r (keys s r) (rings s))"
    using unchain_ok [OF kern_inv_ring [OF assms(1)], of void_key r] by simp
  have "ring_ok (((keys s)(r := void_key))(r := ?k))
      ((unchain r (keys s r) (rings s))(ProcRing p := unchain r (keys s r) (rings s) (ProcRing p) @ [r]))"
    using ring by (intro chain_last_ok [OF v]) simp_all
  moreover have "wf_key s ?k" using assms prep kinds by (simp add: wf_key_def)
  ultimately show ?thesis using prep
    by (intro kern_inv_set_key [OF assms(1), where k = ?k and r = r])
      (simp_all add: proc_BuildResumeKey_def Let_def link_insertBefore_def)
qed

lemma key_SetToObj_inv:
  assumes "kern_inv s" "is_obj s p" "objH_GetBaseType (obj_at s p) = base_of t"
    and "t \<in> {KKT_Node, KKT_Forwarder, KKT_GPT, KKT_Page}"
    and "key_SetToObj r p t perms dat (keyBits_Unchain r s) = Some s'"
  shows "kern_inv s'"
proof -
  let ?k = "keyBits_SetPrepared ((keyBits_InitType (keys s r) t)\<lparr>key_u := U_ok p, keyData := dat, keyPerms := perms\<rparr>)"
  have t: "keyType ?k = t" by (simp add: keyBits_InitType_def)
  have prep: "keyBits_IsPrepared ?k" by simp
  have kinds: "keyBits_IsObjectKey ?k" "\<not> keyBits_IsProcessType ?k" "\<not> is_resume ?k"
    using t assms(4) by (auto simp: key_kinds is_resume_def)
  have ring: "key_ring ?k = Some (ObjRing p)"
    using prep kinds by (simp add: key_ring_def keyBits_IsPreparedObjectKey_def key_pObj_def)
  have v: "ring_ok ((keys s)(r := void_key)) (unchain r (keys s r) (rings s))"
    using unchain_ok [OF kern_inv_ring [OF assms(1)], of void_key r] by simp
  have "ring_ok (((keys s)(r := void_key))(r := ?k))
      ((unchain r (keys s r) (rings s))(ObjRing p := r # unchain r (keys s r) (rings s) (ObjRing p)))"
    using ring kinds by (intro chain_first_ok [OF v]) simp_all
  moreover have "wf_key s ?k" using assms(2,3) prep kinds t by (simp add: wf_key_def)
  moreover have "s' = upd_key r ?k (link_insertAfter (ObjRing p) r (keyBits_Unchain r s))"
    using assms(5) by (simp add: key_SetToObj_def Let_def)
  ultimately show ?thesis using prep
    by (intro kern_inv_set_key [OF assms(1), where k = ?k and r = r]) (simp_all add: link_insertAfter_def)
qed

section \<open>Rules for properties of states\<close>

text \<open>
  \<open>ipost P\<close>: the state an operation ends in satisfies \<open>P\<close>, if it ends; \<open>opost\<close> and \<open>bpost\<close>
  are the same for handlers and for operations that return a flag as well. The rules follow the
  structure of an operation, so that a property of a composed operation follows from that of
  its parts.
\<close>

definition ipost :: "(kern \<Rightarrow> bool) \<Rightarrow> kern option \<Rightarrow> bool" where
  "ipost P m = (\<forall>s. m = Some s \<longrightarrow> P s)"

definition opost :: "(kern \<Rightarrow> bool) \<Rightarrow> outcome option \<Rightarrow> bool" where
  "opost P m = (\<forall>out. m = Some out \<longrightarrow> P (out_state out))"

definition bpost :: "(kern \<Rightarrow> bool) \<Rightarrow> (bool \<times> kern) option \<Rightarrow> bool" where
  "bpost P m = (\<forall>b s. m = Some (b, s) \<longrightarrow> P s)"

lemma post_values [kpost]:
  "P s \<Longrightarrow> ipost P (Some s)" "ipost P None" "opost P None" "P s \<Longrightarrow> opost P (Some (Returned s))"
  "P s \<Longrightarrow> opost P (Some (ToGate s))" "P s \<Longrightarrow> opost P (Some (Slept s))"
  "P s \<Longrightarrow> opost P (Some (OnProcess s))" "bpost P None" "P s \<Longrightarrow> bpost P (Some (b, s))"
  by (simp_all add: ipost_def opost_def bpost_def)

lemma post_bind [kpost]:
  "ipost P m \<Longrightarrow> (\<And>s. P s \<Longrightarrow> ipost P (f s)) \<Longrightarrow> ipost P (Option.bind m f)"
  "ipost P m \<Longrightarrow> (\<And>s. P s \<Longrightarrow> opost P (g s)) \<Longrightarrow> opost P (Option.bind m g)"
  "bpost P n \<Longrightarrow> (\<And>b s. P s \<Longrightarrow> ipost P (h (b, s))) \<Longrightarrow> ipost P (Option.bind n h)"
  "bpost P n \<Longrightarrow> (\<And>b s. P s \<Longrightarrow> opost P (k (b, s))) \<Longrightarrow> opost P (Option.bind n k)"
  by (auto simp: ipost_def opost_def bpost_def bind_eq_Some_conv)

lemma post_assert [kpost]:
  "(b \<Longrightarrow> ipost P (f ())) \<Longrightarrow> ipost P (Option.bind (assert_that b) f)"
  "(b \<Longrightarrow> opost P (g ())) \<Longrightarrow> opost P (Option.bind (assert_that b) g)"
  "(b \<Longrightarrow> bpost P (h ())) \<Longrightarrow> bpost P (Option.bind (assert_that b) h)"
  by (auto simp: ipost_def opost_def bpost_def)

lemma post_bind_ptr [kpost]:
  fixes p :: "obj_ptr option"
  shows "(\<And>x. p = Some x \<Longrightarrow> ipost P (f x)) \<Longrightarrow> ipost P (Option.bind p f)"
    and "(\<And>x. p = Some x \<Longrightarrow> opost P (g x)) \<Longrightarrow> opost P (Option.bind p g)"
  by (auto simp: ipost_def opost_def bind_eq_Some_conv)

lemma post_bind_unprep [kpost]:
  fixes p :: "(OID \<times> ObCount) option"
  shows "(\<And>x y. p = Some (x, y) \<Longrightarrow> opost P (g (x, y))) \<Longrightarrow> opost P (Option.bind p g)"
  by (auto simp: opost_def bind_eq_Some_conv)

lemma post_bind_eq:
  "(\<And>x. m = Some x \<Longrightarrow> opost P (f x)) \<Longrightarrow> opost P (Option.bind m f)"
  "(\<And>x. m = Some x \<Longrightarrow> ipost P (g x)) \<Longrightarrow> ipost P (Option.bind m g)"
  by (auto simp: opost_def ipost_def bind_eq_Some_conv)

lemma post_prod [kpost]:
  "(\<And>x y. q = (x, y) \<Longrightarrow> opost P (f x y)) \<Longrightarrow> opost P (case q of (x, y) \<Rightarrow> f x y)"
  by (cases q) simp

lemma post_if [kpost]:
  "(b \<Longrightarrow> ipost P m) \<Longrightarrow> (\<not> b \<Longrightarrow> ipost P n) \<Longrightarrow> ipost P (if b then m else n)"
  "(b \<Longrightarrow> opost P u) \<Longrightarrow> (\<not> b \<Longrightarrow> opost P v) \<Longrightarrow> opost P (if b then u else v)"
  "(b \<Longrightarrow> bpost P x) \<Longrightarrow> (\<not> b \<Longrightarrow> bpost P y) \<Longrightarrow> bpost P (if b then x else y)"
  by simp_all

lemma post_option [kpost]:
  "(p = None \<Longrightarrow> ipost P m) \<Longrightarrow> (\<And>x. p = Some x \<Longrightarrow> ipost P (f x)) \<Longrightarrow>
    ipost P (case p of None \<Rightarrow> m | Some x \<Rightarrow> f x)"
  "(p = None \<Longrightarrow> opost P u) \<Longrightarrow> (\<And>x. p = Some x \<Longrightarrow> opost P (g x)) \<Longrightarrow>
    opost P (case p of None \<Rightarrow> u | Some x \<Rightarrow> g x)"
  by (cases p; simp)+

text \<open>The permissions and the data of a key can change freely.\<close>

lemma kern_inv_same_key:
  assumes "kern_inv s" "keyType k = keyType (keys s r)" "key_u k = key_u (keys s r)"
    and "keyFlags k = keyFlags (keys s r)"
  shows "kern_inv (upd_key r k s)"
proof -
  let ?k0 = "keys s r"
  have eqs: "keyBits_IsObjectKey k = keyBits_IsObjectKey ?k0"
    "keyBits_IsProcessType k = keyBits_IsProcessType ?k0"
    "keyBits_IsPrepared k = keyBits_IsPrepared ?k0" "is_resume k = is_resume ?k0"
    using assms(2,4) by (simp_all add: key_kinds key_flag_bits is_resume_def)
  moreover have "key_ring k = key_ring ?k0"
    using assms(3) eqs by (simp add: key_ring_def keyBits_IsPreparedObjectKey_def key_pContext_def key_pObj_def)
  moreover have "wf_key s k = wf_key s ?k0" unfolding wf_key_def by (simp only: assms(2,3) eqs)
  then have "wf_key s k" using kern_inv_wf_key [OF assms(1)] by simp
  moreover have "cnt_ok s k" using kern_inv_cnt_ok [OF assms(1), of r] assms(2,3) eqs
    by (simp add: cnt_ok_def count_for_def used_for_def)
  ultimately show ?thesis using assms(1) by (intro kern_inv_upd_key) simp_all
qed

section \<open>Properties the primitive operations keep\<close>

text \<open>
  The handlers of the kernel keys change keys and objects through a few primitive operations. A
  property of states that the primitives keep is kept by the handlers built from them, which is
  proved once for every such property, in this locale.

  A key is \<^emph>\<open>restricted\<close> when it gains permission bits (which forbid something) or, for a key to
  memory or to a node, gets another guard.
\<close>

definition restricts :: "KeyBits \<Rightarrow> KeyBits \<Rightarrow> bool" where
  "restricts k k' =
     (keyType k' = keyType k \<and> key_u k' = key_u k \<and> keyFlags k' = keyFlags k
      \<and> keyPerms k AND NOT (keyPerms k') = 0
      \<and> (keyData k' = keyData k \<or> keyType k \<in> {KKT_Node, KKT_GPT, KKT_Page, KKT_Void}))"

locale key_closed =
  fixes P :: "kern \<Rightarrow> bool"
  assumes P_inv: "P s \<Longrightarrow> kern_inv s"
    and P_upd_inv [simp]: "P (upd_inv f s) = P s"
    and P_committed [simp]: "P (s\<lparr>InvocationCommitted := b\<rparr>) = P s"
    and P_quiet: "P s \<Longrightarrow> quiet (k_sched s) x \<Longrightarrow> P (s\<lparr>k_sched := x\<rparr>)"
    and P_commit: "P s \<Longrightarrow> commit_sched i (k_sched s) = Some x \<Longrightarrow> P (s\<lparr>k_sched := x\<rparr>)"
    and P_SetUp [simp]: "P (s\<lparr>ReturneeSetUp := b\<rparr>) = P s"
    and P_Set: "P s \<Longrightarrow> P (key_NH_Set dst src s)"
    and P_SetToVoid: "P s \<Longrightarrow> P (key_NH_SetToVoid r s)"
    and P_SetToNumber: "P s \<Longrightarrow> P (key_SetToNumber r hi mid lo s)"
    and P_number: "P s \<Longrightarrow> keyType (keys s r) = KKT_Number \<Longrightarrow> P (upd_key r ((keys s r)\<lparr>key_u := u\<rparr>) s)"
    and P_DoPrepare: "P s \<Longrightarrow> key_DoPrepare r s = Some (v, s') \<Longrightarrow> P s'"
    and P_DoValidate: "P s \<Longrightarrow> key_DoValidate r s = Some (v, s') \<Longrightarrow> P s'"
    and P_upd_obj: "P s \<Longrightarrow> same_ident (obj_at s p) (g (obj_at s p)) \<Longrightarrow> P (upd_obj p g s)"
    and P_unhazard: "P s \<Longrightarrow> P (upd_key r (unhazarded (keys s r)) s)"
    and P_restrict: "P s \<Longrightarrow> restricts (keys s r) k \<Longrightarrow> P (upd_key r k s)"
begin

lemmas P_state = P_Set P_SetToVoid P_SetToNumber P_restrict P_upd_obj

lemma post_prepare [kpost]:
  "P s \<Longrightarrow> ipost P (key_Prepare r s)" "P s \<Longrightarrow> bpost P (key_PrepareForInv r s)"
  "P s \<Longrightarrow> bpost P (key_ValidateForInv r s)"
  by (auto simp: ipost_def bpost_def key_Prepare_def key_PrepareForInv_def key_ValidateForInv_def
      bind_eq_Some_conv intro: P_DoPrepare P_DoValidate split: if_splits)

lemma post_object [kpost]:
  "P s \<Longrightarrow> ipost P (objH_EnsureWritable p s)" "P s \<Longrightarrow> ipost P (node_ClearHazard p n s)"
  by (auto simp: ipost_def intro: P_upd_obj P_unhazard
      dest!: objH_EnsureWritable_Some node_ClearHazard_eq)

lemma P_exit_step: "exit_step s s' \<Longrightarrow> P s \<Longrightarrow> P s'"
proof -
  have "P (s\<lparr>k_inv := i\<rparr>) = P s" for s i using P_upd_inv [of "\<lambda>_. i" s] by (simp add: upd_inv_def)
  then have "P s \<Longrightarrow> quiet (k_sched s) x \<Longrightarrow> P (s\<lparr>k_inv := i, k_sched := x, ReturneeSetUp := b\<rparr>)" for i x b
    using P_quiet [of "s\<lparr>k_inv := i\<rparr>" x] by simp
  then show "exit_step s s' \<Longrightarrow> P s \<Longrightarrow> P s'" unfolding exit_step_def by auto
qed

lemma post_returnee [kpost]:
  "P s \<Longrightarrow> ipost P (inv_GetReturnee s)" "P s \<Longrightarrow> ipost P (proc_SetupExitString q n s)"
  using post_prepare(1) [of s]
  by (auto simp: ipost_def intro: P_exit_step dest!: inv_GetReturnee_step proc_SetupExitString_step)

lemma post_wait [kpost]:
  "P s \<Longrightarrow> ipost P (on_sched (sq_WakeAll (SQ_Obj n)) s)" "P s \<Longrightarrow> ipost P (on_sched (act_SleepOn (SQ_Obj n)) s)"
  by (auto simp: ipost_def on_sched_Some intro!: P_quiet intro: quiet.intros)

lemma post_COMMIT [kpost]: "P s \<Longrightarrow> ipost P (COMMIT_POINT s)"
  by (auto simp: ipost_def COMMIT_POINT_Some intro: P_commit)

lemma post_invocation [kpost]:
  "P s \<Longrightarrow> ipost P (COMMIT_POINT s)" "P s \<Longrightarrow> ipost P (inv_SetExitKey ndx k s)"
  "P s \<Longrightarrow> ipost P (inv_CopyOut d s)"
  "P s \<Longrightarrow> opost P (tail_ReturnMessage s)" "P s \<Longrightarrow> opost P (ReturnCode rc s)"
  using post_COMMIT [of s]
  by (auto simp: ipost_def opost_def tail_ReturnMessage_Some ReturnCode_Some inv_SetExitKey_Some inv_CopyOut_def
      bind_eq_Some_conv intro: P_Set split: option.splits)

lemma post_VoidKey [kpost]: "P s \<Longrightarrow> opost P (VoidKey s)"
  unfolding VoidKey_def by (auto intro!: kpost)

lemma post_gate [kpost]: "P s \<Longrightarrow> opost P (inv_InvokeGateOrVoid k s)"
  unfolding inv_InvokeGateOrVoid_def by (auto intro!: kpost)

lemma post_SetSlot [kpost]: "P s \<Longrightarrow> ipost P (node_SetSlot p n s)"
  unfolding node_SetSlot_def Let_def by (auto intro!: kpost P_Set)

end

lemma key_DoValidate_outcome:
  assumes "wf_objs s" "keyBits_IsObjectKey (keys s r)" "key_DoValidate r s = Some (v, s')"
  shows "if v then s' = key_NH_SetToVoid r s \<and> (\<forall>p. \<not> denotes s (keys s r) p)
    else prep_result s r False s'"
proof -
  let ?chk = "if keyBits_IsProcessType (keys s r) then CheckProcessKey r s
    else CheckTypeAndAllocCount r (base_of (keyType (keys s r))) s"
  from assms(3) have np: "\<not> keyBits_IsPrepared (keys s r)" by (simp add: key_DoValidate_def)
  have "\<exists>s1. ?chk = Some (v, s1) \<and> s' = (if v then key_NH_SetToVoid r s1 else s1)"
    using assms(2,3)
    by (cases "keyType (keys s r)")
      (auto simp: key_DoValidate_def key_kinds base_of_def bind_eq_Some_conv split: if_splits)
  then obtain s1 where s1: "?chk = Some (v, s1)" "s' = (if v then key_NH_SetToVoid r s1 else s1)"
    by blast
  have "prep_result s r v s1"
  proof (cases "keyBits_IsProcessType (keys s r)")
    case True
    with s1(1) show ?thesis by (simp add: CheckProcessKey_result [OF assms(1) np])
  next
    case False
    with assms(2) have "keyType (keys s r) \<in> {KKT_Node, KKT_Forwarder, KKT_GPT, KKT_Page}"
      by (auto simp: key_kinds)
    with False s1(1) show ?thesis by (simp add: CheckTypeAndAllocCount_result [OF assms(1) np])
  qed
  with s1(2) show ?thesis by (cases v) (simp_all add: prep_result_def)
qed

lemma key_DoValidate_inv [kinv]:
  assumes "kern_inv s" "key_DoValidate r s = Some (v, s')"
  shows "kern_inv s'"
proof (cases "keyBits_IsObjectKey (keys s r)")
  case True
  from assms(2) have np: "\<not> keyBits_IsPrepared (keys s r)" by (simp add: key_DoValidate_def)
  from key_DoValidate_outcome [OF kern_inv_wf_objs [OF assms(1)] True assms(2)] show ?thesis
    using prep_result_inv [OF assms(1) np] assms(1)
    by (auto simp: key_NH_SetToVoid_inv split: if_splits)
next
  case False
  then have "s' = s" using assms(2)
    by (cases "keyType (keys s r)") (auto simp: key_DoValidate_def key_kinds)
  with assms(1) show ?thesis by simp
qed

lemma kern_inv_restrict:
  assumes "kern_inv s" "restricts (keys s r) k"
  shows "kern_inv (upd_key r k s)"
  using assms(2) by (intro kern_inv_same_key [OF assms(1)]) (simp_all add: restricts_def)

lemma kern_inv_not_object:
  assumes "kern_inv s" "\<not> keyBits_IsObjectKey (keys s r)" "\<not> keyBits_IsObjectKey k"
  shows "kern_inv (upd_key r k s)"
  using assms by (intro kern_inv_upd_key) (simp_all add: key_ring_not_object)

lemma number_not_object: "keyType k = KKT_Number \<Longrightarrow> \<not> keyBits_IsObjectKey k"
  by (simp add: key_kinds)

interpretation inv: key_closed kern_inv
proof
  fix s r u
  assume "kern_inv s" "keyType (keys s r) = KKT_Number"
  then show "kern_inv (upd_key r ((keys s r)\<lparr>key_u := u\<rparr>) s)"
    by (intro kern_inv_not_object number_not_object) simp_all
qed (erule key_NH_Set_inv key_NH_SetToVoid_inv key_SetToNumber_inv kern_inv_unhazarded
    | erule (1) key_DoPrepare_inv key_DoValidate_inv kern_inv_upd_obj kern_inv_restrict
    | simp; fail)+

section \<open>Messages are returned after the commit point\<close>

lemma VoidKey_commits: "VoidKey s = Some (Returned s') \<Longrightarrow> InvocationCommitted s'"
  by (auto simp: VoidKey_def bind_eq_Some_conv handler_Some)

lemma inv_InvokeGateOrVoid_commits:
  "inv_InvokeGateOrVoid k s = Some (Returned s') \<Longrightarrow> InvocationCommitted s'"
  by (auto simp: inv_InvokeGateOrVoid_def bind_eq_Some_conv VoidKey_commits split: if_splits)

text \<open>And an invocation is passed on only with a gate key as invoked key.\<close>

lemma VoidKey_Returned: "VoidKey s = Some out \<Longrightarrow> \<exists>s'. out = Returned s'"
  by (auto simp: VoidKey_def bind_eq_Some_conv handler_Some)

lemma inv_InvokeGateOrVoid_gate:
  "inv_InvokeGateOrVoid k s = Some (ToGate s') \<Longrightarrow> keyBits_IsGateKey (keys s' (inv_key (k_inv s')))"
  by (auto simp: inv_InvokeGateOrVoid_def bind_eq_Some_conv split: if_splits dest: VoidKey_Returned)

lemma inv_InvokeGateOrVoid_not_process: "inv_InvokeGateOrVoid k s \<noteq> Some (OnProcess s')"
  by (auto simp: inv_InvokeGateOrVoid_def bind_eq_Some_conv split: if_splits dest: VoidKey_Returned)

definition cpost :: "outcome option \<Rightarrow> bool" where
  "cpost m = ((\<forall>s. m = Some (Returned s) \<longrightarrow> InvocationCommitted s)
     \<and> (\<forall>s. m = Some (ToGate s) \<longrightarrow> keyBits_IsGateKey (keys s (inv_key (k_inv s))))
     \<and> (\<forall>s. m \<noteq> Some (OnProcess s)))"

lemma cpost_rules [kcommit]:
  "cpost None" "cpost (Some (Slept s))" "cpost (tail_ReturnMessage s)" "cpost (ReturnCode rc s)"
  "cpost (VoidKey s)" "cpost (inv_InvokeGateOrVoid k s)"
  "(\<And>x. cpost (f x)) \<Longrightarrow> cpost (Option.bind m f)"
  "(b \<Longrightarrow> cpost u) \<Longrightarrow> (\<not> b \<Longrightarrow> cpost v) \<Longrightarrow> cpost (if b then u else v)"
  "cpost u \<Longrightarrow> (\<And>x. cpost (g x)) \<Longrightarrow> cpost (case p of None \<Rightarrow> u | Some x \<Rightarrow> g x)"
  "(\<And>x y. cpost (h x y)) \<Longrightarrow> cpost (case q of (x, y) \<Rightarrow> h x y)"
  by (auto simp: cpost_def bind_eq_Some_conv handler_Some VoidKey_commits
      inv_InvokeGateOrVoid_commits inv_InvokeGateOrVoid_gate inv_InvokeGateOrVoid_not_process split: option.splits prod.splits dest: VoidKey_Returned)

section \<open>The contract of a handler\<close>

text \<open>
  A handler serves some of the invocations. It keeps the kernel invariant, returns a message
  only after the invocation is committed, and passes an invocation on only to a gate key. Whatever sequence of invocations such handlers serve
  then keeps the invariant.
\<close>

definition invokes :: "kkt \<Rightarrow> kern \<Rightarrow> bool" where
  "invokes t s = (keyType (keys s (inv_key (k_inv s))) = t)"

locale key_handler =
  fixes serves :: "kern \<Rightarrow> bool" and handle :: "kern \<Rightarrow> outcome option"
  assumes handle_inv: "kern_inv s \<Longrightarrow> serves s \<Longrightarrow> opost kern_inv (handle s)"
    and handle_commits: "cpost (handle s)"

text \<open>
  The handlers of most key types keep every property that the primitive operations keep. A few
  also make, in the scratch key, a copy of the invoked key that lacks the mark of being opaque,
  for the keeper of the object.
\<close>

definition restricts_lax :: "KeyBits \<Rightarrow> KeyBits \<Rightarrow> bool" where
  "restricts_lax k k' =
     (keyType k' = keyType k \<and> key_u k' = key_u k \<and> keyFlags k' = keyFlags k
      \<and> keyPerms k AND NOT (keyPerms k') AND NOT capros_Memory_opaque = 0
      \<and> (keyData k' = keyData k \<or> keyType k \<in> {KKT_Node, KKT_GPT, KKT_Page, KKT_Forwarder, KKT_Void}))"

locale key_closed_lax = key_closed +
  assumes P_lax: "P s \<Longrightarrow> restricts_lax (keys s r) k \<Longrightarrow> P (upd_key r k s)"

locale lax_handler =
  fixes serves :: "kern \<Rightarrow> bool" and handle :: "kern \<Rightarrow> outcome option"
  assumes handle_lax: "key_closed_lax P \<Longrightarrow> P s \<Longrightarrow> serves s \<Longrightarrow> opost P (handle s)"
    and lax_commits: "cpost (handle s)"

locale closed_handler =
  fixes serves :: "kern \<Rightarrow> bool" and handle :: "kern \<Rightarrow> outcome option"
  assumes handle_closed: "key_closed P \<Longrightarrow> P s \<Longrightarrow> serves s \<Longrightarrow> opost P (handle s)"
    and closed_commits: "cpost (handle s)"

interpretation inv: key_closed_lax kern_inv
  by unfold_locales (rule kern_inv_same_key, auto simp: restricts_lax_def)

sublocale closed_handler \<subseteq> lax_handler
  by unfold_locales (auto intro: handle_closed closed_commits simp: key_closed_lax_def)

sublocale lax_handler \<subseteq> key_handler
  by unfold_locales (erule (1) handle_lax [OF inv.key_closed_lax_axioms], rule lax_commits)

interpretation void: closed_handler "\<lambda>_. True" VoidKey
  by unfold_locales (auto intro: key_closed.post_VoidKey kcommit)

text \<open>Key types are kept by preparing, and so is the message.\<close>

lemma DoPrepare_type:
  assumes "wf_objs s" "key_DoPrepare r s = Some (False, s')"
  shows "keyType (keys s' r) = keyType (keys s r) \<and> k_inv s' = k_inv s \<and> keyBits_IsPrepared (keys s' r)"
proof (cases "keyBits_IsObjectKey (keys s r)")
  case True
  from key_DoPrepare_outcome [OF assms(1) True assms(2)] show ?thesis
    by (auto simp: prepare_outcome_def prep_result_def)
next
  case False
  with assms(2) show ?thesis
    by (cases "keyType (keys s r)") (auto simp: key_DoPrepare_def key_kinds)
qed

lemma PrepareForInv_type:
  assumes "wf_objs s" "key_PrepareForInv r s = Some (False, s')"
  shows "keyType (keys s' r) = keyType (keys s r) \<and> k_inv s' = k_inv s \<and> keyBits_IsPrepared (keys s' r)"
  using assms DoPrepare_type [OF assms(1)]
  by (cases "keyBits_IsPrepared (keys s r)") (auto simp: key_PrepareForInv_def split: if_splits)

text \<open>
  A handler that begins by preparing the invoked key: the rest runs in a state where the key has
  its type.
\<close>

context key_closed
begin

lemma post_prepare_invoked:
  assumes "P s" "invokes t s"
    and "\<And>s'. P s' \<Longrightarrow> invokes t s' \<Longrightarrow> inv_key (k_inv s') = inv_key (k_inv s) \<Longrightarrow>
      keyBits_IsPrepared (keys s' (inv_key (k_inv s'))) \<Longrightarrow> opost P (f s')"
  shows "opost P (do { (voided, s') \<leftarrow> key_PrepareForInv (inv_key (k_inv s)) s;
           if voided then VoidKey s' else f s' })"
  unfolding opost_def
proof (intro allI impI)
  fix out
  assume "do { (voided, s') \<leftarrow> key_PrepareForInv (inv_key (k_inv s)) s;
           if voided then VoidKey s' else f s' } = Some out"
  then obtain v s1 where s1: "key_PrepareForInv (inv_key (k_inv s)) s = Some (v, s1)"
    and out: "(if v then VoidKey s1 else f s1) = Some out"
    by (auto simp: bind_eq_Some_conv)
  have P1: "P s1" using post_prepare(2) [OF assms(1)] s1 by (auto simp: bpost_def)
  have "\<not> v \<Longrightarrow> invokes t s1 \<and> k_inv s1 = k_inv s \<and> keyBits_IsPrepared (keys s1 (inv_key (k_inv s1)))"
    using PrepareForInv_type [OF kern_inv_wf_objs [OF P_inv [OF assms(1)]], of _ s1] s1 assms(2)
    by (auto simp: invokes_def)
  with P1 have "opost P (if v then VoidKey s1 else f s1)" using assms(3) by (auto intro!: kpost)
  with out show "P (out_state out)" by (simp add: opost_def)
qed

end

text \<open>Finding the returnee may prepare the invoked key, when it is passed as resume key as well.\<close>

lemma key_Prepare_result:
  assumes "wf_objs s" "key_Prepare r s = Some s'"
  shows "only_key r s s'" "keyBits_IsPrepared (keys s r) \<Longrightarrow> s' = s"
    "keyType (keys s' r) = keyType (keys s r) \<or> keyType (keys s' r) = KKT_Void"
    "\<not> keyBits_IsObjectKey (keys s r) \<Longrightarrow>
      keyType (keys s' r) = keyType (keys s r) \<and> key_u (keys s' r) = key_u (keys s r)
      \<and> keyData (keys s' r) = keyData (keys s r)"
proof -
  from assms(2) have *: "if keyBits_IsPrepared (keys s r) then s' = s else \<exists>v. key_DoPrepare r s = Some (v, s')"
    by (auto simp: key_Prepare_def bind_eq_Some_conv split: if_splits)
  then show "keyBits_IsPrepared (keys s r) \<Longrightarrow> s' = s" by simp
  show "only_key r s s'" using * key_DoPrepare_other [of s r] assms(1) by (auto split: if_splits)
  show "\<not> keyBits_IsObjectKey (keys s r) \<Longrightarrow>
      keyType (keys s' r) = keyType (keys s r) \<and> key_u (keys s' r) = key_u (keys s r)
      \<and> keyData (keys s' r) = keyData (keys s r)"
    using * by (cases "keyType (keys s r)") (auto simp: key_DoPrepare_def key_kinds split: if_splits)
  then show "keyType (keys s' r) = keyType (keys s r) \<or> keyType (keys s' r) = KKT_Void"
    using * key_DoPrepare_outcome [OF assms(1), of r]
    by (cases "keyBits_IsObjectKey (keys s r)") (auto simp: prepare_outcome_def prep_result_def split: if_splits)
qed

lemma exit_stepD:
  assumes "exit_step s s'"
  shows "keys s' = keys s" "objs s' = objs s" "same_request (k_inv s) (k_inv s')" "procRoot s' = procRoot s"
    "nObjs s' = nObjs s" "obBucket s' = obBucket s" "rings s' = rings s" "k_akt s' = k_akt s"
    "InvocationCommitted s' = InvocationCommitted s" "obRanges s' = obRanges s" "pmiEnd s' = pmiEnd s"
  using assms by (auto simp: exit_step_def)

lemma GetReturnee_keys:
  assumes "wf_objs s" "inv_GetReturnee s = Some s'"
  shows "same_request (k_inv s) (k_inv s')" "objs s' = objs s" "ReturneeSetUp s'"
    and "keyBits_IsPrepared (keys s r) \<Longrightarrow> keys s' r = keys s r"
    and "keyType (keys s' r) = keyType (keys s r) \<or> keyType (keys s' r) = KKT_Void"
    and "\<not> keyBits_IsObjectKey (keys s r) \<Longrightarrow> keyType (keys s' r) = keyType (keys s r)
      \<and> key_u (keys s' r) = key_u (keys s r) \<and> keyData (keys s' r) = keyData (keys s r)"
    and "InvocationCommitted s' = InvocationCommitted s" "k_akt s' = k_akt s"
proof -
  obtain s1 where s1: "s1 = s \<or> key_Prepare (entry_key (k_inv s) RESUME_SLOT) s = Some s1"
    "exit_step s1 s'" "ReturneeSetUp s'" using inv_GetReturnee_step [OF assms(2)] by blast
  note e = exit_stepD [OF s1(2)]
  have o: "only_key (entry_key (k_inv s) RESUME_SLOT) s s1"
    using s1(1) key_Prepare_result(1) [OF assms(1)] by auto
  show "same_request (k_inv s) (k_inv s')" "objs s' = objs s" "ReturneeSetUp s'"
    "InvocationCommitted s' = InvocationCommitted s" "k_akt s' = k_akt s"
    using only_keyD [OF o] e s1(3) by simp_all
  show "keyBits_IsPrepared (keys s r) \<Longrightarrow> keys s' r = keys s r"
    using s1(1) e(1) only_keyD(10) [OF o, of r] key_Prepare_result(2) [OF assms(1), of r s1] by auto
  show "keyType (keys s' r) = keyType (keys s r) \<or> keyType (keys s' r) = KKT_Void"
    using s1(1) e(1) only_keyD(10) [OF o, of r] key_Prepare_result(3) [OF assms(1), of r s1]
    by (cases "r = entry_key (k_inv s) RESUME_SLOT") auto
  show "\<not> keyBits_IsObjectKey (keys s r) \<Longrightarrow> keyType (keys s' r) = keyType (keys s r)
      \<and> key_u (keys s' r) = key_u (keys s r) \<and> keyData (keys s' r) = keyData (keys s r)"
    using s1(1) e(1) only_keyD(10) [OF o, of r] key_Prepare_result(4) [OF assms(1), of r s1]
    by (cases "r = entry_key (k_inv s) RESUME_SLOT") auto
qed

text \<open>A handler that finds the returnee after it has prepared the invoked key.\<close>

context key_closed
begin

lemma post_returnee_invoked:
  assumes "P s" "keyBits_IsPrepared (keys s (inv_key (k_inv s)))"
    and "\<And>s'. P s' \<Longrightarrow> same_request (k_inv s) (k_inv s') \<Longrightarrow>
      keys s' (inv_key (k_inv s')) = keys s (inv_key (k_inv s)) \<Longrightarrow> opost P (f s')"
  shows "opost P (do { s \<leftarrow> inv_GetReturnee s; f s })"
proof (rule post_bind_eq(1))
  fix s' assume s': "inv_GetReturnee s = Some s'"
  note G = GetReturnee_keys [OF kern_inv_wf_objs [OF P_inv [OF assms(1)]] s']
  show "opost P (f s')"
  proof (rule assms(3))
    show "P s'" using post_returnee(1) [OF assms(1)] s' by (simp add: ipost_def)
    show "same_request (k_inv s) (k_inv s')" by (rule G(1))
    then show "keys s' (inv_key (k_inv s')) = keys s (inv_key (k_inv s))"
      using G(4) assms(2) by (simp add: same_request_def)
  qed
qed

end

end
