(* ===== verification/Node_Key.thy ===== *)
theory Node_Key
  imports Invoke
begin

text \<open>
  Node keys: the operations of sys/key/pk_NodeKey.c, one definition per order code and the
  dispatch. A node key gives access to the 32 key slots of a node; an opaque key passes most
  operations on to the keeper of the node; a read-only key may not change slots; a node copied
  through a weak key gets only keys that cannot be used to change anything.
\<close>

section \<open>Operations\<close>

definition capros_Node_opaque :: "5 word" where "capros_Node_opaque = 1"
definition capros_Node_readOnly :: "5 word" where "capros_Node_readOnly = 2"
definition capros_Node_keeperSlot :: nat where "capros_Node_keeperSlot = 31"
definition capros_Node_nSlots :: nat where "capros_Node_nSlots = 32"

definition Desensitize :: "kref \<Rightarrow> kern \<Rightarrow> kern option" where
  "Desensitize k s =
     (case keyType (keys s k) of
        KKT_Node \<Rightarrow>
          Some (upd_key k (keyBits_SetWeak (keyBits_SetNoCall (keyBits_SetReadOnly (keys s k)))) s)
      | KKT_GPT \<Rightarrow>
          Some (upd_key k (keyBits_SetWeak (keyBits_SetNoCall (keyBits_SetReadOnly (keys s k)))) s)
      | KKT_Page \<Rightarrow> Some (upd_key k (keyBits_SetReadOnly (keys s k)) s)
      | KKT_Number \<Rightarrow> Some s
      | KKT_Discrim \<Rightarrow> Some s
      | _ \<Rightarrow> do {
          assert_that (\<not> keyBits_IsHazard (keys s k));
          Some (key_NH_SetToVoid k s) })"

text \<open>
  The local key \<^verbatim>\<open>k\<close> is \<^const>\<open>KTmp\<close>, void when it comes into scope and unchained when it goes
  out of scope.
\<close>

definition SwapSlot :: "obj_ptr \<Rightarrow> kref \<Rightarrow> kern \<Rightarrow> kern option" where
  "SwapSlot theNode slot s = do {
     s \<leftarrow> objH_EnsureWritable theNode s;
     s \<leftarrow> COMMIT_POINT s;
     let s = key_NH_SetToVoid KTmp s;
     let s = key_NH_Set KTmp slot s;
     let s = key_NH_Set slot (entry_key (k_inv s) 0) s;
     s \<leftarrow> inv_SetExitKey 0 KTmp s;
     Some (key_NH_SetToVoid KTmp s) }"

definition walk_fault :: "RC \<Rightarrow> kern \<Rightarrow> kern option" where
  "walk_fault rc s = COMMIT_POINT (set_exit_code rc s)"

text \<open>
  The loop of \<^verbatim>\<open>WalkExtended\<close>. A node whose l2v field is 32 or more makes the source shift a
  32-bit value by that much, which is undefined; the model is stuck there.
\<close>

function WalkExtended_loop :: "bool \<Rightarrow> kref \<Rightarrow> u32 \<Rightarrow> 5 word \<Rightarrow> nat \<Rightarrow> kern \<Rightarrow> kern option" where
  "WalkExtended_loop write curKey addr restrictions curL2v s =
     (let l2g = keyBits_GetL2g (keys s curKey);
          guard = keyBits_GetGuard (keys s curKey)
      in if (if 32 \<le> l2g then guard \<noteq> 0 else drop_bit l2g addr < guard)
         then walk_fault RC_capros_Node_NoAddr s
         else
      let addr = (if 32 \<le> l2g then addr else addr - push_bit l2g guard);
          restrictions = restrictions OR keyPerms (keys s curKey)
      in if write \<and> restrictions AND capros_Node_readOnly \<noteq> 0
         then walk_fault RC_capros_key_NoAccess s
         else
      case key_GetObjectPtr s (keys s curKey) of None \<Rightarrow> None | Some curNode \<Rightarrow>
      let l2vField = node_GetL2vField (obj_at s curNode);
          newL2v = unat (l2vField AND NODE_L2V_MASK)
      in if newL2v \<ge> curL2v then walk_fault RC_capros_Node_Nondecreasing s
         else if 32 \<le> newL2v then None
         else
      let maxSlot = (if l2vField AND NODE_KEEPER \<noteq> 0 then capros_Node_keeperSlot - 1
                     else capros_Node_nSlots - 1);
          ndx = unat (drop_bit newL2v addr)
      in if ndx > maxSlot then walk_fault RC_capros_Node_NoAddr s
         else
      let curKey = KSlot curNode ndx
      in if keyBits_IsHazard (keys s curKey) then None
         else if newL2v = 0 then
           (let s = set_exit_code RC_OK s
            in if \<not> write then do { s \<leftarrow> COMMIT_POINT s; inv_SetExitKey 0 curKey s }
               else SwapSlot curNode curKey s)
         else do {
           s \<leftarrow> key_Prepare curKey s;
           if keyType (keys s curKey) = KKT_Node
           then WalkExtended_loop write curKey (addr AND (push_bit newL2v 1 - 1)) restrictions newL2v s
           else walk_fault RC_capros_Node_NoAddr s })"
  by pat_completeness auto
termination
  by (relation "measure (\<lambda>(write, curKey, addr, restrictions, curL2v, s). curL2v)") auto

declare WalkExtended_loop.simps [simp del]

definition WalkExtended :: "bool \<Rightarrow> kern \<Rightarrow> kern option" where
  "WalkExtended write s =
     do {
       s \<leftarrow> inv_GetReturnee s;
       WalkExtended_loop write (inv_key (k_inv s)) (entry_w1 (k_inv s)) 0
         (unat NODE_L2V_MASK + 1) s }"

fun NodeClone_hazards :: "obj_ptr \<Rightarrow> obj_ptr \<Rightarrow> nat list \<Rightarrow> kern \<Rightarrow> kern option" where
  "NodeClone_hazards toNode fromNode [] s = Some s"
| "NodeClone_hazards toNode fromNode (slot # slots) s = do {
     s \<leftarrow> node_ClearHazard toNode slot s;
     s \<leftarrow> (if keyBits_IsRdHazard (keys s (KSlot fromNode slot))
           then node_ClearHazard fromNode slot s else Some s);
     NodeClone_hazards toNode fromNode slots s }"

fun NodeClone_copy :: "obj_ptr \<Rightarrow> obj_ptr \<Rightarrow> bool \<Rightarrow> nat list \<Rightarrow> kern \<Rightarrow> kern option" where
  "NodeClone_copy toNode fromNode isWeak [] s = Some s"
| "NodeClone_copy toNode fromNode isWeak (slot # slots) s = do {
     let s = key_NH_Set (KSlot toNode slot) (KSlot fromNode slot) s;
     s \<leftarrow> (if isWeak then Desensitize (KSlot toNode slot) s else Some s);
     NodeClone_copy toNode fromNode isWeak slots s }"

definition NodeClone :: "obj_ptr \<Rightarrow> kref \<Rightarrow> kern \<Rightarrow> kern option" where
  "NodeClone toNode fromKey s = do {
     let isWeak = keyBits_IsWeak (keys s fromKey);
     fromNode \<leftarrow> key_GetObjectPtr s (keys s fromKey);
     s \<leftarrow> NodeClone_hazards toNode fromNode [0..<EROS_NODE_SIZE] s;
     s \<leftarrow> NodeClone_copy toNode fromNode isWeak [0..<EROS_NODE_SIZE] s;
     Some (upd_obj toNode (\<lambda>ob. ob\<lparr>nodeData := nodeData (obj_at s fromNode)\<rparr>) s) }"

subsection \<open>One definition per order code\<close>

definition nk_has_keeper :: "obj_ptr \<Rightarrow> kern \<Rightarrow> bool" where
  "nk_has_keeper theNode s = (node_GetL2vField (obj_at s theNode) AND NODE_KEEPER \<noteq> 0)"

definition nk_invoke_keeper :: "obj_ptr \<Rightarrow> kern \<Rightarrow> outcome option" where
  "nk_invoke_keeper theNode s = inv_InvokeGateOrVoid (KSlot theNode capros_Node_keeperSlot) s"

definition nk_check_keeper :: "obj_ptr \<Rightarrow> kern \<Rightarrow> outcome option" where
  "nk_check_keeper theNode s =
     (if nk_has_keeper theNode s then nk_invoke_keeper theNode s
      else do {
        s \<leftarrow> inv_GetReturnee s;
        s \<leftarrow> COMMIT_POINT s;
        ReturnCode RC_capros_key_UnknownRequest s })"

definition nk_getType :: "obj_ptr \<Rightarrow> kern \<Rightarrow> outcome option" where
  "nk_getType theNode s =
     (if nk_has_keeper theNode s then nk_invoke_keeper theNode s
      else do {
        s \<leftarrow> inv_GetReturnee s;
        s \<leftarrow> COMMIT_POINT s;
        ReturnCode RC_OK (set_exit_w1 (k_akt s KKT_Node) s) })"

text \<open>The operations that an opaque key passes to the keeper. The others find the returnee first.\<close>

definition nk_op :: "bool \<Rightarrow> obj_ptr \<Rightarrow> (kern \<Rightarrow> outcome option) \<Rightarrow> kern \<Rightarrow> outcome option" where
  "nk_op opaque theNode f s =
     (if opaque then nk_check_keeper theNode s else do { s \<leftarrow> inv_GetReturnee s; f s })"

definition nk_getSlot :: "obj_ptr \<Rightarrow> kern \<Rightarrow> outcome option" where
  "nk_getSlot theNode s = do {
     let slot = unat (entry_w1 (k_inv s));
     s \<leftarrow> COMMIT_POINT s;
     if slot \<ge> EROS_NODE_SIZE then ReturnCode RC_capros_key_RequestError s
     else do {
       let s = set_exit_code RC_OK s;
       assert_that (\<not> keyBits_IsRdHazard (keys s (KSlot theNode slot)));
       s \<leftarrow> inv_SetExitKey 0 (KSlot theNode slot) s;
       tail_ReturnMessage s } }"

text \<open>The source also asserts that the node is not the node of key registers of the processes.\<close>

definition nk_not_process :: "obj_ptr \<Rightarrow> kern \<Rightarrow> bool" where
  "nk_not_process theNode s =
     ((case invokee (k_inv s) of None \<Rightarrow> True | Some p \<Rightarrow> procRoot s p \<noteq> Some theNode)
      \<and> (case proc_curProcess (k_sched s) of None \<Rightarrow> False | Some p \<Rightarrow> procRoot s p \<noteq> Some theNode))"

definition nk_swapSlot :: "bool \<Rightarrow> obj_ptr \<Rightarrow> kern \<Rightarrow> outcome option" where
  "nk_swapSlot isFetch theNode s = do {
     assert_that (nk_not_process theNode s);
     if isFetch then do { s \<leftarrow> COMMIT_POINT s; ReturnCode RC_capros_key_NoAccess s }
     else let slot = unat (entry_w1 (k_inv s)) in
     if slot \<ge> EROS_NODE_SIZE then do { s \<leftarrow> COMMIT_POINT s; ReturnCode RC_capros_key_RequestError s }
     else do {
       assert_that (\<not> keyBits_IsHazard (keys s (KSlot theNode slot)));
       s \<leftarrow> SwapSlot theNode (KSlot theNode slot) (set_exit_code RC_OK s);
       tail_ReturnMessage s } }"

definition nk_slotExtended :: "bool \<Rightarrow> bool \<Rightarrow> obj_ptr \<Rightarrow> kern \<Rightarrow> outcome option" where
  "nk_slotExtended opaque write theNode s =
     (if opaque \<and> node_GetL2vField (obj_at s theNode) AND NODE_BLOCKED \<noteq> 0
      then nk_check_keeper theNode s
      else do { s \<leftarrow> WalkExtended write s; tail_ReturnMessage s })"

text \<open>The permission field of the key has 5 bits; larger requests are refused before.\<close>

definition nk_reduce :: "kern \<Rightarrow> outcome option" where
  "nk_reduce s = do {
     s \<leftarrow> COMMIT_POINT s;
     let p = entry_w1 (k_inv s);
     if p AND NOT (ucast capros_Node_readOnly OR ucast capros_Node_opaque) \<noteq> 0
     then ReturnCode RC_capros_key_RequestError s
     else do {
       let s = set_exit_code RC_OK s;
       case exit_pKey (k_inv s) 0 of
         None \<Rightarrow> tail_ReturnMessage s
       | Some d \<Rightarrow> do {
           s \<leftarrow> inv_SetExitKey 0 (inv_key (k_inv s)) s;
           let k = keys s d;
           tail_ReturnMessage (upd_key d (k\<lparr>keyPerms := keyPerms k OR ucast p\<rparr>) s) } } }"

text \<open>A \<^verbatim>\<open>capros_Number_value\<close> is three 32-bit words, little-endian.\<close>

definition le_word :: "u8 list \<Rightarrow> u32" where
  "le_word bs = foldr (\<lambda>b w. push_bit 8 w OR ucast b) bs 0"

definition sizeof_Number_value :: nat where "sizeof_Number_value = 12"

definition nk_writeNumber :: "bool \<Rightarrow> obj_ptr \<Rightarrow> kern \<Rightarrow> outcome option" where
  "nk_writeNumber isFetch theNode s =
     (if isFetch then do { s \<leftarrow> COMMIT_POINT s; ReturnCode RC_capros_key_NoAccess s }
      else let slot = unat (entry_w1 (k_inv s));
               len = length (entry_data (k_inv s))
      in if slot \<ge> EROS_NODE_SIZE \<or> len \<noteq> sizeof_Number_value
      then do { s \<leftarrow> COMMIT_POINT s; ReturnCode RC_capros_key_RequestError s }
      else do {
        let s = set_exit_code RC_OK s;
        s \<leftarrow> objH_EnsureWritable theNode s;
        s \<leftarrow> COMMIT_POINT s;
        let nkv = inv_CopyIn len s;
        s \<leftarrow> node_ClearHazard theNode slot s;
        assert_that (\<not> keyBits_IsPrepared (keys s (KSlot theNode slot)));
        let s = key_SetToNumber (KSlot theNode slot) (le_word (drop 8 nkv))
                  (le_word (take 4 (drop 4 nkv))) (le_word (take 4 nkv)) s;
        tail_ReturnMessage s })"

definition nk_getL2v :: "obj_ptr \<Rightarrow> kern \<Rightarrow> outcome option" where
  "nk_getL2v theNode s = do {
     s \<leftarrow> COMMIT_POINT s;
     ReturnCode RC_OK (set_exit_w1 (ucast (node_GetL2vField (obj_at s theNode) AND NODE_L2V_MASK)) s) }"

definition nk_setL2v :: "obj_ptr \<Rightarrow> kern \<Rightarrow> outcome option" where
  "nk_setL2v theNode s = do {
     s \<leftarrow> COMMIT_POINT s;
     let newL2v = entry_w1 (k_inv s);
     if \<not> newL2v < 32 then ReturnCode RC_capros_key_RequestError s
     else do {
       let l2vField = node_GetL2vField (obj_at s theNode);
       let oldL2v = l2vField AND NODE_L2V_MASK;
       let s = upd_obj theNode (node_SetL2vField (l2vField - oldL2v + ucast newL2v)) s;
       ReturnCode RC_OK s } }"

definition nk_makeGuarded :: "kern \<Rightarrow> outcome option" where
  "nk_makeGuarded s = do {
     s \<leftarrow> COMMIT_POINT s;
     case key_CalcGuard (ucast (entry_w1 (k_inv s))) of
       None \<Rightarrow> ReturnCode RC_capros_Node_UnrepresentableGuard s
     | Some gd \<Rightarrow>
        (case exit_pKey (k_inv s) 0 of
           None \<Rightarrow> ReturnCode RC_OK s
         | Some d \<Rightarrow> do {
             s \<leftarrow> inv_SetExitKey 0 (inv_key (k_inv s)) s;
             ReturnCode RC_OK (upd_key d (key_SetGuardData (keys s d) gd) s) }) }"

definition nk_getGuard :: "kern \<Rightarrow> outcome option" where
  "nk_getGuard s = do {
     s \<leftarrow> COMMIT_POINT s;
     ReturnCode RC_OK (set_exit_w1 (ucast (key_GetGuard (keys s (inv_key (k_inv s))))) s) }"

definition nk_setKeeper :: "obj_ptr \<Rightarrow> kern \<Rightarrow> outcome option" where
  "nk_setKeeper theNode s = do {
     s \<leftarrow> node_SetSlot theNode capros_Node_keeperSlot s;
     let f = node_GetL2vField (obj_at s theNode) OR NODE_KEEPER;
     tail_ReturnMessage (upd_obj theNode (node_SetL2vField f) s) }"

definition nk_setField :: "(u8 \<Rightarrow> u8) \<Rightarrow> obj_ptr \<Rightarrow> kern \<Rightarrow> outcome option" where
  "nk_setField f theNode s = do {
     s \<leftarrow> COMMIT_POINT s;
     let s = upd_obj theNode (node_SetL2vField (f (node_GetL2vField (obj_at s theNode)))) s;
     ReturnCode RC_OK s }"

definition nk_clearKeeper :: "obj_ptr \<Rightarrow> kern \<Rightarrow> outcome option" where
  "nk_clearKeeper = nk_setField (\<lambda>w. w AND NOT NODE_KEEPER)"

definition nk_setBlocked :: "obj_ptr \<Rightarrow> kern \<Rightarrow> outcome option" where
  "nk_setBlocked = nk_setField (\<lambda>w. w OR NODE_BLOCKED)"

definition nk_clearBlocked :: "obj_ptr \<Rightarrow> kern \<Rightarrow> outcome option" where
  "nk_clearBlocked = nk_setField (\<lambda>w. w AND NOT NODE_BLOCKED)"

text \<open>The read-only case goes on to return its message without a commit point.\<close>

definition nk_clone :: "bool \<Rightarrow> obj_ptr \<Rightarrow> kern \<Rightarrow> outcome option" where
  "nk_clone isFetch theNode s =
     (if isFetch then ReturnCode RC_capros_key_NoAccess s
      else do {
        s \<leftarrow> objH_EnsureWritable theNode s;
        s \<leftarrow> key_Prepare (entry_key (k_inv s) 0) s;
        assert_that (keyBits_IsPrepared (keys s (inv_key (k_inv s))));
        s \<leftarrow> COMMIT_POINT s;
        if keyType (keys s (entry_key (k_inv s) 0)) \<noteq> KKT_Node
        then ReturnCode RC_capros_key_RequestError s
        else do {
          s \<leftarrow> NodeClone theNode (entry_key (k_inv s) 0) s;
          ReturnCode RC_OK s } })"

subsection \<open>The dispatch\<close>

definition nk_dispatch :: "bool \<Rightarrow> bool \<Rightarrow> obj_ptr \<Rightarrow> kern \<Rightarrow> outcome option" where
  "nk_dispatch isFetch opaque theNode s =
     (case entry_code (k_inv s) of
        OC_capros_key_getType \<Rightarrow> nk_getType theNode s
      | OC_capros_Node_getSlot \<Rightarrow> nk_op opaque theNode (nk_getSlot theNode) s
      | OC_capros_Node_swapSlot \<Rightarrow> nk_op opaque theNode (nk_swapSlot isFetch theNode) s
      | OC_capros_Node_getSlotExtended \<Rightarrow> nk_slotExtended opaque False theNode s
      | OC_capros_Node_swapSlotExtended \<Rightarrow> nk_slotExtended opaque True theNode s
      | OC_capros_Node_reduce \<Rightarrow> do { s \<leftarrow> inv_GetReturnee s; nk_reduce s }
      | OC_capros_Node_writeNumber \<Rightarrow> nk_op opaque theNode (nk_writeNumber isFetch theNode) s
      | OC_capros_Node_getL2v \<Rightarrow> nk_op opaque theNode (nk_getL2v theNode) s
      | OC_capros_Node_setL2v \<Rightarrow> nk_op opaque theNode (nk_setL2v theNode) s
      | OC_capros_Node_makeGuarded \<Rightarrow> nk_op opaque theNode nk_makeGuarded s
      | OC_capros_Node_getGuard \<Rightarrow> nk_op opaque theNode nk_getGuard s
      | OC_capros_Node_setKeeper \<Rightarrow> nk_op opaque theNode (nk_setKeeper theNode) s
      | OC_capros_Node_clearKeeper \<Rightarrow> nk_op opaque theNode (nk_clearKeeper theNode) s
      | OC_capros_Node_setBlocked \<Rightarrow> nk_op opaque theNode (nk_setBlocked theNode) s
      | OC_capros_Node_clearBlocked \<Rightarrow> nk_op opaque theNode (nk_clearBlocked theNode) s
      | OC_capros_Node_clone \<Rightarrow> nk_op opaque theNode (nk_clone isFetch theNode) s
      | _ \<Rightarrow> nk_check_keeper theNode s)"

definition NodeKey :: "kern \<Rightarrow> outcome option" where
  "NodeKey s = do {
     let key = inv_key (k_inv s);
     (voided, s) \<leftarrow> key_PrepareForInv key s;
     if voided then VoidKey s
     else do {
       let isFetch = (keyPerms (keys s key) AND capros_Node_readOnly \<noteq> 0);
       let opaque = (keyPerms (keys s key) AND capros_Node_opaque \<noteq> 0);
       theNode \<leftarrow> key_GetObjectPtr s (keys s key);
       nk_dispatch isFetch opaque theNode s } }"

end
