(* ===== verification/Node_Key_Props.thy ===== *)
theory Node_Key_Props
  imports Node_Key
begin

text \<open>
  Properties of node keys: the whole handler keeps the kernel invariant, and every other property
  of states the primitive key operations keep.
\<close>

section \<open>What the primitives keep, the handler keeps\<close>

lemma key_SetGuardData_fields [simp]:
  "keyType (key_SetGuardData k gd) = keyType k" "key_u (key_SetGuardData k gd) = key_u k"
  "keyFlags (key_SetGuardData k gd) = keyFlags k" "keyPerms (key_SetGuardData k gd) = keyPerms k"
  by (simp_all add: key_SetGuardData_def keyBits_SetL2g_def keyBits_SetGuard_def)

lemma restricts_weaken:
  "restricts k (keyBits_SetWeak (keyBits_SetNoCall (keyBits_SetReadOnly k)))"
  "restricts k (keyBits_SetReadOnly k)" "restricts k (k\<lparr>keyPerms := keyPerms k OR w\<rparr>)"
  by (auto simp: restricts_def keyBits_SetWeak_def keyBits_SetNoCall_def keyBits_SetReadOnly_def
      bit_eq_iff bit_simps)

lemma restricts_guard:
  "keyType k \<in> {KKT_Node, KKT_GPT, KKT_Page, KKT_Void} \<Longrightarrow> restricts k (key_SetGuardData k gd)"
  by (auto simp: restricts_def)

lemma same_ident_nodeData [simp]: "same_ident ob (ob\<lparr>nodeData := d\<rparr>)"
  by (simp add: same_ident_def objH_GetFlags_def)

lemmas nk_defs = nk_invoke_keeper_def nk_check_keeper_def nk_getType_def nk_getSlot_def
  nk_swapSlot_def nk_slotExtended_def nk_reduce_def nk_writeNumber_def nk_getL2v_def nk_setL2v_def
  nk_getGuard_def nk_setKeeper_def nk_setField_def nk_clearKeeper_def
  nk_setBlocked_def nk_clearBlocked_def nk_clone_def

context key_closed
begin

lemma Desensitize_post [kpost]: "P s \<Longrightarrow> ipost P (Desensitize k s)"
  unfolding Desensitize_def
  by (cases "keyType (keys s k)") (auto intro!: kpost P_state restricts_weaken)

lemma SwapSlot_post [kpost]: "P s \<Longrightarrow> ipost P (SwapSlot p slot s)"
  unfolding SwapSlot_def by (auto intro!: kpost P_state)

lemma walk_fault_post [kpost]: "P s \<Longrightarrow> ipost P (walk_fault rc s)"
  unfolding walk_fault_def by (auto intro!: kpost)

lemma WalkExtended_loop_post: "P s \<Longrightarrow> ipost P (WalkExtended_loop wr ck ad re l2 s)"
proof (induction l2 arbitrary: ck ad re s rule: less_induct)
  case (less l2)
  show ?case
    unfolding WalkExtended_loop.simps [of wr ck ad re l2 s] Let_def
    using less.prems by (auto intro!: kpost less.IH)
qed

lemma WalkExtended_post [kpost]: "P s \<Longrightarrow> ipost P (WalkExtended wr s)"
  unfolding WalkExtended_def by (auto intro!: kpost WalkExtended_loop_post)

lemma NodeClone_hazards_post: "P s \<Longrightarrow> ipost P (NodeClone_hazards to from slots s)"
  by (induction slots arbitrary: s) (auto intro!: kpost)

lemma NodeClone_copy_post: "P s \<Longrightarrow> ipost P (NodeClone_copy to from w slots s)"
proof (induction slots arbitrary: s)
  case (Cons n slots)
  then show ?case by (cases w) (auto simp: Let_def intro!: kpost P_state Cons.IH)
qed (simp add: kpost)

lemma NodeClone_post [kpost]: "P s \<Longrightarrow> ipost P (NodeClone p k s)"
  unfolding NodeClone_def Let_def
  by (auto intro!: kpost NodeClone_hazards_post NodeClone_copy_post P_state)

text \<open>The copy of the invoked key whose guard is set is a key of the same type.\<close>

lemma guarded_post:
  assumes "P s" "keyType (keys s k) \<in> {KKT_Node, KKT_GPT, KKT_Page, KKT_Void}"
    and "exit_pKey (k_inv s) 0 = Some d"
  shows "opost P (do { s \<leftarrow> inv_SetExitKey 0 k s; ReturnCode RC_OK (upd_key d (key_SetGuardData (keys s d) gd) s) })"
  using assms
  by (auto simp: opost_def bind_eq_Some_conv handler_Some intro!: P_state restricts_guard)

lemma nk_makeGuarded_post [kpost]:
  assumes "P s" "keyType (keys s (inv_key (k_inv s))) = KKT_Node"
  shows "opost P (nk_makeGuarded s)"
  unfolding nk_makeGuarded_def
proof (rule post_bind_eq(1))
  fix s1 assume s1: "COMMIT_POINT s = Some s1"
  then have "P s1" using post_invocation(1) [OF assms(1)] by (simp add: ipost_def)
  moreover have "keyType (keys s1 (inv_key (k_inv s1))) = KKT_Node"
    using s1 assms(2) by (auto simp: COMMIT_POINT_Some)
  ultimately show "opost P (case key_CalcGuard (ucast (entry_w1 (k_inv s1))) of
       None \<Rightarrow> ReturnCode RC_capros_Node_UnrepresentableGuard s1
     | Some gd \<Rightarrow>
        (case exit_pKey (k_inv s1) 0 of
           None \<Rightarrow> ReturnCode RC_OK s1
         | Some d \<Rightarrow> do {
             s \<leftarrow> inv_SetExitKey 0 (inv_key (k_inv s1)) s1;
             ReturnCode RC_OK (upd_key d (key_SetGuardData (keys s d) gd) s) }))"
    by (intro post_option(2) post_invocation guarded_post) simp_all
qed

lemma nk_post [kpost]:
  assumes "P s"
  shows "opost P (nk_invoke_keeper p s)" "opost P (nk_check_keeper p s)" "opost P (nk_getType p s)"
    "opost P (nk_getSlot p s)" "opost P (nk_swapSlot f p s)" "opost P (nk_slotExtended oq wr p s)"
    "opost P (nk_reduce s)" "opost P (nk_writeNumber f p s)" "opost P (nk_getL2v p s)"
    "opost P (nk_setL2v p s)" "opost P (nk_getGuard s)"
    "opost P (nk_setKeeper p s)" "opost P (nk_clearKeeper p s)" "opost P (nk_setBlocked p s)"
    "opost P (nk_clearBlocked p s)" "opost P (nk_clone f p s)"
  using assms unfolding nk_defs Let_def
  by (auto intro!: kpost P_state restricts_weaken)

lemma nk_op_post:
  assumes "P s" "invokes KKT_Node s" "keyBits_IsPrepared (keys s (inv_key (k_inv s)))"
    and "\<And>s. P s \<Longrightarrow> invokes KKT_Node s \<Longrightarrow> opost P (f s)"
  shows "opost P (nk_op oq p f s)"
  unfolding nk_op_def
  by (rule post_if(2), rule nk_post, rule assms(1), rule post_returnee_invoked [OF assms(1,3)], rule assms(4))
    (use assms(2) in \<open>simp_all add: invokes_def\<close>)

lemma nk_dispatch_post [kpost]:
  assumes "P s" "invokes KKT_Node s" "keyBits_IsPrepared (keys s (inv_key (k_inv s)))"
  shows "opost P (nk_dispatch f oq p s)"
  unfolding nk_dispatch_def using assms
  by (cases "entry_code (k_inv s)") (auto intro!: nk_op_post nk_post nk_makeGuarded_post kpost simp: invokes_def)

end

section \<open>The contract\<close>

context key_closed
begin

lemma NodeKey_post:
  assumes "P s" "invokes KKT_Node s"
  shows "opost P (NodeKey s)"
  unfolding NodeKey_def Let_def
  by (rule post_prepare_invoked [OF assms]) (auto simp: invokes_def intro!: kpost)

end

lemma nk_commits [kcommit]:
  "cpost (nk_invoke_keeper p s)" "cpost (nk_check_keeper p s)" "cpost (nk_getType p s)"
  "cpost (nk_getSlot p s)" "cpost (nk_swapSlot f p s)" "cpost (nk_slotExtended oq wr p s)"
  "cpost (nk_reduce s)" "cpost (nk_writeNumber f p s)" "cpost (nk_getL2v p s)"
  "cpost (nk_setL2v p s)" "cpost (nk_getGuard s)"
  "cpost (nk_setKeeper p s)" "cpost (nk_clearKeeper p s)" "cpost (nk_setBlocked p s)"
  "cpost (nk_clearBlocked p s)" "cpost (nk_clone f p s)" "cpost (nk_makeGuarded s)"
  unfolding nk_defs nk_makeGuarded_def Let_def by (auto intro!: kcommit)

lemma nk_op_commits [kcommit]: "(\<And>s. cpost (f s)) \<Longrightarrow> cpost (nk_op oq p f s)"
  unfolding nk_op_def by (auto intro!: kcommit)

lemma NodeKey_commits: "cpost (NodeKey s)"
proof -
  have "cpost (nk_dispatch f oq p s)" for f oq p s
    unfolding nk_dispatch_def by (cases "entry_code (k_inv s)") (auto intro!: kcommit)
  then show ?thesis unfolding NodeKey_def Let_def by (auto intro!: kcommit)
qed

interpretation node: closed_handler "invokes KKT_Node" NodeKey
  by unfold_locales (simp_all add: key_closed.NodeKey_post NodeKey_commits)

end
