(* ===== verification/Cap_Abs.thy ===== *)
theory Cap_Abs
  imports Invoke
begin

text \<open>
  An abstract view of the keys: what authority each key carries, independent of how the key is
  represented (prepared or not, hazarded or not). On this view preparing, unpreparing and clearing
  hazards do nothing, and copying and voiding are plain assignments. The view gives the notion of
  one key being derived from another, and the property that an invocation creates no authority.
\<close>

section \<open>Capabilities\<close>

datatype cap =
    NoCap
  | ObjCap kkt "5 word" u16 OID ObCount
  | DataCap kkt "5 word" u16 key_u

text \<open>
  A prepared object key carries authority over the object it points to. An unprepared one carries
  authority over the object with its OID, unless the object is in memory and its type or count
  shows that the key was rescinded.
\<close>

definition key_cap :: "kern \<Rightarrow> KeyBits \<Rightarrow> cap" where
  "key_cap s k =
     (if keyBits_IsObjectKey k then
        (if keyBits_IsPrepared k then
           (case key_GetObjectPtr s k of
              Some p \<Rightarrow> ObjCap (keyType k) (keyPerms k) (keyData k) (obOid (obj_at s p)) (count_for k (obj_at s p))
            | None \<Rightarrow> NoCap)
         else
           (case key_u k of
              U_unprep oid c \<Rightarrow>
                (case objH_Lookup s oid of
                   None \<Rightarrow> ObjCap (keyType k) (keyPerms k) (keyData k) oid c
                 | Some p \<Rightarrow>
                     (if objH_GetBaseType (obj_at s p) = base_of (keyType k) \<and> count_for k (obj_at s p) = c
                      then ObjCap (keyType k) (keyPerms k) (keyData k) oid c else NoCap))
            | _ \<Rightarrow> NoCap))
      else if keyType k = KKT_Void then NoCap
      else DataCap (keyType k) (keyPerms k) (keyData k) (key_u k))"

definition cap_at :: "kern \<Rightarrow> kref \<Rightarrow> cap" where
  "cap_at s r = key_cap s (keys s r)"

text \<open>What a capability depends on.\<close>

definition same_world :: "kern \<Rightarrow> kern \<Rightarrow> bool" where
  "same_world s s' =
     (nObjs s' = nObjs s \<and> obBucket s' = obBucket s \<and> procRoot s' = procRoot s
      \<and> (\<forall>p. same_ident (obj_at s p) (obj_at s' p)))"

lemma same_ident_refl [simp]: "same_ident ob ob"
  by (simp add: same_ident_def)

lemma same_worldI [intro]:
  "nObjs s' = nObjs s \<Longrightarrow> obBucket s' = obBucket s \<Longrightarrow> procRoot s' = procRoot s \<Longrightarrow> objs s' = objs s
   \<Longrightarrow> same_world s s'"
  by (simp add: same_world_def obj_at_def)

lemma same_world_refl [simp]: "same_world s s"
  by (auto intro!: same_worldI)

lemma same_world_simps [simp]:
  "same_world s (upd_key r k s1) = same_world s s1" "same_world s (upd_inv f s1) = same_world s s1"
  "same_world s (upd_ring rid g s1) = same_world s s1"
  "same_world s (s1\<lparr>InvocationCommitted := b\<rparr>) = same_world s s1"
  "same_world s (s1\<lparr>k_sched := x\<rparr>) = same_world s s1"
  "same_world s (s1\<lparr>ReturneeSetUp := b\<rparr>) = same_world s s1"
  "same_world s (key_NH_Set d r s1) = same_world s s1"
  "same_world s (key_NH_SetToVoid r s1) = same_world s s1"
  "same_world s (keyBits_Unchain r s1) = same_world s s1"
  "same_world s (link_prepared r u s1) = same_world s s1"
  by (simp_all add: same_world_def obj_at_def)

lemma same_world_upd_obj:
  "same_ident (obj_at s p) (f (obj_at s p)) \<Longrightarrow> same_world s (upd_obj p f s)"
  by (simp add: same_world_def obj_at_upd_obj)

lemma same_world_objects:
  assumes "same_world s s'"
  shows "obOid (obj_at s' p) = obOid (obj_at s p)" "count_for k (obj_at s' p) = count_for k (obj_at s p)"
    "objH_GetBaseType (obj_at s' p) = objH_GetBaseType (obj_at s p)"
    "ot_is_object (obType (obj_at s' p)) = ot_is_object (obType (obj_at s p))"
  using assms by (auto simp: same_world_def same_ident_def count_for_def objH_GetBaseType_def)

lemma same_world_trans: "same_world s s1 \<Longrightarrow> same_world s1 s2 \<Longrightarrow> same_world s s2"
  by (auto simp: same_world_def same_ident_def)

lemma same_world_upd_obj_trans:
  "same_world s s1 \<Longrightarrow> same_ident (obj_at s1 p) (f (obj_at s1 p)) \<Longrightarrow> same_world s (upd_obj p f s1)"
  by (rule same_world_trans [OF _ same_world_upd_obj])

lemma same_world_is_obj: "same_world s s' \<Longrightarrow> is_obj s' p = is_obj s p"
  by (simp add: is_obj_def same_world_def same_ident_def)

lemma same_world_flags:
  "same_world s s' \<Longrightarrow> objH_GetFlags (obj_at s p) w \<Longrightarrow> objH_GetFlags (obj_at s' p) w"
  by (auto simp: same_world_def same_ident_def)

lemma EnsureWritable_frame:
  assumes "objH_EnsureWritable p s = Some s'"
  shows "same_world s s'" "keys s' = keys s" "k_inv s' = k_inv s" "rings s' = rings s"
    "obRanges s' = obRanges s"
  using objH_EnsureWritable_Some [OF assms] by (auto intro!: same_world_upd_obj)

lemma same_world_lookup:
  assumes "same_world s s'"
  shows "objH_Lookup s' oid = objH_Lookup s oid"
proof -
  have "(\<lambda>p. obOid (obj_at s' p) = oid \<and> ot_is_object (obType (obj_at s' p)))
      = (\<lambda>p. obOid (obj_at s p) = oid \<and> ot_is_object (obType (obj_at s p)))"
    using same_world_objects [OF assms] by (simp only:)
  moreover have "obBucket s' = obBucket s" using assms by (simp add: same_world_def)
  ultimately show ?thesis unfolding objH_Lookup_def by (simp only:)
qed

lemma key_cap_same_world: "same_world s s' \<Longrightarrow> key_cap s' k = key_cap s k"
proof -
  assume w: "same_world s s'"
  then have "key_GetObjectPtr s' k = key_GetObjectPtr s k"
    by (simp add: key_GetObjectPtr_def same_world_def)
  then show ?thesis
    by (simp add: key_cap_def same_world_lookup [OF w] same_world_objects [OF w]
        split: option.splits key_u.splits)
qed

lemma key_cap_simps [simp]:
  "key_cap (upd_key r k s) c = key_cap s c" "key_cap (upd_inv f s) c = key_cap s c"
  "key_cap (upd_ring rid g s) c = key_cap s c" "key_cap (s\<lparr>InvocationCommitted := b\<rparr>) c = key_cap s c"
  "key_cap (s\<lparr>k_sched := x\<rparr>) c = key_cap s c" "key_cap (s\<lparr>ReturneeSetUp := b\<rparr>) c = key_cap s c"
  "key_cap (key_NH_Set d r s) c = key_cap s c" "key_cap (key_NH_SetToVoid r s) c = key_cap s c"
  "key_cap (keyBits_Unchain r s) c = key_cap s c" "key_cap (link_prepared r u s) c = key_cap s c"
  by (rule key_cap_same_world; simp)+

lemma cap_at_upd_key [simp]:
  "cap_at (upd_key r k s) r' = (if r' = r then key_cap s k else cap_at s r')"
  by (simp add: cap_at_def)

lemma cap_at_upd_inv [simp]: "cap_at (upd_inv f s) = cap_at s"
  and cap_at_committed [simp]: "cap_at (s\<lparr>InvocationCommitted := b\<rparr>) = cap_at s"
  and cap_at_sched [simp]: "cap_at (s\<lparr>k_sched := x\<rparr>) = cap_at s"
  and cap_at_SetUp [simp]: "cap_at (s\<lparr>ReturneeSetUp := b\<rparr>) = cap_at s"
  and cap_at_Unchain [simp]: "cap_at (keyBits_Unchain r s) = cap_at s"
  and cap_at_link [simp]: "cap_at (link_prepared r u s) = cap_at s"
  by (simp_all add: cap_at_def fun_eq_iff)

lemma cap_at_upd_obj:
  "same_ident (obj_at s p) (f (obj_at s p)) \<Longrightarrow> cap_at (upd_obj p f s) = cap_at s"
  by (simp add: cap_at_def key_cap_same_world [OF same_world_upd_obj] fun_eq_iff)

lemma key_cap_unhazarded [simp]: "key_cap s (unhazarded k) = key_cap s k"
proof -
  have "count_for (unhazarded k) = count_for k" by (simp add: count_for_def fun_eq_iff)
  moreover have "key_GetObjectPtr s (unhazarded k) = key_GetObjectPtr s k"
    by (simp add: key_GetObjectPtr_def keyBits_IsPreparedObjectKey_def key_pContext_def key_pObj_def)
  ultimately show ?thesis by (simp add: key_cap_def split: option.split key_u.split)
qed

lemma key_cap_void [simp]: "key_cap s void_key = NoCap"
  "key_cap s (keyBits_SetPrepared void_key) = NoCap"
  by (simp_all add: key_cap_def key_kinds)

section \<open>The primitive operations on capabilities\<close>

lemma cap_at_Set: "cap_at (key_NH_Set dst src s) = (cap_at s)(dst := cap_at s src)"
  by (auto simp: cap_at_def fun_eq_iff)

lemma cap_at_SetToVoid: "cap_at (key_NH_SetToVoid r s) = (cap_at s)(r := NoCap)"
  by (auto simp: cap_at_def fun_eq_iff)

lemma cap_at_SetToNumber:
  "cap_at (key_SetToNumber r hi mid lo s)
   = (cap_at s)(r := DataCap KKT_Number capros_Memory_readOnly 0 (U_nk lo mid hi))"
  by (auto simp: key_SetToNumber_eq fun_eq_iff number_key_def key_cap_def
      key_kinds)

lemma key_cap_denotes:
  assumes "kern_inv s" "denotes s k p" "wf_key s k"
  shows "key_cap s k = ObjCap (keyType k) (keyPerms k) (keyData k) (obOid (obj_at s p)) (count_for k (obj_at s p))"
  using assms objH_Lookup_is_obj [OF kern_inv_wf_objs [OF assms(1)], of p]
  by (auto simp: key_cap_def denotes_def split: if_splits)

lemma key_cap_rescinded:
  assumes "kern_inv s" "keyBits_IsObjectKey k" "\<not> keyBits_IsPrepared k" "\<And>p. \<not> denotes s k p"
    and "key_u k = U_unprep oid c" "objH_Lookup s oid = Some p"
  shows "key_cap s k = NoCap"
  using assms objH_Lookup_SomeD [OF kern_inv_wf_objs [OF assms(1)] assms(6)] assms(4) [of p]
  by (auto simp: key_cap_def denotes_def)

lemma prep_result_cap:
  assumes "kern_inv s" "\<not> keyBits_IsPrepared (keys s r)" "prep_result s r False s'"
  shows "cap_at s' = cap_at s"
proof -
  from assms(3) obtain p u where d: "denotes s (keys s r) p"
    and s': "s' = upd_key r (keyBits_SetPrepared ((keys s r)\<lparr>key_u := u\<rparr>)) (link_prepared r u s)"
    by (auto simp: prep_result_def)
  have inv': "kern_inv s'" using assms by (rule prep_result_inv)
  have w: "same_world s s'" unfolding s' by (auto intro!: same_worldI)
  from prep_result_denotes [OF kern_inv_wf_procs [OF assms(1)] assms(3)] obtain q
    where q: "denotes s (keys s r) q" "denotes s' (keys s' r) q" by blast
  have "key_cap s' (keys s' r) = key_cap s (keys s r)"
    using key_cap_denotes [OF assms(1) q(1) kern_inv_wf_key [OF assms(1)]]
      key_cap_denotes [OF inv' q(2) kern_inv_wf_key [OF inv']]
    by (simp add: same_world_objects [OF w]) (simp add: s')
  moreover have "cap_at s' r' = cap_at s r'" if "r' \<noteq> r" for r'
    using that by (simp add: s' cap_at_def)
  ultimately show ?thesis by (metis cap_at_def ext)
qed

text \<open>Preparing and validating complete only when the object is in memory.\<close>

lemma CheckObjectType_found:
  "CheckObjectType s oid bt = Some (p, ok) \<Longrightarrow> objH_Lookup s oid = Some p"
  by (auto simp: CheckObjectType_def GetObjectType_def split: option.splits)

lemma CheckProcessKey_found:
  "CheckProcessKey r s = Some x \<Longrightarrow> \<exists>oid c p. key_u (keys s r) = U_unprep oid c \<and> objH_Lookup s oid = Some p"
  "CheckTypeAndAllocCount r bt s = Some x \<Longrightarrow>
    \<exists>oid c p. key_u (keys s r) = U_unprep oid c \<and> objH_Lookup s oid = Some p"
  "DoGetObject r bt s = Some y \<Longrightarrow>
    \<exists>oid c p. key_u (keys s r) = U_unprep oid c \<and> objH_Lookup s oid = Some p"
  by (auto simp: CheckProcessKey_def CheckTypeAndAllocCount_def DoGetObject_def bind_eq_Some_conv
      dest: CheckObjectType_found)

lemma key_DoPrepare_found:
  assumes "keyBits_IsObjectKey (keys s r)"
  shows "key_DoPrepare r s = Some x \<Longrightarrow>
      \<exists>oid c p. key_u (keys s r) = U_unprep oid c \<and> objH_Lookup s oid = Some p"
    and "key_DoValidate r s = Some x \<Longrightarrow>
      \<exists>oid c p. key_u (keys s r) = U_unprep oid c \<and> objH_Lookup s oid = Some p"
  using assms
  by (cases "keyType (keys s r)";
      auto simp: key_DoPrepare_def key_DoValidate_def DoPrepare_process_def DoPrepare_object_def key_kinds
        bind_eq_Some_conv dest: CheckProcessKey_found)+

lemma key_DoPrepare_cap:
  assumes "kern_inv s" "key_DoPrepare r s = Some (v, s')"
  shows "cap_at s' = cap_at s"
proof (cases "keyBits_IsObjectKey (keys s r)")
  case True
  from assms(2) have np: "\<not> keyBits_IsPrepared (keys s r)" by (simp add: key_DoPrepare_def)
  note out = key_DoPrepare_outcome [OF kern_inv_wf_objs [OF assms(1)] True assms(2)]
  show ?thesis
  proof (cases v)
    case True
    from key_DoPrepare_found [OF \<open>keyBits_IsObjectKey (keys s r)\<close>] assms(2) obtain oid c p
      where "key_u (keys s r) = U_unprep oid c" "objH_Lookup s oid = Some p" by blast
    with out True have "cap_at s r = NoCap"
      by (simp add: cap_at_def prepare_outcome_def
          key_cap_rescinded [OF assms(1) \<open>keyBits_IsObjectKey (keys s r)\<close> np])
    with out True show ?thesis by (auto simp: prepare_outcome_def fun_eq_iff)
  next
    case False
    with out show ?thesis by (simp add: prepare_outcome_def prep_result_cap [OF assms(1) np])
  qed
next
  case False
  then have "s' = upd_key r (keyBits_SetPrepared (keys s r)) s" using assms(2)
    by (cases "keyType (keys s r)") (auto simp: key_DoPrepare_def key_kinds)
  moreover have "key_cap s (keyBits_SetPrepared (keys s r)) = key_cap s (keys s r)"
    using False by (simp add: key_cap_def key_kinds)
  ultimately show ?thesis by (auto simp: fun_eq_iff cap_at_def)
qed

lemma key_DoValidate_cap:
  assumes "kern_inv s" "key_DoValidate r s = Some (v, s')"
  shows "cap_at s' = cap_at s"
proof (cases "keyBits_IsObjectKey (keys s r)")
  case True
  from assms(2) have np: "\<not> keyBits_IsPrepared (keys s r)" by (simp add: key_DoValidate_def)
  note out = key_DoValidate_outcome [OF kern_inv_wf_objs [OF assms(1)] True assms(2)]
  show ?thesis
  proof (cases v)
    case True
    from key_DoPrepare_found [OF \<open>keyBits_IsObjectKey (keys s r)\<close>] assms(2) obtain oid c p
      where "key_u (keys s r) = U_unprep oid c" "objH_Lookup s oid = Some p" by blast
    with out True have "cap_at s r = NoCap"
      by (simp add: cap_at_def key_cap_rescinded [OF assms(1) \<open>keyBits_IsObjectKey (keys s r)\<close> np])
    with out True show ?thesis by (auto simp: cap_at_SetToVoid fun_eq_iff)
  next
    case False
    with out show ?thesis by (simp add: prep_result_cap [OF assms(1) np])
  qed
next
  case False
  then have "s' = s" using assms(2)
    by (cases "keyType (keys s r)") (auto simp: key_DoValidate_def key_kinds)
  then show ?thesis by simp
qed

lemma key_NH_Unprepare_cap:
  assumes "kern_inv s" "key_NH_Unprepare r s = Some s'"
  shows "cap_at s' = cap_at s"
proof (cases "keyBits_IsPreparedObjectKey (keys s r)")
  case True
  from assms(2) have nh: "\<not> keyBits_IsHazard (keys s r)" by (simp add: key_NH_Unprepare_def)
  from key_NH_Unprepare_object [OF assms(1) True nh] obtain p s1
    where d: "denotes s (keys s r) p" and base: "objH_GetBaseType (obj_at s p) = base_of (keyType (keys s r))"
    and s1: "s1 = upd_obj p (\<lambda>ob. objH_SetFlags ob (used_for (keys s r))) s"
    and eq: "key_NH_Unprepare r s = Some (upd_key r (keyBits_SetUnprepared
          ((keys s r)\<lparr>key_u := U_unprep (obOid (obj_at s p)) (count_for (keys s r) (obj_at s p))\<rparr>))
          (keyBits_Unchain r s1))"
    by blast
  let ?k = "keyBits_SetUnprepared
    ((keys s r)\<lparr>key_u := U_unprep (obOid (obj_at s p)) (count_for (keys s r) (obj_at s p))\<rparr>)"
  have w: "cap_at s1 = cap_at s" "key_cap s1 ?k = key_cap s ?k"
    by (simp_all add: s1 cap_at_upd_obj key_cap_same_world [OF same_world_upd_obj])
  have "denotes s ?k p" using d base by (auto simp: denotes_def)
  from key_cap_denotes [OF assms(1) this] key_cap_denotes [OF assms(1) d kern_inv_wf_key [OF assms(1)]]
  have "key_cap s ?k = key_cap s (keys s r)" by (simp add: wf_key_def)
  with eq assms(2) w show ?thesis by (auto simp: fun_eq_iff cap_at_def)
next
  case False
  with assms(2) have "s' = s \<or> s' = upd_key r (keyBits_SetUnprepared (keys s r)) s
      \<and> \<not> keyBits_IsObjectKey (keys s r)"
    by (auto simp: key_NH_Unprepare_def keyBits_IsPreparedObjectKey_def split: if_splits)
  moreover have "\<not> keyBits_IsObjectKey (keys s r) \<Longrightarrow>
      key_cap s (keyBits_SetUnprepared (keys s r)) = key_cap s (keys s r)"
    by (simp add: key_cap_def key_kinds)
  ultimately show ?thesis by (auto simp: fun_eq_iff cap_at_def)
qed

section \<open>Derived authority\<close>

text \<open>
  A capability is derived from another if it designates the same object, forbids at least as
  much (permission bits of a key only ever forbid), and differs in its data at most in the guard
  of a memory or node key. No authority is needed for the void key and for numbers. The lax
  form disregards whether a key is opaque.
\<close>

fun is_number :: "cap \<Rightarrow> bool" where
  "is_number (DataCap t _ _ _) = (t = KKT_Number)"
| "is_number _ = False"

definition opaque_mask :: "bool \<Rightarrow> 5 word" where
  "opaque_mask lax = (if lax then capros_Memory_opaque else 0)"

definition forbids :: "bool \<Rightarrow> 5 word \<Rightarrow> 5 word \<Rightarrow> bool" where
  "forbids lax p p' = (p AND NOT p' AND NOT (opaque_mask lax) = 0)"

lemma forbids_bits: "forbids lax p p' = (\<forall>n. bit p n \<longrightarrow> bit p' n \<or> bit (opaque_mask lax) n)"
proof -
  have "bit p n \<Longrightarrow> n < 5" for n using bit_imp_le_length [of p n] by simp
  then show ?thesis by (auto simp: forbids_def bit_eq_iff bit_simps)
qed

lemma forbids_refl [simp]: "forbids lax p p"
  and forbids_trans: "forbids lax p q \<Longrightarrow> forbids lax q r \<Longrightarrow> forbids lax p r"
  by (auto simp: forbids_bits)

fun derives :: "bool \<Rightarrow> cap \<Rightarrow> cap \<Rightarrow> bool" where
  "derives lax (ObjCap t p d oid c) (ObjCap t' p' d' oid' c') =
     (t' = t \<and> oid' = oid \<and> c' = c \<and> forbids lax p p'
      \<and> (d' = d \<or> t \<in> {KKT_Node, KKT_GPT, KKT_Page} \<or> lax \<and> t = KKT_Forwarder))"
| "derives lax (DataCap t p d u) (DataCap t' p' d' u') =
     (t' = t \<and> u' = u \<and> forbids lax p p' \<and> d' = d \<or> t' = KKT_Number)"
| "derives lax a b = (b = NoCap \<or> is_number b)"

lemma derives_NoCap [simp]: "derives lax a NoCap"
  by (cases a) simp_all

lemma derives_number [simp]: "is_number b \<Longrightarrow> derives lax a b"
  by (cases a; cases b) simp_all

lemma derives_refl [simp]: "derives lax a a"
  by (cases a) simp_all

lemma derives_trans:
  assumes "derives lax a b" "derives lax b c"
  shows "derives lax a c"
proof (cases c)
  case (ObjCap t p d oid n)
  with assms show ?thesis by (cases a; cases b) (auto intro: forbids_trans)
next
  case (DataCap t p d u)
  with assms show ?thesis by (cases a; cases b) (auto intro: forbids_trans)
qed simp

lemma restricts_GetObjectPtr:
  assumes "keyType k' = keyType k" "key_u k' = key_u k" "keyFlags k' = keyFlags k"
  shows "key_GetObjectPtr s k' = key_GetObjectPtr s k" "keyBits_IsPrepared k' = keyBits_IsPrepared k"
    "keyBits_IsObjectKey k' = keyBits_IsObjectKey k" "count_for k' = count_for k"
  using assms
  by (simp_all add: key_GetObjectPtr_def keyBits_IsPreparedObjectKey_def key_kinds key_flag_bits
      key_pContext_def key_pObj_def count_for_def fun_eq_iff)

lemma derives_restricted:
  assumes "keyType k' = keyType k" "key_u k' = key_u k" "keyFlags k' = keyFlags k"
    and "forbids lax (keyPerms k) (keyPerms k')"
    and "keyData k' = keyData k \<or> keyType k \<in> {KKT_Node, KKT_GPT, KKT_Page, KKT_Void} \<or> lax \<and> keyType k = KKT_Forwarder"
  shows "derives lax (key_cap s k) (key_cap s k')"
proof (cases "keyBits_IsObjectKey k")
  case True
  then have "keyType k \<noteq> KKT_Void" by (auto simp: key_kinds)
  with True assms(4,5) show ?thesis
    by (simp add: key_cap_def restricts_GetObjectPtr [OF assms(1-3)] assms(1,2)
        split: option.split key_u.split)
next
  case False
  then have "keyType k \<notin> {KKT_Node, KKT_GPT, KKT_Page, KKT_Forwarder}" by (auto simp: key_kinds)
  with False assms(4,5) show ?thesis
    by (auto simp: key_cap_def restricts_GetObjectPtr [OF assms(1-3)] assms(1,2))
qed

lemma forbidsI: "p AND NOT p' = 0 \<Longrightarrow> forbids lax p p'"
  by (simp add: forbids_def flip: and.assoc)

lemma derives_restricts: "restricts k k' \<Longrightarrow> derives lax (key_cap s k) (key_cap s k')"
  by (rule derives_restricted) (auto simp: restricts_def intro: forbidsI)

lemma derives_restricts_lax: "restricts_lax k k' \<Longrightarrow> derives True (key_cap s k) (key_cap s k')"
  by (rule derives_restricted) (auto simp: restricts_lax_def forbids_def opaque_mask_def)

section \<open>Confinement\<close>

text \<open>Every key of the state carries authority derived from a key of the initial state.\<close>

definition confined :: "bool \<Rightarrow> kern \<Rightarrow> kern \<Rightarrow> bool" where
  "confined lax s0 s = (kern_inv s \<and> (\<forall>r. \<exists>r0. derives lax (cap_at s0 r0) (cap_at s r)))"

lemma confined_refl: "kern_inv s \<Longrightarrow> confined lax s s"
  by (auto simp: confined_def intro: derives_refl)

lemma confined_trans: "confined lax s0 s1 \<Longrightarrow> confined lax s1 s2 \<Longrightarrow> confined lax s0 s2"
  unfolding confined_def by (meson derives_trans)

text \<open>A step that changes one key to a derived one keeps confinement.\<close>

lemma confined_step:
  assumes "confined lax s0 s" "kern_inv s'"
    and "\<And>r. \<exists>r'. derives lax (cap_at s r') (cap_at s' r)"
  shows "confined lax s0 s'"
  using assms unfolding confined_def by (meson derives_trans)

lemma confined_same: "confined lax s0 s \<Longrightarrow> kern_inv s' \<Longrightarrow> cap_at s' = cap_at s \<Longrightarrow> confined lax s0 s'"
  by (simp add: confined_def)

lemma confined_assign:
  assumes "confined lax s0 s" "kern_inv s'" "cap_at s' = (cap_at s)(r := c)"
    and "derives lax (cap_at s r') c"
  shows "confined lax s0 s'"
proof (rule confined_step [OF assms(1,2)])
  fix q
  from assms(3,4) show "\<exists>q'. derives lax (cap_at s q') (cap_at s' q)"
    by (intro exI [of _ "if q = r then r' else q"]) simp
qed

lemma cap_at_upd_key_fun: "cap_at (upd_key r k s) = (cap_at s)(r := key_cap s k)"
  by (simp add: fun_eq_iff)

lemma confined_inv: "confined lax s0 s \<Longrightarrow> kern_inv s"
  by (simp add: confined_def)

interpretation conf: key_closed "confined lax s0" for lax s0
proof
  fix s r u
  assume s: "confined lax s0 s" and "keyType (keys s r) = KKT_Number"
  then have "kern_inv (upd_key r ((keys s r)\<lparr>key_u := u\<rparr>) s)"
    and "is_number (key_cap s ((keys s r)\<lparr>key_u := u\<rparr>))"
    by (simp_all add: confined_inv inv.P_number key_cap_def key_kinds)
  then show "confined lax s0 (upd_key r ((keys s r)\<lparr>key_u := u\<rparr>) s)"
    by (intro confined_assign [OF s _ cap_at_upd_key_fun]) simp_all
next
  fix s r k
  assume s: "confined lax s0 s" and k: "restricts (keys s r) k"
  show "confined lax s0 (upd_key r k s)"
    using inv.P_restrict [OF confined_inv [OF s] k] derives_restricts [OF k]
    by (intro confined_assign [OF s _ cap_at_upd_key_fun]) (simp_all add: cap_at_def)
next
  fix s dst src assume s: "confined lax s0 s"
  then show "confined lax s0 (key_NH_Set dst src s)"
    by (intro confined_assign [OF s _ cap_at_Set, where r' = src]) (simp_all add: confined_inv inv.P_Set)
next
  fix s r assume s: "confined lax s0 s"
  then show "confined lax s0 (key_NH_SetToVoid r s)"
    by (intro confined_assign [OF s _ cap_at_SetToVoid]) (simp_all add: confined_inv inv.P_SetToVoid)
next
  fix s r hi mid lo assume s: "confined lax s0 s"
  then show "confined lax s0 (key_SetToNumber r hi mid lo s)"
    by (intro confined_assign [OF s _ cap_at_SetToNumber]) (simp_all add: confined_inv inv.P_SetToNumber)
next
  fix s r v s' assume s: "confined lax s0 s" "key_DoPrepare r s = Some (v, s')"
  show "confined lax s0 s'"
    by (rule confined_same [OF s(1) key_DoPrepare_inv key_DoPrepare_cap])
      (rule confined_inv [OF s(1)] s(2))+
next
  fix s r v s' assume s: "confined lax s0 s" "key_DoValidate r s = Some (v, s')"
  show "confined lax s0 s'"
    by (rule confined_same [OF s(1) key_DoValidate_inv key_DoValidate_cap])
      (rule confined_inv [OF s(1)] s(2))+
next
  fix s p g assume s: "confined lax s0 s" "same_ident (obj_at s p) (g (obj_at s p))"
  show "confined lax s0 (upd_obj p g s)"
    by (rule confined_same [OF s(1) kern_inv_upd_obj cap_at_upd_obj])
      (rule confined_inv [OF s(1)] s(2))+
next
  fix s r assume s: "confined lax s0 s"
  show "confined lax s0 (upd_key r (unhazarded (keys s r)) s)"
    by (rule confined_same [OF s kern_inv_unhazarded [OF confined_inv [OF s]]])
      (simp add: cap_at_upd_key_fun fun_eq_iff cap_at_def)
qed (simp_all add: confined_def)

interpretation conf: key_closed_lax "confined True s0" for s0
proof
  fix s r k
  assume s: "confined True s0 s" and k: "restricts_lax (keys s r) k"
  show "confined True s0 (upd_key r k s)"
    using inv.P_lax [OF confined_inv [OF s] k] derives_restricts_lax [OF k]
    by (intro confined_assign [OF s _ cap_at_upd_key_fun]) (simp_all add: cap_at_def)
qed

end
