(* ===== verification/Memory_Keys.thy ===== *)
theory Memory_Keys
  imports Node_Key_Props Cap_Abs
begin

text \<open>
  Keys to memory objects: the operations all memory keys share and those of GPT keys
  (sys/key/pk_GPTKey.c), and page keys (sys/key/pk_PageKey.c). The mapping tables built from GPTs
  are not modelled: invalidating them is clearing the hazards of the slots.
\<close>

section \<open>Memory keys\<close>

definition capros_GPT_nSlots :: nat where "capros_GPT_nSlots = 32"
definition capros_GPT_keeperSlot :: nat where "capros_GPT_keeperSlot = 31"
definition capros_GPT_backgroundSlot :: nat where "capros_GPT_backgroundSlot = 30"
definition capros_GPT_windowBaseSlot :: nat where "capros_GPT_windowBaseSlot = 255"
definition GPT_L2V_MASK :: u8 where "GPT_L2V_MASK = 0x3f"
definition GPT_BACKGROUND :: u8 where "GPT_BACKGROUND = 0x40"
definition GPT_KEEPER :: u8 where "GPT_KEEPER = 0x80"

definition mem_restrictions :: u32 where
  "mem_restrictions = ucast (capros_Memory_opaque OR capros_Memory_weak OR capros_Memory_noCall
     OR capros_Memory_readOnly)"

definition mem_reduce :: "kern \<Rightarrow> outcome option" where
  "mem_reduce s = do {
     s \<leftarrow> COMMIT_POINT s;
     let w = entry_w1 (k_inv s);
     if w AND NOT mem_restrictions \<noteq> 0 then ReturnCode RC_capros_key_RequestError s
     else (case exit_pKey (k_inv s) 0 of
        None \<Rightarrow> ReturnCode RC_OK s
      | Some d \<Rightarrow> do {
          s \<leftarrow> inv_SetExitKey 0 (inv_key (k_inv s)) s;
          ReturnCode RC_OK (upd_key d ((keys s d)\<lparr>keyPerms :=
            ucast w OR keyPerms (keys s (inv_key (k_inv s)))\<rparr>) s) }) }"

definition mem_makeGuarded :: "kern \<Rightarrow> outcome option" where
  "mem_makeGuarded s = do {
     s \<leftarrow> COMMIT_POINT s;
     case key_CalcGuard (ucast (entry_w1 (k_inv s))) of
       None \<Rightarrow> ReturnCode RC_capros_Memory_UnrepresentableGuard s
     | Some gd \<Rightarrow>
        (case exit_pKey (k_inv s) 0 of
           None \<Rightarrow> ReturnCode RC_OK s
         | Some d \<Rightarrow> do {
             s \<leftarrow> inv_SetExitKey 0 (inv_key (k_inv s)) s;
             ReturnCode RC_OK (upd_key d (key_SetGuardData (keys s d) gd) s) }) }"

definition MemoryKey :: "kern \<Rightarrow> outcome option" where
  "MemoryKey s =
     (case entry_code (k_inv s) of
        OC_capros_Memory_getRestrictions \<Rightarrow> do {
          s \<leftarrow> COMMIT_POINT s;
          ReturnCode RC_OK (set_exit_w1 (ucast (keyPerms (keys s (inv_key (k_inv s))))) s) }
      | OC_capros_Memory_reduce \<Rightarrow> mem_reduce s
      | OC_capros_Memory_makeGuarded \<Rightarrow> mem_makeGuarded s
      | OC_capros_Memory_getGuard \<Rightarrow> do {
          s \<leftarrow> COMMIT_POINT s;
          ReturnCode RC_OK (set_exit_w1 (ucast (key_GetGuard (keys s (inv_key (k_inv s))))) s) }
      | _ \<Rightarrow> do {
          s \<leftarrow> COMMIT_POINT s;
          ReturnCode RC_capros_key_UnknownRequest s })"

section \<open>GPT keys\<close>

definition InvalidateMaps :: "obj_ptr \<Rightarrow> kern \<Rightarrow> kern option" where
  "InvalidateMaps theGPT s =
     (if obType (obj_at s theGPT) = ot_NtSegment then node_ClearAllHazards theGPT s else Some s)"

text \<open>The operations an opaque key is refused end in \<open>gk_error\<close>.\<close>

definition gk_error :: "kern \<Rightarrow> outcome option" where
  "gk_error s = do { s \<leftarrow> COMMIT_POINT s; ReturnCode RC_capros_key_RequestError s }"

definition gk_getL2v :: "obj_ptr \<Rightarrow> kern \<Rightarrow> outcome option" where
  "gk_getL2v theGPT s = do {
     s \<leftarrow> COMMIT_POINT s;
     ReturnCode RC_OK (set_exit_w1 (ucast (node_GetL2vField (obj_at s theGPT) AND GPT_L2V_MASK)) s) }"

definition gk_setL2v :: "obj_ptr \<Rightarrow> kern \<Rightarrow> outcome option" where
  "gk_setL2v theGPT s = do {
     s \<leftarrow> InvalidateMaps theGPT s;
     s \<leftarrow> COMMIT_POINT s;
     let newL2v = entry_w1 (k_inv s);
     if \<not> (newL2v < 64 \<and> newL2v \<ge> of_nat EROS_PAGE_LGSIZE) then ReturnCode RC_capros_key_RequestError s
     else do {
       let l2vField = node_GetL2vField (obj_at s theGPT);
       let oldL2v = l2vField AND GPT_L2V_MASK;
       ReturnCode RC_OK (upd_obj theGPT (node_SetL2vField (l2vField - oldL2v + ucast newL2v)) s) } }"

definition gk_getSlot :: "obj_ptr \<Rightarrow> kern \<Rightarrow> outcome option" where
  "gk_getSlot theGPT s = do {
     s \<leftarrow> COMMIT_POINT s;
     let slot = unat (entry_w1 (k_inv s));
     if slot \<ge> capros_GPT_nSlots then ReturnCode RC_capros_key_RequestError s
     else do {
       s \<leftarrow> inv_SetExitKey 0 (KSlot theGPT slot) s;
       ReturnCode RC_OK s } }"

definition gk_setSlot :: "obj_ptr \<Rightarrow> kern \<Rightarrow> outcome option" where
  "gk_setSlot theGPT s =
     (let slot = unat (entry_w1 (k_inv s)) in
      if slot \<ge> capros_GPT_nSlots then gk_error s
      else do { s \<leftarrow> node_SetSlot theGPT slot s; tail_ReturnMessage s })"

text \<open>The 64-bit offset of a window is passed as 8 bytes.\<close>

definition le_word64 :: "u8 list \<Rightarrow> u64" where
  "le_word64 bs = foldr (\<lambda>b w. push_bit 8 w OR ucast b) bs 0"

definition window_restrictions :: u32 where
  "window_restrictions = ucast (capros_Memory_weak OR capros_Memory_noCall OR capros_Memory_readOnly)"

definition gk_setWindow :: "obj_ptr \<Rightarrow> kern \<Rightarrow> outcome option" where
  "gk_setWindow theGPT s =
     (let slot = unat (entry_w1 (k_inv s));
          baseSlot = entry_w2 (k_inv s);
          restrictions = entry_w3 (k_inv s);
          len = length (entry_data (k_inv s))
      in if slot \<ge> capros_GPT_nSlots
            \<or> unat baseSlot \<ge> capros_GPT_nSlots \<and> unat baseSlot \<noteq> capros_GPT_windowBaseSlot
            \<or> restrictions AND NOT window_restrictions \<noteq> 0
            \<or> len \<noteq> 8
         then gk_error s
         else
      let offset = le_word64 (inv_CopyIn len s);
          curL2v = unat (node_GetL2vField (obj_at s theGPT) AND GPT_L2V_MASK)
      in if offset AND (push_bit curL2v 1 - 1) \<noteq> 0 then gk_error s
         else do {
           s \<leftarrow> objH_EnsureWritable theGPT s;
           s \<leftarrow> COMMIT_POINT s;
           s \<leftarrow> node_ClearHazard theGPT slot s;
           ReturnCode RC_OK (key_SetToNumber (KSlot theGPT slot) (push_bit 8 restrictions + baseSlot)
             (ucast (drop_bit 32 offset)) (ucast offset) s) })"

definition gk_clone :: "obj_ptr \<Rightarrow> kern \<Rightarrow> outcome option" where
  "gk_clone theGPT s = do {
     s \<leftarrow> key_Prepare (entry_key (k_inv s) 0) s;
     s \<leftarrow> objH_EnsureWritable theGPT s;
     s \<leftarrow> COMMIT_POINT s;
     if keyType (keys s (entry_key (k_inv s) 0)) \<noteq> KKT_GPT then ReturnCode RC_capros_key_RequestError s
     else do {
       s \<leftarrow> NodeClone theGPT (entry_key (k_inv s) 0) s;
       ReturnCode RC_OK s } }"

definition gk_setKeeper :: "obj_ptr \<Rightarrow> kern \<Rightarrow> outcome option" where
  "gk_setKeeper theGPT s = do {
     s \<leftarrow> node_SetSlot theGPT capros_GPT_keeperSlot s;
     tail_ReturnMessage (upd_obj theGPT
       (node_SetL2vField (node_GetL2vField (obj_at s theGPT) OR GPT_KEEPER)) s) }"

definition gk_clearKeeper :: "obj_ptr \<Rightarrow> kern \<Rightarrow> outcome option" where
  "gk_clearKeeper theGPT s = do {
     s \<leftarrow> COMMIT_POINT s;
     ReturnCode RC_OK (upd_obj theGPT
       (node_SetL2vField (node_GetL2vField (obj_at s theGPT) AND NOT GPT_KEEPER)) s) }"

definition gk_setBackground :: "obj_ptr \<Rightarrow> kern \<Rightarrow> outcome option" where
  "gk_setBackground theGPT s = do {
     s \<leftarrow> InvalidateMaps theGPT s;
     s \<leftarrow> node_SetSlot theGPT capros_GPT_backgroundSlot s;
     tail_ReturnMessage (upd_obj theGPT
       (node_SetL2vField (node_GetL2vField (obj_at s theGPT) OR GPT_BACKGROUND)) s) }"

definition gk_clearBackground :: "obj_ptr \<Rightarrow> kern \<Rightarrow> outcome option" where
  "gk_clearBackground theGPT s = do {
     s \<leftarrow> InvalidateMaps theGPT s;
     s \<leftarrow> COMMIT_POINT s;
     ReturnCode RC_OK (upd_obj theGPT
       (node_SetL2vField (node_GetL2vField (obj_at s theGPT) AND NOT GPT_BACKGROUND)) s) }"

text \<open>
  Invoking an opaque key to a GPT with a keeper calls the keeper, with a non-opaque key to the GPT
  as the third key argument.
\<close>

definition gk_invoke_keeper :: "obj_ptr \<Rightarrow> kern \<Rightarrow> outcome option" where
  "gk_invoke_keeper theGPT s = do {
     let s = key_NH_Set KScratch (inv_key (k_inv s)) s;
     let k = keys s KScratch;
     let s = upd_key KScratch (k\<lparr>keyPerms := keyPerms k AND NOT capros_Memory_opaque\<rparr>) s;
     let s = upd_inv (\<lambda>i. i\<lparr>entry_key := (entry_key i)(2 := KScratch),
               inv_flags := inv_flags i OR INV_SCRATCHKEY\<rparr>) s;
     inv_InvokeGateOrVoid (KSlot theGPT capros_GPT_keeperSlot) s }"

definition gk_dispatch :: "bool \<Rightarrow> obj_ptr \<Rightarrow> kern \<Rightarrow> outcome option" where
  "gk_dispatch opaque theGPT s =
     (case entry_code (k_inv s) of
        OC_capros_GPT_getL2v \<Rightarrow> if opaque then gk_error s else gk_getL2v theGPT s
      | OC_capros_GPT_setL2v \<Rightarrow> if opaque then gk_error s else gk_setL2v theGPT s
      | OC_capros_GPT_getSlot \<Rightarrow> if opaque then gk_error s else gk_getSlot theGPT s
      | OC_capros_GPT_setSlot \<Rightarrow> if opaque then gk_error s else gk_setSlot theGPT s
      | OC_capros_GPT_setWindow \<Rightarrow> if opaque then gk_error s else gk_setWindow theGPT s
      | OC_capros_GPT_clone \<Rightarrow> if opaque then gk_error s else gk_clone theGPT s
      | OC_capros_key_getType \<Rightarrow> do {
          s \<leftarrow> COMMIT_POINT s;
          ReturnCode RC_OK (set_exit_w1 (k_akt s KKT_GPT) s) }
      | OC_capros_GPT_setKeeper \<Rightarrow> if opaque then gk_error s else gk_setKeeper theGPT s
      | OC_capros_GPT_clearKeeper \<Rightarrow> if opaque then gk_error s else gk_clearKeeper theGPT s
      | OC_capros_GPT_setBackground \<Rightarrow> if opaque then gk_error s else gk_setBackground theGPT s
      | OC_capros_GPT_clearBackground \<Rightarrow> if opaque then gk_error s else gk_clearBackground theGPT s
      | _ \<Rightarrow> MemoryKey s)"

definition GPTKey :: "kern \<Rightarrow> outcome option" where
  "GPTKey s = do {
     let key = inv_key (k_inv s);
     (voided, s) \<leftarrow> key_PrepareForInv key s;
     if voided then VoidKey s
     else do {
       theGPT \<leftarrow> key_GetObjectPtr s (keys s key);
       let opaque = (keyPerms (keys s key) AND capros_Memory_opaque \<noteq> 0);
       if opaque \<and> node_GetL2vField (obj_at s theGPT) AND GPT_KEEPER \<noteq> 0
          \<and> \<not> keyBits_IsReadOnly (keys s key) \<and> \<not> keyBits_IsNoCall (keys s key)
          \<and> \<not> keyBits_IsWeak (keys s key)
       then gk_invoke_keeper theGPT s
       else do {
         s \<leftarrow> inv_GetReturnee s;
         gk_dispatch opaque theGPT s } } }"

section \<open>Page keys\<close>

definition FIRST_PERSISTENT_OID :: OID where "FIRST_PERSISTENT_OID = 0x0100000000000000"

definition OIDIsPersistent :: "OID \<Rightarrow> bool" where
  "OIDIsPersistent oid = (oid \<ge> FIRST_PERSISTENT_OID)"

text \<open>
  Zeroing a page: the wait for a page that is being cleaned is not modelled. A key whose page is
  not in memory is not prepared by validating it; a persistent one is then zeroed in the log
  directory, where the model stops.
\<close>

definition pgk_zero :: "kern \<Rightarrow> outcome option" where
  "pgk_zero s = do {
     let key = inv_key (k_inv s);
     (voided, s) \<leftarrow> key_ValidateForInv key s;
     if voided then VoidKey s
     else if keyBits_IsReadOnly (keys s key)
     then do { s \<leftarrow> COMMIT_POINT s; ReturnCode RC_capros_key_NoAccess s }
     else if keyBits_IsPrepared (keys s key) then do {
       pageH \<leftarrow> key_GetObjectPtr s (keys s key);
       s \<leftarrow> objH_EnsureWritable pageH s;
       s \<leftarrow> COMMIT_POINT s;
       ReturnCode RC_OK (upd_obj pageH (\<lambda>ob. ob\<lparr>pageData := replicate EROS_PAGE_SIZE 0\<rparr>) s) }
     else do {
       (oid, cnt) \<leftarrow> key_unprep (keys s key);
       assert_that (\<not> OIDIsPersistent oid);
       s \<leftarrow> COMMIT_POINT s;
       ReturnCode RC_OK s } }"

definition pgk_clone :: "kern \<Rightarrow> outcome option" where
  "pgk_clone s = do {
     let key = inv_key (k_inv s);
     (voided, s) \<leftarrow> key_PrepareForInv key s;
     if voided then VoidKey s
     else do {
       pageH \<leftarrow> key_GetObjectPtr s (keys s key);
       if keyBits_IsReadOnly (keys s key)
       then do { s \<leftarrow> COMMIT_POINT s; ReturnCode RC_capros_key_NoAccess s }
       else do {
         s \<leftarrow> key_Prepare (entry_key (k_inv s) 0) s;
         if \<not> keyBits_IsType (keys s (entry_key (k_inv s) 0)) KKT_Page then gk_error s
         else do {
           s \<leftarrow> objH_EnsureWritable pageH s;
           assert_that (keyBits_IsPrepared (keys s key));
           s \<leftarrow> COMMIT_POINT s;
           sourcePage \<leftarrow> key_GetObjectPtr s (keys s (entry_key (k_inv s) 0));
           ReturnCode RC_OK (upd_obj pageH
             (\<lambda>ob. ob\<lparr>pageData := pageData (obj_at s sourcePage)\<rparr>) s) } } } }"

text \<open>
  The page headers of a memory region are consecutive. The walk to the n-th page of a block stops
  at the end of the region (\<^const>\<open>pmiEnd\<close>) or of the table of headers, and at a page that is not a
  secondary page.
\<close>

fun nth_page :: "kern \<Rightarrow> nat \<Rightarrow> obj_ptr \<Rightarrow> obj_ptr option" where
  "nth_page s 0 pageH = Some pageH"
| "nth_page s (Suc ordinal) pageH =
     (if Suc pageH \<ge> min (pmiEnd s pageH) (nObjs s)
         \<or> obType (obj_at s (Suc pageH)) \<noteq> ot_PtSecondary then None
      else nth_page s ordinal (Suc pageH))"

definition pgk_getNthPage :: "kern \<Rightarrow> outcome option" where
  "pgk_getNthPage s = do {
     let key = inv_key (k_inv s);
     (voided, s) \<leftarrow> key_PrepareForInv key s;
     if voided then VoidKey s
     else do {
       pageH \<leftarrow> key_GetObjectPtr s (keys s key);
       if obType (obj_at s pageH) \<noteq> ot_PtDevBlock \<and> obType (obj_at s pageH) \<noteq> ot_PtDMABlock
       then gk_error s
       else (case nth_page s (unat (entry_w1 (k_inv s))) pageH of
          None \<Rightarrow> gk_error s
        | Some pageH \<Rightarrow> do {
            s \<leftarrow> COMMIT_POINT s;
            s \<leftarrow> (case exit_pKey (k_inv s) 0 of
                    None \<Rightarrow> Some s
                  | Some d \<Rightarrow> key_SetToObj d pageH KKT_Page (keyPerms (keys s key)) 0 (keyBits_Unchain d s));
            ReturnCode RC_OK s }) } }"

definition pgk_dispatch :: "kern \<Rightarrow> outcome option" where
  "pgk_dispatch s =
     (let key = inv_key (k_inv s) in
      case entry_code (k_inv s) of
        OC_capros_key_getType \<Rightarrow> do {
          (voided, s) \<leftarrow> key_ValidateForInv key s;
          if voided then VoidKey s
          else do {
            s \<leftarrow> COMMIT_POINT s;
            ReturnCode RC_OK (set_exit_w1 (k_akt s KKT_Page) s) } }
      | OC_capros_Page_zero \<Rightarrow> pgk_zero s
      | OC_capros_Page_clone \<Rightarrow> pgk_clone s
      | OC_capros_Page_getNthPage \<Rightarrow> pgk_getNthPage s
      | _ \<Rightarrow> do {
          (voided, s) \<leftarrow> key_PrepareForInv key s;
          if voided then VoidKey s else MemoryKey s })"

definition PageKey :: "kern \<Rightarrow> outcome option" where
  "PageKey s = do { s \<leftarrow> inv_GetReturnee s; pgk_dispatch s }"

end
