(* ===== verification/Memory_Keys_Props.thy ===== *)
theory Memory_Keys_Props
  imports Memory_Keys
begin

text \<open>The handlers of memory keys keep what the primitive operations keep.\<close>

lemma and_nots [simp]:
  "(a :: 'a::len word) AND NOT b AND NOT a = 0" "(a :: 'a::len word) AND (NOT a OR b) AND NOT b = 0"
  by (auto simp: bit_eq_iff bit_simps)

lemma same_ident_pageData [simp]: "same_ident ob (ob\<lparr>pageData := d\<rparr>)"
  by (simp add: same_ident_def objH_GetFlags_def)

lemmas gk_defs = gk_error_def gk_getL2v_def gk_setL2v_def gk_getSlot_def gk_setSlot_def
  gk_setWindow_def gk_clone_def gk_setKeeper_def gk_clearKeeper_def gk_setBackground_def
  gk_clearBackground_def

definition memory_type :: "kern \<Rightarrow> bool" where
  "memory_type s = (keyType (keys s (inv_key (k_inv s))) \<in> {KKT_Node, KKT_GPT, KKT_Page, KKT_Void})"

context key_closed
begin

lemma ClearHazards_from_post: "P s \<Longrightarrow> ipost P (node_ClearHazards_from p ks s)"
  by (induction ks arbitrary: s) (auto intro!: kpost)

lemma ClearAllHazards_post [kpost]: "P s \<Longrightarrow> ipost P (node_ClearAllHazards p s)"
  unfolding node_ClearAllHazards_def by (rule ClearHazards_from_post)

lemma InvalidateMaps_post [kpost]: "P s \<Longrightarrow> ipost P (InvalidateMaps p s)"
  unfolding InvalidateMaps_def by (auto intro!: kpost)

lemma reduced_post:
  assumes "P s" "exit_pKey (k_inv s) 0 = Some d"
  shows "opost P (do { s \<leftarrow> inv_SetExitKey 0 k s;
    ReturnCode RC_OK (upd_key d ((keys s d)\<lparr>keyPerms := w OR keyPerms (keys s k)\<rparr>) s) })"
proof (rule post_bind_eq(1))
  fix s1 assume "inv_SetExitKey 0 k s = Some s1"
  then have s1: "s1 = key_NH_Set d k s" using assms(2) by (simp add: inv_SetExitKey_Some)
  then have "restricts (keys s1 d) ((keys s1 d)\<lparr>keyPerms := w OR keyPerms (keys s1 k)\<rparr>)"
    by (auto simp: restricts_def bit_eq_iff bit_simps)
  with P_Set [OF assms(1), of d k] s1
  show "opost P (ReturnCode RC_OK (upd_key d ((keys s1 d)\<lparr>keyPerms := w OR keyPerms (keys s1 k)\<rparr>) s1))"
    by (intro post_invocation P_restrict) simp_all
qed

lemma SetExitKey_inv: "inv_SetExitKey n k s = Some s' \<Longrightarrow> k_inv s' = k_inv s"
  by (auto simp: inv_SetExitKey_Some split: option.splits)

lemma mem_reduce_post [kpost]: "P s \<Longrightarrow> opost P (mem_reduce s)"
  unfolding mem_reduce_def Let_def
proof (rule post_bind(2), erule post_invocation, rule post_if(2), erule post_invocation,
    rule post_option(2), erule post_invocation)
  fix s s' d assume s: "P s'" "exit_pKey (k_inv s') 0 = Some d"
  have "(do { sa \<leftarrow> inv_SetExitKey 0 (inv_key (k_inv s')) s'; ReturnCode RC_OK (upd_key d ((keys sa d)\<lparr>keyPerms :=
            ucast (entry_w1 (k_inv s')) OR keyPerms (keys sa (inv_key (k_inv sa)))\<rparr>) sa) })
      = (do { sa \<leftarrow> inv_SetExitKey 0 (inv_key (k_inv s')) s'; ReturnCode RC_OK (upd_key d ((keys sa d)\<lparr>keyPerms :=
            ucast (entry_w1 (k_inv s')) OR keyPerms (keys sa (inv_key (k_inv s')))\<rparr>) sa) })"
    by (rule Option.bind_cong) (auto dest: SetExitKey_inv)
  with reduced_post [OF s, of "inv_key (k_inv s')" "ucast (entry_w1 (k_inv s'))"]
  show "opost P (do { sa \<leftarrow> inv_SetExitKey 0 (inv_key (k_inv s')) s'; ReturnCode RC_OK (upd_key d ((keys sa d)\<lparr>keyPerms :=
            ucast (entry_w1 (k_inv s')) OR keyPerms (keys sa (inv_key (k_inv sa)))\<rparr>) sa) })"
    by simp
qed

lemma mem_makeGuarded_post [kpost]:
  assumes "P s" "memory_type s"
  shows "opost P (mem_makeGuarded s)"
  unfolding mem_makeGuarded_def
proof (rule post_bind_eq(1))
  fix s1 assume s1: "COMMIT_POINT s = Some s1"
  then have "P s1" using post_invocation(1) [OF assms(1)] by (simp add: ipost_def)
  moreover have "memory_type s1" using s1 assms(2) by (auto simp: COMMIT_POINT_Some memory_type_def)
  ultimately show "opost P (case key_CalcGuard (ucast (entry_w1 (k_inv s1))) of
       None \<Rightarrow> ReturnCode RC_capros_Memory_UnrepresentableGuard s1
     | Some gd \<Rightarrow>
        (case exit_pKey (k_inv s1) 0 of
           None \<Rightarrow> ReturnCode RC_OK s1
         | Some d \<Rightarrow> do {
             s \<leftarrow> inv_SetExitKey 0 (inv_key (k_inv s1)) s1;
             ReturnCode RC_OK (upd_key d (key_SetGuardData (keys s d) gd) s) }))"
    by (intro post_option(2) post_invocation guarded_post) (simp_all add: memory_type_def)
qed

lemma MemoryKey_post [kpost]: "P s \<Longrightarrow> memory_type s \<Longrightarrow> opost P (MemoryKey s)"
  unfolding MemoryKey_def by (cases "entry_code (k_inv s)") (auto intro!: kpost)

lemma gk_post [kpost]:
  assumes "P s"
  shows "opost P (gk_error s)" "opost P (gk_getL2v p s)" "opost P (gk_setL2v p s)"
    "opost P (gk_getSlot p s)" "opost P (gk_setSlot p s)" "opost P (gk_setWindow p s)"
    "opost P (gk_clone p s)" "opost P (gk_setKeeper p s)" "opost P (gk_clearKeeper p s)"
    "opost P (gk_setBackground p s)" "opost P (gk_clearBackground p s)"
  using assms unfolding gk_defs Let_def by (auto intro!: kpost P_state)

lemma gk_dispatch_post [kpost]: "P s \<Longrightarrow> memory_type s \<Longrightarrow> opost P (gk_dispatch oq p s)"
  unfolding gk_dispatch_def by (cases "entry_code (k_inv s)") (auto intro!: kpost)

lemma validate_post:
  assumes "P s" "\<And>s'. P s' \<Longrightarrow> opost P (f s')"
  shows "opost P (do { (voided, s') \<leftarrow> key_ValidateForInv k s; if voided then VoidKey s' else f s' })"
  using assms by (auto intro!: kpost)

lemma pgk_zero_post [kpost]: "P s \<Longrightarrow> opost P (pgk_zero s)"
  unfolding pgk_zero_def Let_def
  by (rule validate_post) (auto intro!: kpost P_state)

lemma pgk_clone_post [kpost]: "P s \<Longrightarrow> opost P (pgk_clone s)"
  unfolding pgk_clone_def Let_def by (auto intro!: kpost P_state)

lemma pgk_dispatch_post:
  assumes "P s" "invokes t s" "t \<in> {KKT_Page, KKT_Void}" "entry_code (k_inv s) \<noteq> OC_capros_Page_getNthPage"
  shows "opost P (pgk_dispatch s)"
proof -
  have mem: "opost P (do { (voided, s') \<leftarrow> key_PrepareForInv (inv_key (k_inv s)) s;
           if voided then VoidKey s' else MemoryKey s' })"
    using assms(3) by (intro post_prepare_invoked [OF assms(1,2)])
      (auto simp: invokes_def memory_type_def intro!: kpost)
  show ?thesis
    unfolding pgk_dispatch_def Let_def
    using assms mem by (cases "entry_code (k_inv s)") (auto intro!: kpost)
qed

end

lemma GetReturnee_page:
  assumes "wf_objs s" "invokes KKT_Page s" "inv_GetReturnee s = Some s'"
  shows "\<exists>t \<in> {KKT_Page, KKT_Void}. invokes t s'" "entry_code (k_inv s') = entry_code (k_inv s)"
  using GetReturnee_keys(1) [OF assms(1,3)] GetReturnee_keys(5) [OF assms(1,3), of "inv_key (k_inv s)"] assms(2)
  by (auto simp: invokes_def same_request_def)

context key_closed
begin

lemma PageKey_post:
  assumes "P s" "invokes KKT_Page s" "entry_code (k_inv s) \<noteq> OC_capros_Page_getNthPage"
  shows "opost P (PageKey s)"
  unfolding PageKey_def
proof (rule post_bind_eq(1))
  fix s' assume s': "inv_GetReturnee s = Some s'"
  note G = GetReturnee_page [OF kern_inv_wf_objs [OF P_inv [OF assms(1)]] assms(2) s']
  have "P s'" using post_returnee(1) [OF assms(1)] s' by (simp add: ipost_def)
  with G assms(3) show "opost P (pgk_dispatch s')" by (auto intro: pgk_dispatch_post)
qed

end

context key_closed_lax
begin

lemma gk_invoke_keeper_post [kpost]:
  assumes "P s"
  shows "opost P (gk_invoke_keeper p s)"
proof -
  have lax: "restricts_lax k (k\<lparr>keyPerms := p\<rparr>)"
    if "keyPerms k AND NOT p AND NOT capros_Memory_opaque = 0" for k p
    using that by (simp add: restricts_lax_def)
  show ?thesis
    using assms unfolding gk_invoke_keeper_def Let_def by (auto intro!: kpost P_lax P_Set lax)
qed

lemma gk_returnee_post [kpost]:
  assumes "P s" "memory_type s" "keyBits_IsPrepared (keys s (inv_key (k_inv s)))"
  shows "opost P (do { s \<leftarrow> inv_GetReturnee s; gk_dispatch oq p s })"
  using assms(2) by (intro post_returnee_invoked [OF assms(1,3)] gk_dispatch_post) (simp_all add: memory_type_def)

lemma GPTKey_post:
  assumes "P s" "invokes KKT_GPT s"
  shows "opost P (GPTKey s)"
  unfolding GPTKey_def Let_def
  by (rule post_prepare_invoked [OF assms])
    (auto simp: invokes_def memory_type_def intro!: gk_returnee_post gk_invoke_keeper_post post_if post_bind_ptr)

end

section \<open>Keys to the pages of a block\<close>

lemma nth_page_obj:
  assumes "nth_page s n p = Some q" "is_obj s p" "objH_GetBaseType (obj_at s p) = otPage"
  shows "is_obj s q \<and> objH_GetBaseType (obj_at s q) = otPage"
  using assms
proof (induction s n p rule: nth_page.induct)
  case (2 s n p)
  then have next_page: "Suc p < nObjs s" "obType (obj_at s (Suc p)) = ot_PtSecondary"
    "nth_page s n (Suc p) = Some q"
    by (auto simp: not_le split: if_splits)
  then have "is_obj s (Suc p)" "objH_GetBaseType (obj_at s (Suc p)) = otPage"
    by (simp_all add: is_obj_def objH_GetBaseType_def)
  with 2 next_page show ?case by (auto split: if_splits)
qed simp

lemma GetObjectPtr_obj:
  assumes "kern_inv s" "key_GetObjectPtr s (keys s r) = Some p"
  shows "is_obj s p"
    and "\<not> keyBits_IsProcessType (keys s r) \<Longrightarrow> objH_GetBaseType (obj_at s p) = base_of (keyType (keys s r))"
  using kern_inv_wf_key [OF assms(1), of r] assms(2)
  by (auto simp: wf_key_def key_GetObjectPtr_Some keyBits_IsPreparedObjectKey_def split: if_splits)

lemma is_obj_committed [simp]:
  "is_obj (s\<lparr>InvocationCommitted := b\<rparr>) p = is_obj s p" "is_obj (s\<lparr>k_sched := x\<rparr>) p = is_obj s p"
  by (simp_all add: is_obj_def)

section \<open>Making keys\<close>

text \<open>
  Some handlers make keys that no capability of the invoker stands for: keys to the pages of a
  block, to the objects of a range and to parts of a range. A range key rescinds objects, too. A
  property of states may be kept by that as well; no resume key is ever made here.
\<close>

locale key_makes = key_closed_lax +
  assumes P_make: "P s \<Longrightarrow> kern_inv s' \<Longrightarrow> same_world s s' \<Longrightarrow> k_sched s' = k_sched s \<Longrightarrow>
      (\<And>r. r \<noteq> d \<Longrightarrow> keys s' r = keys s r) \<Longrightarrow> keyType (keys s' d) \<noteq> KKT_Resume \<Longrightarrow> P s'"
    and P_retype: "P s \<Longrightarrow> obType (obj_at s p) = ot_NtSegment \<Longrightarrow>
      P (upd_obj p (\<lambda>ob. ob\<lparr>obType := ot_NtUnprepared\<rparr>) s)"

text \<open>
  A range key also rescinds objects. What holds afterwards may be weaker, since the counts of the
  object have changed.
\<close>

locale key_rescinds = key_makes P + after: key_makes R for P R :: "kern \<Rightarrow> bool" +
  assumes P_R: "P s \<Longrightarrow> R s"
    and P_Rescind: "P s \<Longrightarrow> clearable s \<Longrightarrow> is_obj s p \<Longrightarrow> allocCount (obj_at s p) + 1 \<noteq> 0 \<Longrightarrow>
      callCount (obj_at s p) + 1 \<noteq> 0 \<Longrightarrow> objH_Rescind p s = Some s' \<Longrightarrow> R s'"

text \<open>The type of a node changes among the types of nodes.\<close>

lemma retype_node_inv:
  assumes "kern_inv s" "obType (obj_at s p) = ot_NtSegment"
  shows "kern_inv (upd_obj p (\<lambda>ob. ob\<lparr>obType := ot_NtUnprepared\<rparr>) s)" (is "kern_inv ?s")
proof -
  have f: "is_obj ?s q = is_obj s q" "objH_GetBaseType (obj_at ?s q) = objH_GetBaseType (obj_at s q)"
    "obOid (obj_at ?s q) = obOid (obj_at s q)" "count_for k (obj_at ?s q) = count_for k (obj_at s q)"
    "objH_GetFlags (obj_at ?s q) w = objH_GetFlags (obj_at s q) w"
    "(obType (obj_at ?s q) = ot_NtProcessRoot) = (obType (obj_at s q) = ot_NtProcessRoot)"
    "prep_context (obj_at ?s q) = prep_context (obj_at s q)" for q k w
    using assms(2)
    by (auto simp: is_obj_def objH_GetBaseType_def obj_at_upd_obj count_for_def objH_GetFlags_def)
  have "wf_objs ?s = wf_objs s" "wf_procs ?s = wf_procs s" "wf_key ?s k = wf_key s k" "cnt_ok ?s k = cnt_ok s k" for k
    by (simp_all add: wf_objs_def wf_procs_def wf_key_def cnt_ok_def f)
  with assms(1) show ?thesis by (simp add: kern_inv_def)
qed

lemma Rescind_inv:
  assumes "kern_inv s" "clearable s" "is_obj s p" "allocCount (obj_at s p) + 1 \<noteq> 0"
    "callCount (obj_at s p) + 1 \<noteq> 0" "objH_Rescind p s = Some s'"
  shows "kern_inv s'"
  using rescinded_inv [OF assms(1) objH_Rescind_result [OF kern_inv_ring [OF assms(1)] assms(2,6)] assms(3-5)] .

interpretation inv: key_makes kern_inv
  by unfold_locales (simp, erule (1) retype_node_inv)

interpretation inv: key_rescinds kern_inv kern_inv
  by unfold_locales (assumption, erule (5) Rescind_inv)

lemma key_SetToObj_frame:
  assumes "key_SetToObj d p t perms dat (keyBits_Unchain d s) = Some s'"
  shows "same_world s s'" "k_sched s' = k_sched s" "r \<noteq> d \<Longrightarrow> keys s' r = keys s r" "keyType (keys s' d) = t"
  using assms by (auto simp: key_SetToObj_def Let_def keyBits_InitType_def link_insertAfter_def)

context key_makes
begin

lemma SetToObj_post:
  assumes "P s" "is_obj s p" "objH_GetBaseType (obj_at s p) = base_of t"
    and "t \<in> {KKT_Node, KKT_Forwarder, KKT_GPT, KKT_Page}"
  shows "ipost P (key_SetToObj d p t perms dat (keyBits_Unchain d s))"
  unfolding ipost_def
proof (intro allI impI)
  fix s' assume s': "key_SetToObj d p t perms dat (keyBits_Unchain d s) = Some s'"
  note F = key_SetToObj_frame [OF s']
  show "P s'"
    by (rule P_make [OF assms(1) key_SetToObj_inv [OF P_inv [OF assms(1)] assms(2-4) s'] F(1,2,3)])
      (use F(4) assms(4) in auto)
qed

lemma pgk_getNthPage_post:
  assumes "P s" "invokes t s" "t \<in> {KKT_Page, KKT_Void}"
  shows "opost P (pgk_getNthPage s)"
  unfolding pgk_getNthPage_def Let_def
proof (rule post_prepare_invoked [OF assms(1,2)], rule post_bind_ptr(2), rule post_if(2), erule gk_post,
    rule post_option(2), erule gk_post, rule post_bind_eq(1), rule post_bind(2))
  fix s' p q s2
  assume s': "P s'" "invokes t s'" "inv_key (k_inv s') = inv_key (k_inv s)"
    and p: "key_GetObjectPtr s' (keys s' (inv_key (k_inv s))) = Some p"
    and q: "nth_page s' (unat (entry_w1 (k_inv s'))) p = Some q"
    and s2: "COMMIT_POINT s' = Some s2"
  note inv' = P_inv [OF s'(1)]
  have "keyType (keys s' (inv_key (k_inv s))) = KKT_Page"
    using s'(2,3) p assms(3)
    by (auto simp: invokes_def key_GetObjectPtr_Some keyBits_IsPreparedObjectKey_def key_kinds)
  then have "is_obj s' q \<and> objH_GetBaseType (obj_at s' q) = otPage"
    using GetObjectPtr_obj [OF inv' p] by (intro nth_page_obj [OF q]) (simp_all add: key_kinds base_of_def)
  then have "is_obj s2 q" "objH_GetBaseType (obj_at s2 q) = otPage"
    using s2 by (auto simp: COMMIT_POINT_Some)
  moreover have "P s2" using post_invocation(1) [OF s'(1)] s2 by (simp add: ipost_def)
  ultimately show "ipost P
      (case exit_pKey (k_inv s2) 0 of
         None \<Rightarrow> Some s2
       | Some d \<Rightarrow> key_SetToObj d q KKT_Page (keyPerms (keys s2 (inv_key (k_inv s)))) 0 (keyBits_Unchain d s2))"
    by (auto intro!: kpost SetToObj_post simp: base_of_def)
qed (auto intro: kpost)

lemma PageKey_makes:
  assumes "P s" "invokes KKT_Page s"
  shows "opost P (PageKey s)"
proof (cases "entry_code (k_inv s) = OC_capros_Page_getNthPage")
  case True
  show ?thesis unfolding PageKey_def
  proof (rule post_bind_eq(1))
    fix s' assume s': "inv_GetReturnee s = Some s'"
    note G = GetReturnee_page [OF kern_inv_wf_objs [OF P_inv [OF assms(1)]] assms(2) s']
    have "P s'" using post_returnee(1) [OF assms(1)] s' by (simp add: ipost_def)
    with G True show "opost P (pgk_dispatch s')" by (auto simp: pgk_dispatch_def intro: pgk_getNthPage_post)
  qed
qed (simp add: PageKey_post assms)

end

section \<open>The contract\<close>

lemma mem_commits [kcommit]:
  "cpost (MemoryKey s)" "cpost (gk_error s)" "cpost (gk_invoke_keeper p s)" "cpost (pgk_zero s)"
  "cpost (pgk_clone s)" "cpost (pgk_getNthPage s)"
  unfolding MemoryKey_def mem_reduce_def mem_makeGuarded_def gk_error_def gk_invoke_keeper_def
    pgk_zero_def pgk_clone_def pgk_getNthPage_def Let_def
  by (cases "entry_code (k_inv s)"; auto intro!: kcommit)+

lemma gk_commits [kcommit]:
  "cpost (gk_getL2v p s)" "cpost (gk_setL2v p s)" "cpost (gk_getSlot p s)" "cpost (gk_setSlot p s)"
  "cpost (gk_setWindow p s)" "cpost (gk_clone p s)" "cpost (gk_setKeeper p s)"
  "cpost (gk_clearKeeper p s)" "cpost (gk_setBackground p s)" "cpost (gk_clearBackground p s)"
  unfolding gk_defs Let_def by (auto intro!: kcommit)

lemma gk_dispatch_commits [kcommit]: "cpost (gk_dispatch oq p s)"
  unfolding gk_dispatch_def by (cases "entry_code (k_inv s)") (auto intro!: kcommit)

lemma GPTKey_commits: "cpost (GPTKey s)"
  unfolding GPTKey_def Let_def by (auto intro!: kcommit)

lemma PageKey_commits: "cpost (PageKey s)"
proof -
  have "cpost (pgk_dispatch s)" for s
    unfolding pgk_dispatch_def Let_def by (cases "entry_code (k_inv s)") (auto intro!: kcommit)
  then show ?thesis unfolding PageKey_def by (auto intro!: kcommit)
qed

interpretation gpt: lax_handler "invokes KKT_GPT" GPTKey
  by unfold_locales (simp_all add: key_closed_lax.GPTKey_post GPTKey_commits)

interpretation page: closed_handler
  "\<lambda>s. invokes KKT_Page s \<and> entry_code (k_inv s) \<noteq> OC_capros_Page_getNthPage" PageKey
  by unfold_locales (simp_all add: key_closed.PageKey_post PageKey_commits)

interpretation page_all: key_handler "invokes KKT_Page" PageKey
  by unfold_locales (simp_all add: inv.PageKey_makes PageKey_commits)

end
