(* ===== verification/Misc_Keys.thy ===== *)
theory Misc_Keys
  imports Memory_Keys_Props
begin

text \<open>
  The keys without memory: number keys, schedule keys, the KeyBits and Discrim keys of the kernel
  (sys/key/pk_NumberKey.c, pk_SchedKey.c, mk_KeyBits.c, mk_Discrim.c), and forwarders
  (sys/key/pk_ForwarderKey.c).
\<close>

section \<open>Numbers and schedules\<close>

text \<open>
  The three words of the union. A prepared object key has a ring link and a pointer there, which
  none of the operations below reads.
\<close>

fun u_words :: "key_u \<Rightarrow> u32 list" where
  "u_words (U_unprep oid c) = [ucast oid, ucast (drop_bit 32 oid), c]"
| "u_words (U_nk a b c) = [a, b, c]"
| "u_words (U_rk oid c) = [ucast oid, ucast (drop_bit 32 oid), c]"
| "u_words (U_ok p) = [0, 0, 0]"
| "u_words (U_gk p) = [0, 0, 0]"

definition nk_value :: "KeyBits \<Rightarrow> nat \<Rightarrow> u32" where
  "nk_value k i = u_words (key_u k) ! i"

definition NumberKey :: "kern \<Rightarrow> outcome option" where
  "NumberKey s = do {
     s \<leftarrow> inv_GetReturnee s;
     s \<leftarrow> COMMIT_POINT s;
     let s = set_exit_code RC_OK s;
     let k = keys s (inv_key (k_inv s));
     case entry_code (k_inv s) of
       OC_capros_Number_get \<Rightarrow>
         tail_ReturnMessage (set_exit_w3 (nk_value k 2) (set_exit_w2 (nk_value k 1) (set_exit_w1 (nk_value k 0) s)))
     | OC_capros_key_getType \<Rightarrow> ReturnCode RC_OK (set_exit_w1 (k_akt s KKT_Number) s)
     | _ \<Rightarrow> ReturnCode RC_capros_key_UnknownRequest s }"

definition SchedKey :: "kern \<Rightarrow> outcome option" where
  "SchedKey s = do {
     s \<leftarrow> inv_GetReturnee s;
     s \<leftarrow> COMMIT_POINT s;
     ReturnCode RC_capros_key_UnknownRequest s }"

section \<open>KeyBits\<close>

text \<open>
  The representation of a key as four little-endian words, and the structure the operation
  returns: the version, a flag with three bytes of padding (left uninitialised by the source,
  zero here), and the words. The local key \<^verbatim>\<open>dupKey\<close> is \<^const>\<open>KTmp\<close>, restored when it goes out of
  scope.
\<close>

definition key_words :: "KeyBits \<Rightarrow> u32 list" where
  "key_words k = u_words (key_u k) @
     [word_of_nat (kkt_num (keyType k)) OR push_bit 8 (ucast (keyFlags k))
      OR push_bit 11 (ucast (keyPerms k)) OR push_bit 16 (ucast (keyData k))]"

definition le_bytes :: "u32 \<Rightarrow> u8 list" where
  "le_bytes w = [ucast w, ucast (drop_bit 8 w), ucast (drop_bit 16 w), ucast (drop_bit 24 w)]"

definition capros_KeyBits_VERSION :: u32 where "capros_KeyBits_VERSION = 1"

definition sizeof_KeyBits_info :: nat where "sizeof_KeyBits_info = 24"

definition kbk_get :: "kern \<Rightarrow> outcome option" where
  "kbk_get s = do {
     s \<leftarrow> proc_SetupExitString (invokee (k_inv s)) sizeof_KeyBits_info s;
     let k = entry_key (k_inv s) 0;
     s \<leftarrow> key_Prepare k s;
     s \<leftarrow> COMMIT_POINT s;
     let tmp = keys s KTmp;
     s \<leftarrow> key_MakeUnpreparedCopy KTmp k s;
     let dupKey = keys s KTmp;
     let s = upd_key KTmp tmp s;
     let kbi = le_bytes capros_KeyBits_VERSION @ [1, 0, 0, 0] @ concat (map le_bytes (key_words dupKey));
     s \<leftarrow> inv_CopyOut kbi s;
     ReturnCode RC_OK s }"

definition KeyBitsKey :: "kern \<Rightarrow> outcome option" where
  "KeyBitsKey s = do {
     s \<leftarrow> inv_GetReturnee s;
     case entry_code (k_inv s) of
        OC_capros_key_getType \<Rightarrow> do {
          s \<leftarrow> COMMIT_POINT s;
          ReturnCode RC_OK (set_exit_w1 (k_akt s KKT_KeyBits) s) }
      | OC_capros_KeyBits_get \<Rightarrow> kbk_get s
      | _ \<Rightarrow> do {
          s \<leftarrow> COMMIT_POINT s;
          ReturnCode RC_capros_key_UnknownRequest s } }"

section \<open>Discrim\<close>

fun discrim_class :: "kkt \<Rightarrow> u32" where
  "discrim_class KKT_Number = 1"
| "discrim_class KKT_Resume = 2"
| "discrim_class KKT_Page = 3"
| "discrim_class KKT_Node = 3"
| "discrim_class KKT_GPT = 3"
| "discrim_class KKT_Sched = 4"
| "discrim_class KKT_Void = 0"
| "discrim_class _ = 255"

definition dk_classify :: "kern \<Rightarrow> outcome option" where
  "dk_classify s = do {
     let k = entry_key (k_inv s) 0;
     s \<leftarrow> key_Prepare k s;
     s \<leftarrow> COMMIT_POINT s;
     tail_ReturnMessage (set_exit_w1 (discrim_class (keyType (keys s k))) (set_exit_code RC_OK s)) }"

text \<open>A discreet key gives no way to send information out.\<close>

definition discreet :: "KeyBits \<Rightarrow> bool" where
  "discreet k =
     (case keyType k of
        KKT_Page \<Rightarrow> keyBits_IsReadOnly k
      | KKT_Node \<Rightarrow> keyBits_IsReadOnly k \<and> keyBits_IsNoCall k \<and> keyBits_IsWeak k
      | KKT_GPT \<Rightarrow> keyBits_IsReadOnly k \<and> keyBits_IsNoCall k \<and> keyBits_IsWeak k
      | KKT_Number \<Rightarrow> True
      | KKT_Discrim \<Rightarrow> True
      | KKT_Void \<Rightarrow> True
      | _ \<Rightarrow> False)"

definition dk_verify :: "kern \<Rightarrow> outcome option" where
  "dk_verify s = do {
     let k = entry_key (k_inv s) 0;
     s \<leftarrow> key_Prepare k s;
     s \<leftarrow> COMMIT_POINT s;
     tail_ReturnMessage (set_exit_w1 (if discreet (keys s k) then 1 else 0) (set_exit_code RC_OK s)) }"

text \<open>
  The comparison of two keys. The source compares the words of the first key with themselves when
  the keys are not object keys.
\<close>

definition same_key :: "KeyBits \<Rightarrow> KeyBits \<Rightarrow> bool" where
  "same_key k0 k1 =
     (keyType k0 = keyType k1
      \<and> (if keyBits_IsObjectKey k0 then key_u k0 = key_u k1
         else nk_value k0 0 = nk_value k0 0 \<and> nk_value k0 1 = nk_value k0 1
            \<and> nk_value k0 2 = nk_value k0 2)
      \<and> keyData k0 = keyData k1)"

definition dk_compare :: "kern \<Rightarrow> outcome option" where
  "dk_compare s = do {
     let k0 = entry_key (k_inv s) 0;
     let k1 = entry_key (k_inv s) 1;
     s \<leftarrow> key_Prepare k0 s;
     s \<leftarrow> key_Prepare k1 s;
     s \<leftarrow> COMMIT_POINT s;
     tail_ReturnMessage (set_exit_w1 (if same_key (keys s k0) (keys s k1) then 1 else 0) (set_exit_code RC_OK s)) }"

definition DiscrimKey :: "kern \<Rightarrow> outcome option" where
  "DiscrimKey s = do {
     s \<leftarrow> inv_GetReturnee s;
     case entry_code (k_inv s) of
        OC_capros_Discrim_classify \<Rightarrow> dk_classify s
      | OC_capros_Discrim_verify \<Rightarrow> dk_verify s
      | OC_capros_Discrim_compare \<Rightarrow> dk_compare s
      | OC_capros_key_getType \<Rightarrow> do {
          s \<leftarrow> COMMIT_POINT s;
          ReturnCode RC_OK (set_exit_w1 (k_akt s KKT_Discrim) s) }
      | _ \<Rightarrow> do {
          s \<leftarrow> COMMIT_POINT s;
          ReturnCode RC_capros_key_UnknownRequest s } }"

section \<open>Forwarders\<close>

definition capros_Forwarder_opaque :: u16 where "capros_Forwarder_opaque = 1"
definition capros_Forwarder_sendCap :: u16 where "capros_Forwarder_sendCap = 2"
definition capros_Forwarder_sendWord :: u16 where "capros_Forwarder_sendWord = 4"
definition capros_Forwarder_maxSlot :: nat where "capros_Forwarder_maxSlot = 1"
definition ForwarderDataSlot :: nat where "ForwarderDataSlot = 30"
definition ForwarderTargetSlot :: nat where "ForwarderTargetSlot = 31"
definition ForwarderBlocked :: u16 where "ForwarderBlocked = 1"

definition KTUNE_NOBSLEEPQ :: nat where "KTUNE_NOBSLEEPQ = 64"

text \<open>The queue of activities that wait for an object; objects share queues.\<close>

definition ObjectStallQueue :: "obj_ptr \<Rightarrow> kern \<Rightarrow> stall_q" where
  "ObjectStallQueue p s = SQ_Obj (unat (obOid (obj_at s p)) mod KTUNE_NOBSLEEPQ)"

definition fwd_pass :: "obj_ptr \<Rightarrow> kern \<Rightarrow> outcome option" where
  "fwd_pass theNode s = do {
     let key = inv_key (k_inv s);
     let dat = keyData (keys s key);
     let s = (if dat AND capros_Forwarder_sendCap \<noteq> 0 then
                let s = key_NH_Set KScratch key s;
                    s = upd_key KScratch ((keys s KScratch)\<lparr>keyType := KKT_Forwarder, keyData := 0\<rparr>) s
                in upd_inv (\<lambda>i. i\<lparr>entry_key := (entry_key i)(2 := KScratch),
                     inv_flags := inv_flags i OR INV_SCRATCHKEY\<rparr>) s
              else s);
     s \<leftarrow> (if dat AND capros_Forwarder_sendWord \<noteq> 0 then do {
              let dataKey = keys s (KSlot theNode ForwarderDataSlot);
              assert_that (keyBits_IsType dataKey KKT_Number);
              Some (upd_inv (entry_w3_update (\<lambda>_. nk_value dataKey 0)) s) }
            else Some s);
     inv_InvokeGateOrVoid (KSlot theNode ForwarderTargetSlot) s }"

text \<open>
  An opaque key: the invocation goes on to the target. A blocked forwarder makes the invoker
  wait; it will try again when it is woken up.
\<close>

definition fwd_invoke :: "obj_ptr \<Rightarrow> kern \<Rightarrow> outcome option" where
  "fwd_invoke theNode s =
     (if nodeData (obj_at s theNode) AND ForwarderBlocked \<noteq> 0 then do {
        s \<leftarrow> on_sched (act_SleepOn (ObjectStallQueue theNode s)) s;
        Some (Slept s) }
      else fwd_pass theNode s)"

definition fwd_getSlot :: "nat \<Rightarrow> obj_ptr \<Rightarrow> kern \<Rightarrow> outcome option" where
  "fwd_getSlot slot theNode s = do {
     s \<leftarrow> COMMIT_POINT s;
     assert_that (\<not> keyBits_IsHazard (keys s (KSlot theNode slot)));
     assert_that (KSlot theNode slot \<noteq> entry_key (k_inv s) 0);
     s \<leftarrow> inv_SetExitKey 0 (KSlot theNode slot) s;
     ReturnCode RC_OK s }"

definition fwd_swapSlot :: "nat \<Rightarrow> obj_ptr \<Rightarrow> kern \<Rightarrow> outcome option" where
  "fwd_swapSlot slot theNode s = do {
     s \<leftarrow> objH_EnsureWritable theNode s;
     s \<leftarrow> COMMIT_POINT s;
     let theKey = KSlot theNode slot;
     assert_that (\<not> keyBits_IsHazard (keys s theKey));
     assert_that (theKey \<noteq> entry_key (k_inv s) 0);
     let s = key_NH_SetToVoid KTmp s;
     let s = key_NH_Set KTmp theKey s;
     let s = key_NH_Set theKey (entry_key (k_inv s) 0) s;
     s \<leftarrow> inv_SetExitKey 0 KTmp s;
     let s = key_NH_SetToVoid KTmp s;
     ReturnCode RC_OK s }"

definition fwd_bad_slot :: "kern \<Rightarrow> bool" where
  "fwd_bad_slot s = (unat (entry_w1 (k_inv s)) > capros_Forwarder_maxSlot)"

definition fwd_getDataWord :: "obj_ptr \<Rightarrow> kern \<Rightarrow> outcome option" where
  "fwd_getDataWord theNode s = do {
     let dataKey = keys s (KSlot theNode ForwarderDataSlot);
     assert_that (keyBits_IsType dataKey KKT_Number);
     s \<leftarrow> COMMIT_POINT s;
     ReturnCode RC_OK (set_exit_w1 (nk_value dataKey 0) s) }"

definition fwd_swapDataWord :: "obj_ptr \<Rightarrow> kern \<Rightarrow> outcome option" where
  "fwd_swapDataWord theNode s = do {
     let r = KSlot theNode ForwarderDataSlot;
     assert_that (keyBits_IsType (keys s r) KKT_Number);
     s \<leftarrow> objH_EnsureWritable theNode s;
     s \<leftarrow> COMMIT_POINT s;
     let dataKey = keys s r;
     let s = set_exit_w1 (nk_value dataKey 0) s;
     let s = upd_key r (dataKey\<lparr>key_u := U_nk (entry_w1 (k_inv s)) (nk_value dataKey 1) (nk_value dataKey 2)\<rparr>) s;
     ReturnCode RC_OK s }"

definition fwd_clearBlocked :: "obj_ptr \<Rightarrow> kern \<Rightarrow> outcome option" where
  "fwd_clearBlocked theNode s = do {
     s \<leftarrow> objH_EnsureWritable theNode s;
     s \<leftarrow> COMMIT_POINT s;
     let s = upd_obj theNode (\<lambda>ob. ob\<lparr>nodeData := nodeData ob AND NOT ForwarderBlocked\<rparr>) s;
     s \<leftarrow> on_sched (sq_WakeAll (ObjectStallQueue theNode s)) s;
     ReturnCode RC_OK s }"

definition fwd_setBlocked :: "obj_ptr \<Rightarrow> kern \<Rightarrow> outcome option" where
  "fwd_setBlocked theNode s = do {
     s \<leftarrow> objH_EnsureWritable theNode s;
     s \<leftarrow> COMMIT_POINT s;
     ReturnCode RC_OK (upd_obj theNode (\<lambda>ob. ob\<lparr>nodeData := nodeData ob OR ForwarderBlocked\<rparr>) s) }"

definition fwd_getOpaqueForwarder :: "kern \<Rightarrow> outcome option" where
  "fwd_getOpaqueForwarder s = do {
     s \<leftarrow> COMMIT_POINT s;
     let w = entry_w1 (k_inv s);
     if w AND NOT (ucast (capros_Forwarder_sendCap OR capros_Forwarder_sendWord)) \<noteq> 0
     then ReturnCode RC_capros_key_RequestError s
     else (case exit_pKey (k_inv s) 0 of
        None \<Rightarrow> ReturnCode RC_OK s
      | Some d \<Rightarrow> do {
          s \<leftarrow> inv_SetExitKey 0 (inv_key (k_inv s)) s;
          ReturnCode RC_OK (upd_key d ((keys s d)\<lparr>keyData := ucast w OR capros_Forwarder_opaque\<rparr>) s) }) }"

definition fwd_dispatch :: "obj_ptr \<Rightarrow> kern \<Rightarrow> outcome option" where
  "fwd_dispatch theNode s =
     (case entry_code (k_inv s) of
        OC_capros_key_getType \<Rightarrow> do {
          s \<leftarrow> COMMIT_POINT s;
          ReturnCode RC_OK (set_exit_w1 (k_akt s KKT_Forwarder) s) }
      | OC_capros_Forwarder_getTarget \<Rightarrow> fwd_getSlot ForwarderTargetSlot theNode s
      | OC_capros_Forwarder_getSlot \<Rightarrow>
          if fwd_bad_slot s then gk_error s else fwd_getSlot (unat (entry_w1 (k_inv s))) theNode s
      | OC_capros_Forwarder_swapTarget \<Rightarrow> fwd_swapSlot ForwarderTargetSlot theNode s
      | OC_capros_Forwarder_swapSlot \<Rightarrow>
          if fwd_bad_slot s then gk_error s else fwd_swapSlot (unat (entry_w1 (k_inv s))) theNode s
      | OC_capros_Forwarder_getDataWord \<Rightarrow> fwd_getDataWord theNode s
      | OC_capros_Forwarder_swapDataWord \<Rightarrow> fwd_swapDataWord theNode s
      | OC_capros_Forwarder_clearBlocked \<Rightarrow> fwd_clearBlocked theNode s
      | OC_capros_Forwarder_setBlocked \<Rightarrow> fwd_setBlocked theNode s
      | OC_capros_Forwarder_getOpaqueForwarder \<Rightarrow> fwd_getOpaqueForwarder s
      | _ \<Rightarrow> do {
          s \<leftarrow> COMMIT_POINT s;
          ReturnCode RC_capros_key_UnknownRequest s })"

definition ForwarderKey :: "kern \<Rightarrow> outcome option" where
  "ForwarderKey s = do {
     let key = inv_key (k_inv s);
     (voided, s) \<leftarrow> key_PrepareForInv key s;
     if voided then VoidKey s
     else do {
       theNode \<leftarrow> key_GetObjectPtr s (keys s key);
       if keyData (keys s key) AND capros_Forwarder_opaque \<noteq> 0 then fwd_invoke theNode s
       else do {
         s \<leftarrow> inv_GetReturnee s;
         fwd_dispatch theNode s } } }"

section \<open>The handlers keep what the primitives keep\<close>

lemma MakeUnpreparedCopy_restore:
  assumes "key_MakeUnpreparedCopy dst src s = Some s'"
  shows "upd_key dst (keys s dst) s' = s \<or>
    (\<exists>p w. upd_key dst (keys s dst) s' = upd_obj p (\<lambda>ob. objH_SetFlags ob w) s)"
proof -
  have same: "upd_key dst (keys s dst) s = s"
    "upd_key dst (keys s dst) (upd_obj p f s) = upd_obj p f s" for p f
    by (simp_all add: upd_key_def upd_obj_def)
  from assms have "(\<exists>k. s' = upd_key dst k s)
      \<or> (\<exists>p w k. s' = upd_key dst k (upd_obj p (\<lambda>ob. objH_SetFlags ob w) s))"
    by (simp add: key_MakeUnpreparedCopy_def Let_def bind_eq_Some_conv split: if_splits) blast+
  then show ?thesis by (elim disjE exE) (simp_all add: same, blast)
qed

context key_closed
begin

lemma kbk_get_post [kpost]: "P s \<Longrightarrow> opost P (kbk_get s)"
  unfolding kbk_get_def Let_def
proof (rule post_bind(2), erule post_returnee, rule post_bind(2), erule post_prepare, rule post_bind(2),
    erule post_invocation, rule post_bind_eq(1))
  fix s0 s' s1 s2 assume "P s1"
    and "key_MakeUnpreparedCopy KTmp (entry_key (k_inv s0) 0) s1 = Some s2"
  then have "P (upd_key KTmp (keys s1 KTmp) s2)"
    using MakeUnpreparedCopy_restore [of KTmp "entry_key (k_inv s0) 0" s1 s2] by (auto intro!: P_upd_obj)
  then show "opost P (do { s \<leftarrow> inv_CopyOut (le_bytes capros_KeyBits_VERSION
       @ [1, 0, 0, 0] @ concat (map le_bytes (key_words (keys s2 KTmp)))) (upd_key KTmp (keys s1 KTmp) s2);
     ReturnCode RC_OK s })"
    by (intro post_bind(2) post_invocation)
qed

lemma misc_post [kpost]:
  assumes "P s"
  shows "opost P (NumberKey s)" "opost P (SchedKey s)" "opost P (KeyBitsKey s)" "opost P (DiscrimKey s)"
  using assms
  unfolding NumberKey_def SchedKey_def KeyBitsKey_def DiscrimKey_def dk_classify_def dk_verify_def
    dk_compare_def Let_def
  by (auto intro!: kpost split: OC.split)

lemma fwd_post [kpost]:
  assumes "P s"
  shows "opost P (fwd_getSlot n p s)" "opost P (fwd_swapSlot n p s)" "opost P (fwd_getDataWord p s)"
    "opost P (fwd_clearBlocked p s)" "opost P (fwd_setBlocked p s)"
  using assms
  unfolding fwd_getSlot_def fwd_swapSlot_def fwd_getDataWord_def
    fwd_clearBlocked_def fwd_setBlocked_def Let_def ObjectStallQueue_def
  by (auto intro!: kpost P_state)

lemma P_number_upd: "P s \<Longrightarrow> k = keys s r \<Longrightarrow> keyType k = KKT_Number \<Longrightarrow> P (upd_key r (k\<lparr>key_u := u\<rparr>) s)"
  by (simp add: P_number)

lemma fwd_swapDataWord_post [kpost]: "P s \<Longrightarrow> opost P (fwd_swapDataWord p s)"
  unfolding fwd_swapDataWord_def Let_def
proof (rule post_assert(2), rule post_bind_eq(1), rule post_bind_eq(1))
  fix s1 s2
  assume s: "P s" "keyBits_IsType (keys s (KSlot p ForwarderDataSlot)) KKT_Number"
    and s1: "objH_EnsureWritable p s = Some s1" and s2: "COMMIT_POINT s1 = Some s2"
  have "P s1" using post_object(1) [OF s(1)] s1 by (simp add: ipost_def)
  then have "P s2" using post_invocation(1) [of s1] s2 by (simp add: ipost_def)
  moreover have "keys s2 = keys s" using EnsureWritable_frame [OF s1] s2 by (auto simp: COMMIT_POINT_Some)
  ultimately show "opost P (ReturnCode RC_OK (upd_key (KSlot p ForwarderDataSlot)
      ((keys s2 (KSlot p ForwarderDataSlot))\<lparr>key_u :=
        U_nk (entry_w1 (k_inv (set_exit_w1 (nk_value (keys s2 (KSlot p ForwarderDataSlot)) 0) s2)))
          (nk_value (keys s2 (KSlot p ForwarderDataSlot)) 1)
          (nk_value (keys s2 (KSlot p ForwarderDataSlot)) 2)\<rparr>)
      (set_exit_w1 (nk_value (keys s2 (KSlot p ForwarderDataSlot)) 0) s2)))"
    using s(2) by (intro post_invocation P_number_upd) (simp_all add: keyBits_IsType_def)
qed

end

context key_closed_lax
begin

lemma fwd_getOpaque_post [kpost]:
  assumes "P s" "invokes KKT_Forwarder s"
  shows "opost P (fwd_getOpaqueForwarder s)"
  unfolding fwd_getOpaqueForwarder_def Let_def
proof (rule post_bind_eq(1), rule post_if(2))
  fix s1 assume s1: "COMMIT_POINT s = Some s1"
  then have P1: "P s1" using post_invocation(1) [OF assms(1)] by (simp add: ipost_def)
  then show "opost P (ReturnCode RC_capros_key_RequestError s1)" by (rule post_invocation)
  have t: "keyType (keys s1 (inv_key (k_inv s1))) = KKT_Forwarder"
    using s1 assms(2) by (auto simp: COMMIT_POINT_Some invokes_def)
  show "opost P (case exit_pKey (k_inv s1) 0 of None \<Rightarrow> ReturnCode RC_OK s1
      | Some d \<Rightarrow> do {
          s \<leftarrow> inv_SetExitKey 0 (inv_key (k_inv s1)) s1;
          ReturnCode RC_OK (upd_key d ((keys s d)\<lparr>keyData :=
            ucast (entry_w1 (k_inv s1)) OR capros_Forwarder_opaque\<rparr>) s) })"
  proof (rule post_option(2), rule post_invocation, rule P1, rule post_bind_eq(1))
    fix d s2 assume "exit_pKey (k_inv s1) 0 = Some d" "inv_SetExitKey 0 (inv_key (k_inv s1)) s1 = Some s2"
    then have s2: "s2 = key_NH_Set d (inv_key (k_inv s1)) s1" by (simp add: inv_SetExitKey_Some)
    then have "restricts_lax (keys s2 d) ((keys s2 d)\<lparr>keyData := w\<rparr>)" for w
      using t by (auto simp: restricts_lax_def bit_eq_iff bit_simps)
    with P_Set [OF P1, of d "inv_key (k_inv s1)"] s2
    show "opost P (ReturnCode RC_OK (upd_key d ((keys s2 d)\<lparr>keyData :=
            ucast (entry_w1 (k_inv s1)) OR capros_Forwarder_opaque\<rparr>) s2))"
      by (intro post_invocation P_lax) simp_all
  qed
qed

lemma fwd_invoke_post [kpost]:
  assumes "P s" "invokes KKT_Forwarder s"
  shows "opost P (fwd_invoke p s)"
proof -
  have lax: "restricts_lax k (k\<lparr>keyType := KKT_Forwarder, keyData := w\<rparr>)"
    if "keyType k = KKT_Forwarder" for k w
    using that by (auto simp: restricts_lax_def bit_eq_iff bit_simps)
  show ?thesis
    using assms unfolding fwd_invoke_def fwd_pass_def Let_def invokes_def ObjectStallQueue_def
    by (auto intro!: kpost P_lax P_Set lax)
qed

lemma fwd_returnee_post:
  assumes "P s" "invokes KKT_Forwarder s" "keyBits_IsPrepared (keys s (inv_key (k_inv s)))"
  shows "opost P (do { s \<leftarrow> inv_GetReturnee s; fwd_dispatch p s })"
proof (rule post_returnee_invoked [OF assms(1,3)])
  fix s' assume "P s'" "keys s' (inv_key (k_inv s')) = keys s (inv_key (k_inv s))"
  with assms(2) show "opost P (fwd_dispatch p s')"
    unfolding fwd_dispatch_def invokes_def
    by (cases "entry_code (k_inv s')") (auto simp: invokes_def intro!: kpost)
qed

lemma ForwarderKey_post:
  assumes "P s" "invokes KKT_Forwarder s"
  shows "opost P (ForwarderKey s)"
  unfolding ForwarderKey_def Let_def
  by (intro post_prepare_invoked [OF assms] post_bind_ptr post_if fwd_invoke_post fwd_returnee_post)

end

lemma misc_commits [kcommit]:
  "cpost (NumberKey s)" "cpost (SchedKey s)" "cpost (KeyBitsKey s)" "cpost (DiscrimKey s)"
  unfolding NumberKey_def SchedKey_def KeyBitsKey_def kbk_get_def DiscrimKey_def dk_classify_def
    dk_verify_def dk_compare_def Let_def
  by (auto intro!: kcommit split: OC.split)

lemma fwd_commits [kcommit]:
  "cpost (fwd_getSlot n p s)" "cpost (fwd_swapSlot n p s)" "cpost (fwd_getDataWord p s)"
  "cpost (fwd_swapDataWord p s)" "cpost (fwd_clearBlocked p s)" "cpost (fwd_setBlocked p s)"
  "cpost (fwd_getOpaqueForwarder s)" "cpost (fwd_invoke p s)"
  unfolding fwd_getSlot_def fwd_swapSlot_def fwd_getDataWord_def fwd_swapDataWord_def
    fwd_clearBlocked_def fwd_setBlocked_def fwd_getOpaqueForwarder_def fwd_invoke_def fwd_pass_def
    Let_def
  by (auto intro!: kcommit)

lemma ForwarderKey_commits: "cpost (ForwarderKey s)"
proof -
  have "cpost (fwd_dispatch p s)" for p s
    unfolding fwd_dispatch_def by (cases "entry_code (k_inv s)") (auto intro!: kcommit)
  then show ?thesis unfolding ForwarderKey_def Let_def by (auto intro!: kcommit)
qed

interpretation number: closed_handler "invokes KKT_Number" NumberKey
  by unfold_locales (auto intro: key_closed.misc_post kcommit)

interpretation sched: closed_handler "invokes KKT_Sched" SchedKey
  by unfold_locales (auto intro: key_closed.misc_post kcommit)

interpretation keybits: closed_handler "invokes KKT_KeyBits" KeyBitsKey
  by unfold_locales (auto intro: key_closed.misc_post kcommit)

interpretation discrim: closed_handler "invokes KKT_Discrim" DiscrimKey
  by unfold_locales (auto intro: key_closed.misc_post kcommit)

interpretation forwarder: lax_handler "invokes KKT_Forwarder" ForwarderKey
  by unfold_locales (simp_all add: key_closed_lax.ForwarderKey_post ForwarderKey_commits)

end
