(* ===== verification/Range_Key.thy ===== *)
theory Range_Key
  imports Misc_Keys
begin

text \<open>
  Range keys (sys/key/pk_RangeKey.c): the authority to create keys to the objects of a range of
  OIDs and to rescind them. Objects that are not in memory are waited for, so the locator of an
  object is always its header. Changing the type of a frame (\<^verbatim>\<open>OC_capros_Range_retypeFrame\<close>) and
  the debugging order code 12345 are not modelled.
\<close>

section \<open>Operations\<close>

definition OID_RESERVED_PHYSRANGE :: OID where "OID_RESERVED_PHYSRANGE = 0xff00000000000000"
definition EROS_OBJECTS_PER_FRAME :: OID where "EROS_OBJECTS_PER_FRAME = 256"
definition DISK_NODES_PER_PAGE :: OID where "DISK_NODES_PER_PAGE = 7"
definition capros_Range_otNone :: u32 where "capros_Range_otNone = 255"

fun objectsPerFrame :: "baseType \<Rightarrow> OID" where
  "objectsPerFrame otPage = 1"
| "objectsPerFrame otNode = DISK_NODES_PER_PAGE"

fun base_code :: "baseType \<Rightarrow> u32" where
  "base_code otPage = 0"
| "base_code otNode = 1"

definition ValidateKey :: "KeyBits \<Rightarrow> u32 option" where
  "ValidateKey k =
     (if keyBits_IsType k KKT_Page then Some 0
      else if keyBits_IsType k KKT_Node then Some 1
      else if keyBits_IsType k KKT_Forwarder \<and> keyData k AND capros_Forwarder_opaque = 0 then Some 2
      else if keyBits_IsType k KKT_GPT \<and> keyData k AND ucast capros_Memory_opaque = 0 then Some 3
      else None)"

definition w1w2Offset :: "kern \<Rightarrow> u64" where
  "w1w2Offset s = push_bit 32 (ucast (entry_w2 (k_inv s))) OR ucast (entry_w1 (k_inv s))"

definition w2w3Offset :: "kern \<Rightarrow> u64" where
  "w2w3Offset s = push_bit 32 (ucast (entry_w3 (k_inv s))) OR ucast (entry_w2 (k_inv s))"

text \<open>The first and the last OID of the range of a key.\<close>

definition key_GetRange :: "KeyBits \<Rightarrow> (OID \<times> OID) option" where
  "key_GetRange k =
     (if keyType k = KKT_PrimeRange then Some (0, OID_RESERVED_PHYSRANGE - 1)
      else if keyType k = KKT_PhysRange then Some (OID_RESERVED_PHYSRANGE, - 1)
      else case key_u k of
          U_rk oid c \<Rightarrow> do { assert_that (c > 0); Some (oid, oid + ucast c - 1) }
        | _ \<Rightarrow> None)"

definition range_error :: "kern \<Rightarrow> outcome option" where
  "range_error s = do { s \<leftarrow> COMMIT_POINT s; ReturnCode RC_capros_Range_RangeErr s }"

text \<open>The parts of \<^verbatim>\<open>MakeObjectKey\<close> that initialise the object.\<close>

definition init_forwarder :: "obj_ptr \<Rightarrow> kern \<Rightarrow> kern option" where
  "init_forwarder pObj s =
     (let keynum = KSlot pObj ForwarderDataSlot in
      if \<not> keyBits_IsType (keys s keynum) KKT_Number then do {
        s \<leftarrow> objH_EnsureWritable pObj s;
        s \<leftarrow> COMMIT_POINT s;
        let s = keyBits_Unchain keynum s;
        Some (upd_key keynum ((keyBits_InitType (keys s keynum) KKT_Number)\<lparr>key_u := U_nk 0 0 0\<rparr>) s) }
      else COMMIT_POINT s)"

definition init_gpt :: "obj_ptr \<Rightarrow> kern \<Rightarrow> kern option" where
  "init_gpt theGPT s =
     (let l2vField = node_GetL2vField (obj_at s theGPT);
          oldL2v = l2vField AND GPT_L2V_MASK
      in if unat oldL2v < EROS_PAGE_LGSIZE then do {
           s \<leftarrow> objH_EnsureWritable theGPT s;
           s \<leftarrow> COMMIT_POINT s;
           Some (upd_obj theGPT (node_SetL2vField (l2vField - oldL2v + of_nat EROS_PAGE_LGSIZE)) s) }
         else COMMIT_POINT s)"

definition MakeUnpreparedKey :: "kref \<Rightarrow> kkt \<Rightarrow> OID \<Rightarrow> ObCount \<Rightarrow> kern \<Rightarrow> kern" where
  "MakeUnpreparedKey key kkt oid obCount s =
     (let s = keyBits_Unchain key s
      in upd_key key ((keyBits_InitType (keys s key) kkt)\<lparr>key_u := U_unprep oid obCount\<rparr>) s)"

definition default_guard :: "kref \<Rightarrow> kkt \<Rightarrow> kern \<Rightarrow> kern" where
  "default_guard key kkt s =
     (if kkt \<in> {KKT_GPT, KKT_Page, KKT_Node} then upd_key key (keyBits_SetL2g (keys s key) 64) s else s)"

definition MakeObjectKey_switch :: "kref option \<Rightarrow> obj_ptr \<Rightarrow> kkt \<Rightarrow> OID \<Rightarrow> kern \<Rightarrow> kern option" where
  "MakeObjectKey_switch key pObj kkt oid s =
     (if kkt = KKT_Forwarder \<or> kkt = KKT_GPT then do {
        pObj \<leftarrow> GetObject s pObj;
        s \<leftarrow> (if kkt = KKT_Forwarder then init_forwarder pObj s else init_gpt pObj s);
        case key of
          None \<Rightarrow> Some s
        | Some d \<Rightarrow> key_SetToObj d pObj kkt 0 0 (keyBits_Unchain d s) }
      else do {
        obCount \<leftarrow> GetObjectCount s pObj False;
        s \<leftarrow> COMMIT_POINT s;
        Some (case key of None \<Rightarrow> s | Some d \<Rightarrow> MakeUnpreparedKey d kkt oid obCount s) })"

definition MakeObjectKey :: "OID \<Rightarrow> OID \<Rightarrow> u64 \<Rightarrow> bool \<Rightarrow> baseType \<Rightarrow> kkt \<Rightarrow> kern \<Rightarrow> outcome option" where
  "MakeObjectKey rngStart rngLast offset wait baseType kkt s =
     (let oid = rngStart + offset in
      if oid > rngLast then range_error s
      else if offset mod EROS_OBJECTS_PER_FRAME \<ge> objectsPerFrame baseType then range_error s
      else if \<not> wait \<and> \<not> objC_HaveSource oid (obRanges s) then range_error s
      else do {
        (pObj, objType) \<leftarrow> GetObjectType s oid;
        if objType \<noteq> baseType then do {
          s \<leftarrow> COMMIT_POINT s;
          ReturnCode RC_OK (set_exit_w1 (base_code objType) s) }
        else do {
          let key = exit_pKey (k_inv s) 0;
          s \<leftarrow> MakeObjectKey_switch key pObj kkt oid s;
          let s = (case key of None \<Rightarrow> s | Some d \<Rightarrow> default_guard d kkt s);
          ReturnCode RC_OK (set_exit_w1 capros_Range_otNone s) } })"

definition rk_query :: "OID \<Rightarrow> OID \<Rightarrow> kern \<Rightarrow> outcome option" where
  "rk_query rngStart rngLast s = do {
     s \<leftarrow> COMMIT_POINT s;
     let range = rngLast - rngStart + 1;
     ReturnCode RC_OK (set_exit_w2 (ucast (drop_bit 32 range)) (set_exit_w1 (ucast range) s)) }"

definition rk_nextSubrange :: "OID \<Rightarrow> OID \<Rightarrow> kern \<Rightarrow> outcome option" where
  "rk_nextSubrange rngStart rngLast s = do {
     s \<leftarrow> COMMIT_POINT s;
     let startOffset = w1w2Offset s + rngStart;
     if startOffset > rngLast then ReturnCode RC_capros_Range_RangeErr s
     else (case objC_FindFirstSubrange startOffset rngLast (obRanges s) of
        None \<Rightarrow> ReturnCode RC_capros_Range_RangeErr s
      | Some (subStart, subLast) \<Rightarrow>
          (let range = subLast - subStart + 1;
               range = (if range \<ge> 0xffffffff then 0xffffffff else range);
               subStart = subStart - rngStart
           in ReturnCode RC_OK (set_exit_w3 (ucast range)
                (set_exit_w2 (ucast (drop_bit 32 subStart)) (set_exit_w1 (ucast subStart) s))))) }"

definition rk_makeSubrange :: "OID \<Rightarrow> OID \<Rightarrow> kern \<Rightarrow> outcome option" where
  "rk_makeSubrange rngStart rngLast s = do {
     s \<leftarrow> COMMIT_POINT s;
     let newStart = w1w2Offset s + rngStart;
     let newLen = (ucast (entry_w3 (k_inv s)) :: u64);
     let newLast = newLen + newStart - 1;
     if rngStart > newStart \<or> newStart > newLast \<or> newLast > rngLast
     then ReturnCode RC_capros_Range_RangeErr s
     else (case exit_pKey (k_inv s) 0 of
        None \<Rightarrow> ReturnCode RC_OK s
      | Some d \<Rightarrow>
          (let s = keyBits_Unchain d s;
               s = upd_key d ((keyBits_InitType (keys s d) KKT_Range)\<lparr>key_u := U_rk newStart (ucast newLen)\<rparr>) s
           in ReturnCode RC_OK s)) }"

definition rk_identify :: "OID \<Rightarrow> OID \<Rightarrow> kern \<Rightarrow> outcome option" where
  "rk_identify rngStart rngLast s = do {
     let key = entry_key (k_inv s) 0;
     s \<leftarrow> key_Prepare key s;
     s \<leftarrow> COMMIT_POINT s;
     case ValidateKey (keys s key) of
       None \<Rightarrow> ReturnCode RC_capros_Range_RangeErr s
     | Some t \<Rightarrow> do {
         let s = set_exit_w1 t s;
         p \<leftarrow> key_GetObjectPtr s (keys s key);
         let oid = obOid (obj_at s p);
         if oid < rngStart \<or> oid > rngLast then ReturnCode RC_capros_Range_RangeErr s
         else do {
           let range = oid - rngStart;
           ReturnCode RC_OK (set_exit_w3 (ucast (drop_bit 32 range)) (set_exit_w2 (ucast range) s)) } } }"

text \<open>Unpreparing a node that is prepared as a process is not modelled.\<close>

definition node_Unprepare :: "obj_ptr \<Rightarrow> kern \<Rightarrow> kern option" where
  "node_Unprepare p s =
     (case obType (obj_at s p) of
        ot_NtUnprepared \<Rightarrow> Some s
      | ot_NtSegment \<Rightarrow> do {
          s \<leftarrow> node_ClearAllHazards p s;
          Some (upd_obj p (\<lambda>ob. ob\<lparr>obType := ot_NtUnprepared\<rparr>) s) }
      | _ \<Rightarrow> None)"

definition rk_rescind :: "OID \<Rightarrow> OID \<Rightarrow> kern \<Rightarrow> outcome option" where
  "rk_rescind rngStart rngLast s = do {
     let key = entry_key (k_inv s) 0;
     s \<leftarrow> key_Prepare key s;
     if ValidateKey (keys s key) = None then range_error s
     else do {
       pObject \<leftarrow> key_GetObjectPtr s (keys s key);
       let oid = obOid (obj_at s pObject);
       if oid < rngStart \<or> oid > rngLast then range_error s
       else do {
         s \<leftarrow> objH_EnsureWritable pObject s;
         s \<leftarrow> COMMIT_POINT s;
         s \<leftarrow> objH_Rescind pObject s;
         s \<leftarrow> objH_ClearObj pObject s;
         s \<leftarrow> (if objH_isNodeType (obj_at s pObject) then node_Unprepare pObject s else Some s);
         ReturnCode RC_OK s } } }"

definition rk_getCap :: "bool \<Rightarrow> OID \<Rightarrow> OID \<Rightarrow> kern \<Rightarrow> outcome option" where
  "rk_getCap waitFlag rngStart rngLast s =
     (let ot = entry_w1 (k_inv s) in
      if ot = 0 then MakeObjectKey rngStart rngLast (w2w3Offset s) waitFlag otPage KKT_Page s
      else if ot = 1 then MakeObjectKey rngStart rngLast (w2w3Offset s) waitFlag otNode KKT_Node s
      else if ot = 2 then MakeObjectKey rngStart rngLast (w2w3Offset s) waitFlag otNode KKT_Forwarder s
      else if ot = 3 then MakeObjectKey rngStart rngLast (w2w3Offset s) waitFlag otNode KKT_GPT s
      else range_error s)"

definition rk_compare :: "OID \<Rightarrow> OID \<Rightarrow> kern \<Rightarrow> outcome option" where
  "rk_compare rngStart rngLast s = do {
     let key = entry_key (k_inv s) 0;
     s \<leftarrow> key_Prepare key s;
     s \<leftarrow> COMMIT_POINT s;
     let s = set_exit_w1 0 (set_exit_code RC_OK s);
     if \<not> keyBits_IsType (keys s key) KKT_Range \<and> \<not> keyBits_IsType (keys s key) KKT_PrimeRange
     then tail_ReturnMessage s
     else (case key_GetRange (keys s key) of
        None \<Rightarrow> None
      | Some (kstart, kend) \<Rightarrow>
          if kstart > rngLast \<or> kend \<le> rngStart then tail_ReturnMessage s
          else let s = set_exit_w3 0 (set_exit_w1 1 s) in
          if kstart < rngStart then
            tail_ReturnMessage (set_exit_w3 (ucast (drop_bit 32 (rngStart - kstart)))
              (set_exit_w2 (ucast (rngStart - kstart)) (set_exit_w1 3 s)))
          else if kstart = rngStart then tail_ReturnMessage (set_exit_w2 0 (set_exit_w1 1 s))
          else tail_ReturnMessage (set_exit_w3 (ucast (drop_bit 32 (kstart - rngStart)))
              (set_exit_w2 (ucast (kstart - rngStart)) (set_exit_w1 2 s)))) }"

definition rk_getFrameCounts :: "OID \<Rightarrow> OID \<Rightarrow> kern \<Rightarrow> outcome option" where
  "rk_getFrameCounts rngStart rngLast s =
     (let oid = w1w2Offset s + rngStart in
      if oid > rngLast then range_error s
      else do {
        (pObj, objType) \<leftarrow> GetObjectType s oid;
        allocCount \<leftarrow> GetObjectCount s pObj False;
        allocCount \<leftarrow> (if objType = otNode then do {
                          callCount \<leftarrow> GetObjectCount s pObj True;
                          Some (max allocCount callCount) }
                        else Some allocCount);
        s \<leftarrow> COMMIT_POINT s;
        ReturnCode RC_OK (set_exit_w1 allocCount s) })"

definition rk_dispatch :: "OID \<Rightarrow> OID \<Rightarrow> kern \<Rightarrow> outcome option" where
  "rk_dispatch rngStart rngLast s =
     (case entry_code (k_inv s) of
        OC_capros_key_getType \<Rightarrow> do {
          s \<leftarrow> COMMIT_POINT s;
          ReturnCode RC_OK (set_exit_w1 (k_akt s KKT_Range) s) }
      | OC_capros_Range_query \<Rightarrow> rk_query rngStart rngLast s
      | OC_capros_Range_nextSubrange \<Rightarrow> rk_nextSubrange rngStart rngLast s
      | OC_capros_Range_makeSubrange \<Rightarrow> rk_makeSubrange rngStart rngLast s
      | OC_capros_Range_identify \<Rightarrow> rk_identify rngStart rngLast s
      | OC_capros_Range_rescind \<Rightarrow> rk_rescind rngStart rngLast s
      | OC_capros_Range_getCap \<Rightarrow> rk_getCap False rngStart rngLast s
      | OC_capros_Range_waitCap \<Rightarrow> rk_getCap True rngStart rngLast s
      | OC_capros_Range_compare \<Rightarrow> rk_compare rngStart rngLast s
      | OC_capros_Range_getFrameCounts \<Rightarrow> rk_getFrameCounts rngStart rngLast s
      | OC_capros_Range_retypeFrame \<Rightarrow> None
      | _ \<Rightarrow> do {
          s \<leftarrow> COMMIT_POINT s;
          ReturnCode RC_capros_key_UnknownRequest s })"

definition RangeKey :: "kern \<Rightarrow> outcome option" where
  "RangeKey s = do {
     s \<leftarrow> inv_GetReturnee s;
     (rngStart, rngLast) \<leftarrow> key_GetRange (keys s (inv_key (k_inv s)));
     rk_dispatch rngStart rngLast s }"

end
