(* ===== verification/Range_Key_Props.thy ===== *)
theory Range_Key_Props
  imports Range_Key
begin

text \<open>Properties of range keys.\<close>

section \<open>The invariant\<close>

text \<open>
  The unprepared page or node key that getCap makes holds the current allocation count of the
  object, which the object must have flagged as used; rescinding needs that hazards can be cleared
  and that no count is about to wrap round.
\<close>

definition count_used :: "OID \<Rightarrow> kern \<Rightarrow> bool" where
  "count_used oid s = (case objH_Lookup s oid of None \<Rightarrow> True | Some p \<Rightarrow> objH_GetFlags (obj_at s p) OFLG_AllocCntUsed)"

definition getCap_ready :: "kern \<Rightarrow> bool" where
  "getCap_ready s = (entry_w1 (k_inv s) \<in> {0, 1} \<longrightarrow>
     (case key_GetRange (keys s (inv_key (k_inv s))) of None \<Rightarrow> True | Some (rngStart, _) \<Rightarrow> count_used (rngStart + w2w3Offset s) s))"

definition counts_ok :: "kern \<Rightarrow> bool" where
  "counts_ok s = (\<forall>p. is_obj s p \<longrightarrow> allocCount (obj_at s p) + 1 \<noteq> 0 \<and> callCount (obj_at s p) + 1 \<noteq> 0)"

definition range_type :: "kern \<Rightarrow> bool" where
  "range_type s = (keyType (keys s (inv_key (k_inv s))) \<in> {KKT_Range, KKT_PrimeRange, KKT_PhysRange})"

definition range_ready :: "kern \<Rightarrow> bool" where
  "range_ready s = (range_type s
     \<and> (entry_code (k_inv s) \<in> {OC_capros_Range_getCap, OC_capros_Range_waitCap} \<longrightarrow> getCap_ready s)
     \<and> (entry_code (k_inv s) = OC_capros_Range_rescind \<longrightarrow> clearable s \<and> counts_ok s))"

context key_closed
begin

lemma range_error_post [kpost]: "P s \<Longrightarrow> opost P (range_error s)"
  unfolding range_error_def by (auto intro!: kpost)

lemma rk_query_post [kpost]: "P s \<Longrightarrow> opost P (rk_query a b s)"
  unfolding rk_query_def Let_def by (auto intro!: kpost)

lemma rk_nextSubrange_post [kpost]: "P s \<Longrightarrow> opost P (rk_nextSubrange a b s)"
  unfolding rk_nextSubrange_def Let_def by (auto intro!: kpost)

lemma rk_identify_post [kpost]: "P s \<Longrightarrow> opost P (rk_identify a b s)"
  unfolding rk_identify_def Let_def by (auto intro!: kpost)

lemma rk_compare_post [kpost]: "P s \<Longrightarrow> opost P (rk_compare a b s)"
  unfolding rk_compare_def Let_def
  by (rule post_bind, erule post_prepare, rule post_bind, erule post_invocation,
     (rule post_if(2) | rule post_option(2) | rule post_values(3) | rule post_prod
      | (rule post_invocation(4), simp only: P_upd_inv))+)

lemma rk_getFrameCounts_post [kpost]: "P s \<Longrightarrow> opost P (rk_getFrameCounts a b s)"
  unfolding rk_getFrameCounts_def Let_def
  by (rule post_if(2), erule range_error_post, rule post_bind_eq(1), rule post_prod,
      rule post_bind_eq(1), rule post_bind_eq(1), rule post_bind(2), erule post_invocation(1),
      rule post_invocation(5), simp only: P_upd_inv)

end

context key_makes
begin

lemma P_plain:
  assumes "P s" "\<not> keyBits_IsObjectKey k"
  shows "P (upd_key d k (keyBits_Unchain d s))"
proof (rule P_make [OF assms(1)])
  show "kern_inv (upd_key d k (keyBits_Unchain d s))"
    using P_inv [OF assms(1)] assms(2)
    by (intro kern_inv_unchain wf_key_not_object cnt_ok_not_object key_ring_not_object) simp_all
qed (use assms(2) in \<open>auto simp: key_kinds\<close>)

lemma rk_makeSubrange_post [kpost]:
  assumes "P s"
  shows "opost P (rk_makeSubrange a b s)"
proof -
  have "P (upd_key d ((keyBits_InitType k KKT_Range)\<lparr>key_u := u\<rparr>) (keyBits_Unchain d s'))"
    if "P s'" for s' d k u
    using that by (intro P_plain) (simp_all add: key_kinds keyBits_InitType_def)
  with assms show ?thesis unfolding rk_makeSubrange_def Let_def by (auto intro!: kpost)
qed

end

lemma MakeUnpreparedKey_inv:
  assumes "kern_inv s" "objH_Lookup s oid = Some p" "objH_GetFlags (obj_at s p) OFLG_AllocCntUsed"
    and "t \<in> {KKT_Page, KKT_Node}" "c = allocCount (obj_at s p)"
  shows "kern_inv (MakeUnpreparedKey d t oid c s)"
proof -
  let ?k = "(keyBits_InitType (keys s d) t)\<lparr>key_u := U_unprep oid c\<rparr>"
  note p = objH_Lookup_SomeD [OF kern_inv_wf_objs [OF assms(1)] assms(2)]
  have fields: "keyType ?k = t" "\<not> keyBits_IsPrepared ?k"
    by (simp_all add: keyBits_InitType_def key_flag_bits)
  have "q = p" if "is_obj s q" "obOid (obj_at s q) = oid" for q
    using that p kern_inv_wf_objs [OF assms(1)] by (auto simp: wf_objs_def)
  then have "cnt_ok s ?k"
    using assms(3-5) fields by (auto simp: cnt_ok_def count_for_def used_for_def)
  moreover have "wf_key s ?k" "key_ring ?k = None"
    using fields by (simp_all add: wf_key_def key_ring_not_prepared)
  ultimately show ?thesis
    unfolding MakeUnpreparedKey_def Let_def using kern_inv_unchain [OF assms(1)] by simp
qed

context key_makes
begin

lemma MakeUnpreparedKey_post:
  assumes "P s" "objH_Lookup s oid = Some p" "objH_GetFlags (obj_at s p) OFLG_AllocCntUsed"
    and "t \<in> {KKT_Page, KKT_Node}" "c = allocCount (obj_at s p)"
  shows "P (MakeUnpreparedKey d t oid c s)"
proof (rule P_make [OF assms(1) MakeUnpreparedKey_inv [OF P_inv [OF assms(1)] assms(2-5)]])
  show "keyType (keys (MakeUnpreparedKey d t oid c s) d) \<noteq> KKT_Resume"
    using assms(4) by (auto simp: MakeUnpreparedKey_def Let_def keyBits_InitType_def)
qed (simp_all add: MakeUnpreparedKey_def Let_def)

lemma default_guard_post: "P s \<Longrightarrow> t \<in> {KKT_Page, KKT_Node, KKT_Forwarder, KKT_GPT} \<Longrightarrow>
    keyType (keys s d) = t \<Longrightarrow> P (default_guard d t s)"
  unfolding default_guard_def
  by (auto intro!: P_lax simp: restricts_lax_def keyBits_SetL2g_def and.assoc [symmetric])

lemma init_forwarder_post:
  assumes "P s"
  shows "ipost P (init_forwarder p s)"
proof -
  have "P (upd_key d ((keyBits_InitType k KKT_Number)\<lparr>key_u := u\<rparr>) (keyBits_Unchain d s'))"
    if "P s'" for s' d k u
    using that by (intro P_plain) (simp_all add: key_kinds keyBits_InitType_def)
  with assms show ?thesis unfolding init_forwarder_def Let_def by (auto intro!: kpost)
qed

lemma init_gpt_post: "P s \<Longrightarrow> ipost P (init_gpt p s)"
  unfolding init_gpt_def Let_def by (auto intro!: kpost P_upd_obj)

end

text \<open>What the initialisations keep of the objects.\<close>

lemma init_forwarder_world: "init_forwarder p s = Some s' \<Longrightarrow> same_world s s' \<and> k_inv s' = k_inv s"
  by (auto simp: init_forwarder_def Let_def bind_eq_Some_conv COMMIT_POINT_Some split: if_splits
      dest!: objH_EnsureWritable_Some intro!: same_world_upd_obj)

lemma init_gpt_world: "init_gpt p s = Some s' \<Longrightarrow> same_world s s' \<and> k_inv s' = k_inv s"
  by (auto simp: init_gpt_def Let_def bind_eq_Some_conv COMMIT_POINT_Some split: if_splits
      dest!: objH_EnsureWritable_Some intro!: same_world_upd_obj_trans)

lemma GetObjectType_Some:
  "GetObjectType s oid = Some (p, t) \<longleftrightarrow> objH_Lookup s oid = Some p \<and> t = objH_GetBaseType (obj_at s p)"
  by (auto simp: GetObjectType_def split: option.splits)

lemma MakeObjectKey_switch_type:
  "MakeObjectKey_switch (Some d) p t oid s = Some s' \<Longrightarrow> keyType (keys s' d) = t"
  by (auto simp: MakeObjectKey_switch_def MakeUnpreparedKey_def Let_def keyBits_InitType_def bind_eq_Some_conv
      dest: key_SetToObj_frame(4) split: if_splits)

context key_makes
begin

lemma MakeObjectKey_switch_post:
  assumes "P s" "objH_Lookup s oid = Some p" "objH_GetBaseType (obj_at s p) = base_of t"
    and "t \<in> {KKT_Page, KKT_Node, KKT_Forwarder, KKT_GPT}"
    and "t \<in> {KKT_Page, KKT_Node} \<Longrightarrow> objH_GetFlags (obj_at s p) OFLG_AllocCntUsed"
  shows "ipost P (MakeObjectKey_switch key p t oid s)"
  unfolding MakeObjectKey_switch_def
proof (rule post_if(1), rule post_bind_eq(2), rule post_bind_eq(2))
  fix q s1
  assume "t = KKT_Forwarder \<or> t = KKT_GPT" and q: "GetObject s p = Some q"
    and s1: "(if t = KKT_Forwarder then init_forwarder q s else init_gpt q s) = Some s1"
  have w: "same_world s s1"
    using s1 init_forwarder_world [of q s s1] init_gpt_world [of q s s1] by (auto split: if_splits)
  have "P s1" using s1 init_forwarder_post [OF assms(1), of q] init_gpt_post [OF assms(1), of q]
    by (auto simp: ipost_def split: if_splits)
  moreover have "q = p" using q by (simp add: GetObject_def bind_eq_Some_conv)
  moreover note objH_Lookup_SomeD(1) [OF kern_inv_wf_objs [OF P_inv [OF assms(1)]] assms(2)]
  ultimately have "ipost P (key_SetToObj d q t 0 0 (keyBits_Unchain d s1))" for d
    using assms(3,4)
    by (intro SetToObj_post) (auto simp: same_world_is_obj [OF w] same_world_objects [OF w])
  with \<open>P s1\<close> show "ipost P (case key of None \<Rightarrow> Some s1
      | Some d \<Rightarrow> key_SetToObj d q t 0 0 (keyBits_Unchain d s1))"
    by (intro post_option post_values)
next
  assume "\<not> (t = KKT_Forwarder \<or> t = KKT_GPT)"
  then have t: "t \<in> {KKT_Page, KKT_Node}" using assms(4) by auto
  show "ipost P (do {
                  obCount \<leftarrow> GetObjectCount s p False;
                  s \<leftarrow> COMMIT_POINT s;
                  Some (case key of None \<Rightarrow> s | Some d \<Rightarrow> MakeUnpreparedKey d t oid obCount s) })"
  proof (rule post_bind_eq(2), rule post_bind_eq(2))
    fix c s1 assume c: "GetObjectCount s p False = Some c" and s1: "COMMIT_POINT s = Some s1"
    have "same_world s s1" using s1 by (auto simp: COMMIT_POINT_Some)
    then have "objH_Lookup s1 oid = Some p" "obj_at s1 p = obj_at s p"
      using assms(2) same_world_lookup [of s s1 oid] s1 by (auto simp: COMMIT_POINT_Some)
    moreover have "P s1" using post_invocation(1) [OF assms(1)] s1 by (simp add: ipost_def)
    moreover have "c = allocCount (obj_at s p)" using c by (auto simp: GetObjectCount_def bind_eq_Some_conv)
    ultimately show "ipost P (Some (case key of None \<Rightarrow> s1 | Some d \<Rightarrow> MakeUnpreparedKey d t oid c s1))"
      using t assms(5) by (auto intro!: post_values MakeUnpreparedKey_post split: option.split)
  qed
qed

lemma MakeObjectKey_post:
  assumes "P s" "t \<in> {KKT_Page, KKT_Node} \<Longrightarrow> count_used (a + off) s" "t \<in> {KKT_Page, KKT_Node, KKT_Forwarder, KKT_GPT}"
  shows "opost P (MakeObjectKey a b off w (base_of t) t s)"
  unfolding MakeObjectKey_def Let_def
proof (rule post_if(2) [OF range_error_post [OF assms(1)]],
    rule post_if(2) [OF range_error_post [OF assms(1)]],
    rule post_if(2) [OF range_error_post [OF assms(1)]], rule post_bind_eq(1), rule post_prod,
    rule post_if(2))
  fix x p ot
  assume x: "GetObjectType s (a + off) = Some x" "x = (p, ot)"
  then have p: "objH_Lookup s (a + off) = Some p" "ot = objH_GetBaseType (obj_at s p)"
    by (simp_all add: GetObjectType_Some)
  note obj = objH_Lookup_SomeD(1) [OF kern_inv_wf_objs [OF P_inv [OF assms(1)]] p(1)]
  show "opost P (Option.bind (COMMIT_POINT s) (\<lambda>s. ReturnCode RC_OK (set_exit_w1 (base_code ot) s)))"
    using assms(1) by (auto intro!: kpost)
  assume ot: "\<not> ot \<noteq> base_of t"
  show "opost P (Option.bind (MakeObjectKey_switch (exit_pKey (k_inv s) 0) p t (a + off) s)
      (\<lambda>sa. ReturnCode RC_OK (set_exit_w1 capros_Range_otNone
         (case exit_pKey (k_inv s) 0 of None \<Rightarrow> sa | Some d \<Rightarrow> default_guard d t sa))))"
  proof (rule post_bind_eq(1))
    fix s1 assume s1: "MakeObjectKey_switch (exit_pKey (k_inv s) 0) p t (a + off) s = Some s1"
    have "ipost P (MakeObjectKey_switch (exit_pKey (k_inv s) 0) p t (a + off) s)"
      using ot p obj assms by (intro MakeObjectKey_switch_post) (auto simp: count_used_def)
    with s1 have "P s1" by (simp add: ipost_def)
    with s1 assms(3) show "opost P (ReturnCode RC_OK (set_exit_w1 capros_Range_otNone
         (case exit_pKey (k_inv s) 0 of None \<Rightarrow> s1 | Some d \<Rightarrow> default_guard d t s1)))"
      using default_guard_post [OF \<open>P s1\<close> assms(3)]
      by (intro post_invocation) (auto dest!: MakeObjectKey_switch_type split: option.split)
  qed
qed

lemma rk_getCap_post:
  assumes "P s" "entry_w1 (k_inv s) \<in> {0, 1} \<Longrightarrow> count_used (a + w2w3Offset s) s"
  shows "opost P (rk_getCap w a b s)"
proof -
  have "base_of KKT_Page = otPage" "base_of KKT_Node = otNode" "base_of KKT_Forwarder = otNode"
    "base_of KKT_GPT = otNode"
    by (simp_all add: base_of_def)
  then show ?thesis
    unfolding rk_getCap_def Let_def
    using MakeObjectKey_post [OF assms(1), of _ a "w2w3Offset s"] assms(2) range_error_post [OF assms(1)]
    by (intro post_if(2)) fastforce+
qed

end

section \<open>Rescinding through a range key\<close>

context key_closed
begin

lemma VoidSlots_post: "P s \<Longrightarrow> ipost P (node_VoidSlots p ks s)"
  by (induction ks arbitrary: s) (auto intro!: kpost P_SetToVoid)

lemma ClearObj_post [kpost]: "P s \<Longrightarrow> ipost P (objH_ClearObj p s)"
  unfolding objH_ClearObj_def node_DoClearThisNode_def
  by (auto intro!: kpost VoidSlots_post P_upd_obj split: ObType.split)

end

text \<open>Unpreparing a node.\<close>

lemma ClearHazards_objs: "node_ClearHazards_from p ks s = Some s' \<Longrightarrow> objs s' = objs s"
  by (induction ks arbitrary: s) (auto simp: bind_eq_Some_conv dest!: node_ClearHazard_eq)

context key_makes
begin

lemma node_Unprepare_post [kpost]:
  assumes "P s"
  shows "ipost P (node_Unprepare p s)"
proof -
  have "P (upd_obj p (\<lambda>ob. ob\<lparr>obType := ot_NtUnprepared\<rparr>) s')"
    if "node_ClearAllHazards p s = Some s'" "obType (obj_at s p) = ot_NtSegment" for s'
  proof (rule P_retype)
    show "P s'" using ClearAllHazards_post [OF assms, of p] that(1) by (simp add: ipost_def)
    show "obType (obj_at s' p) = ot_NtSegment"
      using ClearHazards_objs that by (simp add: node_ClearAllHazards_def obj_at_def)
  qed
  with assms show ?thesis
    unfolding node_Unprepare_def
    by (auto simp: ipost_def bind_eq_Some_conv split: ObType.splits)
qed

end

text \<open>Preparing keys and making objects writable keep the conditions.\<close>

lemma clearable_same_world:
  assumes "clearable s" "same_world s s'"
    and "\<And>r. keyBits_IsHazard (keys s' r) \<Longrightarrow>
      keyBits_IsHazard (keys s r) \<and> keyBits_IsRdHazard (keys s' r) = keyBits_IsRdHazard (keys s r)"
  shows "clearable s'"
  unfolding clearable_def
proof (intro allI impI)
  fix r assume h: "keyBits_IsHazard (keys s' r)"
  with assms(1,3) have "mapping_hazard s r" by (simp add: clearable_def)
  moreover have "obType (obj_at s' p) = obType (obj_at s p)" for p
    using assms(2) by (simp add: same_world_def same_ident_def)
  ultimately show "mapping_hazard s' r"
    using assms(3) [OF h] by (simp add: mapping_hazard_def split: kref.splits)
qed

lemma SetPrepared_hazard [simp]:
  "keyBits_IsHazard (keyBits_SetPrepared k) = keyBits_IsHazard k"
  "keyBits_IsRdHazard (keyBits_SetPrepared k) = keyBits_IsRdHazard k"
  by (auto simp: key_flag_bits keyBits_SetPrepared_def KFL_PREPARED_def bit_simps)

lemma key_DoPrepare_world:
  assumes "kern_inv s" "key_DoPrepare r s = Some (v, s')"
  shows "same_world s s'" "k_inv s' = k_inv s" "clearable s \<Longrightarrow> clearable s'"
proof -
  have "\<exists>k s1. s' = upd_key r k s1 \<and> same_world s s1 \<and> k_inv s1 = k_inv s \<and> keys s1 = keys s
    \<and> (keyBits_IsHazard k \<longrightarrow> keyBits_IsHazard (keys s r)
      \<and> keyBits_IsRdHazard k = keyBits_IsRdHazard (keys s r))"
  proof (cases "keyBits_IsObjectKey (keys s r)")
    case True
    from key_DoPrepare_outcome [OF kern_inv_wf_objs [OF assms(1)] True assms(2)]
    consider "s' = upd_key r (keyBits_SetPrepared void_key) s"
      | u where "s' = upd_key r (keyBits_SetPrepared ((keys s r)\<lparr>key_u := u\<rparr>)) (link_prepared r u s)"
      by (auto simp: prepare_outcome_def prep_result_def split: if_splits)
    then show ?thesis
    proof cases
      case 2
      moreover have "keyBits_IsHazard ((keys s r)\<lparr>key_u := u\<rparr>) = keyBits_IsHazard (keys s r)"
        "keyBits_IsRdHazard ((keys s r)\<lparr>key_u := u\<rparr>) = keyBits_IsRdHazard (keys s r)"
        by (simp_all add: keyBits_IsHazard_def keyBits_IsRdHazard_def)
      ultimately show ?thesis
        by (intro exI [of _ "keyBits_SetPrepared ((keys s r)\<lparr>key_u := u\<rparr>)"] exI [of _ "link_prepared r u s"])
          simp
    qed (auto intro!: exI [of _ s])
  next
    case False
    then have "s' = upd_key r (keyBits_SetPrepared (keys s r)) s" using assms(2)
      by (cases "keyType (keys s r)") (auto simp: key_DoPrepare_def key_kinds)
    then show ?thesis by (intro exI [of _ "keyBits_SetPrepared (keys s r)"] exI [of _ s]) simp
  qed
  then obtain k s1 where *: "s' = upd_key r k s1" "same_world s s1" "k_inv s1 = k_inv s" "keys s1 = keys s"
    "keyBits_IsHazard k \<longrightarrow> keyBits_IsHazard (keys s r) \<and> keyBits_IsRdHazard k = keyBits_IsRdHazard (keys s r)"
    by blast
  then show "same_world s s'" "k_inv s' = k_inv s" by simp_all
  show "clearable s'" if "clearable s"
    by (rule clearable_same_world [OF that]) (use * in \<open>auto split: if_splits\<close>)
qed

lemma key_Prepare_world:
  assumes "kern_inv s" "key_Prepare r s = Some s'"
  shows "same_world s s'" "k_inv s' = k_inv s" "clearable s \<Longrightarrow> clearable s'"
  using assms key_DoPrepare_world [OF assms(1), of r]
  by (auto simp: key_Prepare_def bind_eq_Some_conv split: if_splits)

lemma counts_ok_world: "counts_ok s \<Longrightarrow> same_world s s' \<Longrightarrow> counts_ok s'"
  by (simp add: counts_ok_def same_world_is_obj) (simp add: same_world_def same_ident_def)

context key_rescinds
begin

lemma rk_rescind_post:
  assumes "P s" "clearable s" "counts_ok s"
  shows "opost R (rk_rescind a b s)"
  unfolding rk_rescind_def Let_def
proof (rule post_bind_eq(1))
  fix s1 assume prep: "key_Prepare (entry_key (k_inv s) 0) s = Some s1"
  note w1 = key_Prepare_world [OF P_inv [OF assms(1)] prep]
  have inv1: "P s1" using post_prepare(1) [OF assms(1)] prep by (simp add: ipost_def)
  show "opost R (if ValidateKey (keys s1 (entry_key (k_inv s) 0)) = None then range_error s1
     else do {
       pObject \<leftarrow> key_GetObjectPtr s1 (keys s1 (entry_key (k_inv s) 0));
       if obOid (obj_at s1 pObject) < a \<or> obOid (obj_at s1 pObject) > b then range_error s1
       else do {
         s \<leftarrow> objH_EnsureWritable pObject s1;
         s \<leftarrow> COMMIT_POINT s;
         s \<leftarrow> objH_Rescind pObject s;
         s \<leftarrow> objH_ClearObj pObject s;
         s \<leftarrow> (if objH_isNodeType (obj_at s pObject) then node_Unprepare pObject s else Some s);
         ReturnCode RC_OK s } })"
  proof (rule post_if(2) [OF after.range_error_post [OF P_R [OF inv1]]], rule post_bind_eq(1),
      rule post_if(2) [OF after.range_error_post [OF P_R [OF inv1]]], rule post_bind_eq(1), rule post_bind_eq(1),
      rule post_bind(2))
    fix p s2 s3
    assume p: "key_GetObjectPtr s1 (keys s1 (entry_key (k_inv s) 0)) = Some p"
      and s2: "objH_EnsureWritable p s1 = Some s2" and s3: "COMMIT_POINT s2 = Some s3"
    have "P s2" using post_object(1) [OF inv1] s2 by (simp add: ipost_def)
    then have inv3: "P s3" using post_invocation(1) s3 by (simp add: ipost_def)
    have w: "same_world s1 s3" "keys s3 = keys s1"
      using EnsureWritable_frame [OF s2] s3 by (auto simp: COMMIT_POINT_Some)
    have "clearable s3" by (rule clearable_same_world [OF w1(3) [OF assms(2)] w(1)]) (simp add: w(2))
    moreover have "counts_ok s3" using assms(3) w1(1) w(1) by (blast intro: counts_ok_world same_world_trans)
    moreover have "is_obj s3 p" using GetObjectPtr_obj(1) [OF P_inv [OF inv1] p] same_world_is_obj [OF w(1)] by simp
    ultimately show "ipost R (objH_Rescind p s3)"
      using P_Rescind [OF inv3] by (simp add: counts_ok_def ipost_def)
  next
    fix p s4 assume "R s4"
    then show "opost R (do {
         s \<leftarrow> objH_ClearObj p s4;
         s \<leftarrow> (if objH_isNodeType (obj_at s p) then node_Unprepare p s else Some s);
         ReturnCode RC_OK s })"
      by (auto intro!: kpost)
  qed
qed

end

section \<open>The contract\<close>

lemma range_commits [kcommit]:
  "cpost (range_error s)" "cpost (rk_query a b s)" "cpost (rk_nextSubrange a b s)"
  "cpost (rk_makeSubrange a b s)" "cpost (rk_identify a b s)" "cpost (rk_rescind a b s)"
  "cpost (rk_compare a b s)" "cpost (rk_getFrameCounts a b s)" "cpost (MakeObjectKey a b off w bt t s)"
  "cpost (rk_getCap f a b s)"
  unfolding range_error_def rk_query_def rk_nextSubrange_def rk_makeSubrange_def rk_identify_def
    rk_rescind_def rk_compare_def rk_getFrameCounts_def MakeObjectKey_def rk_getCap_def Let_def
  by (intro kcommit)+

lemma RangeKey_commits: "cpost (RangeKey s)"
proof -
  have "cpost (rk_dispatch a b s)" for a b s
    unfolding rk_dispatch_def by (cases "entry_code (k_inv s)"; simp; intro kcommit)
  then show ?thesis unfolding RangeKey_def by (auto intro!: kcommit)
qed

text \<open>Finding the returnee changes nothing that these conditions depend on.\<close>

lemma GetReturnee_world:
  assumes "kern_inv s" "inv_GetReturnee s = Some s'"
  shows "same_world s s'" "clearable s \<Longrightarrow> clearable s'"
proof -
  obtain s1 where s1: "s1 = s \<or> key_Prepare (entry_key (k_inv s) RESUME_SLOT) s = Some s1" "exit_step s1 s'"
    using inv_GetReturnee_step [OF assms(2)] by blast
  note e = exit_stepD [OF s1(2)]
  have w: "same_world s1 s'" by (rule same_worldI) (simp_all add: e)
  have "same_world s s1" using s1(1) key_Prepare_world(1) [OF assms(1)] by auto
  then show "same_world s s'" using w by (rule same_world_trans)
  assume c: "clearable s"
  then have "clearable s1" using s1(1) key_Prepare_world(3) [OF assms(1)] by auto
  then show "clearable s'" by (rule clearable_same_world [OF _ w]) (simp add: e)
qed

lemma count_used_world: "count_used oid s \<Longrightarrow> same_world s s' \<Longrightarrow> count_used oid s'"
  by (auto simp: count_used_def same_world_lookup intro: same_world_flags split: option.splits)

lemma range_ready_returnee:
  assumes "kern_inv s" "range_ready s" "inv_GetReturnee s = Some s'"
  shows "range_ready s'"
proof -
  note G = GetReturnee_keys [OF kern_inv_wf_objs [OF assms(1)] assms(3)]
  note W = GetReturnee_world [OF assms(1,3)]
  have "range_type s'"
    using assms(2) G(1) G(6) [of "inv_key (k_inv s)"]
    by (auto simp: range_ready_def range_type_def same_request_def key_kinds)
  moreover have "entry_code (k_inv s') = entry_code (k_inv s)" using G(1) by (simp add: same_request_def)
  moreover have "getCap_ready s'" if "getCap_ready s"
  proof -
    have "keyType (keys s' (inv_key (k_inv s'))) = keyType (keys s (inv_key (k_inv s)))"
      "key_u (keys s' (inv_key (k_inv s'))) = key_u (keys s (inv_key (k_inv s)))"
      using assms(2) G(1) G(6) [of "inv_key (k_inv s)"] by (auto simp: range_ready_def range_type_def same_request_def key_kinds)
    then have "key_GetRange (keys s' (inv_key (k_inv s'))) = key_GetRange (keys s (inv_key (k_inv s)))"
      by (simp add: key_GetRange_def)
    moreover have "w2w3Offset s' = w2w3Offset s" "entry_w1 (k_inv s') = entry_w1 (k_inv s)"
      using G(1) by (simp_all add: w2w3Offset_def same_request_def)
    ultimately show ?thesis using that count_used_world [OF _ W(1)] by (auto simp: getCap_ready_def split: option.splits)
  qed
  ultimately show ?thesis
    using assms(2) W counts_ok_world [OF _ W(1)] by (simp add: range_ready_def)
qed

context key_rescinds
begin

lemma RangeKey_post:
  assumes "P s" "range_ready s"
  shows "opost R (RangeKey s)"
  unfolding RangeKey_def
proof (rule post_bind_eq(1), rule post_bind_eq(1), rule post_prod)
  fix s' x a b
  assume s': "inv_GetReturnee s = Some s'" and x: "key_GetRange (keys s' (inv_key (k_inv s'))) = Some x" "x = (a, b)"
  have inv': "P s'" using post_returnee(1) [OF assms(1)] s' by (simp add: ipost_def)
  note ready = range_ready_returnee [OF P_inv [OF assms(1)] assms(2) s']
  have cap: "opost R (rk_getCap w a b s')" if "entry_code (k_inv s') \<in> {OC_capros_Range_getCap, OC_capros_Range_waitCap}" for w
    using that ready x by (intro after.rk_getCap_post [OF P_R [OF inv']]) (auto simp: range_ready_def getCap_ready_def)
  show "opost R (rk_dispatch a b s')"
    unfolding rk_dispatch_def using inv' P_R [OF inv'] ready cap
    by (cases "entry_code (k_inv s')") (auto simp: range_ready_def intro!: kpost rk_rescind_post)
qed

end

interpretation range: key_handler range_ready RangeKey
  by unfold_locales (simp_all add: inv.RangeKey_post RangeKey_commits)

end
