(* ===== verification/Gate_Key.thy ===== *)
theory Gate_Key
  imports Range_Key_Props
begin

text \<open>
  The end of an invocation (\<^verbatim>\<open>ReturnMessage\<close> of sys/kernel/kern_Invoke.c) and gate keys
  (sys/key/pk_GateKey.c).
\<close>

section \<open>Delivering the answer\<close>

definition on_proc :: "proc_ptr \<Rightarrow> (Process \<Rightarrow> Process) \<Rightarrow> kern \<Rightarrow> kern" where
  "on_proc p f s = s\<lparr>k_sched := upd_proc p f (k_sched s)\<rparr>"

text \<open>Void all resume keys to a process, prepared and unprepared, and what stands for one in the
  kernel, an activity that is to be restarted.\<close>

definition proc_ZapResumeKeys :: "proc_ptr \<Rightarrow> kern \<Rightarrow> kern option" where
  "proc_ZapResumeKeys p s = do {
     s \<leftarrow> keyR_ZapResumeKeys (ProcRing p) s;
     root \<leftarrow> procRoot s p;
     s \<leftarrow> node_BumpCallCount root s;
     case curActivity (procs (k_sched s) p) of
       None \<Rightarrow> Some s
     | Some act \<Rightarrow>
         if act_actHazard (acts (k_sched s) act) \<noteq> actHaz_None
         then on_sched (delete_proc_activity p) s else Some s }"

definition deliver_regs :: "u32 \<Rightarrow> u32 \<Rightarrow> u32 \<Rightarrow> u32 \<Rightarrow> nat \<Rightarrow> (nat \<Rightarrow> u32) \<Rightarrow> nat \<Rightarrow> u32" where
  "deliver_regs code w1 w2 w3 len tf = tf(1 := code, 2 := w1, 3 := w2, 4 := w3, 12 := of_nat len)"

definition proc_DeliverResult :: "proc_ptr \<Rightarrow> kern \<Rightarrow> kern option" where
  "proc_DeliverResult p s = do {
     assert_that (proc_IsRunnable (procs (k_sched s) p));
     let i = k_inv s;
     Some (on_proc p (trapFrame_update
       (deliver_regs (k_RC s (exit_code i)) (exit_w1 i) (exit_w2 i) (exit_w3 i) (sentLen i))) s) }"

text \<open>Without an invokee the activity that was kept for it goes.\<close>

definition release_allocated :: "sched \<Rightarrow> sched option" where
  "release_allocated x = do {
     a \<leftarrow> allocatedActivity x;
     assert_that (act_ValidateActivity a x);
     if act_state (acts x a) = act_Running then do {
       assert_that (act_curActivity x = Some a);
       act_DeleteCurrent x }
     else do {
       assert_that (act_state (acts x a) = act_Free);
       act_FreeActivity a x } }"

definition ReturnMessage :: "kern \<Rightarrow> kern option" where
  "ReturnMessage s = do {
     assert_that (InvocationCommitted s);
     case invokee (k_inv s) of
       None \<Rightarrow> on_sched release_allocated s
     | Some p \<Rightarrow> do {
         assert_that (proc_IsRunnable (procs (k_sched s) p));
         s \<leftarrow> (if proc_curProcess (k_sched s) \<noteq> Some p then do {
                 s \<leftarrow> (if keyType (keys s (inv_key (k_inv s))) \<noteq> KKT_Start then do {
                         assert_that (runState (procs (k_sched s) p) = RS_Waiting);
                         proc_ZapResumeKeys p s }
                       else Some s);
                 on_sched (MigrateAllocatedActivity p) s }
               else Some s);
         let s = on_proc p (runState_update (\<lambda>_. RS_Running)) s;
         if proc_IsExpectingMsg (procs (k_sched s) p) then do {
           s \<leftarrow> proc_DeliverResult p s;
           Some (on_proc p proc_AdvancePostInvocationPC s) }
         else Some s } }"

section \<open>Gate keys\<close>

datatype result = Done kern | Asleep kern

primrec res_state :: "result \<Rightarrow> kern" where
  "res_state (Done s) = s"
| "res_state (Asleep s) = s"

text \<open>The keys of the message. A caller's resume key is made only now.\<close>

definition gate_copy_key :: "nat \<Rightarrow> kern \<Rightarrow> kern" where
  "gate_copy_key i s =
     (case exit_pKey (k_inv s) i of None \<Rightarrow> s | Some d \<Rightarrow> key_NH_Set d (entry_key (k_inv s) i) s)"

definition gate_resume_key :: "proc_ptr \<Rightarrow> kern \<Rightarrow> kern" where
  "gate_resume_key invoker s =
     (case exit_pKey (k_inv s) RESUME_SLOT of
        None \<Rightarrow> s
      | Some d \<Rightarrow>
          if invType_IsCall (invType (k_inv s)) then proc_BuildResumeKey invoker d s
          else key_NH_Set d (entry_key (k_inv s) RESUME_SLOT) s)"

definition gate_copy_keys :: "proc_ptr \<Rightarrow> proc_ptr \<Rightarrow> kern \<Rightarrow> kern" where
  "gate_copy_keys invoker p s =
     (let rcvKeys = trapFrame (procs (k_sched s) p) 14 in
      if rcvKeys = 0 then s
      else let s = (if rcvKeys AND 0x1f1f1f \<noteq> 0
                    then gate_copy_key 2 (gate_copy_key 1 (gate_copy_key 0 s)) else s)
           in gate_resume_key invoker s)"

definition proc_DeliverGateResult :: "proc_ptr \<Rightarrow> kern \<Rightarrow> kern" where
  "proc_DeliverGateResult p s =
     (let i = k_inv s; kd = keyData (keys s (inv_key i))
      in on_proc p (trapFrame_update (\<lambda>tf. (deliver_regs (k_OC s (entry_code i)) (entry_w1 i) (entry_w2 i)
           (entry_w3 i) (sentLen i) tf)(14 := ucast kd))) s)"

text \<open>What a process that does not expect a message is told by its keeper: whether the fault is
  repaired.\<close>

definition gate_restart :: "proc_ptr \<Rightarrow> kern \<Rightarrow> kern" where
  "gate_restart p s =
     (if k_OC s (entry_code (k_inv s)) \<noteq> 0 \<and> faultCode (procs (k_sched s) p) \<noteq> 0
      then on_proc p (\<lambda>q. q\<lparr>processFlags := processFlags q OR capros_Process_PF_FaultToProcessKeeper\<rparr>) s
      else on_proc p proc_ClearFault s)"

text \<open>The transfer of the message, after the checks.\<close>

definition gate_transfer :: "proc_ptr \<Rightarrow> proc_ptr \<Rightarrow> kkt \<Rightarrow> kern \<Rightarrow> kern option" where
  "gate_transfer invoker p t s = do {
     s \<leftarrow> inv_SetupExitBlock s;
     s \<leftarrow> proc_SetupExitString (Some p) (length (entry_data (k_inv s))) s;
     s \<leftarrow> COMMIT_POINT s;
     s \<leftarrow> (if t = KKT_Resume then proc_ZapResumeKeys p s else Some s);
     s \<leftarrow> on_sched (MigrateAllocatedActivity p) s;
     let s = on_proc p (runState_update (\<lambda>_. RS_Running)) s;
     if \<not> proc_IsExpectingMsg (procs (k_sched s) p) then Some (gate_restart p s)
     else do {
       s \<leftarrow> inv_CopyOut (entry_data (k_inv s)) s;
       let s = gate_copy_keys invoker p s;
       let s = proc_DeliverGateResult p s;
       Some (on_proc p proc_AdvancePostInvocationPC s) } }"

definition void_result :: "kern \<Rightarrow> result option" where
  "void_result s = do {
     out \<leftarrow> VoidKey s;
     s \<leftarrow> ReturnMessage (out_state out);
     Some (Done s) }"

text \<open>The part of \<^verbatim>\<open>GateKey\<close> after the invokee is found and checked.\<close>

definition gate_enter :: "proc_ptr \<Rightarrow> kkt \<Rightarrow> kern \<Rightarrow> result option" where
  "gate_enter p t s =
     (if t = KKT_Start \<and> runState (procs (k_sched s) p) \<noteq> RS_Available then do {
        s \<leftarrow> on_sched (act_SleepOn (SQ_Proc p)) s;
        Some (Asleep s) }
      else do {
        invoker \<leftarrow> proc_curProcess (k_sched s);
        assert_that (p \<noteq> invoker);
        s \<leftarrow> gate_transfer invoker p t s;
        Some (Done s) })"

definition GateKey :: "kern \<Rightarrow> result option" where
  "GateKey s = do {
     let invKey = inv_key (k_inv s);
     (voided, s) \<leftarrow> key_PrepareForInv invKey s;
     if voided then void_result s
     else do {
       p \<leftarrow> key_pContext (keys s invKey);
       assert_that (proc_IsRunnable (procs (k_sched s) p));
       assert_that (proc_IsWellFormed (procs (k_sched s) p));
       let s = (set_invokee (Some p) s)\<lparr>ReturneeSetUp := True\<rparr>;
       let t = keyType (keys s invKey);
       assert_that (t \<noteq> KKT_Resume \<or> runState (procs (k_sched s) p) = RS_Waiting);
       gate_enter p t s } }"

end
