(* ===== verification/Proc_Tool.thy ===== *)
theory Proc_Tool
  imports Range_Key_Props
begin

text \<open>
  The process tool (sys/key/mk_ProcessTool.c): making process keys from keys to process roots, and
  opening keys to processes, and keys kept by processes, for the holder of the brand of the
  process.
\<close>

section \<open>Definitions\<close>

definition ProcBrand :: nat where "ProcBrand = 6"

definition same_brand :: "KeyBits \<Rightarrow> KeyBits \<Rightarrow> bool" where
  "same_brand k0 k1 =
     (keyType k0 = keyType k1 \<and> keyData k0 = keyData k1
      \<and> (if keyBits_IsObjectKey k0 then key_u k0 = key_u k1
         else nk_value k0 0 = nk_value k1 0 \<and> nk_value k0 1 = nk_value k1 1 \<and> nk_value k0 2 = nk_value k1 2))"

definition return_node :: "obj_ptr \<Rightarrow> kern \<Rightarrow> kern option" where
  "return_node root s =
     (case exit_pKey (k_inv s) 0 of
        None \<Rightarrow> Some s
      | Some k \<Rightarrow> key_SetToObj k root KKT_Node 0 0 (keyBits_Unchain k s))"

text \<open>The comparison, when both brands are prepared and the invocation is committed.\<close>

definition brand_answer :: "kref \<Rightarrow> kref \<Rightarrow> obj_ptr \<Rightarrow> kern \<Rightarrow> (bool \<times> kern) option" where
  "brand_answer pDomKey pBrand root s =
     (if \<not> same_brand (keys s pBrand) (keys s (KSlot root ProcBrand)) then Some (False, s)
      else do {
        let k = keys s pDomKey;
        let s = set_exit_w2 (ucast (keyData k)) (set_exit_w1 (of_nat (kkt_num (keyType k))) s);
        s \<leftarrow> return_node root s;
        Some (True, s) })"

definition CompareBrand :: "kref \<Rightarrow> kref \<Rightarrow> kern \<Rightarrow> (bool \<times> kern) option" where
  "CompareBrand pDomKey pBrand s = do {
     assert_that (keyBits_IsPrepared (keys s pDomKey));
     assert_that (keyBits_IsProcessType (keys s pDomKey));
     s \<leftarrow> key_Prepare pBrand s;
     ctx \<leftarrow> key_pContext (keys s pDomKey);
     root \<leftarrow> procRoot s ctx;
     s \<leftarrow> key_Prepare (KSlot root ProcBrand) s;
     s \<leftarrow> COMMIT_POINT s;
     brand_answer pDomKey pBrand root s }"

definition pt_refuse :: "RC \<Rightarrow> kern \<Rightarrow> outcome option" where
  "pt_refuse rc s = do { s \<leftarrow> COMMIT_POINT s; ReturnCode rc s }"

definition pt_makeProcess :: "kern \<Rightarrow> outcome option" where
  "pt_makeProcess s = do {
     let key0 = entry_key (k_inv s) 0;
     s \<leftarrow> key_Prepare key0 s;
     let k = keys s key0;
     if \<not> keyBits_IsType k KKT_Node \<or> keyBits_IsReadOnly k \<or> keyBits_IsNoCall k
     then pt_refuse RC_capros_key_RequestError s
     else do {
       assert_that (\<not> keyBits_IsHazard k);
       pNode \<leftarrow> key_pObj k;
       proc \<leftarrow> node_GetProcess s pNode;
       s \<leftarrow> COMMIT_POINT s;
       let s = (case exit_pKey (k_inv s) 0 of
                  None \<Rightarrow> s
                | Some d \<Rightarrow> key_SetToProcess d proc KKT_Process 0 (keyBits_Unchain d s));
       ReturnCode RC_OK s } }"

definition pt_identifyProcess :: "kern \<Rightarrow> outcome option" where
  "pt_identifyProcess s = do {
     let key0 = entry_key (k_inv s) 0;
     s \<leftarrow> key_Prepare key0 s;
     if \<not> keyBits_IsType (keys s key0) KKT_Process then pt_refuse RC_capros_key_NoAccess s
     else do {
       (same, s) \<leftarrow> CompareBrand key0 (entry_key (k_inv s) 1) s;
       if \<not> same then ReturnCode RC_capros_key_NoAccess s
       else ReturnCode RC_OK (set_exit_w1 0 (set_exit_w2 0 s)) } }"

text \<open>A gate key is checked before the operation goes on.\<close>

definition pt_check_gate :: "kref \<Rightarrow> (bool \<Rightarrow> kern \<Rightarrow> outcome option) \<Rightarrow> kern \<Rightarrow> outcome option" where
  "pt_check_gate domKey f s = do {
     s \<leftarrow> key_Prepare domKey s;
     if \<not> keyBits_IsGateKey (keys s domKey) then pt_refuse RC_capros_key_NoAccess s
     else do {
       let isResume = keyBits_IsType (keys s domKey) KKT_Resume;
       (same, s) \<leftarrow> CompareBrand domKey (entry_key (k_inv s) 1) s;
       if \<not> same then ReturnCode RC_capros_key_NoAccess s
       else f isResume s } }"

text \<open>
  The key to the process is read again after \<^verbatim>\<open>CompareBrand\<close>, which has already set the key register
  of the answer.
\<close>

definition pt_open_process :: "bool \<Rightarrow> kern \<Rightarrow> outcome option" where
  "pt_open_process isResume s = do {
     let key0 = entry_key (k_inv s) 0;
     let s = set_exit_w1 (if isResume then 2 else 1) s;
     let s = set_exit_w2 (if isResume then 0 else ucast (keyData (keys s key0))) s;
     case exit_pKey (k_inv s) 0 of
       None \<Rightarrow> ReturnCode RC_OK s
     | Some d \<Rightarrow> do {
         let s = keyBits_Unchain d s;
         ctx \<leftarrow> key_pContext (keys s key0);
         root \<leftarrow> procRoot s ctx;
         s \<leftarrow> key_SetToObj d root KKT_Node 0 0 s;
         ReturnCode RC_OK s } }"

definition pt_canOpener :: "kern \<Rightarrow> outcome option" where
  "pt_canOpener s = pt_check_gate (entry_key (k_inv s) 0) pt_open_process s"

definition pt_return_gpt :: "bool \<Rightarrow> kern \<Rightarrow> outcome option" where
  "pt_return_gpt isResume s = do {
     let key0 = entry_key (k_inv s) 0;
     let s = set_exit_w1 (if isResume then 1 else 0) s;
     let s = set_exit_w2 (if isResume then 0 else ucast (keyData (keys s key0))) s;
     case exit_pKey (k_inv s) 0 of
       None \<Rightarrow> ReturnCode RC_OK s
     | Some d \<Rightarrow> do {
         s \<leftarrow> inv_SetExitKey 0 key0 s;
         let k = keys s d;
         ReturnCode RC_OK (upd_key d (k\<lparr>keyPerms := keyPerms k AND NOT capros_Memory_opaque\<rparr>) s) } }"

definition pt_identGPTKeeper :: "kern \<Rightarrow> outcome option" where
  "pt_identGPTKeeper s = do {
     let key0 = entry_key (k_inv s) 0;
     s \<leftarrow> key_Prepare key0 s;
     if \<not> keyBits_IsType (keys s key0) KKT_GPT \<or> keyBits_IsNoCall (keys s key0)
     then pt_refuse RC_capros_key_NoAccess s
     else do {
       theGPT \<leftarrow> key_GetObjectPtr s (keys s key0);
       if node_GetL2vField (obj_at s theGPT) AND GPT_KEEPER = 0 then pt_refuse RC_capros_key_NoAccess s
       else pt_check_gate (KSlot theGPT capros_GPT_keeperSlot) pt_return_gpt s } }"

definition pt_return_forwarder :: "kref \<Rightarrow> bool \<Rightarrow> kern \<Rightarrow> outcome option" where
  "pt_return_forwarder domKey _ s = do {
     let key0 = entry_key (k_inv s) 0;
     let s = (if keyBits_IsType (keys s domKey) KKT_Resume then set_exit_w2 0 (set_exit_w1 2 s)
              else set_exit_w1 1 (set_exit_w2 (ucast (keyData (keys s domKey))) s));
     case exit_pKey (k_inv s) 0 of
       None \<Rightarrow> ReturnCode RC_OK s
     | Some d \<Rightarrow> do {
         s \<leftarrow> inv_SetExitKey 0 key0 s;
         ReturnCode RC_OK (upd_key d ((keys s d)\<lparr>keyType := KKT_Forwarder, keyData := 0\<rparr>) s) } }"

definition pt_identForwarderTarget :: "kern \<Rightarrow> outcome option" where
  "pt_identForwarderTarget s = do {
     let key0 = entry_key (k_inv s) 0;
     s \<leftarrow> key_Prepare key0 s;
     if \<not> keyBits_IsType (keys s key0) KKT_Forwarder then pt_refuse RC_capros_key_NoAccess s
     else do {
       theNode \<leftarrow> key_GetObjectPtr s (keys s key0);
       let domKey = KSlot theNode ForwarderTargetSlot;
       pt_check_gate domKey (pt_return_forwarder domKey) s } }"

definition ProcessToolKey :: "kern \<Rightarrow> outcome option" where
  "ProcessToolKey s = do {
     s \<leftarrow> inv_GetReturnee s;
     let s = set_exit_code RC_capros_key_RequestError s;
     case entry_code (k_inv s) of
       ProcTool_OC OC_capros_ProcTool_makeProcess \<Rightarrow> pt_makeProcess s
     | ProcTool_OC OC_capros_ProcTool_canOpener \<Rightarrow> pt_canOpener s
     | ProcTool_OC OC_capros_ProcTool_identifyProcess \<Rightarrow> pt_identifyProcess s
     | ProcTool_OC OC_capros_ProcTool_identGPTKeeper \<Rightarrow> pt_identGPTKeeper s
     | ProcTool_OC OC_capros_ProcTool_identForwarderTarget \<Rightarrow> pt_identForwarderTarget s
     | OC_capros_key_getType \<Rightarrow> do {
         s \<leftarrow> COMMIT_POINT s;
         ReturnCode RC_OK (set_exit_w1 (k_akt s KKT_ProcessTool) s) }
     | _ \<Rightarrow> pt_refuse RC_capros_key_UnknownRequest s }"

section \<open>Making process keys\<close>

lemma key_SetToProcess_inv:
  assumes "kern_inv s" "procRoot s p = Some q" "is_obj s q" "obType (obj_at s q) = ot_NtProcessRoot"
    and "prep_context (obj_at s q) = p" "t \<in> {KKT_Process, KKT_Start}"
  shows "kern_inv (key_SetToProcess r p t dat (keyBits_Unchain r s))"
proof -
  let ?k = "keyBits_SetPrepared ((keyBits_InitType (keys s r) t)\<lparr>keyData := dat, keyPerms := 0, key_u := U_gk p\<rparr>)"
  have t: "keyType ?k = t" by (simp add: keyBits_InitType_def)
  have prep: "keyBits_IsPrepared ?k" by simp
  have kinds: "keyBits_IsObjectKey ?k" "keyBits_IsProcessType ?k" "\<not> is_resume ?k"
    using t assms(6) by (auto simp: key_kinds is_resume_def)
  have ring: "key_ring ?k = Some (ProcRing p)"
    using prep kinds by (simp add: key_ring_def keyBits_IsPreparedObjectKey_def key_pContext_def)
  have v: "ring_ok ((keys s)(r := void_key)) (unchain r (keys s r) (rings s))"
    using unchain_ok [OF kern_inv_ring [OF assms(1)], of void_key r] by simp
  have "ring_ok (((keys s)(r := void_key))(r := ?k))
      ((unchain r (keys s r) (rings s))(ProcRing p := r # unchain r (keys s r) (rings s) (ProcRing p)))"
    using ring kinds by (intro chain_first_ok [OF v]) simp_all
  moreover have "wf_key s ?k" using assms(2-5) prep kinds by (simp add: wf_key_def)
  ultimately show ?thesis using prep
    by (intro kern_inv_set_key [OF assms(1), where k = ?k and r = r])
      (simp_all add: key_SetToProcess_def Let_def link_insertAfter_def)
qed

lemma key_SetToProcess_frame:
  "same_world s (key_SetToProcess d p t dat (keyBits_Unchain d s))"
  "k_sched (key_SetToProcess d p t dat (keyBits_Unchain d s)) = k_sched s"
  "r \<noteq> d \<Longrightarrow> keys (key_SetToProcess d p t dat (keyBits_Unchain d s)) r = keys s r"
  "keyType (keys (key_SetToProcess d p t dat (keyBits_Unchain d s)) d) = t"
  by (auto simp: key_SetToProcess_def Let_def keyBits_InitType_def link_insertAfter_def)

text \<open>A root node that is in use as such.\<close>

definition root_ok :: "kern \<Rightarrow> proc_ptr \<Rightarrow> obj_ptr \<Rightarrow> bool" where
  "root_ok s ctx root = (procRoot s ctx = Some root \<and> is_obj s root \<and> obType (obj_at s root) = ot_NtProcessRoot
     \<and> prep_context (obj_at s root) = ctx)"

lemma root_ok_world:
  assumes "same_world s s'"
  shows "root_ok s' ctx root = root_ok s ctx root"
proof -
  have "is_obj s' root = is_obj s root" "procRoot s' = procRoot s"
    "obType (obj_at s' root) = obType (obj_at s root)" "prep_context (obj_at s' root) = prep_context (obj_at s root)"
    using assms same_world_is_obj [OF assms] by (simp_all add: same_world_def same_ident_def)
  then show ?thesis by (simp add: root_ok_def)
qed

lemma root_ok_process_key:
  assumes "kern_inv s" "keyBits_IsPrepared (keys s r)" "keyBits_IsProcessType (keys s r)"
    and "key_pContext (keys s r) = Some ctx" "procRoot s ctx = Some root"
  shows "root_ok s ctx root"
proof -
  have "keyBits_IsObjectKey (keys s r)" using assms(3) by (auto simp: key_kinds)
  with kern_inv_wf_key [OF assms(1), of r] assms(2-5) show ?thesis
    by (auto simp: wf_key_def root_ok_def key_pContext_def)
qed

lemma root_ok_GetProcess:
  assumes "kern_inv s" "is_obj s p" "node_GetProcess s p = Some ctx"
  shows "root_ok s ctx p"
  using assms kern_inv_wf_procs [OF assms(1)] by (auto simp: node_GetProcess_def root_ok_def wf_procs_def split: if_splits)

lemma key_Prepare_keeps:
  assumes "kern_inv s" "key_Prepare r s = Some s'" "keyBits_IsPrepared (keys s d)"
  shows "keys s' d = keys s d"
  using key_Prepare_result(1,2) [OF kern_inv_wf_objs [OF assms(1)] assms(2)] assms(3)
  by (cases "d = r") (auto simp: only_key_def)

lemma COMMIT_frame:
  assumes "COMMIT_POINT s = Some s'"
  shows "keys s' = keys s" "same_world s s'" "k_inv s' = k_inv s" "InvocationCommitted s'"
  using assms by (auto simp: COMMIT_POINT_Some)

lemma key_Prepare_inv_block:
  assumes "kern_inv s" "key_Prepare r s = Some s'"
  shows "k_inv s' = k_inv s"
  using key_Prepare_result(1) [OF kern_inv_wf_objs [OF assms(1)] assms(2)] by (auto simp: only_key_def)

lemma key_Prepare_prepared:
  assumes "kern_inv s" "key_Prepare r s = Some t" "keyBits_IsObjectKey (keys t r)"
  shows "keyBits_IsPrepared (keys t r)"
proof (cases "keyBits_IsPrepared (keys s r)")
  case True
  with key_Prepare_result(2) [OF kern_inv_wf_objs [OF assms(1)] assms(2)] show ?thesis by simp
next
  case False
  with assms(2) obtain v where v: "key_DoPrepare r s = Some (v, t)"
    by (auto simp: key_Prepare_def bind_eq_Some_conv)
  have ob: "keyBits_IsObjectKey (keys s r)"
    using key_Prepare_result(3) [OF kern_inv_wf_objs [OF assms(1)] assms(2)] assms(3) by (auto simp: key_kinds)
  have "\<not> v" using key_DoPrepare_outcome [OF kern_inv_wf_objs [OF assms(1)] ob v] assms(3)
    by (auto simp: prepare_outcome_def key_kinds)
  with v DoPrepare_type [OF kern_inv_wf_objs [OF assms(1)], of r t] show ?thesis by simp
qed

text \<open>
  What comparing brands does: the keys are prepared and the invocation commits in a state \<open>u\<close>;
  if the brands agree, the register of the answer is set then.
\<close>

lemma CompareBrand_cases:
  assumes "kern_inv s" "CompareBrand d b s = Some (same, s')"
  obtains u ctx root where "root_ok u ctx root" "kern_inv u" "k_inv u = k_inv s" "InvocationCommitted u"
    and "key_pContext (keys s d) = Some ctx" "\<And>r. keyBits_IsPrepared (keys s r) \<Longrightarrow> keys u r = keys s r"
    and "\<And>P. key_closed P \<Longrightarrow> P s \<Longrightarrow> P u" "brand_answer d b root u = Some (same, s')"
proof -
  from assms(2) obtain s1 ctx root s2 u where
    d: "keyBits_IsPrepared (keys s d)" "keyBits_IsProcessType (keys s d)" and s1: "key_Prepare b s = Some s1"
    and ctx: "key_pContext (keys s1 d) = Some ctx" "procRoot s1 ctx = Some root"
    and s2: "key_Prepare (KSlot root ProcBrand) s1 = Some s2" and u: "COMMIT_POINT s2 = Some u"
    and ans: "brand_answer d b root u = Some (same, s')"
    unfolding CompareBrand_def bind_eq_Some_conv assert_that_eq_Some by blast
  have i1: "kern_inv s1" using key_Prepare_inv [OF assms(1) s1] .
  have i2: "kern_inv s2" using key_Prepare_inv [OF i1 s2] .
  note C = COMMIT_frame [OF u]
  have k1: "keys s1 r = keys s r" if "keyBits_IsPrepared (keys s r)" for r
    using key_Prepare_keeps [OF assms(1) s1 that] .
  have k2: "keys u r = keys s r" if "keyBits_IsPrepared (keys s r)" for r
    using key_Prepare_keeps [OF i1 s2, of r] k1 [OF that] that C(1) by simp
  have "root_ok s1 ctx root"
    using root_ok_process_key [OF i1 _ _ ctx] k1 [OF d(1)] d by simp
  then have "root_ok u ctx root"
    using root_ok_world [OF key_Prepare_world(1) [OF i1 s2]] root_ok_world [OF C(2)] by simp
  moreover have P: "P u" if "key_closed P" "P s" for P
    using key_closed.post_prepare(1) [OF that, of b] key_closed.post_prepare(1) [OF that(1), of s1 "KSlot root ProcBrand"]
      key_closed.post_COMMIT [OF that(1), of s2] s1 s2 u by (simp add: ipost_def)
  moreover have "kern_inv u" using P [OF inv.key_closed_axioms assms(1)] .
  moreover have "k_inv u = k_inv s"
    using key_Prepare_inv_block [OF assms(1) s1] key_Prepare_inv_block [OF i1 s2] C(3) by simp
  moreover have "key_pContext (keys s d) = Some ctx" using ctx(1) k1 [OF d(1)] by simp
  ultimately show thesis using that k2 C(4) ans by blast
qed

lemma return_node_key:
  assumes "return_node root s = Some s'" "exit_pKey (k_inv s) 0 = Some d"
  shows "keyType (keys s' d) = KKT_Node" "key_u (keys s' d) = U_ok root" "keyBits_IsPrepared (keys s' d)"
  using assms by (auto simp: return_node_def key_SetToObj_def Let_def keyBits_InitType_def link_insertAfter_def)

lemma retype_forwarder_inv:
  assumes "kern_inv s" "keyBits_IsPrepared (keys s r)" "keyType (keys s r) \<in> {KKT_Node, KKT_Forwarder}"
  shows "kern_inv (upd_key r ((keys s r)\<lparr>keyType := KKT_Forwarder, keyData := dat\<rparr>) s)"
proof -
  let ?k = "(keys s r)\<lparr>keyType := KKT_Forwarder, keyData := dat\<rparr>"
  have p: "keyBits_IsPrepared ?k" using assms(2) by (simp add: key_flag_bits)
  have "key_ring ?k = key_ring (keys s r)"
    using p assms(2,3) by (auto simp: key_ring_def keyBits_IsPreparedObjectKey_def key_kinds key_pObj_def)
  moreover have "wf_key s ?k" using kern_inv_wf_key [OF assms(1), of r] p assms(2,3)
    by (auto simp: wf_key_def key_kinds base_of_def)
  moreover have "\<not> is_resume ?k" "\<not> is_resume (keys s r)" using assms(3) by (auto simp: is_resume_def)
  ultimately show ?thesis using p by (intro kern_inv_upd_key [OF assms(1)]) (simp_all add: cnt_ok_def)
qed

lemma return_node_frame:
  assumes "return_node root s = Some s'"
  shows "k_inv s' = k_inv s" "exit_pKey (k_inv s) 0 \<noteq> Some r \<Longrightarrow> keys s' r = keys s r"
    "InvocationCommitted s' = InvocationCommitted s"
  using assms by (auto simp: return_node_def key_SetToObj_def Let_def link_insertAfter_def split: option.split_asm)

text \<open>
  A prepared key is still there after the comparison, unless it was in the register of the answer;
  then a node key is there.
\<close>

lemma CompareBrand_keys:
  assumes "kern_inv s" "CompareBrand d b s = Some (same, s')"
  shows "entry_key (k_inv s') = entry_key (k_inv s)" "exit_pKey (k_inv s') = exit_pKey (k_inv s)" "InvocationCommitted s'"
    and "keyBits_IsPrepared (keys s r) \<Longrightarrow> keys s' r = keys s r \<or> same \<and> exit_pKey (k_inv s) 0 = Some r
      \<and> keyBits_IsPrepared (keys s' r) \<and> keyType (keys s' r) = KKT_Node \<and> key_pContext (keys s' r) = None"
proof -
  obtain u ctx root where u: "k_inv u = k_inv s" "InvocationCommitted u"
    "\<And>r. keyBits_IsPrepared (keys s r) \<Longrightarrow> keys u r = keys s r" "brand_answer d b root u = Some (same, s')"
    using CompareBrand_cases [OF assms] by metis
  let ?u = "set_exit_w2 (ucast (keyData (keys u d))) (set_exit_w1 (of_nat (kkt_num (keyType (keys u d)))) u)"
  have s': "if same then return_node root ?u = Some s' else s' = u"
    using u(4) by (auto simp: brand_answer_def Let_def bind_eq_Some_conv split: if_split_asm)
  have "(k_inv s' = k_inv ?u \<or> k_inv s' = k_inv u) \<and> InvocationCommitted s'"
  proof (cases same)
    case True
    with s' have "return_node root ?u = Some s'" by simp
    from return_node_frame(1,3) [OF this] u(2) show ?thesis by simp
  qed (use s' u(2) in simp)
  then show "entry_key (k_inv s') = entry_key (k_inv s)" "exit_pKey (k_inv s') = exit_pKey (k_inv s)" "InvocationCommitted s'"
    using u(1) by auto
  assume p: "keyBits_IsPrepared (keys s r)"
  show "keys s' r = keys s r \<or> same \<and> exit_pKey (k_inv s) 0 = Some r
      \<and> keyBits_IsPrepared (keys s' r) \<and> keyType (keys s' r) = KKT_Node \<and> key_pContext (keys s' r) = None"
  proof (cases "same \<and> exit_pKey (k_inv s) 0 = Some r")
    case True
    with s' u(1) return_node_key [of root ?u s' r] show ?thesis by (simp add: key_pContext_def)
  next
    case False
    with s' u(1) return_node_frame(2) [of root ?u s' r] u(3) [OF p] show ?thesis by (cases same) auto
  qed
qed

context key_makes
begin

lemma return_node_post [kpost]:
  assumes "P s" "root_ok s ctx root"
  shows "ipost P (return_node root s)"
  using assms
  by (auto simp: return_node_def root_ok_def objH_GetBaseType_def base_of_def intro!: kpost SetToObj_post)

lemma brand_answer_post:
  assumes "P s" "root_ok s ctx root"
  shows "bpost P (brand_answer d b root s)"
proof -
  let ?s = "set_exit_w2 (ucast (keyData (keys s d))) (set_exit_w1 (of_nat (kkt_num (keyType (keys s d)))) s)"
  have "root_ok ?s ctx root" using assms(2) root_ok_world [of s ?s] by simp
  from return_node_post [OF _ this] assms(1) show ?thesis
    by (auto simp: bpost_def ipost_def brand_answer_def Let_def bind_eq_Some_conv split: if_split_asm)
qed

lemma CompareBrand_post [kpost]:
  assumes "P s"
  shows "bpost P (CompareBrand d b s)"
  unfolding bpost_def
proof (intro allI impI)
  fix same s' assume c: "CompareBrand d b s = Some (same, s')"
  from P_inv [OF assms] c show "P s'"
  proof (cases rule: CompareBrand_cases)
    case (1 u ctx root)
    have "P u" using 1(7) [OF key_closed_axioms assms] .
    from brand_answer_post [OF this 1(1)] 1(8) show ?thesis by (simp add: bpost_def)
  qed
qed

lemma pt_refuse_post [kpost]: "P s \<Longrightarrow> opost P (pt_refuse rc s)"
  unfolding pt_refuse_def by (auto intro!: kpost)

lemma pt_identifyProcess_post [kpost]: "P s \<Longrightarrow> opost P (pt_identifyProcess s)"
  unfolding pt_identifyProcess_def Let_def by (auto intro!: kpost)

lemma pt_makeProcess_post [kpost]:
  assumes "P s"
  shows "opost P (pt_makeProcess s)"
  unfolding pt_makeProcess_def Let_def
proof (rule post_bind_eq(1), rule post_if(2))
  fix t assume t: "key_Prepare (entry_key (k_inv s) 0) s = Some t"
  have Pt: "P t" using post_prepare(1) [OF assms] t by (simp add: ipost_def)
  let ?k = "keys t (entry_key (k_inv s) 0)"
  show "opost P (pt_refuse RC_capros_key_RequestError t)" using Pt by (rule pt_refuse_post)
  assume k: "\<not> (\<not> keyBits_IsType ?k KKT_Node \<or> keyBits_IsReadOnly ?k \<or> keyBits_IsNoCall ?k)"
  show "opost P (do {
      assert_that (\<not> keyBits_IsHazard ?k);
      pNode \<leftarrow> key_pObj ?k;
      proc \<leftarrow> node_GetProcess t pNode;
      s \<leftarrow> COMMIT_POINT t;
      ReturnCode RC_OK (case exit_pKey (k_inv s) 0 of None \<Rightarrow> s
        | Some d \<Rightarrow> key_SetToProcess d proc KKT_Process 0 (keyBits_Unchain d s)) })"
  proof (rule post_assert(2), rule post_bind_eq(1), rule post_bind_eq(1), rule post_bind_eq(1), rule kpost)
    fix p ctx u assume p: "key_pObj ?k = Some p" "node_GetProcess t p = Some ctx" and u: "COMMIT_POINT t = Some u"
    have "is_obj t p" using kern_inv_wf_key [OF P_inv [OF Pt], of "entry_key (k_inv s) 0"] k p(1)
        key_Prepare_prepared [OF P_inv [OF assms] t]
      by (auto simp: wf_key_def key_kinds keyBits_IsType_def key_pObj_def split: key_u.split_asm if_split_asm)
    then have r: "root_ok u ctx p"
      using root_ok_GetProcess [OF P_inv [OF Pt] _ p(2)] root_ok_world [OF COMMIT_frame(2) [OF u]] by simp
    have Pu: "P u" using post_COMMIT [OF Pt] u by (simp add: ipost_def)
    then have "P (key_SetToProcess d ctx KKT_Process 0 (keyBits_Unchain d u))" for d
      using r by (intro P_make [OF Pu key_SetToProcess_inv [OF P_inv [OF Pu]] key_SetToProcess_frame(1-3)])
        (auto simp: root_ok_def key_SetToProcess_frame(4))
    with Pu show "P (case exit_pKey (k_inv u) 0 of None \<Rightarrow> u
        | Some d \<Rightarrow> key_SetToProcess d ctx KKT_Process 0 (keyBits_Unchain d u))"
      by (simp split: option.split)
  qed
qed

text \<open>
  What holds when a gate key was checked: of the keys that were prepared before, all but the one in
  the register of the answer are still there.
\<close>

lemma pt_check_gate_post:
  assumes "P s"
    and "\<And>t v b. key_Prepare domKey s = Some t \<Longrightarrow> P t \<Longrightarrow> keyBits_IsPrepared (keys t domKey) \<Longrightarrow>
      keyBits_IsProcessType (keys t domKey) \<Longrightarrow> P v \<Longrightarrow> entry_key (k_inv v) = entry_key (k_inv s) \<Longrightarrow>
      (\<And>r. keyBits_IsPrepared (keys t r) \<Longrightarrow> keys v r = keys t r
        \<or> keyBits_IsPrepared (keys v r) \<and> keyType (keys v r) = KKT_Node \<and> key_pContext (keys v r) = None) \<Longrightarrow> opost P (f b v)"
  shows "opost P (pt_check_gate domKey f s)"
  unfolding pt_check_gate_def Let_def
proof (rule post_bind_eq(1), rule post_if(2))
  fix t assume t: "key_Prepare domKey s = Some t"
  have Pt: "P t" using post_prepare(1) [OF assms(1)] t by (simp add: ipost_def)
  then show "opost P (pt_refuse RC_capros_key_NoAccess t)" by (rule pt_refuse_post)
  assume "\<not> \<not> keyBits_IsGateKey (keys t domKey)"
  then have prep: "keyBits_IsPrepared (keys t domKey)" "keyBits_IsProcessType (keys t domKey)"
    using key_Prepare_prepared [OF P_inv [OF assms(1)] t] by (auto simp: key_kinds)
  show "opost P (do {
      (same, s) \<leftarrow> CompareBrand domKey (entry_key (k_inv t) 1) t;
      if \<not> same then ReturnCode RC_capros_key_NoAccess s
      else f (keyBits_IsType (keys t domKey) KKT_Resume) s })"
  proof (rule post_bind_eq(1), rule post_prod, rule post_if(2))
    fix x same v assume "CompareBrand domKey (entry_key (k_inv t) 1) t = Some x" "x = (same, v)"
    then have c: "CompareBrand domKey (entry_key (k_inv t) 1) t = Some (same, v)" by simp
    have Pv: "P v" using CompareBrand_post [OF Pt] c by (auto simp: bpost_def)
    then show "opost P (ReturnCode RC_capros_key_NoAccess v)" by (rule kpost)
    note K = CompareBrand_keys [OF P_inv [OF Pt] c]
    show "opost P (f (keyBits_IsType (keys t domKey) KKT_Resume) v)"
      using K(1,4) key_Prepare_inv_block [OF P_inv [OF assms(1)] t] by (intro assms(2) [OF t Pt prep Pv]) auto
  qed
qed

lemma pt_canOpener_post [kpost]:
  assumes "P s"
  shows "opost P (pt_canOpener s)"
  unfolding pt_canOpener_def
proof (rule pt_check_gate_post [OF assms])
  let ?r = "entry_key (k_inv s) 0"
  fix t v b
  assume prep: "keyBits_IsPrepared (keys t ?r)" "keyBits_IsProcessType (keys t ?r)" and v: "P v" "entry_key (k_inv v) = entry_key (k_inv s)"
    and k: "\<And>r. keyBits_IsPrepared (keys t r) \<Longrightarrow> keys v r = keys t r
        \<or> keyBits_IsPrepared (keys v r) \<and> keyType (keys v r) = KKT_Node \<and> key_pContext (keys v r) = None"
  have opened: "P y"
    if "key_SetToObj d root KKT_Node 0 0 (keyBits_Unchain d w) = Some y" "P w" "keys w = keys v"
      "key_u (keys v ?r) = U_gk ctx" "procRoot w ctx = Some root" for d w ctx root y
  proof -
    have "root_ok w ctx root"
      using k [OF prep(1)] prep that(3-5) by (intro root_ok_process_key [OF P_inv [OF that(2)], of ?r]) (auto simp: key_pContext_def)
    then have "ipost P (key_SetToObj d root KKT_Node 0 0 (keyBits_Unchain d w))"
      using that(2) by (intro SetToObj_post) (auto simp: root_ok_def objH_GetBaseType_def base_of_def)
    with that(1) show ?thesis by (simp add: ipost_def)
  qed
  show "opost P (pt_open_process b v)"
    unfolding pt_open_process_def Let_def using v by (auto intro!: kpost post_bind_eq(1)) (erule opened; simp)+
qed

lemma pt_identGPTKeeper_post [kpost]: "P s \<Longrightarrow> opost P (pt_identGPTKeeper s)"
  unfolding pt_identGPTKeeper_def pt_return_gpt_def Let_def
  by (auto simp: restricts_lax_def intro!: kpost pt_check_gate_post P_lax)

lemma pt_identForwarderTarget_post [kpost]:
  assumes "P s"
  shows "opost P (pt_identForwarderTarget s)"
  unfolding pt_identForwarderTarget_def Let_def
proof (rule post_bind_eq(1), rule post_if(2))
  let ?r = "entry_key (k_inv s) 0"
  fix t assume t: "key_Prepare ?r s = Some t"
  have Pt: "P t" using post_prepare(1) [OF assms] t by (simp add: ipost_def)
  then show "opost P (pt_refuse RC_capros_key_NoAccess t)" by (rule pt_refuse_post)
  assume "\<not> \<not> keyBits_IsType (keys t ?r) KKT_Forwarder"
  then have fwd: "keyType (keys t ?r) = KKT_Forwarder" "keyBits_IsPrepared (keys t ?r)"
    using key_Prepare_prepared [OF P_inv [OF assms] t] by (auto simp: keyBits_IsType_def key_kinds)
  have e: "entry_key (k_inv t) = entry_key (k_inv s)" using key_Prepare_inv_block [OF P_inv [OF assms] t] by simp
  show "opost P (do {
      theNode \<leftarrow> key_GetObjectPtr t (keys t ?r);
      pt_check_gate (KSlot theNode ForwarderTargetSlot) (pt_return_forwarder (KSlot theNode ForwarderTargetSlot)) t })"
  proof (rule post_bind_eq(1), rule pt_check_gate_post [OF Pt])
    fix n t2 v b
    assume t2: "key_Prepare (KSlot n ForwarderTargetSlot) t = Some t2" and v: "P v" "entry_key (k_inv v) = entry_key (k_inv t)"
      and k: "\<And>r. keyBits_IsPrepared (keys t2 r) \<Longrightarrow> keys v r = keys t2 r
        \<or> keyBits_IsPrepared (keys v r) \<and> keyType (keys v r) = KKT_Node \<and> key_pContext (keys v r) = None"
    have "keys t2 ?r = keys t ?r" by (rule key_Prepare_keeps [OF P_inv [OF Pt] t2 fwd(2)])
    with k [of ?r] fwd have key: "keyBits_IsPrepared (keys v ?r)" "keyType (keys v ?r) \<in> {KKT_Node, KKT_Forwarder}" by auto
    have "P (upd_key d ((keys (key_NH_Set d ?r w) d)\<lparr>keyType := KKT_Forwarder, keyData := 0\<rparr>) (key_NH_Set d ?r w))"
      if "P w" "keys w = keys v" for d w
    proof -
      have Pw: "P (key_NH_Set d ?r w)" using that(1) by (rule P_Set)
      have "kern_inv (upd_key d ((keys (key_NH_Set d ?r w) d)\<lparr>keyType := KKT_Forwarder, keyData := 0\<rparr>) (key_NH_Set d ?r w))"
        using key that(2) by (intro retype_forwarder_inv P_inv [OF Pw]) (auto simp: unhazarded_def key_flag_bits bit_simps KFL_HAZARD_BITS_def)
      then show ?thesis by (rule P_make [OF Pw, where d = d]) auto
    qed
    then show "opost P (pt_return_forwarder (KSlot n ForwarderTargetSlot) b v)"
      unfolding pt_return_forwarder_def Let_def using v e
      by (auto simp: inv_SetExitKey_Some intro!: kpost post_bind_eq(1))
  qed
qed

lemma ProcessToolKey_post: "P s \<Longrightarrow> opost P (ProcessToolKey s)"
  unfolding ProcessToolKey_def Let_def
  by (rule post_bind(2), rule kpost, assumption)
    (auto intro!: kpost split: OC.split procTool_OC.split)

end

lemma pt_commits [kcommit]:
  "cpost (pt_open_process b s)" "cpost (pt_return_gpt b s)" "cpost (pt_return_forwarder d b s)" "cpost (pt_refuse rc s)"
  "cpost (pt_makeProcess s)" "cpost (pt_identifyProcess s)" "(\<And>b s. cpost (f b s)) \<Longrightarrow> cpost (pt_check_gate d f s)"
  unfolding pt_makeProcess_def pt_identifyProcess_def pt_refuse_def pt_open_process_def pt_return_gpt_def
    pt_return_forwarder_def pt_check_gate_def Let_def
  by (auto intro!: kcommit)

lemma ProcessToolKey_commits: "cpost (ProcessToolKey s)"
  unfolding ProcessToolKey_def pt_canOpener_def pt_identGPTKeeper_def pt_identForwarderTarget_def Let_def
  by (auto intro!: kcommit split: OC.split procTool_OC.split)

interpretation process_tool: key_handler "\<lambda>_. True" ProcessToolKey
  by unfold_locales (simp_all add: inv.ProcessToolKey_post ProcessToolKey_commits)

end
