(* ===== verification/Process_Key.thy ===== *)
theory Process_Key
  imports Gate_Key Proc_Tool
begin

text \<open>
  Process keys (sys/key/pk_ProcessKey.c and, for the ARM, sys/arch/arm/kernel/ProcessKeyArm.c): the
  slots, the key registers and the registers of a process, and the making of start and resume keys
  to it. A process that must first be loaded (\<^verbatim>\<open>proc_DoPrepare\<close>) is not modelled.
\<close>

section \<open>Registers\<close>

text \<open>
  The structures of Process.idl: the registers that all machines have, and those of the ARM, which
  extend them. All members are words of 32 bits in this order. Index 16 of a trap frame is the
  status register \<^verbatim>\<open>CPSR\<close>.
\<close>

record CommonRegisters32 =
  reg_len :: u32
  reg_arch :: u32
  reg_procFlags :: u32
  reg_faultCode :: u32
  reg_faultInfo :: u32
  reg_pc :: u32
  reg_sp :: u32

record Registers = CommonRegisters32 +
  reg_registers :: "u32 list"
  reg_CPSR :: u32

definition sizeof_CommonRegisters32 :: nat where "sizeof_CommonRegisters32 = 28"
definition sizeof_Registers :: nat where "sizeof_Registers = 96"

definition common_words :: "'a CommonRegisters32_scheme \<Rightarrow> u32 list" where
  "common_words r = [reg_len r, reg_arch r, reg_procFlags r, reg_faultCode r, reg_faultInfo r, reg_pc r, reg_sp r]"

definition words_bytes :: "u32 list \<Rightarrow> u8 list" where
  "words_bytes ws = concat (map le_bytes ws)"

definition bytes_word :: "u8 list \<Rightarrow> nat \<Rightarrow> u32" where
  "bytes_word bs i = le_word (take 4 (drop (4 * i) bs))"

definition common_of :: "u8 list \<Rightarrow> CommonRegisters32" where
  "common_of bs = \<lparr>reg_len = bytes_word bs 0, reg_arch = bytes_word bs 1, reg_procFlags = bytes_word bs 2,
     reg_faultCode = bytes_word bs 3, reg_faultInfo = bytes_word bs 4, reg_pc = bytes_word bs 5, reg_sp = bytes_word bs 6\<rparr>"

definition registers_of :: "u8 list \<Rightarrow> Registers" where
  "registers_of bs = \<lparr>reg_len = bytes_word bs 0, reg_arch = bytes_word bs 1, reg_procFlags = bytes_word bs 2,
     reg_faultCode = bytes_word bs 3, reg_faultInfo = bytes_word bs 4, reg_pc = bytes_word bs 5, reg_sp = bytes_word bs 6,
     reg_registers = map (bytes_word bs) [7..<23], reg_CPSR = bytes_word bs 23\<rparr>"

definition capros_Process_ARCH_ARMProcess :: u32 where "capros_Process_ARCH_ARMProcess = 2"
definition capros_Process_FC_NoFault :: u32 where "capros_Process_FC_NoFault = 0"

definition proc_GetCommonRegs32 ::
  "proc_ptr \<Rightarrow> 'a CommonRegisters32_scheme \<Rightarrow> kern \<Rightarrow> ('a CommonRegisters32_scheme \<times> kern) option" where
  "proc_GetCommonRegs32 p regs s = do {
     assert_that (proc_IsRunnable (procs (k_sched s) p));
     let s = (if runState (procs (k_sched s) p) = RS_Running
              then on_proc p (\<lambda>q. q\<lparr>processFlags := processFlags q AND NOT capros_Process_PF_ExpectingMessage\<rparr>) s
              else s);
     let q = procs (k_sched s) p;
     Some (regs\<lparr>reg_arch := capros_Process_ARCH_ARMProcess, reg_faultCode := faultCode q,
       reg_faultInfo := faultInfo q, reg_pc := trapFrame q 15, reg_sp := trapFrame q 13,
       reg_procFlags := ucast (processFlags q)\<rparr>, s) }"

definition proc_GetRegs32 :: "proc_ptr \<Rightarrow> Registers \<Rightarrow> kern \<Rightarrow> (bool \<times> Registers \<times> kern) option" where
  "proc_GetRegs32 p regs s =
     (if hazards (procs (k_sched s) p) AND hz_DomRoot \<noteq> 0 then Some (False, regs, s)
      else do {
        (regs, s) \<leftarrow> proc_GetCommonRegs32 p regs s;
        let tf = trapFrame (procs (k_sched s) p);
        Some (True, regs\<lparr>reg_len := of_nat sizeof_Registers, reg_registers := map tf [0..<16], reg_CPSR := tf 16\<rparr>, s) })"

definition proc_SetCommonRegs32MD :: "'a CommonRegisters32_scheme \<Rightarrow> Process \<Rightarrow> Process" where
  "proc_SetCommonRegs32MD regs q = q\<lparr>trapFrame := (trapFrame q)(15 := reg_pc regs, 13 := reg_sp regs)\<rparr>"

definition proc_SetCommonRegs32 :: "proc_ptr \<Rightarrow> 'a CommonRegisters32_scheme \<Rightarrow> kern \<Rightarrow> kern option" where
  "proc_SetCommonRegs32 p regs s = do {
     assert_that (proc_IsRunnable (procs (k_sched s) p));
     assert_that (hazards (procs (k_sched s) p) AND hz_DomRoot = 0);
     Some (on_proc p (\<lambda>q.
       let q = (proc_SetCommonRegs32MD regs q)\<lparr>processFlags := ucast (reg_procFlags regs)\<rparr>
       in if reg_faultCode regs = capros_Process_FC_NoFault then proc_ClearFault q
          else q\<lparr>faultCode := reg_faultCode regs, faultInfo := reg_faultInfo regs\<rparr>) s) }"

definition ProcIoSpace :: nat where "ProcIoSpace = 4"
definition KF_IoPriv :: u8 where "KF_IoPriv = 1"
definition userCPSRBits :: u32 where "userCPSRBits = 0xff000000 OR MASK_CPSR_Thumb"
definition MASK_CPSR_IRQDisable :: u32 where "MASK_CPSR_IRQDisable = 0x80"
definition CPSRMode_User :: u32 where "CPSRMode_User = 0x10"
definition CPSRMode_System :: u32 where "CPSRMode_System = 0x1f"

definition proc_HasDevicePrivileges :: "proc_ptr \<Rightarrow> kern \<Rightarrow> bool option" where
  "proc_HasDevicePrivileges p s = do {
     assert_that (hazards (procs (k_sched s) p) AND hz_DomRoot = 0);
     assert_that (hazards (procs (k_sched s) p) AND hz_KeyRegs = 0);
     root \<leftarrow> procRoot s p;
     Some (keyBits_IsType (keys s (KSlot root ProcIoSpace)) KKT_DevicePrivs) }"

definition set_user_CPSR :: "bool \<Rightarrow> Process \<Rightarrow> Process" where
  "set_user_CPSR priv q =
     q\<lparr>kernelFlags := (if priv then kernelFlags q OR KF_IoPriv else kernelFlags q AND NOT KF_IoPriv),
       trapFrame := (trapFrame q)(16 := (trapFrame q 16 AND
         (if priv then userCPSRBits OR MASK_CPSR_IRQDisable else userCPSRBits)) OR CPSRMode_User)\<rparr>"

definition proc_ValidateRegValues :: "proc_ptr \<Rightarrow> kern \<Rightarrow> kern option" where
  "proc_ValidateRegValues p s =
     (let q = procs (k_sched s) p
      in if processFlags q AND capros_Process_PF_FaultToProcessKeeper \<noteq> 0 then Some s
         else if isUserContext q then do {
           priv \<leftarrow> proc_HasDevicePrivileges p s;
           Some (on_proc p (set_user_CPSR priv) s) }
         else do {
           assert_that (trapFrame q 16 AND NOT userCPSRBits = CPSRMode_System);
           Some s })"

definition proc_SetRegs32 :: "proc_ptr \<Rightarrow> Registers \<Rightarrow> kern \<Rightarrow> kern option" where
  "proc_SetRegs32 p regs s = do {
     s \<leftarrow> proc_SetCommonRegs32 p regs s;
     let s = on_proc p (\<lambda>q. q\<lparr>trapFrame := (\<lambda>i.
       if i < 13 \<or> i = 14 then reg_registers regs ! i else if i = 16 then reg_CPSR regs else trapFrame q i)\<rparr>) s;
     proc_ValidateRegValues p s }"

section \<open>Slots and key registers\<close>

definition ProcSched :: nat where "ProcSched = 0"
definition ProcSymSpace :: nat where "ProcSymSpace = 5"

definition prockey_getSlot :: "obj_ptr \<Rightarrow> nat \<Rightarrow> kern \<Rightarrow> kern option" where
  "prockey_getSlot theNode slot s = do {
     s \<leftarrow> COMMIT_POINT s;
     s \<leftarrow> (if keyBits_IsRdHazard (keys s (KSlot theNode slot)) then node_ClearHazard theNode slot s else Some s);
     s \<leftarrow> inv_SetExitKey 0 (KSlot theNode slot) s;
     Some (set_exit_code RC_OK s) }"

text \<open>The local key of the source is \<^const>\<open>KTmp\<close>. It is unchained when it goes out of scope.\<close>

definition swap_with :: "kref \<Rightarrow> bool \<Rightarrow> kern \<Rightarrow> kern option" where
  "swap_with r write s = do {
     let s = key_NH_SetToVoid KTmp s;
     let s = key_NH_Set KTmp r s;
     let s = (if write then key_NH_Set r (entry_key (k_inv s) 0) s else s);
     s \<leftarrow> inv_SetExitKey 0 KTmp s;
     let s = key_NH_SetToVoid KTmp s;
     Some (set_exit_code RC_OK s) }"

definition prockey_swapSlotCommitted :: "obj_ptr \<Rightarrow> nat \<Rightarrow> kern \<Rightarrow> kern option" where
  "prockey_swapSlotCommitted theNode slot s = do {
     s \<leftarrow> node_ClearHazard theNode slot s;
     swap_with (KSlot theNode slot) True s }"

definition prockey_swapSlot :: "obj_ptr \<Rightarrow> nat \<Rightarrow> kern \<Rightarrow> kern option" where
  "prockey_swapSlot theNode slot s = do {
     s \<leftarrow> objH_EnsureWritable theNode s;
     s \<leftarrow> COMMIT_POINT s;
     prockey_swapSlotCommitted theNode slot s }"

definition proc_Prepare :: "proc_ptr \<Rightarrow> kern \<Rightarrow> kern option" where
  "proc_Prepare p s = do { assert_that (proc_IsRunnable (procs (k_sched s) p)); Some s }"

definition proc_AdjustInvocationPC :: "Process \<Rightarrow> Process" where
  "proc_AdjustInvocationPC q =
     (let tf = trapFrame q
      in q\<lparr>trapFrame := tf(15 := tf 15 - (if tf 16 AND MASK_CPSR_Thumb \<noteq> 0 then 2 else 4))\<rparr>)"

definition proc_SetPC :: "u32 \<Rightarrow> Process \<Rightarrow> Process" where
  "proc_SetPC pc q = q\<lparr>trapFrame := (trapFrame q)(15 := pc)\<rparr>"

definition pk_swapAddrSpaceAndPC32 :: "obj_ptr \<Rightarrow> proc_ptr \<Rightarrow> kern \<Rightarrow> kern option" where
  "pk_swapAddrSpaceAndPC32 theNode p s = do {
     s \<leftarrow> proc_Prepare p s;
     s \<leftarrow> objH_EnsureWritable theNode s;
     s \<leftarrow> COMMIT_POINT s;
     let s = on_proc p (proc_SetPC (entry_w1 (k_inv s))) s;
     let s = (if proc_IsExpectingMsg (procs (k_sched s) p) then on_proc p proc_AdjustInvocationPC s else s);
     prockey_swapSlotCommitted theNode ProcAddrSpace s }"

definition pk_setIOSpace :: "obj_ptr \<Rightarrow> kern \<Rightarrow> kern option" where
  "pk_setIOSpace theNode s = do {
     s \<leftarrow> objH_EnsureWritable theNode s;
     s \<leftarrow> COMMIT_POINT s;
     s \<leftarrow> node_ClearHazard theNode ProcIoSpace s;
     Some (set_exit_code RC_OK (key_NH_Set (KSlot theNode ProcIoSpace) (entry_key (k_inv s) 0) s)) }"

definition pk_getKeyReg :: "proc_ptr \<Rightarrow> kern \<Rightarrow> kern option" where
  "pk_getKeyReg p s = do {
     s \<leftarrow> proc_Prepare p s;
     s \<leftarrow> COMMIT_POINT s;
     let slot = unat (entry_w1 (k_inv s));
     if slot < EROS_NODE_SIZE then do {
       s \<leftarrow> inv_SetExitKey 0 (KReg p slot) s;
       Some (set_exit_code RC_OK s) }
     else Some (set_exit_code RC_capros_key_RequestError s) }"

definition KR_VOID :: nat where "KR_VOID = 0"

definition pk_swapKeyReg :: "proc_ptr \<Rightarrow> kern \<Rightarrow> kern option" where
  "pk_swapKeyReg p s = do {
     s \<leftarrow> proc_Prepare p s;
     s \<leftarrow> COMMIT_POINT s;
     let slot = unat (entry_w1 (k_inv s));
     if slot \<ge> EROS_NODE_SIZE then Some (set_exit_code RC_capros_key_RequestError s)
     else swap_with (KReg p slot) (slot \<noteq> KR_VOID) s }"

section \<open>Keys to the process\<close>

definition EROS_KEYDATA_MAX :: u32 where "EROS_KEYDATA_MAX = 65535"

definition pk_makeStartKey :: "proc_ptr \<Rightarrow> kern \<Rightarrow> kern option" where
  "pk_makeStartKey p s = do {
     s \<leftarrow> proc_Prepare p s;
     s \<leftarrow> COMMIT_POINT s;
     let dat = entry_w1 (k_inv s);
     if dat > EROS_KEYDATA_MAX then Some (set_exit_code RC_capros_key_RequestError s)
     else Some (set_exit_code RC_OK (case exit_pKey (k_inv s) 0 of
         None \<Rightarrow> s
       | Some d \<Rightarrow> key_SetToProcess d p KKT_Start (ucast dat) (keyBits_Unchain d s))) }"

definition key_SetToResume :: "kref \<Rightarrow> proc_ptr \<Rightarrow> kern \<Rightarrow> kern" where
  "key_SetToResume r p s =
     (let s = keyBits_Unchain r s;
          k = keyBits_InitType (keys s r) KKT_Resume;
          k = k\<lparr>keyData := 0, keyPerms := 0, key_u := U_gk p\<rparr>;
          s = link_insertBefore (ProcRing p) r s
      in upd_key r (keyBits_SetPrepared k) s)"

text \<open>The process loses its activity. The activity kept for the invokee is not deleted.\<close>

definition stop_process :: "proc_ptr \<Rightarrow> proc_ptr option \<Rightarrow> sched \<Rightarrow> sched option" where
  "stop_process p inv_invokee x =
     (case curActivity (procs x p) of
        None \<Rightarrow> Some x
      | Some act \<Rightarrow> do {
          let invoker = proc_curProcess x;
          (_, x) \<leftarrow> proc_ClearActivity p x;
          if invoker = Some p then do {
            assert_that (invoker \<noteq> inv_invokee);
            if allocatedActivity x \<noteq> Some act then act_DeleteActivity act x else Some x }
          else act_DeleteActivity act x })"

text \<open>No answer goes to the process itself: its resume key is not held by the kernel any more.\<close>

definition drop_invokee :: "proc_ptr \<Rightarrow> kern \<Rightarrow> kern" where
  "drop_invokee p s =
     (if invokee (k_inv s) = Some p
      then upd_inv (\<lambda>i. i\<lparr>invokee := None, exit_pKey := (exit_pKey i)(0 := None)\<rparr>) s else s)"

definition pk_makeResumeKey :: "proc_ptr \<Rightarrow> kern \<Rightarrow> kern option" where
  "pk_makeResumeKey p s = do {
     s \<leftarrow> proc_Prepare p s;
     s \<leftarrow> COMMIT_POINT (drop_invokee p s);
     s \<leftarrow> proc_ZapResumeKeys p s;
     s \<leftarrow> on_sched (stop_process p (invokee (k_inv s))) s;
     let s = on_proc p (runState_update (\<lambda>_. RS_Waiting)) s;
     let s = (case exit_pKey (k_inv s) 0 of None \<Rightarrow> s | Some d \<Rightarrow> key_SetToResume d p s);
     Some (set_exit_code RC_OK s) }"

section \<open>Reading and writing the registers\<close>

text \<open>The members of the structure that the source leaves uninitialised are set before it is used.\<close>

definition no_regs :: Registers where
  "no_regs = \<lparr>reg_len = 0, reg_arch = 0, reg_procFlags = 0, reg_faultCode = 0, reg_faultInfo = 0, reg_pc = 0, reg_sp = 0,
     reg_registers = [], reg_CPSR = 0\<rparr>"

definition invokee_runnable :: "kern \<Rightarrow> kern option" where
  "invokee_runnable s = do {
     i \<leftarrow> invokee (k_inv s);
     assert_that (proc_IsRunnable (procs (k_sched s) i));
     Some s }"

definition pk_getRegisters32 :: "proc_ptr \<Rightarrow> kern \<Rightarrow> kern option" where
  "pk_getRegisters32 p s = do {
     s \<leftarrow> invokee_runnable s;
     s \<leftarrow> proc_Prepare p s;
     s \<leftarrow> proc_SetupExitString (invokee (k_inv s)) sizeof_CommonRegisters32 s;
     s \<leftarrow> COMMIT_POINT s;
     (regs, s) \<leftarrow> proc_GetCommonRegs32 p no_regs s;
     s \<leftarrow> inv_CopyOut (words_bytes (common_words (regs\<lparr>reg_len := of_nat sizeof_CommonRegisters32\<rparr>))) s;
     Some (set_exit_code RC_OK s) }"

definition pk_setRegisters32 :: "proc_ptr \<Rightarrow> kern \<Rightarrow> kern option" where
  "pk_setRegisters32 p s =
     (if length (entry_data (k_inv s)) < sizeof_CommonRegisters32
      then COMMIT_POINT (set_exit_code RC_capros_key_RequestError s)
      else do {
        s \<leftarrow> proc_Prepare p s;
        s \<leftarrow> COMMIT_POINT s;
        s \<leftarrow> proc_SetCommonRegs32 p (common_of (inv_CopyIn sizeof_CommonRegisters32 s)) s;
        Some (set_exit_code RC_OK s) })"

definition pk_getRegisters :: "proc_ptr \<Rightarrow> kern \<Rightarrow> kern option" where
  "pk_getRegisters p s = do {
     s \<leftarrow> invokee_runnable s;
     s \<leftarrow> proc_Prepare p s;
     s \<leftarrow> proc_SetupExitString (invokee (k_inv s)) sizeof_Registers s;
     s \<leftarrow> COMMIT_POINT s;
     (b, regs, s) \<leftarrow> proc_GetRegs32 p no_regs s;
     assert_that b;
     s \<leftarrow> inv_CopyOut (words_bytes (common_words regs @ reg_registers regs @ [reg_CPSR regs])) s;
     Some (set_exit_code RC_OK s) }"

definition pk_setRegisters :: "proc_ptr \<Rightarrow> kern \<Rightarrow> kern option" where
  "pk_setRegisters p s =
     (if length (entry_data (k_inv s)) \<noteq> sizeof_Registers
      then COMMIT_POINT (set_exit_code RC_capros_key_RequestError s)
      else do {
        s \<leftarrow> proc_Prepare p s;
        s \<leftarrow> COMMIT_POINT s;
        s \<leftarrow> proc_SetRegs32 p (registers_of (inv_CopyIn sizeof_Registers s)) s;
        Some (set_exit_code RC_OK s) })"

section \<open>The handler\<close>

text \<open>The operations, up to the call of \<^verbatim>\<open>ReturnMessage\<close>.\<close>

definition pk_request :: "process_OC \<Rightarrow> obj_ptr \<Rightarrow> proc_ptr \<Rightarrow> kern \<Rightarrow> kern option" where
  "pk_request oc theNode p s =
     (case oc of
        OC_capros_Process_getSchedule \<Rightarrow> prockey_getSlot theNode ProcSched s
      | OC_capros_Process_swapSchedule \<Rightarrow> prockey_swapSlot theNode ProcSched s
      | OC_capros_Process_getAddrSpace \<Rightarrow> prockey_getSlot theNode ProcAddrSpace s
      | OC_capros_Process_swapAddrSpace \<Rightarrow> prockey_swapSlot theNode ProcAddrSpace s
      | OC_capros_Process_swapAddrSpaceAndPC32Proto \<Rightarrow>
          pk_swapAddrSpaceAndPC32 theNode p (set_exit_w1 (entry_w2 (k_inv s)) s)
      | OC_capros_Process_swapAddrSpaceAndPC32 \<Rightarrow> pk_swapAddrSpaceAndPC32 theNode p s
      | OC_capros_Process_setIOSpace \<Rightarrow> pk_setIOSpace theNode s
      | OC_capros_Process_getKeeper \<Rightarrow> prockey_getSlot theNode ProcKeeper s
      | OC_capros_Process_swapKeeper \<Rightarrow> prockey_swapSlot theNode ProcKeeper s
      | OC_capros_Process_getSymSpace \<Rightarrow> prockey_getSlot theNode ProcSymSpace s
      | OC_capros_Process_swapSymSpace \<Rightarrow> prockey_swapSlot theNode ProcSymSpace s
      | OC_capros_Process_getKeyReg \<Rightarrow> pk_getKeyReg p s
      | OC_capros_Process_swapKeyReg \<Rightarrow> pk_swapKeyReg p s
      | OC_capros_Process_makeStartKey \<Rightarrow> pk_makeStartKey p s
      | OC_capros_Process_makeResumeKey \<Rightarrow> pk_makeResumeKey p s
      | OC_capros_Process_getRegisters32 \<Rightarrow> pk_getRegisters32 p s
      | OC_capros_Process_setRegisters32 \<Rightarrow> pk_setRegisters32 p s
      | OC_capros_arch_arm_Process_getRegisters \<Rightarrow> pk_getRegisters p s
      | OC_capros_arch_arm_Process_setRegisters \<Rightarrow> pk_setRegisters p s)"

definition pk_dispatch :: "proc_ptr \<Rightarrow> kern \<Rightarrow> kern option" where
  "pk_dispatch p s = do {
     theNode \<leftarrow> procRoot s p;
     case entry_code (k_inv s) of
       Process_OC oc \<Rightarrow> pk_request oc theNode p s
     | OC_capros_key_getType \<Rightarrow> do {
         s \<leftarrow> COMMIT_POINT s;
         Some (set_exit_w1 (k_akt s KKT_Process) (set_exit_code RC_OK s)) }
     | _ \<Rightarrow> do {
         s \<leftarrow> COMMIT_POINT s;
         Some (set_exit_code RC_capros_key_UnknownRequest s) } }"

text \<open>The operation of a process key with its process, up to the call of \<^verbatim>\<open>ReturnMessage\<close>.\<close>

definition pk_operation :: "kern \<Rightarrow> kern option" where
  "pk_operation s = do {
     s \<leftarrow> inv_GetReturnee s;
     let key = keys s (inv_key (k_inv s));
     assert_that (keyBits_IsPreparedObjectKey key);
     p \<leftarrow> key_pContext key;
     pk_dispatch p s }"

definition ProcessKey :: "kern \<Rightarrow> result option" where
  "ProcessKey s = do {
     (voided, s) \<leftarrow> key_PrepareForInv (inv_key (k_inv s)) s;
     if voided then void_result s
     else do {
       s \<leftarrow> pk_operation s;
       s \<leftarrow> ReturnMessage s;
       Some (Done s) } }"

end
