(* ===== verification/Sleep_Key.thy ===== *)
theory Sleep_Key
  imports Gate_Key
begin

text \<open>
  The time (sys/kernel/kern_SysTimer.c and, for the ARM, sys/arch/arm/kernel/HardClock.c) and the sleep key
  (sys/key/mk_SleepKey.c). The time is counted in ticks of 501530 nanoseconds.
\<close>

section \<open>Time\<close>

definition mach_MillisecondsToTicks :: "u64 \<Rightarrow> u64" where
  "mach_MillisecondsToTicks ms = (ms * 100000) div 50153"

definition mach_NanosecondsToTicks :: "u64 \<Rightarrow> u64" where
  "mach_NanosecondsToTicks ns = ns div 501530"

definition mach_TicksToNanoseconds :: "u64 \<Rightarrow> u64" where
  "mach_TicksToNanoseconds t = t * 501530"

definition sysT_Now :: "kern \<Rightarrow> u64" where
  "sysT_Now s = sysT_latestTime (k_clock s)"

text \<open>The time in nanoseconds, never the same twice.\<close>

definition sysT_NowUniqueNS :: "kern \<Rightarrow> u64 \<times> kern" where
  "sysT_NowUniqueNS s =
     (let now = mach_TicksToNanoseconds (sysT_Now s);
          now = (if now \<le> lastUnique (k_clock s) then lastUnique (k_clock s) + 1 else now)
      in (now, s\<lparr>k_clock := (k_clock s)\<lparr>lastUnique := now\<rparr>\<rparr>))"

text \<open>Before the restart is done, the caller waits; this is not modelled.\<close>

definition sysT_NowPersistent :: "kern \<Rightarrow> (u64 \<times> kern) option" where
  "sysT_NowPersistent s = do {
     assert_that (restartIsDone (k_clock s));
     let (now, s) = sysT_NowUniqueNS s;
     Some (now + monotonicTimeOfRestart (k_clock s), s) }"

section \<open>The sleep key\<close>

definition SleepInvokee :: "proc_ptr \<Rightarrow> u64 \<Rightarrow> sched \<Rightarrow> sched option" where
  "SleepInvokee p wakeupTime x = do {
     cur \<leftarrow> act_curActivity x;
     assert_that (act_q (acts x cur) = None);
     x \<leftarrow> (if proc_curProcess x \<noteq> Some p then do {
             act \<leftarrow> allocatedActivity x;
             x \<leftarrow> (if act_state (acts x act) = act_Running then do {
                     assert_that (act_curActivity x = Some act);
                     q \<leftarrow> act_proc (acts x act);
                     proc_Deactivate q x }
                   else do {
                     assert_that (act_state (acts x act) = act_Free);
                     Some x });
             act_AssignToRunnable act p x }
           else Some x);
     t \<leftarrow> curActivity (procs x p);
     x \<leftarrow> act_SleepUntilTick t wakeupTime x;
     Some (act_ForceResched x) }"

definition sk_return :: "kern \<Rightarrow> result option" where
  "sk_return s = do { s \<leftarrow> ReturnMessage s; Some (Done s) }"

definition sk_return_u64 :: "u64 \<Rightarrow> kern \<Rightarrow> result option" where
  "sk_return_u64 u s = do {
     s \<leftarrow> COMMIT_POINT s;
     sk_return (set_exit_code RC_OK (set_exit_w2 (ucast (drop_bit 32 u)) (set_exit_w1 (ucast u) s))) }"

definition sk_return_OK :: "kern \<Rightarrow> result option" where
  "sk_return_OK s = do {
     s \<leftarrow> COMMIT_POINT s;
     sk_return (set_exit_code RC_OK s) }"

text \<open>It is the process that gets the answer that is awakened later.\<close>

definition sk_sleep :: "u64 \<Rightarrow> kern \<Rightarrow> result option" where
  "sk_sleep wakeupTime s = do {
     s \<leftarrow> COMMIT_POINT s;
     case invokee (k_inv s) of
       None \<Rightarrow> sk_return s
     | Some p \<Rightarrow> do {
         s \<leftarrow> on_sched (SleepInvokee p wakeupTime) s;
         Some (Done s) } }"

definition entry_u64 :: "kern \<Rightarrow> u64" where
  "entry_u64 s = push_bit 32 (ucast (entry_w2 (k_inv s))) OR ucast (entry_w1 (k_inv s))"

text \<open>The tick at which a request ends, for the requests that sleep.\<close>

definition sk_wakeup :: "sleep_OC \<Rightarrow> kern \<Rightarrow> u64" where
  "sk_wakeup oc s =
     (case oc of
        OC_capros_Sleep_sleep \<Rightarrow> sysT_Now s + mach_MillisecondsToTicks (entry_u64 s)
      | OC_capros_Sleep_sleepForNanoseconds \<Rightarrow> sysT_Now s + mach_NanosecondsToTicks (entry_u64 s)
      | OC_capros_Sleep_sleepTillPersistentOrRestart \<Rightarrow>
          mach_NanosecondsToTicks (entry_u64 s - monotonicTimeOfRestart (k_clock s)) + 1
      | _ \<Rightarrow> mach_NanosecondsToTicks (entry_u64 s) + 1)"

definition sk_request :: "sleep_OC \<Rightarrow> kern \<Rightarrow> result option" where
  "sk_request oc s =
     (case oc of
        OC_capros_Sleep_getTimeMonotonic \<Rightarrow> (let (u, s) = sysT_NowUniqueNS s in sk_return_u64 u s)
      | OC_capros_Sleep_getPersistentMonotonicTime \<Rightarrow> do {
          (u, s) \<leftarrow> sysT_NowPersistent s;
          sk_return_u64 u s }
      | OC_capros_Sleep_getDelayCalibration \<Rightarrow> do {
          s \<leftarrow> COMMIT_POINT s;
          sk_return (set_exit_w1 (loopsPer8us (k_clock s)) (set_exit_code RC_OK s)) }
      | OC_capros_Sleep_sleepTillPersistentOrRestart \<Rightarrow> do {
          assert_that (restartIsDone (k_clock s));
          if entry_u64 s < monotonicTimeOfRestart (k_clock s) then sk_return_OK s
          else sk_sleep (sk_wakeup oc s) s }
      | _ \<Rightarrow> sk_sleep (sk_wakeup oc s) s)"

definition SleepKey :: "kern \<Rightarrow> result option" where
  "SleepKey s = do {
     s \<leftarrow> inv_GetReturnee s;
     case entry_code (k_inv s) of
       Sleep_OC oc \<Rightarrow> sk_request oc s
     | OC_capros_key_getType \<Rightarrow> sk_return_OK (set_exit_w1 (k_akt s KKT_Sleep) s)
     | _ \<Rightarrow> do {
         s \<leftarrow> COMMIT_POINT s;
         sk_return (set_exit_code RC_capros_key_UnknownRequest s) } }"

end
