(* ===== verification/Dispatch.thy ===== *)
theory Dispatch
  imports Process_Key Sleep_Key
begin

text \<open>
  The dispatch of an invocation to the handler of the invoked key (\<^verbatim>\<open>proc_DoKeyInvocation\<close> of
  sys/kernel/kern_Invoke.c). The handlers of the device keys are not modelled.
\<close>

section \<open>The dispatch\<close>

text \<open>The handlers that change processes themselves.\<close>

definition on_process :: "kern \<Rightarrow> result option" where
  "on_process s =
     (case keyType (keys s (inv_key (k_inv s))) of
        KKT_Process \<Rightarrow> ProcessKey s
      | KKT_Sleep \<Rightarrow> SleepKey s
      | _ \<Rightarrow> None)"

text \<open>The last call of a handler.\<close>

primrec finish :: "outcome \<Rightarrow> result option" where
  "finish (Returned s) = do { s \<leftarrow> ReturnMessage s; Some (Done s) }"
| "finish (ToGate s) = GateKey s"
| "finish (OnProcess s) = on_process s"
| "finish (Slept s) = Some (Asleep s)"

definition invoke_handler :: "kern \<Rightarrow> outcome option" where
  "invoke_handler s =
     (case keyType (keys s (inv_key (k_inv s))) of
        KKT_Start \<Rightarrow> Some (ToGate s)
      | KKT_Resume \<Rightarrow> Some (ToGate s)
      | KKT_Process \<Rightarrow> Some (OnProcess s)
      | KKT_Forwarder \<Rightarrow> ForwarderKey s
      | KKT_Node \<Rightarrow> NodeKey s
      | KKT_GPT \<Rightarrow> GPTKey s
      | KKT_Page \<Rightarrow> PageKey s
      | KKT_Number \<Rightarrow> NumberKey s
      | KKT_Sched \<Rightarrow> SchedKey s
      | KKT_Range \<Rightarrow> RangeKey s
      | KKT_PrimeRange \<Rightarrow> RangeKey s
      | KKT_PhysRange \<Rightarrow> RangeKey s
      | KKT_Void \<Rightarrow> VoidKey s
      | KKT_KeyBits \<Rightarrow> KeyBitsKey s
      | KKT_Discrim \<Rightarrow> DiscrimKey s
      | KKT_ProcessTool \<Rightarrow> ProcessToolKey s
      | KKT_Sleep \<Rightarrow> Some (OnProcess s)
      | KKT_Keyboard \<Rightarrow> VoidKey s
      | _ \<Rightarrow> None)"

text \<open>A null pointer is represented by \<^const>\<open>KVoidKey\<close>.\<close>

definition inv_Cleanup :: "kern \<Rightarrow> kern" where
  "inv_Cleanup s =
     (let flags = inv_flags (k_inv s);
          s = (upd_inv (\<lambda>i. i\<lparr>inv_key := KVoidKey, invokee := None, entry_key := (\<lambda>_. KVoidKey)\<rparr>) s)
                \<lparr>InvocationCommitted := False\<rparr>;
          s = (if flags AND INV_SCRATCHKEY \<noteq> 0 then key_NH_SetToVoid KScratch s else s);
          s = (if flags AND INV_KEEPERARG \<noteq> 0 then key_NH_SetToVoid KKeeperArg s else s)
      in upd_inv (inv_flags_update (\<lambda>_. 0)) s)"

text \<open>A prompt invocation is one of a resume key, or else treated like one of the void key.\<close>

definition prompt_adjust :: "kern \<Rightarrow> kern" where
  "prompt_adjust s =
     (let i = k_inv s in
      if invType_IsPrompt (invType i) then
        upd_inv (\<lambda>i. i\<lparr>invType := invType i AND NOT IT_PReturn,
          inv_key := (if keyType (keys s (inv_key i)) \<noteq> KKT_Resume then KVoidKey else inv_key i)\<rparr>) s
      else s)"

definition expect_message :: "proc_ptr \<Rightarrow> kern \<Rightarrow> kern" where
  "expect_message p s =
     on_proc p (\<lambda>q. q\<lparr>processFlags := (if invType (k_inv s) = IT_KeeperCall
       then processFlags q AND NOT capros_Process_PF_ExpectingMessage
       else processFlags q OR capros_Process_PF_ExpectingMessage)\<rparr>) s"

text \<open>The part of \<^verbatim>\<open>act_HandleYieldEntry\<close> before the scheduler runs.\<close>

definition yield_entry :: "kern \<Rightarrow> kern option" where
  "yield_entry s = do {
     a \<leftarrow> act_curActivity (k_sched s);
     assert_that (\<not> InvocationCommitted s);
     assert_that (allocatedActivity (k_sched s) = None);
     assert_that (act_ValidateActivity a (k_sched s));
     let s = inv_Cleanup s;
     Some (s\<lparr>k_sched := act_ForceResched (k_sched s)\<rparr>) }"

definition proc_DoKeyInvocation :: "proc_ptr \<Rightarrow> kern \<Rightarrow> kern option" where
  "proc_DoKeyInvocation thisPtr s = do {
     p \<leftarrow> proc_curProcess (k_sched s);
     assert_that (runState (procs (k_sched s) p) = RS_Running);
     let s = prompt_adjust s;
     let s = expect_message thisPtr s;
     out \<leftarrow> invoke_handler s;
     res \<leftarrow> finish out;
     case res of
       Asleep s \<Rightarrow> yield_entry s
     | Done s \<Rightarrow>
         (let s = s\<lparr>k_sched := (k_sched s)\<lparr>allocatedActivity := None\<rparr>, InvocationCommitted := False\<rparr>
          in Some (inv_Cleanup s)) }"

definition BeginInvocation :: "kern \<Rightarrow> kern" where
  "BeginInvocation s = s\<lparr>InvocationCommitted := False, ReturneeSetUp := False\<rparr>"

end
