(* ===== verification/Resume_Inv.thy ===== *)
theory Resume_Inv
  imports Dispatch
begin

text \<open>
  Resume keys. A resume key stands for one return to a process that waits; when it is used, all
  copies of it become void. The invariant is that a process to which a valid resume key exists, in
  whatever form, is waiting. Every step of an invocation keeps it.
\<close>

section \<open>The invariant\<close>

definition loaded_root :: "kern \<Rightarrow> proc_ptr \<Rightarrow> obj_ptr \<Rightarrow> bool" where
  "loaded_root s p q = (is_obj s q \<and> obType (obj_at s q) = ot_NtProcessRoot \<and> prep_context (obj_at s q) = p)"

definition resumable :: "kern \<Rightarrow> proc_ptr \<Rightarrow> bool" where
  "resumable s p = (\<exists>q r. loaded_root s p q \<and> keyType (keys s r) = KKT_Resume \<and> denotes s (keys s r) q)"

definition resumes_ok :: "kern \<Rightarrow> bool" where
  "resumes_ok s = (\<forall>p. resumable s p \<longrightarrow> runState (procs (k_sched s) p) = RS_Waiting)"

text \<open>A process structure in use is loaded from its root node.\<close>

definition procs_loaded :: "kern \<Rightarrow> bool" where
  "procs_loaded s = (\<forall>p q. procRoot s p = Some q \<longrightarrow> loaded_root s p q)"

text \<open>During an invocation there is no resume key to the invoker \<open>cur\<close> either.\<close>

definition resume_safe :: "proc_ptr \<Rightarrow> kern \<Rightarrow> bool" where
  "resume_safe cur s = (kern_inv s \<and> proc_curProcess (k_sched s) \<in> {Some cur, None}
     \<and> \<not> resumable s cur \<and> resumes_ok s \<and> procs_loaded s \<and> procRoot s cur \<noteq> None)"

lemma resume_safe_inv: "resume_safe cur s \<Longrightarrow> kern_inv s"
  by (simp add: resume_safe_def)

section \<open>Capabilities and designation\<close>

lemma cap_denotes:
  assumes "kern_inv s" "is_obj s q" "wf_key s k" "key_cap s k = ObjCap t w d (obOid (obj_at s q)) c"
  shows "denotes s k q \<and> keyType k = t"
proof -
  from assms(4) have ob: "keyBits_IsObjectKey k" by (simp add: key_cap_def split: if_splits)
  show ?thesis
  proof (cases "keyBits_IsPrepared k")
    case True
    with assms(4) ob obtain p where p: "key_GetObjectPtr s k = Some p" "obOid (obj_at s p) = obOid (obj_at s q)"
      and t: "keyType k = t"
      by (auto simp: key_cap_def split: option.splits)
    have "is_obj s p" using p(1) assms(3) ob True
      by (auto simp: wf_key_def key_GetObjectPtr_Some split: if_splits)
    then have "p = q" using p(2) assms(2) kern_inv_wf_objs [OF assms(1)] by (auto simp: wf_objs_def)
    with p t ob True assms(2) show ?thesis by (simp add: denotes_def)
  next
    case False
    with assms(4) ob objH_Lookup_is_obj [OF kern_inv_wf_objs [OF assms(1)] assms(2)] show ?thesis
      using assms(2) by (auto simp: key_cap_def denotes_def split: key_u.splits option.splits if_splits)
  qed
qed

lemma loaded_root_world: "same_world s s' \<Longrightarrow> loaded_root s' p q = loaded_root s p q"
  by (simp add: loaded_root_def same_world_is_obj) (simp add: same_world_def same_ident_def)

lemma procs_loaded_world:
  assumes "same_world s s'"
  shows "procs_loaded s' = procs_loaded s"
  using loaded_root_world [OF assms] assms by (simp add: procs_loaded_def same_world_def)

lemma resumable_confined:
  assumes "kern_inv s" "confined True s s'" "same_world s s'" "resumable s' p"
  shows "resumable s p"
proof -
  from assms(4) obtain q r where q: "loaded_root s' p q" "keyType (keys s' r) = KKT_Resume" "denotes s' (keys s' r) q"
    by (auto simp: resumable_def)
  have inv': "kern_inv s'" using assms(2) by (rule confined_inv)
  obtain r' where d: "derives True (cap_at s r') (cap_at s' r)" using assms(2) by (auto simp: confined_def)
  have "cap_at s' r = ObjCap KKT_Resume (keyPerms (keys s' r)) (keyData (keys s' r)) (obOid (obj_at s' q))
      (count_for (keys s' r) (obj_at s' q))"
    using key_cap_denotes [OF inv' q(3) kern_inv_wf_key [OF inv']] q(2) by (simp add: cap_at_def)
  with d obtain w e c where "key_cap s (keys s r') = ObjCap KKT_Resume w e (obOid (obj_at s q)) c"
    by (cases "cap_at s r'") (auto simp: same_world_objects [OF assms(3)] cap_at_def)
  moreover have "loaded_root s p q" using q(1) loaded_root_world [OF assms(3)] by simp
  ultimately show ?thesis
    using cap_denotes [OF assms(1) _ kern_inv_wf_key [OF assms(1)], of q r' KKT_Resume w e c]
    unfolding resumable_def by (intro exI [of _ q] exI [of _ r']) (simp add: loaded_root_def)
qed

lemma resume_safe_confined:
  assumes "resume_safe cur s" "confined True s s'" "same_world s s'" "k_sched s' = k_sched s"
  shows "resume_safe cur s'"
proof -
  have "resumable s' p \<Longrightarrow> resumable s p" for p
    using resumable_confined [OF resume_safe_inv [OF assms(1)] assms(2,3)] .
  moreover have "procRoot s' = procRoot s" using assms(3) by (simp add: same_world_def)
  ultimately show ?thesis using assms(1,4) confined_inv [OF assms(2)] procs_loaded_world [OF assms(3)]
    by (auto simp: resume_safe_def resumes_ok_def)
qed

lemma resumable_simps [simp]:
  "resumable (upd_inv f s) = resumable s" "resumable (s\<lparr>InvocationCommitted := b\<rparr>) = resumable s"
  "resumable (s\<lparr>ReturneeSetUp := b\<rparr>) = resumable s" "resumable (s\<lparr>k_sched := x\<rparr>) = resumable s"
  by (simp_all add: resumable_def loaded_root_def denotes_def is_obj_def key_GetObjectPtr_def fun_eq_iff)

lemma procs_loaded_simps [simp]:
  "procs_loaded (upd_inv f s) = procs_loaded s" "procs_loaded (s\<lparr>InvocationCommitted := b\<rparr>) = procs_loaded s"
  "procs_loaded (s\<lparr>ReturneeSetUp := b\<rparr>) = procs_loaded s" "procs_loaded (s\<lparr>k_sched := x\<rparr>) = procs_loaded s"
  by (simp_all add: procs_loaded_def loaded_root_def is_obj_def)

section \<open>The handlers keep it\<close>

lemma key_DoValidate_frame:
  assumes "kern_inv s" "key_DoValidate r s = Some (v, s')"
  shows "same_world s s' \<and> k_sched s' = k_sched s"
proof (cases "keyBits_IsObjectKey (keys s r)")
  case True
  then show ?thesis
    using key_DoValidate_outcome [OF kern_inv_wf_objs [OF assms(1)] True assms(2)]
    by (cases v) (auto simp: prep_result_def)
next
  case False
  then have "s' = s" using assms(2)
    by (cases "keyType (keys s r)") (auto simp: key_DoValidate_def key_kinds)
  then show ?thesis by simp
qed

lemma key_DoPrepare_sched: "kern_inv s \<Longrightarrow> key_DoPrepare r s = Some (v, s') \<Longrightarrow> k_sched s' = k_sched s"
  using key_DoPrepare_other [of s r v s'] by (auto simp: only_key_def kern_inv_wf_objs)

interpretation rs: key_closed_lax "resume_safe cur" for cur
proof
  fix s assume s: "resume_safe cur s"
  note inv = resume_safe_inv [OF s] and c = confined_refl [OF resume_safe_inv [OF s], of True]
  show "kern_inv s" by (rule inv)
  show "resume_safe cur (key_NH_Set dst src s)" for dst src
    by (rule resume_safe_confined [OF s conf.P_Set [OF c]]) simp_all
  show "resume_safe cur (key_NH_SetToVoid r s)" for r
    by (rule resume_safe_confined [OF s conf.P_SetToVoid [OF c]]) simp_all
  show "resume_safe cur (key_SetToNumber r hi mid lo s)" for r hi mid lo
    by (rule resume_safe_confined [OF s conf.P_SetToNumber [OF c]]) (simp_all add: key_SetToNumber_eq)
  show "keyType (keys s r) = KKT_Number \<Longrightarrow> resume_safe cur (upd_key r ((keys s r)\<lparr>key_u := u\<rparr>) s)" for r u
    by (rule resume_safe_confined [OF s conf.P_number [OF c]]) simp_all
  show "key_DoPrepare r s = Some (v, s') \<Longrightarrow> resume_safe cur s'" for r v s'
    using resume_safe_confined [OF s conf.P_DoPrepare [OF c]] key_DoPrepare_world(1) [OF inv]
      key_DoPrepare_sched [OF inv] by blast
  show "key_DoValidate r s = Some (v, s') \<Longrightarrow> resume_safe cur s'" for r v s'
    using resume_safe_confined [OF s conf.P_DoValidate [OF c]] key_DoValidate_frame [OF inv] by blast
  show "same_ident (obj_at s p) (g (obj_at s p)) \<Longrightarrow> resume_safe cur (upd_obj p g s)" for p g
    by (rule resume_safe_confined [OF s conf.P_upd_obj [OF c]]) (simp_all add: same_world_upd_obj)
  show "resume_safe cur (upd_key r (unhazarded (keys s r)) s)" for r
    by (rule resume_safe_confined [OF s conf.P_unhazard [OF c]]) simp_all
  show "restricts (keys s r) k \<Longrightarrow> resume_safe cur (upd_key r k s)" for r k
    by (rule resume_safe_confined [OF s conf.P_restrict [OF c]]) simp_all
  show "restricts_lax (keys s r) k \<Longrightarrow> resume_safe cur (upd_key r k s)" for r k
    by (rule resume_safe_confined [OF s conf.P_lax [OF c]]) simp_all
  show "quiet (k_sched s) x \<Longrightarrow> resume_safe cur (s\<lparr>k_sched := x\<rparr>)" for x
    using s by (auto simp: resume_safe_def resumes_ok_def same_runs_def dest!: quiet_runs)
  show "commit_sched i (k_sched s) = Some x \<Longrightarrow> resume_safe cur (s\<lparr>k_sched := x\<rparr>)" for i x
  proof -
    assume "commit_sched i (k_sched s) = Some x"
    from commit_sched_runs [OF this] obtain p where p: "proc_curProcess (k_sched s) = Some p"
      "proc_curProcess x = Some p" "\<And>q. q \<noteq> p \<Longrightarrow> procs x q = procs (k_sched s) q" by blast
    with s show ?thesis by (auto simp: resume_safe_def resumes_ok_def) (metis (full_types))
  qed
qed (auto simp: resume_safe_def resumes_ok_def)

section \<open>Making keys and rescinding\<close>

text \<open>Deleting activities leaves the run states alone; the current process may be gone.\<close>

definition lost_run :: "sched \<Rightarrow> sched \<Rightarrow> bool" where
  "lost_run x y = ((\<forall>p. runState (procs y p) = runState (procs x p)) \<and> proc_curProcess y \<in> {proc_curProcess x, None})"

lemma lost_run_refl [simp]: "lost_run x x"
  and lost_run_trans: "lost_run x y \<Longrightarrow> lost_run y z \<Longrightarrow> lost_run x z"
  by (auto simp: lost_run_def)

lemma act_DeleteActivity_runs:
  assumes "act_DeleteActivity a x = Some y"
  shows "lost_run x y"
proof -
  let ?z = "act_ForceResched (x\<lparr>act_curActivity := None, proc_curProcess := None\<rparr>)"
  from assms obtain z where z: "z = x \<or> z = ?z" and y: "act_FreeActivity a z = Some y"
    by (auto simp: act_DeleteActivity_def Let_def bind_eq_Some_conv split: if_split_asm)
  have "procs y = procs z" "proc_curProcess y = proc_curProcess z"
    using y by (auto simp: act_FreeActivity_def act_Enqueue_def bind_eq_Some_conv)
  with z show ?thesis by (auto simp: lost_run_def act_ForceResched_def)
qed

lemma delete_proc_activity_runs:
  assumes "delete_proc_activity p x = Some y"
  shows "lost_run x y"
proof -
  from assms obtain a z where "proc_ClearActivity p x = Some (a, z)" and y: "act_DeleteActivity a z = Some y"
    by (auto simp: delete_proc_activity_def bind_eq_Some_conv)
  then have "lost_run x z"
    by (auto simp: proc_ClearActivity_def proc_Deactivate_Some act_Dequeue_def lost_run_def bind_eq_Some_conv
        split: if_split_asm)
  then show ?thesis using act_DeleteActivity_runs [OF y] by (rule lost_run_trans)
qed

lemma lost_run_unlink [simp]: "lost_run x (act_Dequeue a x)"
  by (simp add: act_Dequeue_def lost_run_def)

lemma act_FindByOid_runs:
  "act_FindByOid_loop oid c is x = Some (r, y) \<Longrightarrow> lost_run x y"
proof (induction "is")
  case (Cons i "is")
  then show ?case
    by (auto simp: Let_def bind_eq_Some_conv lost_run_def [of _ "upd_act _ _ _"]
        dest!: act_DeleteActivity_runs intro: lost_run_trans [OF lost_run_unlink] split: if_splits)
qed simp

lemma delete_oid_activity_runs:
  assumes "delete_oid_activity oid c x = Some y"
  shows "lost_run x y"
proof -
  from assms obtain r z where z: "act_FindByOid oid c x = Some (r, z)"
    and y: "y = z \<or> (\<exists>a. act_DeleteActivity a (act_Dequeue a z) = Some y)"
    by (auto simp: delete_oid_activity_def bind_eq_Some_conv split: option.splits)
  have "lost_run x z" using z act_FindByOid_runs by (simp add: act_FindByOid_def)
  moreover have "lost_run z y"
    using y by (auto intro: lost_run_trans [OF lost_run_unlink] act_DeleteActivity_runs)
  ultimately show ?thesis by (rule lost_run_trans)
qed

lemma objH_Rescind_runs:
  assumes "ring_ok (keys s) (rings s)" "clearable s" "objH_Rescind p s = Some s'"
  shows "lost_run (k_sched s) (k_sched s')"
proof -
  from keyR_RescindAll_result [OF assms(1,2)] obtain s1 where
    s1: "keyR_RescindAll (ObjRing p) s = Some s1" "void_ring (rings s (ObjRing p)) s s1"
      "ring_ok (keys s1) (rings s1)" "clearable s1" by blast
  from assms(3) s1(1) obtain s2 where s2: "(if objH_isNodeType (obj_at s1 p) then do {
              s \<leftarrow> node_BumpCallCount p s1; Rescind_Process p s } else Some s1) = Some s2"
    and s': "Rescind_BumpAllocCount p s2 = Some s'" by (auto simp: objH_Rescind_def bind_eq_Some_conv)
  have "lost_run (k_sched s1) (k_sched s2)"
  proof (cases "objH_isNodeType (obj_at s1 p)")
    case True
    with s2 obtain s3 where s3: "node_BumpCallCount p s1 = Some s3" and r: "Rescind_Process p s3 = Some s2"
      by (auto simp: bind_eq_Some_conv)
    note b = node_BumpCallCount_result(1) [OF s3]
    have ok: "ring_ok (keys s3) (rings s3)" "clearable s3"
      using b s1(3,4) by (auto simp: bumped_def intro: bumped_clearable)
    from keyR_RescindAll_result [OF ok, of "ProcRing (prep_context (obj_at s3 p))"] obtain s4 where
      s4: "keyR_RescindAll (ProcRing (prep_context (obj_at s3 p))) s3 = Some s4" "k_sched s4 = k_sched s3"
      by (auto simp: void_ring_def)
    have "lost_run (k_sched s3) (k_sched s2)"
      using r s4 by (auto simp: Rescind_Process_def Let_def on_sched_Some bind_eq_Some_conv split: if_splits
          dest!: delete_proc_activity_runs delete_oid_activity_runs)
    with b show ?thesis by (simp add: bumped_def)
  qed (use s2 in simp)
  then show ?thesis
    using Rescind_BumpAllocCount_result(1) [OF s'] void_ringD(12) [OF s1(2)] by (simp add: bumped_def)
qed

lemma resume_safe_lost:
  assumes "resume_safe cur s" "kern_inv s'" "lost_run (k_sched s) (k_sched s')" "\<And>p. resumable s' p \<Longrightarrow> resumable s p"
    and "procs_loaded s' = procs_loaded s" "procRoot s' = procRoot s"
  shows "resume_safe cur s'"
  using assms by (auto simp: resume_safe_def resumes_ok_def lost_run_def)

lemma denotes_same_world:
  assumes "same_world s s'"
  shows "denotes s' k q = denotes s k q"
  using assms same_world_objects [OF assms] same_world_is_obj [OF assms]
  by (simp add: denotes_def key_GetObjectPtr_def same_world_def)

lemma resumable_same:
  assumes "same_world s s'" "resumable s' p"
    and "\<And>r. keyType (keys s' r) = KKT_Resume \<Longrightarrow> keys s' r = keys s r"
  shows "resumable s p"
proof -
  from assms(2) obtain q r where q: "loaded_root s' p q" "keyType (keys s' r) = KKT_Resume" "denotes s' (keys s' r) q"
    by (auto simp: resumable_def)
  have "loaded_root s p q" using q(1) loaded_root_world [OF assms(1)] by simp
  moreover have "denotes s (keys s r) q"
    using q(3) assms(3) [OF q(2)] denotes_same_world [OF assms(1)] by simp
  ultimately show ?thesis using q(2) assms(3) [OF q(2)] unfolding resumable_def by metis
qed

lemma resumable_rescinded:
  assumes "kern_inv s" "rescinded_state p s s'" "is_obj s p"
    and "allocCount (obj_at s p) + 1 \<noteq> 0" "callCount (obj_at s p) + 1 \<noteq> 0" "resumable s' c"
  shows "resumable s c"
proof -
  from assms(6) obtain q r where q: "loaded_root s' c q" "keyType (keys s' r) = KKT_Resume" "denotes s' (keys s' r) q"
    by (auto simp: resumable_def)
  have ne: "q \<noteq> p" using rescinded_not_denoted [OF assms(1-5), of r] q(3) by blast
  have "keyType (keys s r) = KKT_Resume" using q(2) assms(2) by (auto simp: rescinded_state_def split: if_splits)
  moreover have "denotes s (keys s r) q" using rescinded_denotes_other [OF assms(1-3) ne] q(3) by simp
  moreover have "loaded_root s c q"
    using q(1) ne assms(2) by (simp add: loaded_root_def rescinded_state_def is_obj_def)
  ultimately show ?thesis unfolding resumable_def by blast
qed

lemma resumable_retype:
  assumes "obType (obj_at s p) \<in> {ot_NtSegment, ot_NtUnprepared}" "t \<in> {ot_NtSegment, ot_NtUnprepared}"
  shows "resumable (upd_obj p (\<lambda>ob. ob\<lparr>obType := t\<rparr>) s) c = resumable s c"
    "procs_loaded (upd_obj p (\<lambda>ob. ob\<lparr>obType := t\<rparr>) s) = procs_loaded s"
proof -
  let ?s = "upd_obj p (\<lambda>ob. ob\<lparr>obType := t\<rparr>) s"
  have f: "is_obj ?s q = is_obj s q" "objH_GetBaseType (obj_at ?s q) = objH_GetBaseType (obj_at s q)"
    "obOid (obj_at ?s q) = obOid (obj_at s q)" "count_for k (obj_at ?s q) = count_for k (obj_at s q)"
    "(obType (obj_at ?s q) = ot_NtProcessRoot) = (obType (obj_at s q) = ot_NtProcessRoot)"
    "prep_context (obj_at ?s q) = prep_context (obj_at s q)" for q k
    using assms by (auto simp: is_obj_def objH_GetBaseType_def obj_at_upd_obj count_for_def)
  have "denotes ?s k q = denotes s k q" "loaded_root ?s c q = loaded_root s c q" for k q c
    by (simp_all add: denotes_def loaded_root_def key_GetObjectPtr_def f)
  then show "resumable ?s c = resumable s c" "procs_loaded ?s = procs_loaded s"
    by (simp_all add: resumable_def procs_loaded_def)
qed

interpretation rs: key_makes "resume_safe cur" for cur
proof
  fix s s' d
  assume s: "resume_safe cur s" and s': "kern_inv s'" "same_world s s'" "k_sched s' = k_sched s"
    and k: "\<And>r. r \<noteq> d \<Longrightarrow> keys s' r = keys s r" "keyType (keys s' d) \<noteq> KKT_Resume"
  have "keyType (keys s' r) = KKT_Resume \<Longrightarrow> keys s' r = keys s r" for r using k by (cases "r = d") auto
  then show "resume_safe cur s'"
    using resumable_same [OF s'(2)] procs_loaded_world [OF s'(2)] s'(2)
    by (intro resume_safe_lost [OF s s'(1)]) (auto simp: s'(3) same_world_def)
next
  fix s p assume s: "resume_safe cur s" "obType (obj_at s p) = ot_NtSegment"
  then show "resume_safe cur (upd_obj p (\<lambda>ob. ob\<lparr>obType := ot_NtUnprepared\<rparr>) s)"
    using retype_node_inv [OF resume_safe_inv [OF s(1)] s(2)]
    by (intro resume_safe_lost [OF s(1)]) (simp_all add: resumable_retype)
qed

interpretation rs: key_rescinds "resume_safe cur" "resume_safe cur" for cur
proof
  fix s s' p
  assume s: "resume_safe cur s" and c: "clearable s" and p: "is_obj s p" "allocCount (obj_at s p) + 1 \<noteq> 0"
    "callCount (obj_at s p) + 1 \<noteq> 0" and r: "objH_Rescind p s = Some s'"
  note inv = resume_safe_inv [OF s]
  note st = objH_Rescind_result [OF kern_inv_ring [OF inv] c r]
  have "procs_loaded s' = procs_loaded s" by (simp add: procs_loaded_def loaded_root_def rescinded_frame [OF st])
  then show "resume_safe cur s'"
    using rescinded_inv [OF inv st p] objH_Rescind_runs [OF kern_inv_ring [OF inv] c r]
      resumable_rescinded [OF inv st p] rescinded_frame(6) [OF st] by (blast intro: resume_safe_lost [OF s])
qed

end
