(* ===== verification/Resume_Dispatch.thy ===== *)
theory Resume_Dispatch
  imports Resume_Inv
begin

text \<open>
  The end of an invocation keeps the invariant of resume keys: using a resume key makes all its
  copies void before the process runs again, and a caller waits before the resume key to it is
  made.
\<close>

section \<open>Using up resume keys\<close>

lemma ZapResumeKeys_unhazarded:
  assumes "ring_ok (keys s) (rings s)" "keyR_ZapResumeKeys rid s = Some s'"
  shows "\<forall>r \<in> set (rings s rid). is_resume (keys s r) \<longrightarrow> \<not> keyBits_IsHazard (keys s r)"
  using assms
proof (induction "rings s rid" arbitrary: s rule: rev_induct)
  case (snoc r rs)
  show ?case
  proof (cases "keyR_HasResumeKeys rid s")
    case False
    then show ?thesis using HasResumeKeys_iff [OF snoc(3)] by auto
  next
    case True
    let ?s = "upd_key r void_key (upd_ring rid butlast s)"
    have h: "\<not> keyBits_IsHazard (keys s r)" and step: "keyR_ZapResumeKeys rid ?s = Some s'"
      using True snoc(4) by (simp_all add: keyR_ZapResumeKeys.simps [of rid s] flip: snoc(2) split: if_splits)
    have ok: "ring_ok (keys ?s) (rings ?s)"
      using chain_off_last [OF snoc(3) snoc(2) [symmetric]] by (simp flip: snoc(2))
    have rs: "rs = rings ?s rid" by (simp flip: snoc(2))
    have "r \<notin> set rs" using ring_okD(1) [OF snoc(3), of rid] by (simp flip: snoc(2))
    then have "keys ?s r' = keys s r'" if "r' \<in> set rs" for r' using that by auto
    with snoc(1) [OF rs ok step, folded rs] h show ?thesis by (auto simp flip: snoc(2))
  qed
qed simp

text \<open>The state after the resume keys of process \<open>p\<close> with the root \<open>q\<close> are used up.\<close>

definition zapped :: "proc_ptr \<Rightarrow> obj_ptr \<Rightarrow> kern \<Rightarrow> kern \<Rightarrow> bool" where
  "zapped p q s s' =
     (keys s' = (\<lambda>r. if key_ring (keys s r) = Some (ProcRing p) \<and> is_resume (keys s r) then void_key else keys s r)
      \<and> ring_ok (keys s') (rings s') \<and> nObjs s' = nObjs s \<and> obBucket s' = obBucket s \<and> procRoot s' = procRoot s
      \<and> k_inv s' = k_inv s \<and> (\<forall>q'. q' \<noteq> q \<longrightarrow> obj_at s' q' = obj_at s q')
      \<and> obType (obj_at s' q) = obType (obj_at s q) \<and> obOid (obj_at s' q) = obOid (obj_at s q)
      \<and> prep_context (obj_at s' q) = prep_context (obj_at s q) \<and> allocCount (obj_at s' q) = allocCount (obj_at s q)
      \<and> objH_GetFlags (obj_at s' q) OFLG_AllocCntUsed = objH_GetFlags (obj_at s q) OFLG_AllocCntUsed
      \<and> (if objH_GetFlags (obj_at s q) OFLG_CallCntUsed
         then callCount (obj_at s' q) = callCount (obj_at s q) + 1
         else callCount (obj_at s' q) = callCount (obj_at s q) \<and> \<not> objH_GetFlags (obj_at s' q) OFLG_CallCntUsed))"

lemma proc_ZapResumeKeys_result:
  assumes "kern_inv s" "proc_ZapResumeKeys p s = Some s'"
  shows "\<exists>q. procRoot s p = Some q \<and> zapped p q s s' \<and> lost_run (k_sched s) (k_sched s')"
proof -
  note ring = kern_inv_ring [OF assms(1)]
  from assms(2) obtain s1 where z: "keyR_ZapResumeKeys (ProcRing p) s = Some s1"
    by (auto simp: proc_ZapResumeKeys_def bind_eq_Some_conv)
  from keyR_ZapResumeKeys_result [OF ring ZapResumeKeys_unhazarded [OF ring z]] z
  have s1: "void_ring (filter (\<lambda>r. is_resume (keys s r)) (rings s (ProcRing p))) s s1" "ring_ok (keys s1) (rings s1)"
    by auto
  note v = void_ringD [OF s1(1)]
  have keys: "keys s1 = (\<lambda>r. if key_ring (keys s r) = Some (ProcRing p) \<and> is_resume (keys s r) then void_key else keys s r)"
    using v(8) ring_okD(2) [OF ring, of _ "ProcRing p"] by (auto simp: fun_eq_iff)
  from assms(2) z obtain q s2 where q: "procRoot s p = Some q" and s2: "node_BumpCallCount q s1 = Some s2"
    and rest: "(case curActivity (procs (k_sched s2) p) of None \<Rightarrow> Some s2
     | Some act \<Rightarrow> if act_actHazard (acts (k_sched s2) act) \<noteq> actHaz_None
         then on_sched (delete_proc_activity p) s2 else Some s2) = Some s'"
    using v(3) by (auto simp: proc_ZapResumeKeys_def bind_eq_Some_conv)
  have "s' = s2 \<or> (\<exists>x. delete_proc_activity p (k_sched s2) = Some x \<and> s' = s2\<lparr>k_sched := x\<rparr>)"
    using rest by (cases "curActivity (procs (k_sched s2) p)") (auto simp: on_sched_Some split: if_splits)
  moreover have "s2 = s2\<lparr>k_sched := k_sched s2\<rparr>" by simp
  ultimately have s': "\<exists>x. s' = s2\<lparr>k_sched := x\<rparr> \<and> lost_run (k_sched s2) x"
    using delete_proc_activity_runs lost_run_refl by metis
  note b = node_BumpCallCount_result [OF s2]
  from s' obtain x where x: "s' = s2\<lparr>k_sched := x\<rparr>" "lost_run (k_sched s2) x" by blast
  have "zapped p q s s'" using b s1(2) keys v by (auto simp: zapped_def bumped_def x(1))
  moreover have "lost_run (k_sched s) (k_sched s')" using x b(1) v(12) by (simp add: bumped_def)
  ultimately show ?thesis using q by blast
qed

lemma zapped_frame:
  assumes "zapped p q s s'"
  shows "is_obj s' x = is_obj s x" "obOid (obj_at s' x) = obOid (obj_at s x)"
    "obType (obj_at s' x) = obType (obj_at s x)"
    "objH_GetBaseType (obj_at s' x) = objH_GetBaseType (obj_at s x)"
    "prep_context (obj_at s' x) = prep_context (obj_at s x)" "procRoot s' = procRoot s"
    "obBucket s' = obBucket s" "nObjs s' = nObjs s" "key_GetObjectPtr s' k = key_GetObjectPtr s k"
    "loaded_root s' c x = loaded_root s c x" "allocCount (obj_at s' x) = allocCount (obj_at s x)"
    "objH_GetFlags (obj_at s' x) OFLG_AllocCntUsed = objH_GetFlags (obj_at s x) OFLG_AllocCntUsed"
    "keys s' r \<noteq> void_key \<Longrightarrow> keys s' r = keys s r"
proof -
  show t: "obType (obj_at s' x) = obType (obj_at s x)" "obOid (obj_at s' x) = obOid (obj_at s x)"
    "prep_context (obj_at s' x) = prep_context (obj_at s x)" "allocCount (obj_at s' x) = allocCount (obj_at s x)"
    "objH_GetFlags (obj_at s' x) OFLG_AllocCntUsed = objH_GetFlags (obj_at s x) OFLG_AllocCntUsed"
    using assms by (cases "x = q"; simp add: zapped_def)+
  show o: "is_obj s' x = is_obj s x" using t assms by (simp add: is_obj_def zapped_def)
  show "objH_GetBaseType (obj_at s' x) = objH_GetBaseType (obj_at s x)" using t by (simp add: objH_GetBaseType_def)
  show "loaded_root s' c x = loaded_root s c x" using t o by (simp add: loaded_root_def)
  show "obBucket s' = obBucket s" "nObjs s' = nObjs s" and r: "procRoot s' = procRoot s"
    using assms by (simp_all add: zapped_def)
  show "key_GetObjectPtr s' k = key_GetObjectPtr s k" using r by (simp add: key_GetObjectPtr_def)
  show "keys s' r \<noteq> void_key \<Longrightarrow> keys s' r = keys s r" using assms by (auto simp: zapped_def split: if_splits)
qed

lemma zapped_count:
  assumes "kern_inv s" "zapped p q s s'" "is_obj s q" "callCount (obj_at s q) + 1 \<noteq> 0"
    and "\<not> keyBits_IsPrepared (keys s r)" "keyBits_IsObjectKey (keys s r)"
    and "key_u (keys s r) = U_unprep (obOid (obj_at s q)) c"
    and "objH_GetBaseType (obj_at s q) = base_of (keyType (keys s r))" "keyType (keys s r) = KKT_Resume"
  shows "c < callCount (obj_at s' q)"
proof -
  have le: "c \<le> callCount (obj_at s q)"
    and used: "c = callCount (obj_at s q) \<Longrightarrow> objH_GetFlags (obj_at s q) OFLG_CallCntUsed"
    using kern_inv_cnt_ok [OF assms(1), of r] assms(3,5-9)
    by (auto simp: cnt_ok_def count_for_def used_for_def)
  have "callCount (obj_at s' q) = (if objH_GetFlags (obj_at s q) OFLG_CallCntUsed
      then callCount (obj_at s q) + 1 else callCount (obj_at s q))"
    using assms(2) by (simp add: zapped_def)
  moreover have "x < x + 1" if "x + 1 \<noteq> 0" for x :: u32 using that by (rule word_less_inc)
  ultimately show ?thesis using le used assms(4) by (metis order_le_less_trans order_le_less)
qed

lemma zapped_inv:
  assumes "kern_inv s" "zapped p q s s'" "is_obj s q" "callCount (obj_at s q) + 1 \<noteq> 0"
  shows "kern_inv s'"
proof -
  note fr = zapped_frame(1-12) [OF assms(2)] and kept = zapped_frame(13) [OF assms(2)]
  have "wf_objs s'" "wf_procs s'"
    using kern_inv_wf_objs [OF assms(1)] kern_inv_wf_procs [OF assms(1)]
    by (simp_all add: wf_objs_def wf_procs_def fr)
  moreover have "wf_key s' k = wf_key s k" for k by (simp add: wf_key_def fr)
  then have "wf_key s' (keys s' r)" for r
    using kern_inv_wf_key [OF assms(1), of r] kept [of r] by (cases "keys s' r = void_key") auto
  moreover have "cnt_ok s' (keys s' r)" for r
    unfolding cnt_ok_def
  proof (intro allI impI)
    fix x c
    assume x: "keyBits_IsObjectKey (keys s' r) \<and> \<not> keyBits_IsPrepared (keys s' r) \<and> is_obj s' x
      \<and> key_u (keys s' r) = U_unprep (obOid (obj_at s' x)) c
      \<and> objH_GetBaseType (obj_at s' x) = base_of (keyType (keys s' r))"
    then have key: "keys s' r = keys s r" using kept [of r] by (cases "keys s' r = void_key") auto
    have old: "c \<le> count_for (keys s r) (obj_at s x)
      \<and> (c = count_for (keys s r) (obj_at s x) \<longrightarrow> objH_GetFlags (obj_at s x) (used_for (keys s r)))"
      using x kern_inv_cnt_ok [OF assms(1), of r] by (simp add: key cnt_ok_def fr)
    show "c \<le> count_for (keys s' r) (obj_at s' x)
      \<and> (c = count_for (keys s' r) (obj_at s' x) \<longrightarrow> objH_GetFlags (obj_at s' x) (used_for (keys s' r)))"
    proof (cases "x = q \<and> keyType (keys s r) = KKT_Resume")
      case True
      then have "c < callCount (obj_at s' q)"
        using x by (intro zapped_count [OF assms, of r]) (simp_all add: key fr)
      with True key show ?thesis by (auto simp: order_less_imp_le count_for_def)
    next
      case False
      then have "count_for (keys s r) (obj_at s' x) = count_for (keys s r) (obj_at s x)"
        "objH_GetFlags (obj_at s' x) (used_for (keys s r)) = objH_GetFlags (obj_at s x) (used_for (keys s r))"
        using assms(2) by (auto simp: zapped_def count_for_def used_for_def fr)
      with old key show ?thesis by simp
    qed
  qed
  moreover have "ring_ok (keys s') (rings s')" using assms(2) unfolding zapped_def by blast
  ultimately show ?thesis by (simp add: kern_inv_def)
qed

lemma zapped_no_resume:
  assumes "kern_inv s" "zapped p q s s'" "procRoot s p = Some q" "loaded_root s p q" "callCount (obj_at s q) + 1 \<noteq> 0"
    and "keyType (keys s' r) = KKT_Resume"
  shows "\<not> denotes s' (keys s' r) q"
proof
  assume d: "denotes s' (keys s' r) q"
  note fr = zapped_frame(1-12) [OF assms(2)] and kept = zapped_frame(13) [OF assms(2)]
  have q: "is_obj s q" "prep_context (obj_at s q) = p" using assms(4) by (simp_all add: loaded_root_def)
  have key: "keys s' r = keys s r" using kept [of r] assms(6) by force
  have obj: "keyBits_IsObjectKey (keys s r)" "keyBits_IsProcessType (keys s r)" "keyType (keys s r) = KKT_Resume"
    using assms(6) by (simp_all add: key [symmetric] key_kinds)
  show False
  proof (cases "keyBits_IsPrepared (keys s r)")
    case True
    with obj kern_inv_wf_key [OF assms(1), of r] obtain pr x where x: "key_u (keys s r) = U_gk pr"
      "procRoot s pr = Some x" "prep_context (obj_at s x) = pr" by (auto simp: wf_key_def)
    have prep: "keyBits_IsPreparedObjectKey (keys s r)" using True obj by (simp add: keyBits_IsPreparedObjectKey_def)
    have "key_GetObjectPtr s (keys s r) = Some q" using d True by (simp add: denotes_def key fr)
    then have "x = q" using x obj by (simp add: key_GetObjectPtr_Some)
    with x q have "pr = p" by simp
    then have "key_ring (keys s r) = Some (ProcRing p) \<and> is_resume (keys s r)"
      using x(1) obj prep by (simp add: key_ring_def key_pContext_def is_resume_def)
    then have "keys s' r = void_key" using assms(2) by (simp add: zapped_def)
    with assms(6) show False by simp
  next
    case False
    with d obj have "key_u (keys s r) = U_unprep (obOid (obj_at s q)) (callCount (obj_at s' q))"
      "objH_GetBaseType (obj_at s q) = base_of (keyType (keys s r))"
      by (simp_all add: denotes_def key fr count_for_def)
    from zapped_count [OF assms(1,2) q(1) assms(5) False obj(1) this obj(3)] show False by simp
  qed
qed

lemma zapped_resumable:
  assumes "kern_inv s" "zapped p q s s'" "procRoot s p = Some q" "loaded_root s p q" "callCount (obj_at s q) + 1 \<noteq> 0"
  shows "\<not> resumable s' p" "resumable s' c \<Longrightarrow> resumable s c"
proof -
  note fr = zapped_frame(1-12) [OF assms(2)] and kept = zapped_frame(13) [OF assms(2)]
  have root: "x = q" if "loaded_root s p x" for x
    using that assms(3) kern_inv_wf_procs [OF assms(1)] by (auto simp: loaded_root_def wf_procs_def)
  then show "\<not> resumable s' p"
    using zapped_no_resume [OF assms] by (auto simp: resumable_def fr)
  assume "resumable s' c"
  then obtain x r where x: "loaded_root s c x" "keyType (keys s' r) = KKT_Resume" "denotes s' (keys s' r) x"
    by (auto simp: resumable_def fr)
  have "x \<noteq> q" using zapped_no_resume [OF assms x(2)] x(3) by blast
  then have "obj_at s' x = obj_at s x" using assms(2) by (simp add: zapped_def)
  moreover have key: "keys s' r = keys s r" using kept [of r] x(2) by force
  ultimately have "denotes s (keys s r) x" using x(3) by (auto simp: denotes_def fr split: if_splits)
  with x key show "resumable s c" unfolding resumable_def by metis
qed

section \<open>Returning a message\<close>

definition system_ok :: "kern \<Rightarrow> bool" where
  "system_ok s = (kern_inv s \<and> procs_loaded s \<and> resumes_ok s)"

definition calls_ok :: "kern \<Rightarrow> bool" where
  "calls_ok s = (\<forall>q. is_obj s q \<longrightarrow> callCount (obj_at s q) + 1 \<noteq> 0)"

definition calls_left :: "proc_ptr \<Rightarrow> kern \<Rightarrow> bool" where
  "calls_left p s = (\<forall>q. procRoot s p = Some q \<longrightarrow> callCount (obj_at s q) + 1 \<noteq> 0)"

lemma calls_ok_left: "calls_ok s \<Longrightarrow> procs_loaded s \<Longrightarrow> calls_left p s"
  by (auto simp: calls_ok_def calls_left_def procs_loaded_def loaded_root_def)

text \<open>What is left of a state after a process is done with: nothing but run states matters.\<close>

lemma system_okI:
  assumes "kern_inv s" "procs_loaded s" "\<And>c. resumable s c \<Longrightarrow> runState (procs x c) = RS_Waiting"
  shows "system_ok (s\<lparr>k_sched := x\<rparr>)"
  using assms by (simp add: system_ok_def resumes_ok_def)

lemma resume_safe_system: "resume_safe cur s \<Longrightarrow> system_ok s"
  by (simp add: resume_safe_def system_ok_def)

lemma act_DeleteCurrent_runs:
  assumes "act_DeleteCurrent x = Some z"
  shows "lost_run x z"
proof -
  from assms obtain a w where w: "w = x \<or> (\<exists>p. w = upd_proc p (curActivity_update (\<lambda>_. None)) x)"
    and z: "act_DeleteActivity a (w\<lparr>proc_curProcess := None\<rparr>) = Some z"
    by (auto simp: act_DeleteCurrent_def bind_eq_Some_conv proc_Deactivate_Some split: option.splits)
  have "lost_run x (w\<lparr>proc_curProcess := None\<rparr>)" using w by (auto simp: lost_run_def)
  then show ?thesis using act_DeleteActivity_runs [OF z] by (rule lost_run_trans)
qed

lemma release_allocated_runs:
  assumes "release_allocated x = Some y"
  shows "lost_run x y"
proof -
  have "lost_run x z" if "act_FreeActivity a x = Some z" for a z
    using that by (auto simp: act_FreeActivity_def act_Enqueue_def lost_run_def bind_eq_Some_conv)
  then show ?thesis using assms act_DeleteCurrent_runs
    by (auto simp: release_allocated_def bind_eq_Some_conv split: if_splits)
qed

lemma Migrate_runs:
  assumes "MigrateAllocatedActivity p x = Some y"
  shows "runState (procs y c) = runState (procs x c)"
proof -
  have A: "runState (procs z c) = runState (procs w c)" if "act_AssignToRunnable a p w = Some z" for a w z
    using act_AssignToRunnable_result [OF that] by auto
  from assms obtain a w where "(w = x \<or> (\<exists>q. w = upd_proc q (curActivity_update (\<lambda>_. None)) x))
      \<and> (act_AssignToRunnable a p w = Some y \<or> (\<exists>z. act_AssignToRunnable a p w = Some z \<and> act_Wakeup a z = Some y))"
    by (auto simp: MigrateAllocatedActivity_def bind_eq_Some_conv proc_Deactivate_Some split: option.splits if_splits)
  moreover have "runState (procs (upd_proc q (curActivity_update (\<lambda>_. None)) x) c) = runState (procs x c)" for q by simp
  moreover have W: "runState (procs z c) = runState (procs w c)" if "act_Wakeup a w = Some z" for a w z
    using act_Wakeup_procs [OF that] by simp
  ultimately show ?thesis by (elim conjE disjE exE) (auto dest!: A W)
qed

lemma on_proc_simps [simp]:
  "resumable (on_proc p f s) = resumable s" "procs_loaded (on_proc p f s) = procs_loaded s"
  "kern_inv (on_proc p f s) = kern_inv s" "keys (on_proc p f s) = keys s" "k_inv (on_proc p f s) = k_inv s"
  "procRoot (on_proc p f s) = procRoot s" "is_obj (on_proc p f s) = is_obj s" "obj_at (on_proc p f s) = obj_at s"
  "k_sched (on_proc p f s) = upd_proc p f (k_sched s)"
  by (simp_all add: on_proc_def is_obj_def fun_eq_iff)

lemma system_ok_on_proc:
  assumes "system_ok s" "\<And>q. runState (f q) = runState q"
  shows "system_ok (on_proc p f s)"
  using assms by (simp add: system_ok_def resumes_ok_def)

lemma system_ok_run:
  assumes "kern_inv s" "procs_loaded s" "\<And>c. resumable s c \<Longrightarrow> c \<noteq> p \<and> runState (procs (k_sched s) c) = RS_Waiting"
    and "\<And>q. runState (f q) = r"
  shows "system_ok (on_proc p f s)"
  using assms by (auto simp: system_ok_def resumes_ok_def)

text \<open>The keys to the process are used up and it gets the activity.\<close>

lemma zap_Migrate:
  assumes "kern_inv s" "procs_loaded s" "calls_left p s" "proc_ZapResumeKeys p s = Some s1"
  shows "kern_inv s1" "procs_loaded s1" "\<not> resumable s1 p" "resumable s1 c \<Longrightarrow> resumable s c"
    "runState (procs (k_sched s1) c) = runState (procs (k_sched s) c)" "k_inv s1 = k_inv s" "procRoot s1 = procRoot s"
proof -
  from proc_ZapResumeKeys_result [OF assms(1,4)] obtain q where q: "procRoot s p = Some q" and z: "zapped p q s s1"
    and l: "lost_run (k_sched s) (k_sched s1)" by blast
  have lr: "loaded_root s p q" using assms(2) q by (simp add: procs_loaded_def)
  then have o: "is_obj s q" by (simp add: loaded_root_def)
  then have cc: "callCount (obj_at s q) + 1 \<noteq> 0" using assms(3) q by (simp add: calls_left_def)
  show "kern_inv s1" by (rule zapped_inv [OF assms(1) z o cc])
  show "procs_loaded s1" using assms(2) zapped_frame(6,10) [OF z] by (simp add: procs_loaded_def)
  show "\<not> resumable s1 p" "resumable s1 c \<Longrightarrow> resumable s c"
    using zapped_resumable [OF assms(1) z q lr cc] by blast+
  show "runState (procs (k_sched s1) c) = runState (procs (k_sched s) c)" using l by (simp add: lost_run_def)
  show "k_inv s1 = k_inv s" "procRoot s1 = procRoot s" using z by (simp_all add: zapped_def)
qed

text \<open>
  An answer that is taken for a message through a start key: it goes to another process than the
  current one, and where the invoked key was there is a start key now.
\<close>

definition start_answer :: "kern \<Rightarrow> bool" where
  "start_answer s = (keyType (keys s (inv_key (k_inv s))) = KKT_Start
     \<and> (case invokee (k_inv s) of None \<Rightarrow> False | Some p \<Rightarrow> proc_curProcess (k_sched s) \<noteq> Some p))"

lemma not_start_answer: "keyType (keys s (inv_key (k_inv s))) \<noteq> KKT_Start \<Longrightarrow> \<not> start_answer s"
  by (simp add: start_answer_def)

lemma ReturnMessage_system:
  assumes "system_ok s" "ReturnMessage s = Some s'" "\<not> start_answer s"
    and "\<And>p. invokee (k_inv s) = Some p \<Longrightarrow> calls_left p s"
    and "\<And>p. invokee (k_inv s) = Some p \<Longrightarrow> proc_curProcess (k_sched s) = Some p \<Longrightarrow> \<not> resumable s p"
  shows "system_ok s'"
proof -
  have safe: "kern_inv s" "procs_loaded s" "\<And>c. resumable s c \<Longrightarrow> runState (procs (k_sched s) c) = RS_Waiting"
    using assms(1) by (simp_all add: system_ok_def resumes_ok_def)
  show ?thesis
  proof (cases "invokee (k_inv s)")
    case None
    with assms(2) obtain x where "release_allocated (k_sched s) = Some x" "s' = s\<lparr>k_sched := x\<rparr>"
      by (auto simp: ReturnMessage_def on_sched_Some)
    then show ?thesis using safe release_allocated_runs by (auto intro!: system_okI simp: lost_run_def)
  next
    case (Some p)
    let ?r = "runState_update (\<lambda>_. RS_Running)"
    have "\<exists>s1. system_ok (on_proc p ?r s1) \<and> (if proc_IsExpectingMsg (procs (k_sched (on_proc p ?r s1)) p)
        then do { s \<leftarrow> proc_DeliverResult p (on_proc p ?r s1); Some (on_proc p proc_AdvancePostInvocationPC s) }
        else Some (on_proc p ?r s1)) = Some s'"
    proof (cases "proc_curProcess (k_sched s) = Some p")
      case True
      then have "system_ok (on_proc p ?r s)" using safe assms(5) [OF Some True] by (intro system_ok_run) auto
      with True Some assms(2) show ?thesis by (intro exI [of _ s]) (simp add: ReturnMessage_def Let_def)
    next
      case False
      with assms(3) Some have "keyType (keys s (inv_key (k_inv s))) \<noteq> KKT_Start" by (simp add: start_answer_def)
      with False assms(2) Some obtain s1 x where s1: "proc_ZapResumeKeys p s = Some s1"
        and x: "MigrateAllocatedActivity p (k_sched s1) = Some x"
        and s': "(if proc_IsExpectingMsg (procs (k_sched (on_proc p ?r (s1\<lparr>k_sched := x\<rparr>))) p)
          then do { s \<leftarrow> proc_DeliverResult p (on_proc p ?r (s1\<lparr>k_sched := x\<rparr>)); Some (on_proc p proc_AdvancePostInvocationPC s) }
          else Some (on_proc p ?r (s1\<lparr>k_sched := x\<rparr>))) = Some s'"
        by (auto simp: ReturnMessage_def Let_def bind_eq_Some_conv on_sched_Some)
      note z = zap_Migrate [OF safe(1,2) assms(4) [OF Some] s1]
      have "system_ok (on_proc p ?r (s1\<lparr>k_sched := x\<rparr>))"
        using z safe(3) Migrate_runs [OF x] by (intro system_ok_run) auto
      with s' show ?thesis by blast
    qed
    then obtain s1 where s1: "system_ok s1" "s' = s1 \<or> (\<exists>s2. proc_DeliverResult p s1 = Some s2
        \<and> s' = on_proc p proc_AdvancePostInvocationPC s2)"
      by (fastforce simp: bind_eq_Some_conv split: if_splits)
    have "system_ok s2" if "proc_DeliverResult p s1 = Some s2" for s2
      using that s1(1) by (auto simp: proc_DeliverResult_def Let_def intro!: system_ok_on_proc)
    with s1 show ?thesis
      by (auto intro!: system_ok_on_proc simp: proc_AdvancePostInvocationPC_def Let_def)
  qed
qed

lemma ReturnMessage_ok:
  assumes "resume_safe cur s" "calls_ok s" "ReturnMessage s = Some s'"
    and "\<not> start_answer s"
  shows "system_ok s'"
proof (rule ReturnMessage_system [OF resume_safe_system [OF assms(1)] assms(3,4)])
  fix p assume p: "invokee (k_inv s) = Some p"
  show "calls_left p s" using assms(1) by (intro calls_ok_left [OF assms(2)]) (simp add: resume_safe_def)
  assume "proc_curProcess (k_sched s) = Some p"
  then have "p = cur" using assms(1) by (simp add: resume_safe_def)
  then show "\<not> resumable s p" using assms(1) by (simp add: resume_safe_def)
qed

section \<open>Gate keys\<close>

lemma system_ok_Set: "system_ok s \<Longrightarrow> system_ok (key_NH_Set d r s)"
proof -
  assume s: "system_ok s"
  then have inv: "kern_inv s" by (simp add: system_ok_def)
  have c: "confined True s (key_NH_Set d r s)" by (rule conf.P_Set [OF confined_refl [OF inv]])
  have w: "same_world s (key_NH_Set d r s)" by simp
  show ?thesis
    using s confined_inv [OF c] resumable_confined [OF inv c w] procs_loaded_world [OF w]
    by (auto simp: system_ok_def resumes_ok_def)
qed

lemma gate_copy_key_simps [simp]:
  "k_inv (gate_copy_key i s) = k_inv s" "k_sched (gate_copy_key i s) = k_sched s" "procRoot (gate_copy_key i s) = procRoot s"
  by (simp_all add: gate_copy_key_def split: option.split)

lemma system_ok_copy: "system_ok s \<Longrightarrow> system_ok (gate_copy_key i s)"
  by (simp add: gate_copy_key_def system_ok_Set split: option.split)

lemma BuildResumeKey_frame:
  "same_world s (proc_BuildResumeKey p d s)" "k_sched (proc_BuildResumeKey p d s) = k_sched s"
  "r \<noteq> d \<Longrightarrow> keys (proc_BuildResumeKey p d s) r = keys s r"
  "keyType (keys (proc_BuildResumeKey p d s) d) = KKT_Resume" "key_u (keys (proc_BuildResumeKey p d s) d) = U_gk p"
  "keyBits_IsPrepared (keys (proc_BuildResumeKey p d s) d)"
  by (auto simp: proc_BuildResumeKey_def Let_def link_insertBefore_def keyBits_InitType_def)

text \<open>A new resume key to the process \<open>p\<close> is the only thing that is new.\<close>

lemma new_resume_key:
  assumes "system_ok s" "procRoot s p = Some q" "same_world s s'" "\<And>r. r \<noteq> d \<Longrightarrow> keys s' r = keys s r"
    and "keyType (keys s' d) = KKT_Resume" "key_u (keys s' d) = U_gk p" "keyBits_IsPrepared (keys s' d)" "resumable s' c"
  shows "c = p \<or> resumable s c"
proof -
  have lr: "loaded_root s p q" using assms(1,2) by (simp add: system_ok_def procs_loaded_def)
  from assms(8) obtain x r where x: "loaded_root s c x" "keyType (keys s' r) = KKT_Resume" "denotes s (keys s' r) x"
    by (auto simp: resumable_def loaded_root_world [OF assms(3)] denotes_same_world [OF assms(3)])
  show ?thesis
  proof (cases "r = d")
    case True
    then have "key_GetObjectPtr s (keys s' d) = Some x" using x(3) assms(7) by (simp add: denotes_def)
    then have "procRoot s p = Some x" using assms(5,6) by (auto simp: key_GetObjectPtr_Some key_kinds split: if_splits)
    then show ?thesis using assms(2) x(1) lr by (simp add: loaded_root_def)
  next
    case False
    then have "resumable s c" using x assms(4) unfolding resumable_def by metis
    then show ?thesis ..
  qed
qed

lemma system_ok_new_resume:
  assumes "system_ok s" "procRoot s p = Some q" "same_world s s'" "\<And>r. r \<noteq> d \<Longrightarrow> keys s' r = keys s r"
    and "keyType (keys s' d) = KKT_Resume" "key_u (keys s' d) = U_gk p" "keyBits_IsPrepared (keys s' d)"
    and "kern_inv s'" "k_sched s' = k_sched s" "runState (procs (k_sched s) p) = RS_Waiting"
  shows "system_ok s'"
  using assms(1,8,9,10) new_resume_key [OF assms(1-7)] procs_loaded_world [OF assms(3)]
  by (auto simp: system_ok_def resumes_ok_def)

lemma system_ok_BuildResumeKey:
  assumes "system_ok s" "procRoot s p = Some q" "runState (procs (k_sched s) p) = RS_Waiting"
  shows "system_ok (proc_BuildResumeKey p d s)"
proof (rule system_ok_new_resume [OF assms(1,2) BuildResumeKey_frame(1,3-6) _ BuildResumeKey_frame(2) assms(3)])
  have "loaded_root s p q" "kern_inv s" using assms(1,2) by (simp_all add: system_ok_def procs_loaded_def)
  then show "kern_inv (proc_BuildResumeKey p d s)"
    using proc_BuildResumeKey_inv [OF _ assms(2)] by (simp add: loaded_root_def)
qed

lemma gate_copy_keys_ok:
  assumes "system_ok s" "procRoot s invoker \<noteq> None"
    and "invType_IsCall (invType (k_inv s)) \<Longrightarrow> runState (procs (k_sched s) invoker) = RS_Waiting"
  shows "system_ok (gate_copy_keys invoker p s)"
proof -
  have "system_ok (gate_resume_key invoker t)"
    if "system_ok t" "k_inv t = k_inv s" "k_sched t = k_sched s" "procRoot t = procRoot s" for t
    using that assms(2,3) system_ok_BuildResumeKey [OF that(1)]
    by (auto simp: gate_resume_key_def system_ok_Set split: option.split)
  then show ?thesis
    unfolding gate_copy_keys_def Let_def using assms(1) by (simp add: system_ok_copy)
qed

lemma calls_ok_cong: "objs s' = objs s \<Longrightarrow> nObjs s' = nObjs s \<Longrightarrow> calls_ok s' = calls_ok s"
  by (simp add: calls_ok_def is_obj_def obj_at_def)

text \<open>The commit point of a gate invocation.\<close>

lemma gate_commit:
  assumes "resume_safe cur s" "calls_ok s" "inv_SetupExitBlock s = Some s1"
    and "proc_SetupExitString (Some p) n s1 = Some s2" "COMMIT_POINT s2 = Some s3"
    and "proc_curProcess (k_sched s) = Some cur" "p \<noteq> cur"
  shows "resume_safe cur s3" "calls_ok s3" "runState (procs (k_sched s3) p) = runState (procs (k_sched s) p)"
    "invType_IsCall (invType (k_inv s3)) \<Longrightarrow> runState (procs (k_sched s3) cur) = RS_Waiting"
proof -
  have e: "exit_step s s2"
    by (rule exit_step_trans [OF inv_SetupExitBlock_step [OF assms(3)] proc_SetupExitString_step [OF assms(4)]])
  have q: "same_runs (k_sched s) (k_sched s2)" using e quiet_runs by (auto simp: exit_step_def)
  have safe2: "resume_safe cur s2" using e assms(1) by (rule rs.P_exit_step)
  then show "resume_safe cur s3" using rs.post_COMMIT assms(5) by (simp add: ipost_def)
  from assms(5) obtain x where x: "commit_sched (k_inv s2) (k_sched s2) = Some x" "s3 = s2\<lparr>k_sched := x, InvocationCommitted := True\<rparr>"
    by (auto simp: COMMIT_POINT_Some)
  have "calls_ok s2" using assms(2) exit_stepD(2,5) [OF e] calls_ok_cong by blast
  then show "calls_ok s3" using x(2) calls_ok_cong [of s3 s2] by simp
  from commit_sched_runs [OF x(1)] assms(6) q have r: "runState (procs x c) = runState (procs (k_sched s2) c)"
    "runState (procs x cur) = (if invType (k_inv s2) = IT_Return then RS_Available
        else if invType (k_inv s2) = IT_Send then RS_Running else RS_Waiting)" if "c \<noteq> cur" for c
    using that by (auto simp: same_runs_def)
  show "runState (procs (k_sched s3) p) = runState (procs (k_sched s) p)"
    using r(1) [OF assms(7)] q x(2) by (simp add: same_runs_def)
  assume "invType_IsCall (invType (k_inv s3))"
  then have "invType (k_inv s2) \<noteq> IT_Return \<and> invType (k_inv s2) \<noteq> IT_Send"
    using x(2) by (auto simp: invType_IsCall_def IT_defs)
  then show "runState (procs (k_sched s3) cur) = RS_Waiting" using r(2) [OF assms(7)] x(2) by simp
qed

lemma system_ok_inv [simp]: "system_ok (upd_inv f s) = system_ok s"
  by (simp add: system_ok_def resumes_ok_def)

lemma gate_transfer_cases:
  assumes "gate_transfer i p t s = Some s'"
  obtains s1 s2 s3 s4 x s5 where "inv_SetupExitBlock s = Some s1"
    "proc_SetupExitString (Some p) (length (entry_data (k_inv s1))) s1 = Some s2" "COMMIT_POINT s2 = Some s3"
    "(if t = KKT_Resume then proc_ZapResumeKeys p s3 else Some s3) = Some s4"
    "MigrateAllocatedActivity p (k_sched s4) = Some x" "s5 = on_proc p (runState_update (\<lambda>_. RS_Running)) (s4\<lparr>k_sched := x\<rparr>)"
    "s' = gate_restart p s5 \<or> (\<exists>s6. inv_CopyOut (entry_data (k_inv s5)) s5 = Some s6
      \<and> s' = on_proc p proc_AdvancePostInvocationPC (proc_DeliverGateResult p (gate_copy_keys i p s6)))"
  using assms unfolding gate_transfer_def Let_def bind_eq_Some_conv on_sched_Some
  by (elim exE conjE, hypsubst) (auto simp: bind_eq_Some_conv split: if_splits)

lemma gate_transfer_ok:
  assumes "resume_safe cur s" "calls_ok s" "gate_transfer cur p t s = Some s'"
    and "proc_curProcess (k_sched s) = Some cur" "p \<noteq> cur"
    and "t \<noteq> KKT_Resume \<Longrightarrow> runState (procs (k_sched s) p) \<noteq> RS_Waiting"
  shows "system_ok s'"
proof -
  let ?r = "runState_update (\<lambda>_. RS_Running)"
  from assms(3) obtain s1 s2 s3 s4 x s5 where s3: "inv_SetupExitBlock s = Some s1"
      "proc_SetupExitString (Some p) (length (entry_data (k_inv s1))) s1 = Some s2" "COMMIT_POINT s2 = Some s3"
    and s4: "(if t = KKT_Resume then proc_ZapResumeKeys p s3 else Some s3) = Some s4"
    and x: "MigrateAllocatedActivity p (k_sched s4) = Some x" and s5_def: "s5 = on_proc p ?r (s4\<lparr>k_sched := x\<rparr>)"
    and s': "s' = gate_restart p s5 \<or> (\<exists>s6. inv_CopyOut (entry_data (k_inv s5)) s5 = Some s6
      \<and> s' = on_proc p proc_AdvancePostInvocationPC (proc_DeliverGateResult p (gate_copy_keys cur p s6)))"
    by (rule gate_transfer_cases)
  note C = gate_commit [OF assms(1,2) s3 assms(4,5)]
  have safe: "kern_inv s3" "procs_loaded s3" "\<And>c. resumable s3 c \<Longrightarrow> runState (procs (k_sched s3) c) = RS_Waiting"
    "procRoot s3 cur \<noteq> None"
    using C(1) by (simp_all add: resume_safe_def resumes_ok_def)
  have Z: "kern_inv s4" "procs_loaded s4" "\<not> resumable s4 p" "\<And>c. resumable s4 c \<Longrightarrow> resumable s3 c"
    "\<And>c. runState (procs (k_sched s4) c) = runState (procs (k_sched s3) c)" "k_inv s4 = k_inv s3" "procRoot s4 = procRoot s3"
  proof -
    have "kern_inv s4 \<and> procs_loaded s4 \<and> \<not> resumable s4 p \<and> (\<forall>c. resumable s4 c \<longrightarrow> resumable s3 c)
      \<and> (\<forall>c. runState (procs (k_sched s4) c) = runState (procs (k_sched s3) c)) \<and> k_inv s4 = k_inv s3 \<and> procRoot s4 = procRoot s3"
    proof (cases "t = KKT_Resume")
      case True
      then show ?thesis using zap_Migrate [OF safe(1,2) calls_ok_left [OF C(2) safe(2)], of p s4] s4 by auto
    next
      case False
      then have "s4 = s3" "\<not> resumable s3 p" using s4 assms(6) C(3) safe(3) [of p] by auto
      then show ?thesis using safe by simp
    qed
    then show "kern_inv s4" "procs_loaded s4" "\<not> resumable s4 p" "\<And>c. resumable s4 c \<Longrightarrow> resumable s3 c"
      "\<And>c. runState (procs (k_sched s4) c) = runState (procs (k_sched s3) c)" "k_inv s4 = k_inv s3" "procRoot s4 = procRoot s3"
      by blast+
  qed
  have ok5: "system_ok s5" unfolding s5_def
    using Z safe(3) Migrate_runs [OF x] by (intro system_ok_run) auto
  have f5: "procRoot s5 cur \<noteq> None" "invType_IsCall (invType (k_inv s5)) \<Longrightarrow> runState (procs (k_sched s5) cur) = RS_Waiting"
    using C(4) Z(5-7) safe(4) assms(5) Migrate_runs [OF x] by (simp_all add: s5_def)
  show ?thesis using s'
  proof (elim disjE exE conjE)
    assume "s' = gate_restart p s5"
    then show ?thesis using ok5
      by (auto simp: gate_restart_def proc_ClearFault_def intro!: system_ok_on_proc)
  next
    fix s6 assume s6: "inv_CopyOut (entry_data (k_inv s5)) s5 = Some s6"
      and s': "s' = on_proc p proc_AdvancePostInvocationPC (proc_DeliverGateResult p (gate_copy_keys cur p s6))"
    then have "\<exists>g. s6 = upd_inv (\<lambda>i. i\<lparr>exit_data := g i\<rparr>) s5" by (auto simp: inv_CopyOut_def)
    then have "system_ok (gate_copy_keys cur p s6)"
      using ok5 f5 by (intro gate_copy_keys_ok) auto
    then show ?thesis unfolding s'
      by (auto intro!: system_ok_on_proc simp: proc_DeliverGateResult_def proc_AdvancePostInvocationPC_def Let_def)
  qed
qed

lemma calls_ok_world: "same_world s s' \<Longrightarrow> calls_ok s' = calls_ok s"
  by (simp add: calls_ok_def same_world_is_obj) (simp add: same_world_def same_ident_def)

text \<open>No call count wraps round when it is increased twice.\<close>

definition calls_room :: "kern \<Rightarrow> bool" where
  "calls_room s = (\<forall>q. is_obj s q \<longrightarrow> callCount (obj_at s q) + 1 \<noteq> 0 \<and> callCount (obj_at s q) + 2 \<noteq> 0)"

lemma calls_room_ok: "calls_room s \<Longrightarrow> calls_ok s"
  by (simp add: calls_room_def calls_ok_def)

lemma calls_room_world: "same_world s s' \<Longrightarrow> calls_room s' = calls_room s"
  by (simp add: calls_room_def same_world_is_obj) (simp add: same_world_def same_ident_def)

lemma PrepareForInv_frame:
  assumes "kern_inv s" "key_PrepareForInv r s = Some (v, s')"
  shows "same_world s s'" "k_sched s' = k_sched s" "k_inv s' = k_inv s" "v \<Longrightarrow> keyType (keys s' r) = KKT_Void"
proof -
  from assms(2) have *: "(v, s') = (False, s) \<or> key_DoPrepare r s = Some (v, s')"
    by (auto simp: key_PrepareForInv_def split: if_splits)
  then show "same_world s s'" "k_sched s' = k_sched s" "k_inv s' = k_inv s"
    using key_DoPrepare_world [OF assms(1), of r v s'] key_DoPrepare_sched [OF assms(1), of r v s'] by auto
  assume v
  with * have d: "key_DoPrepare r s = Some (True, s')" by auto
  then have "keyBits_IsObjectKey (keys s r)"
    by (cases "keyType (keys s r)") (auto simp: key_DoPrepare_def key_kinds split: if_splits)
  from key_DoPrepare_outcome [OF kern_inv_wf_objs [OF assms(1)] this d]
  show "keyType (keys s' r) = KKT_Void" by (auto simp: prepare_outcome_def)
qed

lemma VoidKey_frame:
  assumes "kern_inv s" "VoidKey s = Some out"
  shows "same_world s (out_state out)" "inv_key (k_inv (out_state out)) = inv_key (k_inv s)"
    "keyType (keys (out_state out) r) \<in> {keyType (keys s r), KKT_Void}"
proof -
  from assms(2) obtain s1 s2 where s1: "inv_GetReturnee s = Some s1" and s2: "COMMIT_POINT s1 = Some s2"
    and ret: "ReturnCode RC_capros_key_Void s2 = Some out"
    unfolding VoidKey_def bind_eq_Some_conv by blast
  from s2 obtain x where x: "s2 = s1\<lparr>k_sched := x, InvocationCommitted := True\<rparr>" by (auto simp: COMMIT_POINT_Some)
  have out: "out_state out = set_exit_code RC_capros_key_Void (s1\<lparr>k_sched := x, InvocationCommitted := True\<rparr>)"
    using ret by (simp add: ReturnCode_Some x)
  note G = GetReturnee_keys [OF kern_inv_wf_objs [OF assms(1)] s1]
  show "same_world s (out_state out)" using GetReturnee_world(1) [OF assms(1) s1] by (simp add: out)
  show "inv_key (k_inv (out_state out)) = inv_key (k_inv s)" using G(1) by (simp add: out same_request_def)
  show "keyType (keys (out_state out) r) \<in> {keyType (keys s r), KKT_Void}" using G(5) [of r] by (auto simp: out)
qed

lemma void_result_ok:
  assumes "resume_safe cur s" "calls_ok s" "void_result s = Some res"
    and "keyType (keys s (inv_key (k_inv s))) \<noteq> KKT_Start"
  shows "system_ok (res_state res)"
proof -
  from assms(3) obtain out s' where out: "VoidKey s = Some out" "ReturnMessage (out_state out) = Some s'" "res = Done s'"
    by (auto simp: void_result_def bind_eq_Some_conv)
  note F = VoidKey_frame [OF resume_safe_inv [OF assms(1)] out(1)]
  have "resume_safe cur (out_state out)" using rs.post_VoidKey [OF assms(1)] out(1) by (simp add: opost_def)
  moreover have "calls_ok (out_state out)" using assms(2) calls_ok_world [OF F(1)] by simp
  moreover have "keyType (keys (out_state out) (inv_key (k_inv (out_state out)))) \<noteq> KKT_Start"
    using F(3) [of "inv_key (k_inv s)"] assms(4) by (auto simp: F(2))
  ultimately show ?thesis using ReturnMessage_ok [OF _ _ out(2)] out(3) not_start_answer by simp
qed

lemma gate_enter_ok:
  assumes "resume_safe cur s" "calls_ok s" "gate_enter p t s = Some res" "t \<in> {KKT_Start, KKT_Resume}"
  shows "system_ok (res_state res)"
proof (cases "t = KKT_Start \<and> runState (procs (k_sched s) p) \<noteq> RS_Available")
  case True
  with assms(3) obtain x where x: "act_SleepOn (SQ_Proc p) (k_sched s) = Some x" "res = Asleep (s\<lparr>k_sched := x\<rparr>)"
    by (auto simp: gate_enter_def bind_eq_Some_conv on_sched_Some)
  then show ?thesis using resume_safe_system [OF assms(1)] act_SleepOn_procs [OF x(1)]
    by (simp add: system_ok_def resumes_ok_def)
next
  case False
  with assms(3) obtain i s2 where i: "proc_curProcess (k_sched s) = Some i" "p \<noteq> i"
    "gate_transfer i p t s = Some s2" "res = Done s2"
    by (auto simp: gate_enter_def bind_eq_Some_conv split: if_splits)
  have "i = cur" using assms(1) i(1) by (simp add: resume_safe_def)
  with i have "system_ok s2" using assms(4) False
    by (intro gate_transfer_ok [OF assms(1,2) i(3) [unfolded \<open>i = cur\<close>]]) auto
  with i(4) show ?thesis by simp
qed

lemma GateKey_ok:
  assumes "resume_safe cur s" "calls_ok s" "keyBits_IsGateKey (keys s (inv_key (k_inv s)))" "GateKey s = Some res"
  shows "system_ok (res_state res)"
proof -
  let ?k = "inv_key (k_inv s)"
  from assms(4) obtain v s1 where s1: "key_PrepareForInv ?k s = Some (v, s1)"
    unfolding GateKey_def Let_def by (auto simp: bind_eq_Some_conv)
  note inv = resume_safe_inv [OF assms(1)]
  note F = PrepareForInv_frame [OF inv s1]
  have safe: "resume_safe cur s1" using rs.post_prepare(2) [OF assms(1)] s1 by (auto simp: bpost_def)
  have calls: "calls_ok s1" using assms(2) calls_ok_world [OF F(1)] by simp
  show ?thesis
  proof (cases v)
    case True
    with assms(4) s1 have "void_result s1 = Some res" by (simp add: GateKey_def Let_def)
    then show ?thesis using void_result_ok [OF safe calls] F(3,4) True by simp
  next
    case False
    then have t: "keyType (keys s1 ?k) \<in> {KKT_Start, KKT_Resume}"
      using PrepareForInv_type [OF kern_inv_wf_objs [OF inv]] s1 assms(3) by (auto simp: key_kinds)
    from False assms(4) s1 obtain p where
      "gate_enter p (keyType (keys s1 ?k)) ((set_invokee (Some p) s1)\<lparr>ReturneeSetUp := True\<rparr>) = Some res"
      unfolding GateKey_def Let_def by (auto simp: bind_eq_Some_conv set_invokee_def)
    moreover have "calls_ok ((set_invokee (Some p) s1)\<lparr>ReturneeSetUp := True\<rparr>)" for p
      using calls calls_ok_cong [of "(set_invokee (Some p) s1)\<lparr>ReturneeSetUp := True\<rparr>" s1] by (simp add: set_invokee_def)
    moreover have "resume_safe cur ((set_invokee (Some p) s1)\<lparr>ReturneeSetUp := True\<rparr>)" for p
      using safe by (simp add: set_invokee_def)
    ultimately show ?thesis using gate_enter_ok t by blast
  qed
qed

end
