(* ===== verification/Process_Inv.thy ===== *)
theory Process_Inv
  imports Resume_Dispatch
begin

text \<open>
  Process keys and the sleep key keep the invariant of the system. The operations on slots and registers
  keep whatever the primitive operations keep; making a resume key makes the process wait first.
\<close>

section \<open>Call counts\<close>

text \<open>What depends only on the objects goes along with the invariant.\<close>

lemma key_makes_objects:
  assumes Q: "\<And>s s'. same_world s s' \<Longrightarrow> Q s' = Q s"
    and R: "\<And>s p. obType (obj_at s p) = ot_NtSegment \<Longrightarrow> Q (upd_obj p (\<lambda>ob. ob\<lparr>obType := ot_NtUnprepared\<rparr>) s) = Q s"
  shows "key_makes (\<lambda>s. resume_safe cur s \<and> Q s)"
proof
  fix s assume s: "resume_safe cur s \<and> Q s"
  note inv = resume_safe_inv [OF conjunct1 [OF s]]
  have q: "Q s'" if "same_world s s'" for s' using Q [OF that] s by simp
  show "kern_inv s" by (rule inv)
  show "resume_safe cur (key_NH_Set dst src s) \<and> Q (key_NH_Set dst src s)" for dst src
    using s q rs.P_Set by simp
  show "resume_safe cur (key_NH_SetToVoid r s) \<and> Q (key_NH_SetToVoid r s)" for r
    using s q rs.P_SetToVoid by simp
  show "resume_safe cur (key_SetToNumber r hi mid lo s) \<and> Q (key_SetToNumber r hi mid lo s)" for r hi mid lo
    using s rs.P_SetToNumber q [of "key_SetToNumber r hi mid lo s"] by (simp add: key_SetToNumber_eq)
  show "keyType (keys s r) = KKT_Number \<Longrightarrow> resume_safe cur (upd_key r ((keys s r)\<lparr>key_u := u\<rparr>) s)
      \<and> Q (upd_key r ((keys s r)\<lparr>key_u := u\<rparr>) s)" for r u
    using s q rs.P_number by simp
  show "key_DoPrepare r s = Some (v, s') \<Longrightarrow> resume_safe cur s' \<and> Q s'" for r v s'
    using s q rs.P_DoPrepare key_DoPrepare_world(1) [OF inv] by blast
  show "key_DoValidate r s = Some (v, s') \<Longrightarrow> resume_safe cur s' \<and> Q s'" for r v s'
    using s q rs.P_DoValidate key_DoValidate_frame [OF inv] by blast
  show "same_ident (obj_at s p) (g (obj_at s p)) \<Longrightarrow> resume_safe cur (upd_obj p g s) \<and> Q (upd_obj p g s)" for p g
    using s q rs.P_upd_obj same_world_upd_obj by blast
  show "resume_safe cur (upd_key r (unhazarded (keys s r)) s) \<and> Q (upd_key r (unhazarded (keys s r)) s)" for r
    using s q rs.P_unhazard by simp
  show "restricts (keys s r) k \<Longrightarrow> resume_safe cur (upd_key r k s) \<and> Q (upd_key r k s)" for r k
    using s q rs.P_restrict by simp
  show "restricts_lax (keys s r) k \<Longrightarrow> resume_safe cur (upd_key r k s) \<and> Q (upd_key r k s)" for r k
    using s q rs.P_lax by simp
  show "quiet (k_sched s) x \<Longrightarrow> resume_safe cur (s\<lparr>k_sched := x\<rparr>) \<and> Q (s\<lparr>k_sched := x\<rparr>)" for x
    using s q [of "s\<lparr>k_sched := x\<rparr>"] rs.P_quiet by simp
  show "commit_sched i (k_sched s) = Some x \<Longrightarrow> resume_safe cur (s\<lparr>k_sched := x\<rparr>) \<and> Q (s\<lparr>k_sched := x\<rparr>)" for i x
    using s q [of "s\<lparr>k_sched := x\<rparr>"] rs.P_commit by simp
  show "kern_inv s' \<Longrightarrow> same_world s s' \<Longrightarrow> k_sched s' = k_sched s \<Longrightarrow> (\<And>r. r \<noteq> d \<Longrightarrow> keys s' r = keys s r) \<Longrightarrow>
      keyType (keys s' d) \<noteq> KKT_Resume \<Longrightarrow> resume_safe cur s' \<and> Q s'" for s' d
    using s q rs.P_make [of cur s s' d] by blast
  show "obType (obj_at s p) = ot_NtSegment \<Longrightarrow> resume_safe cur (upd_obj p (\<lambda>ob. ob\<lparr>obType := ot_NtUnprepared\<rparr>) s)
      \<and> Q (upd_obj p (\<lambda>ob. ob\<lparr>obType := ot_NtUnprepared\<rparr>) s)" for p
    using s R rs.P_retype by blast
next
  fix s :: kern
  show "(resume_safe cur (upd_inv f s) \<and> Q (upd_inv f s)) = (resume_safe cur s \<and> Q s)" for f
    using Q [of s "upd_inv f s"] by simp
  show "(resume_safe cur (s\<lparr>InvocationCommitted := b\<rparr>) \<and> Q (s\<lparr>InvocationCommitted := b\<rparr>)) = (resume_safe cur s \<and> Q s)" for b
    using Q [of s "s\<lparr>InvocationCommitted := b\<rparr>"] by simp
  show "(resume_safe cur (s\<lparr>ReturneeSetUp := b\<rparr>) \<and> Q (s\<lparr>ReturneeSetUp := b\<rparr>)) = (resume_safe cur s \<and> Q s)" for b
    using Q [of s "s\<lparr>ReturneeSetUp := b\<rparr>"] by simp
qed

lemma calls_retype:
  assumes "obType (obj_at s p) = ot_NtSegment"
  shows "calls_ok (upd_obj p (\<lambda>ob. ob\<lparr>obType := ot_NtUnprepared\<rparr>) s) = calls_ok s"
    "calls_room (upd_obj p (\<lambda>ob. ob\<lparr>obType := ot_NtUnprepared\<rparr>) s) = calls_room s"
proof -
  let ?s = "upd_obj p (\<lambda>ob. ob\<lparr>obType := ot_NtUnprepared\<rparr>) s"
  have "is_obj ?s q = is_obj s q" "callCount (obj_at ?s q) = callCount (obj_at s q)" for q
    using assms by (cases "q = p"; simp add: is_obj_def obj_at_upd_obj)+
  then show "calls_ok ?s = calls_ok s" "calls_room ?s = calls_room s" by (simp_all add: calls_ok_def calls_room_def)
qed

lemma bumped_calls:
  assumes "calls_room s" "\<And>q. is_obj s' q = is_obj s q"
    and "\<And>q. callCount (obj_at s' q) = callCount (obj_at s q) \<or> callCount (obj_at s' q) = callCount (obj_at s q) + 1"
  shows "calls_ok s'"
  unfolding calls_ok_def
proof (intro allI impI)
  fix q assume "is_obj s' q"
  then have "callCount (obj_at s q) + 1 \<noteq> 0" "callCount (obj_at s q) + 2 \<noteq> 0" using assms(1,2) by (simp_all add: calls_room_def)
  then show "callCount (obj_at s' q) + 1 \<noteq> 0" using assms(3) [of q] by (auto simp: add.assoc)
qed

lemma rescinded_calls:
  assumes "rescinded_state p s s'" "calls_room s"
  shows "calls_ok s'"
proof (rule bumped_calls [OF assms(2) rescinded_frame(1) [OF assms(1)]])
  show "callCount (obj_at s' q) = callCount (obj_at s q) \<or> callCount (obj_at s' q) = callCount (obj_at s q) + 1" for q
    using assms(1) by (cases "q = p"; cases "objH_isNodeType (obj_at s p)") (auto simp: rescinded_state_def split: if_split_asm)
qed

lemma zapped_calls:
  assumes "zapped p r s s'" "calls_room s"
  shows "calls_ok s'"
proof (rule bumped_calls [OF assms(2) zapped_frame(1) [OF assms(1)]])
  show "callCount (obj_at s' q) = callCount (obj_at s q) \<or> callCount (obj_at s' q) = callCount (obj_at s q) + 1" for q
    using assms(1) by (cases "q = r") (auto simp: zapped_def split: if_split_asm)
qed

interpretation room: key_rescinds "\<lambda>s. resume_safe cur s \<and> calls_room s" "\<lambda>s. resume_safe cur s \<and> calls_ok s" for cur
proof (intro key_rescinds.intro key_rescinds_axioms.intro)
  show "key_makes (\<lambda>s. resume_safe cur s \<and> calls_room s)" "key_makes (\<lambda>s. resume_safe cur s \<and> calls_ok s)"
    by (intro key_makes_objects calls_room_world calls_ok_world calls_retype; assumption)+
  show "resume_safe cur s \<and> calls_room s \<Longrightarrow> resume_safe cur s \<and> calls_ok s" for s by (simp add: calls_room_ok)
  fix s s' p
  assume s: "resume_safe cur s \<and> calls_room s" and c: "clearable s" and p: "is_obj s p" "allocCount (obj_at s p) + 1 \<noteq> 0"
    "callCount (obj_at s p) + 1 \<noteq> 0" and r: "objH_Rescind p s = Some s'"
  have "calls_ok s'"
    using rescinded_calls objH_Rescind_result [OF kern_inv_ring [OF resume_safe_inv] c r] s by blast
  with rs.P_Rescind [OF _ c p r] s show "resume_safe cur s' \<and> calls_ok s'" by blast
qed

section \<open>Slots, key registers and registers\<close>

lemma quiet_procs [simp]:
  "quiet_proc (\<lambda>q. q\<lparr>processFlags := g q\<rparr>)" "quiet_proc (proc_SetPC pc)" "quiet_proc proc_AdjustInvocationPC"
  "quiet_proc (set_user_CPSR priv)" "quiet_proc (\<lambda>q. q\<lparr>trapFrame := h q\<rparr>)"
  by (simp_all add: quiet_proc_def proc_SetPC_def proc_AdjustInvocationPC_def set_user_CPSR_def Let_def)

lemma quiet_set_common [simp]:
  "quiet_proc (\<lambda>q. if c then proc_ClearFault ((proc_SetCommonRegs32MD regs q)\<lparr>processFlags := f\<rparr>)
     else (proc_SetCommonRegs32MD regs q)\<lparr>processFlags := f, faultCode := a, faultInfo := b\<rparr>)"
  by (simp add: quiet_proc_def proc_SetCommonRegs32MD_def proc_ClearFault_def)

definition rpost :: "(kern \<Rightarrow> bool) \<Rightarrow> ('a \<times> kern) option \<Rightarrow> bool" where
  "rpost P m = (\<forall>x s. m = Some (x, s) \<longrightarrow> P s)"

context key_makes
begin

lemma P_on_proc: "P s \<Longrightarrow> quiet_proc f \<Longrightarrow> P (on_proc p f s)"
  by (simp add: on_proc_def P_quiet)

lemma swap_with_post [kpost]: "P s \<Longrightarrow> ipost P (swap_with r w s)"
  unfolding swap_with_def Let_def by (auto intro!: kpost P_Set P_SetToVoid)

lemma prockey_post [kpost]:
  "P s \<Longrightarrow> ipost P (prockey_getSlot n i s)" "P s \<Longrightarrow> ipost P (prockey_swapSlotCommitted n i s)"
  "P s \<Longrightarrow> ipost P (prockey_swapSlot n i s)" "P s \<Longrightarrow> ipost P (proc_Prepare p s)"
  unfolding prockey_getSlot_def prockey_swapSlotCommitted_def prockey_swapSlot_def proc_Prepare_def
  by (auto intro!: kpost)

lemma invokee_runnable_post [kpost]: "P s \<Longrightarrow> ipost P (invokee_runnable s)"
  by (auto simp: ipost_def invokee_runnable_def bind_eq_Some_conv)

lemma pk_slots_post [kpost]:
  "P s \<Longrightarrow> ipost P (pk_swapAddrSpaceAndPC32 n p s)" "P s \<Longrightarrow> ipost P (pk_setIOSpace n s)"
  "P s \<Longrightarrow> ipost P (pk_getKeyReg p s)" "P s \<Longrightarrow> ipost P (pk_swapKeyReg p s)"
  unfolding pk_swapAddrSpaceAndPC32_def pk_setIOSpace_def pk_getKeyReg_def pk_swapKeyReg_def Let_def
  by (auto intro!: kpost P_on_proc P_Set)

lemma pk_makeStartKey_post:
  assumes "P s" "root_ok s p q"
  shows "ipost P (pk_makeStartKey p s)"
  unfolding pk_makeStartKey_def Let_def proc_Prepare_def
proof (simp, rule post_assert(1), rule post_bind_eq(2))
  fix u assume u: "COMMIT_POINT s = Some u"
  have Pu: "P u" using post_COMMIT [OF assms(1)] u by (simp add: ipost_def)
  have "root_ok u p q" using assms(2) root_ok_world [OF COMMIT_frame(2) [OF u]] by simp
  then have "P (key_SetToProcess d p KKT_Start x (keyBits_Unchain d u))" for d x
    using Pu by (intro P_make [OF Pu key_SetToProcess_inv [OF P_inv [OF Pu]] key_SetToProcess_frame(1-3)])
      (auto simp: root_ok_def key_SetToProcess_frame(4))
  with Pu show "ipost P (if EROS_KEYDATA_MAX < entry_w1 (k_inv u) then Some (set_exit_code RC_capros_key_RequestError u)
      else Some (set_exit_code RC_OK (case exit_pKey (k_inv u) 0 of None \<Rightarrow> u
        | Some d \<Rightarrow> key_SetToProcess d p KKT_Start (ucast (entry_w1 (k_inv u))) (keyBits_Unchain d u))))"
    by (auto intro!: kpost split: option.split)
qed

lemma regs_post:
  "P s \<Longrightarrow> rpost P (proc_GetCommonRegs32 p r s)" "P s \<Longrightarrow> ipost P (proc_SetCommonRegs32 p r s)"
  by (auto simp: rpost_def ipost_def proc_GetCommonRegs32_def proc_SetCommonRegs32_def Let_def intro!: P_on_proc)

lemma Validate_post: "P s \<Longrightarrow> ipost P (proc_ValidateRegValues p s)"
  by (auto simp: ipost_def proc_ValidateRegValues_def Let_def bind_eq_Some_conv intro!: P_on_proc split: if_splits)

lemma SetRegs32_post [kpost]: "P s \<Longrightarrow> ipost P (proc_SetRegs32 p r s)"
  unfolding proc_SetRegs32_def Let_def by (auto intro!: kpost regs_post(2) Validate_post P_on_proc)

lemma rpost_bind: "rpost P m \<Longrightarrow> (\<And>x s. P s \<Longrightarrow> ipost P (f (x, s))) \<Longrightarrow> ipost P (Option.bind m f)"
  by (auto simp: rpost_def ipost_def bind_eq_Some_conv)

lemma GetRegs32_post:
  assumes "P s"
  shows "(\<And>b r s. P s \<Longrightarrow> ipost P (f (b, r, s))) \<Longrightarrow> ipost P (Option.bind (proc_GetRegs32 p regs s) f)"
  using regs_post(1) [OF assms, of p regs] assms
  by (auto simp: rpost_def ipost_def bind_eq_Some_conv proc_GetRegs32_def Let_def split: if_split_asm)

lemma pk_getRegisters_post [kpost]: "P s \<Longrightarrow> ipost P (pk_getRegisters p s)"
  unfolding pk_getRegisters_def by (auto intro!: kpost GetRegs32_post)

lemma pk_getRegisters32_post [kpost]: "P s \<Longrightarrow> ipost P (pk_getRegisters32 p s)"
  unfolding pk_getRegisters32_def
  by (rule post_bind(1), rule kpost, assumption, rule post_bind(1), rule kpost, assumption,
    rule post_bind(1), rule kpost, assumption, rule post_bind(1), rule kpost, assumption,
    rule rpost_bind, rule regs_post(1), assumption) (auto intro!: kpost)

lemma pk_setRegisters_post [kpost]:
  "P s \<Longrightarrow> ipost P (pk_setRegisters32 p s)" "P s \<Longrightarrow> ipost P (pk_setRegisters p s)"
  unfolding pk_setRegisters32_def pk_setRegisters_def by (auto intro!: kpost regs_post(2))

text \<open>All operations but the making of resume keys.\<close>

lemma pk_request_post:
  assumes "P s" "root_ok s p q" "oc \<noteq> OC_capros_Process_makeResumeKey"
  shows "ipost P (pk_request oc n p s)"
  using assms unfolding pk_request_def
  by (cases oc) (auto intro!: kpost pk_makeStartKey_post)

end

section \<open>Making a resume key\<close>

lemma key_SetToResume_eq:
  "key_SetToResume d p s =
     upd_key d ((keys (proc_BuildResumeKey p d s) d)\<lparr>keyData := 0, keyPerms := 0\<rparr>) (proc_BuildResumeKey p d s)"
proof -
  have "keyBits_SetPrepared (k\<lparr>keyData := 0, keyPerms := 0, key_u := u\<rparr>)
      = (keyBits_SetPrepared k)\<lparr>key_u := u, keyData := 0, keyPerms := 0\<rparr>" for k u
    by (cases k) (simp add: keyBits_SetPrepared_def)
  then show ?thesis
    by (simp add: key_SetToResume_def proc_BuildResumeKey_def Let_def link_insertBefore_def upd_key_def upd_ring_def)
qed

lemma key_SetToResume_frame:
  "same_world s (key_SetToResume d p s)" "k_sched (key_SetToResume d p s) = k_sched s" "k_inv (key_SetToResume d p s) = k_inv s"
  "r \<noteq> d \<Longrightarrow> keys (key_SetToResume d p s) r = keys s r"
  "keyType (keys (key_SetToResume d p s) d) = KKT_Resume" "key_u (keys (key_SetToResume d p s) d) = U_gk p"
  "keyBits_IsPrepared (keys (key_SetToResume d p s) d)"
  by (auto simp: key_SetToResume_def Let_def link_insertBefore_def keyBits_InitType_def)

lemma system_ok_SetToResume:
  assumes "system_ok s" "procRoot s p = Some q" "runState (procs (k_sched s) p) = RS_Waiting"
  shows "system_ok (key_SetToResume d p s)"
proof (rule system_ok_new_resume [OF assms(1,2) key_SetToResume_frame(1,4-7) _ key_SetToResume_frame(2) assms(3)])
  have "loaded_root s p q" "kern_inv s" using assms(1,2) by (simp_all add: system_ok_def procs_loaded_def)
  then have "kern_inv (proc_BuildResumeKey p d s)"
    using proc_BuildResumeKey_inv [OF _ assms(2)] by (simp add: loaded_root_def)
  then show "kern_inv (key_SetToResume d p s)"
    unfolding key_SetToResume_eq by (rule kern_inv_same_key) simp_all
qed

lemma stop_process_runs:
  assumes "stop_process p i x = Some y"
  shows "lost_run x y"
proof (cases "curActivity (procs x p)")
  case (Some a)
  with assms obtain b z where z: "proc_ClearActivity p x = Some (b, z)" and y: "y = z \<or> act_DeleteActivity a z = Some y"
    by (auto simp: stop_process_def Let_def bind_eq_Some_conv split: if_split_asm)
  have "lost_run x z" using z
    by (auto simp: proc_ClearActivity_def proc_Deactivate_Some act_Dequeue_def lost_run_def bind_eq_Some_conv
        split: if_split_asm)
  then show ?thesis using y act_DeleteActivity_runs lost_run_trans by blast
qed (use assms in \<open>simp add: stop_process_def\<close>)

lemma makeResumeKey_cases:
  assumes "pk_makeResumeKey p s = Some t"
  obtains u v x y where "proc_IsRunnable (procs (k_sched s) p)" "COMMIT_POINT (drop_invokee p s) = Some u"
    "proc_ZapResumeKeys p u = Some v" "stop_process p (invokee (k_inv v)) (k_sched v) = Some x"
    "y = on_proc p (runState_update (\<lambda>_. RS_Waiting)) (v\<lparr>k_sched := x\<rparr>)"
    "t = set_exit_code RC_OK (case exit_pKey (k_inv y) 0 of None \<Rightarrow> y | Some d \<Rightarrow> key_SetToResume d p y)"
  using assms unfolding pk_makeResumeKey_def proc_Prepare_def bind_eq_Some_conv assert_that_eq_Some on_sched_Some Let_def
  by blast

text \<open>What is needed to answer: no answer goes to a process that can be resumed.\<close>

definition returnable :: "kern \<Rightarrow> bool" where
  "returnable s = (system_ok s \<and> (\<forall>p. invokee (k_inv s) = Some p \<longrightarrow>
     proc_curProcess (k_sched s) = Some p \<longrightarrow> \<not> resumable s p))"

text \<open>
  The state \<open>y\<close> before the new key is made: the process waits, nothing can resume it, and it has no
  activity.
\<close>

lemma stop_process_idle:
  assumes "stop_process p i x = Some y"
  shows "curActivity (procs y p) = None"
proof (cases "curActivity (procs x p)")
  case (Some a)
  with assms obtain b z where z: "proc_ClearActivity p x = Some (b, z)" and y: "y = z \<or> act_DeleteActivity a z = Some y"
    by (auto simp: stop_process_def Let_def bind_eq_Some_conv split: if_split_asm)
  have "curActivity (procs z p) = None" using z
    by (auto simp: proc_ClearActivity_def proc_Deactivate_Some act_Dequeue_def bind_eq_Some_conv split: if_split_asm)
  moreover have "procs y = procs z" using y
    by (auto simp: act_DeleteActivity_def act_FreeActivity_def act_Enqueue_def act_ForceResched_def Let_def bind_eq_Some_conv
        split: if_split_asm)
  ultimately show ?thesis by simp
qed (use assms in \<open>simp add: stop_process_def\<close>)

lemma makeResumeKey_stopped:
  assumes "resume_safe cur s" "calls_ok s" "pk_makeResumeKey p s = Some t"
  obtains y q where "system_ok y" "procRoot y p = Some q" "runState (procs (k_sched y) p) = RS_Waiting"
    "curActivity (procs (k_sched y) p) = None" "\<not> resumable y p" "\<not> resumable y cur"
    "proc_curProcess (k_sched y) \<in> {Some cur, None}" "invokee (k_inv y) \<noteq> Some p"
    "t = set_exit_code RC_OK (case exit_pKey (k_inv y) 0 of None \<Rightarrow> y | Some d \<Rightarrow> key_SetToResume d p y)"
proof -
  from assms(3) obtain u v x y where u: "COMMIT_POINT (drop_invokee p s) = Some u" and v: "proc_ZapResumeKeys p u = Some v"
    and x: "stop_process p (invokee (k_inv v)) (k_sched v) = Some x" and y: "y = on_proc p (runState_update (\<lambda>_. RS_Waiting)) (v\<lparr>k_sched := x\<rparr>)"
    and t: "t = set_exit_code RC_OK (case exit_pKey (k_inv y) 0 of None \<Rightarrow> y | Some d \<Rightarrow> key_SetToResume d p y)"
    by (rule makeResumeKey_cases)
  have "resume_safe cur (drop_invokee p s)" using assms(1) by (simp add: drop_invokee_def)
  then have safe: "resume_safe cur u" using rs.post_COMMIT u by (simp add: ipost_def)
  have "calls_ok (drop_invokee p s)" using assms(2) calls_ok_world [of s "drop_invokee p s"] by (simp add: drop_invokee_def)
  then have "calls_ok u" using calls_ok_world [OF COMMIT_frame(2) [OF u]] by simp
  then have cl: "calls_left p u" using safe by (intro calls_ok_left) (simp_all add: resume_safe_def)
  have su: "kern_inv u" "procs_loaded u" using safe by (simp_all add: resume_safe_def)
  note Z = zap_Migrate [OF su cl v]
  from proc_ZapResumeKeys_result [OF su(1) v] obtain q where q: "procRoot u p = Some q"
    and l: "lost_run (k_sched u) (k_sched v)" by blast
  have l: "lost_run (k_sched u) x" by (rule lost_run_trans [OF l stop_process_runs [OF x]])
  show thesis
  proof (rule that [of y q])
    show "system_ok y" unfolding y using Z(1-5) safe l
      by (intro system_ok_run) (auto simp: resume_safe_def resumes_ok_def lost_run_def)
    show "procRoot y p = Some q" "runState (procs (k_sched y) p) = RS_Waiting" using q Z(7) by (simp_all add: y)
    show "curActivity (procs (k_sched y) p) = None" using stop_process_idle [OF x] by (simp add: y)
    show "\<not> resumable y p" using Z(3) by (simp add: y)
    show "\<not> resumable y cur" using Z(4) [of cur] safe by (auto simp: y resume_safe_def)
    show "proc_curProcess (k_sched y) \<in> {Some cur, None}" using safe l by (auto simp: y resume_safe_def lost_run_def)
    have "k_inv y = k_inv (drop_invokee p s)" using COMMIT_frame(3) [OF u] Z(6) by (simp add: y)
    then show "invokee (k_inv y) \<noteq> Some p" by (simp add: drop_invokee_def)
  qed (rule t)
qed

lemma makeResumeKey_ok:
  assumes "resume_safe cur s" "calls_ok s" "pk_makeResumeKey p s = Some t"
  shows "returnable t"
proof -
  from assms obtain y q where y: "system_ok y" "procRoot y p = Some q" "runState (procs (k_sched y) p) = RS_Waiting"
    and cur: "\<not> resumable y cur" "proc_curProcess (k_sched y) \<in> {Some cur, None}" and ne: "invokee (k_inv y) \<noteq> Some p"
    and t: "t = set_exit_code RC_OK (case exit_pKey (k_inv y) 0 of None \<Rightarrow> y | Some d \<Rightarrow> key_SetToResume d p y)"
    by (rule makeResumeKey_stopped)
  note F = key_SetToResume_frame [where p = p and s = y]
  have t_cases: "t = set_exit_code RC_OK y \<or> (\<exists>d. t = set_exit_code RC_OK (key_SetToResume d p y))"
    unfolding t by (cases "exit_pKey (k_inv y) 0") auto
  have ok: "system_ok t" using t_cases y system_ok_SetToResume [OF y] by auto
  have it: "invokee (k_inv t) = invokee (k_inv y)" "proc_curProcess (k_sched t) = proc_curProcess (k_sched y)"
    using t_cases F(2,3) by auto
  have "c = p \<or> resumable y c" if "resumable t c" for c
    using t_cases
  proof
    assume "\<exists>d. t = set_exit_code RC_OK (key_SetToResume d p y)"
    with that obtain d where "resumable (key_SetToResume d p y) c" by auto
    from new_resume_key [OF y(1,2) F(1,4-7) this] show ?thesis .
  qed (use that in simp)
  then have "resumable t cur \<Longrightarrow> cur = p" using cur(1) by blast
  with ok cur(2) ne show ?thesis unfolding returnable_def it by auto
qed

section \<open>The handlers\<close>

lemma safe_returnable: "resume_safe cur s \<Longrightarrow> returnable s"
  by (auto simp: returnable_def resume_safe_def system_ok_def)

lemma ReturnMessage_returnable:
  assumes "returnable s" "calls_ok s" "ReturnMessage s = Some s'" "\<not> start_answer s"
  shows "system_ok s'"
  using assms(1,2) calls_ok_left [of s]
  by (intro ReturnMessage_system [OF _ assms(3,4)]) (auto simp: returnable_def system_ok_def)

lemma pk_dispatch_ok:
  assumes "resume_safe cur s" "calls_ok s" "root_ok s p q" "pk_dispatch p s = Some t"
  shows "returnable t"
proof -
  have C: "COMMIT_POINT s = Some u \<Longrightarrow> resume_safe cur u" for u
    using rs.post_COMMIT [OF assms(1)] by (simp add: ipost_def)
  consider oc where "entry_code (k_inv s) = Process_OC oc" "pk_request oc q p s = Some t" | "resume_safe cur t"
    using assms(3,4)
    by (cases "entry_code (k_inv s)") (auto simp: pk_dispatch_def root_ok_def bind_eq_Some_conv dest!: C)
  then show ?thesis
  proof cases
    case 1
    show ?thesis
    proof (cases "oc = OC_capros_Process_makeResumeKey")
      case True
      with 1(2) have "pk_makeResumeKey p s = Some t" by (simp add: pk_request_def)
      then show ?thesis by (rule makeResumeKey_ok [OF assms(1,2)])
    next
      case False
      with rs.pk_request_post [OF assms(1,3)] 1(2) have "resume_safe cur t" by (simp add: ipost_def)
      then show ?thesis by (rule safe_returnable)
    qed
  qed (rule safe_returnable)
qed

lemma pk_operation_cases:
  assumes "resume_safe cur s" "keyType (keys s (inv_key (k_inv s))) = KKT_Process" "pk_operation s = Some t"
  obtains u p q where "inv_GetReturnee s = Some u" "root_ok u p q" "pk_dispatch p u = Some t"
proof -
  from assms(3) obtain u p where u: "inv_GetReturnee s = Some u"
    and k: "keyBits_IsPreparedObjectKey (keys u (inv_key (k_inv u)))" "key_pContext (keys u (inv_key (k_inv u))) = Some p"
    and t: "pk_dispatch p u = Some t"
    by (auto simp: pk_operation_def Let_def bind_eq_Some_conv)
  note inv = resume_safe_inv [OF assms(1)]
  have safe: "resume_safe cur u" using rs.post_returnee(1) [OF assms(1)] u by (simp add: ipost_def)
  note G = GetReturnee_keys [OF kern_inv_wf_objs [OF inv] u]
  have "inv_key (k_inv u) = inv_key (k_inv s)" using G(1) by (simp add: same_request_def)
  then have ty: "keyBits_IsPrepared (keys u (inv_key (k_inv u)))" "keyBits_IsProcessType (keys u (inv_key (k_inv u)))"
    using k(1) G(5) [of "inv_key (k_inv s)"] assms(2) by (auto simp: keyBits_IsPreparedObjectKey_def key_kinds)
  from t obtain q where "procRoot u p = Some q" by (auto simp: pk_dispatch_def bind_eq_Some_conv)
  from that [OF u root_ok_process_key [OF resume_safe_inv [OF safe] ty k(2) this] t] show thesis .
qed

lemma pk_operation_ok:
  assumes "resume_safe cur s" "calls_ok s" "keyType (keys s (inv_key (k_inv s))) = KKT_Process" "pk_operation s = Some t"
  shows "returnable t"
proof -
  from pk_operation_cases [OF assms(1,3,4)] obtain u p q where u: "inv_GetReturnee s = Some u" "root_ok u p q" "pk_dispatch p u = Some t" .
  have "resume_safe cur u" using rs.post_returnee(1) [OF assms(1)] u by (simp add: ipost_def)
  moreover have "calls_ok u" using assms(2) calls_ok_world [OF GetReturnee_world(1) [OF resume_safe_inv [OF assms(1)] u(1)]] by simp
  ultimately show ?thesis using pk_dispatch_ok u(2,3) by blast
qed

lemma calls_ok_inv [simp]: "calls_ok (upd_inv f s) = calls_ok s"
  by (rule calls_ok_cong) simp_all

text \<open>An operation increases at most one call count, that of a process to which it makes a resume key.\<close>

lemma makeResumeKey_calls:
  assumes "resume_safe cur s" "calls_room s" "pk_makeResumeKey p s = Some t"
  shows "calls_ok t"
proof -
  from assms(3) obtain u v x y where u: "COMMIT_POINT (drop_invokee p s) = Some u" and v: "proc_ZapResumeKeys p u = Some v"
    and y: "y = on_proc p (runState_update (\<lambda>_. RS_Waiting)) (v\<lparr>k_sched := x\<rparr>)"
    and t: "t = set_exit_code RC_OK (case exit_pKey (k_inv y) 0 of None \<Rightarrow> y | Some d \<Rightarrow> key_SetToResume d p y)"
    by (rule makeResumeKey_cases)
  have "resume_safe cur (drop_invokee p s) \<and> calls_room (drop_invokee p s)"
    using assms(1,2) calls_room_world [of s "drop_invokee p s"] by (simp add: drop_invokee_def)
  from room.post_COMMIT [OF this] u have c: "calls_room u" "resume_safe cur u" by (simp_all add: ipost_def)
  from proc_ZapResumeKeys_result [OF resume_safe_inv [OF c(2)] v] zapped_calls c(1) have "calls_ok v" by blast
  then have cy: "calls_ok y" using calls_ok_cong [of y v] by (simp add: y on_proc_def)
  have "same_world y t" unfolding t using key_SetToResume_frame(1) by (cases "exit_pKey (k_inv y) 0") simp_all
  then show ?thesis using cy calls_ok_world by blast
qed

lemma pk_operation_calls:
  assumes "resume_safe cur s" "calls_room s" "keyType (keys s (inv_key (k_inv s))) = KKT_Process" "pk_operation s = Some t"
  shows "calls_ok t"
proof -
  from pk_operation_cases [OF assms(1,3,4)] obtain u p q where u: "inv_GetReturnee s = Some u" "root_ok u p q" "pk_dispatch p u = Some t" .
  have safe: "resume_safe cur u \<and> calls_room u" using room.post_returnee(1) [of cur s] assms(1,2) u(1) by (simp add: ipost_def)
  have C: "COMMIT_POINT u = Some v \<Longrightarrow> calls_ok v" for v
    using room.post_COMMIT [OF safe] calls_room_ok by (auto simp: ipost_def)
  consider oc where "entry_code (k_inv u) = Process_OC oc" "pk_request oc q p u = Some t" | "calls_ok t"
    using u(2,3)
    by (cases "entry_code (k_inv u)") (auto simp: pk_dispatch_def root_ok_def bind_eq_Some_conv dest!: C)
  then show ?thesis
  proof cases
    case 1
    then show ?thesis
      using room.pk_request_post [OF safe u(2), of oc q] makeResumeKey_calls [of cur u p t] safe calls_room_ok
      by (cases "oc = OC_capros_Process_makeResumeKey") (auto simp: ipost_def pk_request_def)
  qed
qed

lemma ProcessKey_ok:
  assumes "resume_safe cur s" "calls_room s" "keyType (keys s (inv_key (k_inv s))) = KKT_Process" "ProcessKey s = Some res"
  shows "system_ok (res_state res)
    \<or> (\<exists>s1 t. key_PrepareForInv (inv_key (k_inv s)) s = Some (False, s1) \<and> pk_operation s1 = Some t \<and> start_answer t)"
proof -
  let ?k = "inv_key (k_inv s)"
  from assms(4) obtain v s1 where s1: "key_PrepareForInv ?k s = Some (v, s1)"
    unfolding ProcessKey_def by (auto simp: bind_eq_Some_conv)
  note inv = resume_safe_inv [OF assms(1)]
  note F = PrepareForInv_frame [OF inv s1]
  have safe: "resume_safe cur s1" using rs.post_prepare(2) [OF assms(1)] s1 by (auto simp: bpost_def)
  have calls: "calls_room s1" using assms(2) calls_room_world [OF F(1)] by simp
  show ?thesis
  proof (cases v)
    case True
    with assms(4) s1 have "void_result s1 = Some res" by (simp add: ProcessKey_def)
    then show ?thesis using void_result_ok [OF safe calls_room_ok [OF calls]] F(3,4) True by simp
  next
    case False
    with assms(4) s1 obtain t t' where t: "pk_operation s1 = Some t" "ReturnMessage t = Some t'" "res = Done t'"
      by (auto simp: ProcessKey_def bind_eq_Some_conv)
    have ty: "keyType (keys s1 (inv_key (k_inv s1))) = KKT_Process"
      using PrepareForInv_type [OF kern_inv_wf_objs [OF inv]] s1 False assms(3) F(3) by auto
    note r = pk_operation_ok [OF safe calls_room_ok [OF calls] ty t(1)] and c = pk_operation_calls [OF safe calls ty t(1)]
    show ?thesis using ReturnMessage_returnable [OF r c t(2)] t(1,3) s1 False by (cases "start_answer t") auto
  qed
qed

section \<open>The sleep key\<close>

lemma clock_objs [simp]: "obj_at (s\<lparr>k_clock := c\<rparr>) = obj_at s" "is_obj (s\<lparr>k_clock := c\<rparr>) = is_obj s"
  by (simp_all add: obj_at_def is_obj_def fun_eq_iff)

lemma clock_simps [simp]:
  "kern_inv (s\<lparr>k_clock := c\<rparr>) = kern_inv s" "resumable (s\<lparr>k_clock := c\<rparr>) = resumable s"
  "procs_loaded (s\<lparr>k_clock := c\<rparr>) = procs_loaded s" "calls_ok (s\<lparr>k_clock := c\<rparr>) = calls_ok s"
  using key_props_cong [of "s\<lparr>k_clock := c\<rparr>" s]
  by (simp_all add: kern_inv_def resumable_def loaded_root_def denotes_def key_GetObjectPtr_def procs_loaded_def
      calls_ok_def fun_eq_iff)

lemma resume_safe_clock [simp]: "resume_safe cur (s\<lparr>k_clock := c\<rparr>) = resume_safe cur s"
  by (simp add: resume_safe_def resumes_ok_def)

lemma SleepInvokee_runs:
  assumes "SleepInvokee p w x = Some y"
  shows "runState (procs y c) = runState (procs x c)"
proof -
  have A: "runState (procs z c) = runState (procs w c)" if "act_AssignToRunnable a p w = Some z" for a w z
    using act_AssignToRunnable_result [OF that] by auto
  from assms obtain a z t v where z: "z = x \<or> act_AssignToRunnable a p x = Some z
      \<or> (\<exists>q. act_AssignToRunnable a p (upd_proc q (curActivity_update (\<lambda>_. None)) x) = Some z)"
    and v: "act_SleepUntilTick t w z = Some v" "y = act_ForceResched v"
    by (auto simp: SleepInvokee_def bind_eq_Some_conv proc_Deactivate_Some split: if_split_asm) blast+
  have "procs y = procs z" using v
    by (auto simp: act_SleepUntilTick_def act_ForceResched_def sysT_AddSleeper_def bind_eq_Some_conv)
  with z show ?thesis by (auto dest!: A)
qed

text \<open>The sleep key in the midst of its work: the invoked key is no start key.\<close>

definition sleep_safe :: "proc_ptr \<Rightarrow> kern \<Rightarrow> bool" where
  "sleep_safe cur s = (resume_safe cur s \<and> calls_ok s \<and> keyType (keys s (inv_key (k_inv s))) \<noteq> KKT_Start)"

lemma sleep_safe_COMMIT:
  assumes "sleep_safe cur s" "COMMIT_POINT s = Some t"
  shows "sleep_safe cur t"
  using assms rs.post_COMMIT [of cur s] calls_ok_world [OF COMMIT_frame(2) [OF assms(2)]] COMMIT_frame(1,3) [OF assms(2)]
  by (simp add: sleep_safe_def ipost_def)

lemma sleep_safe_exit [simp]:
  "sleep_safe cur (set_exit_code rc s) = sleep_safe cur s" "sleep_safe cur (set_exit_w1 w s) = sleep_safe cur s"
  "sleep_safe cur (set_exit_w2 w s) = sleep_safe cur s" "sleep_safe cur (s\<lparr>k_clock := c\<rparr>) = sleep_safe cur s"
  by (simp_all add: sleep_safe_def)

lemma sk_return_ok: "sk_return s = Some res \<Longrightarrow> sleep_safe cur s \<Longrightarrow> system_ok (res_state res)"
  using ReturnMessage_ok [of cur s] not_start_answer [of s] by (auto simp: sk_return_def sleep_safe_def bind_eq_Some_conv)

text \<open>Committing and answering.\<close>

lemma sk_commit_return_ok:
  assumes "(do { s \<leftarrow> COMMIT_POINT s; sk_return (f s) }) = Some res" "sleep_safe cur s"
    and "\<And>t. sleep_safe cur t \<Longrightarrow> sleep_safe cur (f t)"
  shows "system_ok (res_state res)"
proof -
  from assms(1) obtain t where t: "COMMIT_POINT s = Some t" "sk_return (f t) = Some res" unfolding bind_eq_Some_conv by blast
  from sk_return_ok [OF t(2) assms(3) [OF sleep_safe_COMMIT [OF assms(2) t(1)]]] show ?thesis .
qed

lemma sk_sleep_ok:
  assumes "sk_sleep w s = Some res" "sleep_safe cur s"
  shows "system_ok (res_state res)"
proof -
  from assms(1) obtain t where t: "COMMIT_POINT s = Some t" and r: "sk_return t = Some res
      \<or> (\<exists>p x. SleepInvokee p w (k_sched t) = Some x \<and> res = Done (t\<lparr>k_sched := x\<rparr>))"
    by (auto simp: sk_sleep_def bind_eq_Some_conv on_sched_Some split: option.split_asm) blast
  have safe: "sleep_safe cur t" by (rule sleep_safe_COMMIT [OF assms(2) t])
  show ?thesis using r
  proof
    assume "\<exists>p x. SleepInvokee p w (k_sched t) = Some x \<and> res = Done (t\<lparr>k_sched := x\<rparr>)"
    then show ?thesis using safe SleepInvokee_runs
      by (auto simp: sleep_safe_def resume_safe_def resumes_ok_def intro!: system_okI)
  qed (rule sk_return_ok [OF _ safe])
qed

lemma sk_answers_ok:
  "sk_return_u64 u s = Some res \<Longrightarrow> sleep_safe cur s \<Longrightarrow> system_ok (res_state res)"
  "sk_return_OK s = Some res \<Longrightarrow> sleep_safe cur s \<Longrightarrow> system_ok (res_state res)"
  unfolding sk_return_u64_def sk_return_OK_def by (erule sk_commit_return_ok; simp)+

lemma sk_request_ok:
  assumes "sk_request oc s = Some res" "sleep_safe cur s"
  shows "system_ok (res_state res)"
proof -
  consider u c where "sk_return_u64 u (s\<lparr>k_clock := c\<rparr>) = Some res" | "sk_return_OK s = Some res"
    | w where "sk_sleep w s = Some res"
    | "(do { s \<leftarrow> COMMIT_POINT s; sk_return (set_exit_w1 (loopsPer8us (k_clock s)) (set_exit_code RC_OK s)) }) = Some res"
    using assms(1)
    by (cases oc) (auto simp: sk_request_def sysT_NowUniqueNS_def sysT_NowPersistent_def Let_def split: if_split_asm)
  then show ?thesis
  proof cases
    case 1
    then show ?thesis using assms(2) by (intro sk_answers_ok(1) [OF 1]) simp
  next
    case 2
    then show ?thesis using assms(2) by (rule sk_answers_ok(2))
  next
    case 3
    then show ?thesis using assms(2) by (rule sk_sleep_ok)
  next
    case 4
    then show ?thesis by (rule sk_commit_return_ok [OF _ assms(2)]) simp
  qed
qed

lemma SleepKey_ok:
  assumes "resume_safe cur s" "calls_ok s" "keyType (keys s (inv_key (k_inv s))) \<noteq> KKT_Start" "SleepKey s = Some res"
  shows "system_ok (res_state res)"
proof -
  from assms(4) obtain u where u: "inv_GetReturnee s = Some u" by (auto simp: SleepKey_def bind_eq_Some_conv)
  note inv = resume_safe_inv [OF assms(1)]
  note G = GetReturnee_keys [OF kern_inv_wf_objs [OF inv] u]
  have safe: "sleep_safe cur u"
    using rs.post_returnee(1) [OF assms(1)] u calls_ok_world [OF GetReturnee_world(1) [OF inv u]] assms(2,3)
      G(1) G(5) [of "inv_key (k_inv s)"] by (auto simp: sleep_safe_def ipost_def same_request_def)
  have r: "(case entry_code (k_inv u) of Sleep_OC oc \<Rightarrow> sk_request oc u
      | OC_capros_key_getType \<Rightarrow> sk_return_OK (set_exit_w1 (k_akt u KKT_Sleep) u)
      | _ \<Rightarrow> do { s \<leftarrow> COMMIT_POINT u; sk_return (set_exit_code RC_capros_key_UnknownRequest s) }) = Some res"
    using assms(4) u by (simp add: SleepKey_def)
  note X = sk_commit_return_ok [OF _ safe, where f = "set_exit_code RC_capros_key_UnknownRequest"]
  show ?thesis using r safe
    by (cases "entry_code (k_inv u)") (auto intro: X sk_request_ok sk_answers_ok(2))
qed

end
