(* ===== verification/System_Inv.thy ===== *)
theory System_Inv
  imports Process_Inv
begin

text \<open>
  The invariant of the whole system: an invocation, whatever key is invoked, keeps the invariant of
  keys, objects and processes, and that a process with a resume key to it waits.
\<close>

section \<open>Whole invocations\<close>

lemma cpost_gate: "keyType (keys s (inv_key (k_inv s))) \<in> {KKT_Start, KKT_Resume} \<Longrightarrow> cpost (Some (ToGate s))"
  by (auto simp: cpost_def key_kinds)

lemma invoke_handler_commits:
  assumes "keyType (keys s (inv_key (k_inv s))) \<notin> {KKT_Process, KKT_Sleep}"
  shows "cpost (invoke_handler s)"
  using assms unfolding invoke_handler_def
  by (cases "keyType (keys s (inv_key (k_inv s)))")
    (simp_all add: cpost_gate NodeKey_commits GPTKey_commits PageKey_commits ForwarderKey_commits RangeKey_commits
      ProcessToolKey_commits number.closed_commits sched.closed_commits keybits.closed_commits discrim.closed_commits void.closed_commits
      cpost_rules(1))

lemma invoke_handler_makes:
  assumes "key_rescinds P R" "P s" "range_type s \<Longrightarrow> range_ready s"
  shows "opost R (invoke_handler s)"
proof -
  have R: "key_makes R" "key_closed_lax R" "R s"
    using assms(1,2) key_rescinds.P_R by (auto simp: key_rescinds_def key_makes_def)
  show ?thesis
    using R(3) assms(2,3)
    by (cases "keyType (keys s (inv_key (k_inv s)))")
      (auto simp: invoke_handler_def invokes_def range_type_def intro: post_values
        node.handle_lax [OF R(2)] gpt.handle_lax [OF R(2)] key_makes.PageKey_makes [OF R(1)]
        forwarder.handle_lax [OF R(2)] key_rescinds.RangeKey_post [OF assms(1)] key_makes.ProcessToolKey_post [OF R(1)]
        number.handle_lax [OF R(2)] sched.handle_lax [OF R(2)] keybits.handle_lax [OF R(2)] discrim.handle_lax [OF R(2)]
        void.handle_lax [OF R(2)])
qed

lemma OnProcess_state:
  assumes "invoke_handler s = Some (OnProcess t)"
  shows "t = s"
proof (cases "keyType (keys s (inv_key (k_inv s))) \<in> {KKT_Process, KKT_Sleep}")
  case True
  then show ?thesis using assms by (auto simp: invoke_handler_def)
next
  case False
  then show ?thesis using assms invoke_handler_commits [of s] by (simp add: cpost_def)
qed

text \<open>
  The one way in which the handler of a kernel key can go wrong when it answers: the invoked key
  has been replaced by a start key in the course of the invocation, and the answer goes to another
  process than the invoker (\<^const>\<open>start_answer\<close>).
\<close>

definition answers_as_start :: "kern \<Rightarrow> bool" where
  "answers_as_start s =
     (case invoke_handler s of
        Some (Returned t) \<Rightarrow> start_answer t
      | Some (OnProcess t) \<Rightarrow>
          (case key_PrepareForInv (inv_key (k_inv t)) t of
             Some (False, u) \<Rightarrow> (case pk_operation u of Some v \<Rightarrow> start_answer v | None \<Rightarrow> False)
           | _ \<Rightarrow> False)
      | _ \<Rightarrow> False)"

text \<open>What holds when the handler is done.\<close>

definition handled :: "proc_ptr \<Rightarrow> outcome \<Rightarrow> bool" where
  "handled cur out = (resume_safe cur (out_state out) \<and> calls_ok (out_state out)
     \<and> (case out of OnProcess t \<Rightarrow> calls_room t | _ \<Rightarrow> True))"

lemma finish_ok:
  assumes "invoke_handler s = Some out" "handled cur out" "finish out = Some res"
  shows "system_ok (res_state res) \<or> answers_as_start s"
proof -
  have safe: "resume_safe cur (out_state out)" "calls_ok (out_state out)" using assms(2) by (simp_all add: handled_def)
  show ?thesis
  proof (cases out)
    case (Returned t)
    with assms(3) obtain t' where "ReturnMessage t = Some t'" "res = Done t'" by (auto simp: bind_eq_Some_conv)
    then show ?thesis using ReturnMessage_ok [of cur t t'] safe Returned assms(1) by (auto simp: answers_as_start_def)
  next
    case (ToGate t)
    then have "keyType (keys s (inv_key (k_inv s))) \<notin> {KKT_Process, KKT_Sleep}" using assms(1) by (auto simp: invoke_handler_def)
    with ToGate show ?thesis using GateKey_ok [of cur t res] safe assms(1,3) invoke_handler_commits [of s]
      by (simp add: cpost_def)
  next
    case (OnProcess t)
    then have t: "on_process t = Some res" "resume_safe cur t" "calls_room t"
      using assms(2,3) safe by (simp_all add: handled_def)
    then have "keyType (keys t (inv_key (k_inv t))) = KKT_Process \<or> keyType (keys t (inv_key (k_inv t))) = KKT_Sleep"
      by (simp add: on_process_def split: kkt.splits)
    then show ?thesis
    proof
      assume "keyType (keys t (inv_key (k_inv t))) = KKT_Process"
      then show ?thesis using t ProcessKey_ok [of cur t res] OnProcess assms(1)
        by (auto simp: on_process_def answers_as_start_def)
    next
      assume "keyType (keys t (inv_key (k_inv t))) = KKT_Sleep"
      then show ?thesis using t SleepKey_ok [of cur t res] calls_room_ok by (simp add: on_process_def)
    qed
  next
    case (Slept t)
    then show ?thesis using assms(3) resume_safe_system [OF safe(1)] by auto
  qed
qed

lemma system_ok_simps [simp]:
  "system_ok (s\<lparr>InvocationCommitted := b\<rparr>) = system_ok s"
  by (simp add: system_ok_def resumes_ok_def)

lemma system_ok_Void: "system_ok s \<Longrightarrow> system_ok (key_NH_SetToVoid r s)"
proof -
  assume s: "system_ok s"
  then have inv: "kern_inv s" by (simp add: system_ok_def)
  have c: "confined True s (key_NH_SetToVoid r s)" by (rule conf.P_SetToVoid [OF confined_refl [OF inv]])
  have w: "same_world s (key_NH_SetToVoid r s)" by simp
  show ?thesis
    using s confined_inv [OF c] resumable_confined [OF inv c w] procs_loaded_world [OF w]
    by (auto simp: system_ok_def resumes_ok_def)
qed

lemma inv_Cleanup_ok: "system_ok s \<Longrightarrow> system_ok (inv_Cleanup s)"
  unfolding inv_Cleanup_def Let_def by (simp add: system_ok_Void)

lemma system_ok_sched:
  "system_ok s \<Longrightarrow> procs x = procs (k_sched s) \<Longrightarrow> system_ok (s\<lparr>k_sched := x\<rparr>)"
  by (simp add: system_ok_def resumes_ok_def)

lemma yield_entry_ok: "system_ok s \<Longrightarrow> yield_entry s = Some s' \<Longrightarrow> system_ok s'"
  by (auto simp: yield_entry_def Let_def bind_eq_Some_conv act_ForceResched_def intro!: system_ok_sched inv_Cleanup_ok)

lemma resume_safe_start:
  assumes "system_ok s" "proc_curProcess (k_sched s) = Some cur" "runState (procs (k_sched s) cur) = RS_Running"
    and "procRoot s cur \<noteq> None"
  shows "resume_safe cur s"
  using assms by (auto simp: system_ok_def resume_safe_def resumes_ok_def)

lemma DoKeyInvocation_ok:
  assumes "proc_DoKeyInvocation thisPtr s = Some s'"
    and "\<And>out. invoke_handler (expect_message thisPtr (prompt_adjust s)) = Some out \<Longrightarrow> handled cur out"
  shows "system_ok s' \<or> answers_as_start (expect_message thisPtr (prompt_adjust s))"
proof -
  let ?s = "expect_message thisPtr (prompt_adjust s)"
  from assms(1) obtain out res where out: "invoke_handler ?s = Some out" and res: "finish out = Some res"
    and s': "(case res of Asleep s \<Rightarrow> yield_entry s
      | Done s \<Rightarrow> Some (inv_Cleanup (s\<lparr>k_sched := (k_sched s)\<lparr>allocatedActivity := None\<rparr>,
          InvocationCommitted := False\<rparr>))) = Some s'"
    by (auto simp: proc_DoKeyInvocation_def Let_def bind_eq_Some_conv)
  from finish_ok [OF out assms(2) [OF out] res] show ?thesis
    using s' yield_entry_ok by (cases res) (auto intro!: inv_Cleanup_ok system_ok_sched)
qed

text \<open>The state in which the handler starts.\<close>

lemma start_safe:
  assumes "system_ok s" "proc_curProcess (k_sched s) = Some cur" "runState (procs (k_sched s) cur) = RS_Running" "procRoot s cur \<noteq> None"
  shows "resume_safe cur (expect_message thisPtr (prompt_adjust s))"
proof -
  have "resume_safe cur (prompt_adjust s)"
    using resume_safe_start [OF assms] by (simp add: prompt_adjust_def Let_def)
  then show ?thesis
    by (auto simp: expect_message_def on_proc_def quiet_proc_def intro!: rs.P_quiet quiet_upd_proc)
qed

lemma range_ready_expect:
  "range_type (expect_message p s) = range_type s" "range_ready (expect_message p s) = range_ready s"
proof -
  let ?s = "expect_message p s"
  have f: "keys ?s = keys s" "k_inv ?s = k_inv s" "obj_at ?s = obj_at s" "is_obj ?s = is_obj s" "objH_Lookup ?s = objH_Lookup s"
    by (simp_all add: expect_message_def fun_eq_iff objH_Lookup_def) (simp add: on_proc_def)
  show "range_type ?s = range_type s" by (simp add: range_type_def f)
  then show "range_ready ?s = range_ready s"
    by (simp add: range_ready_def getCap_ready_def w2w3Offset_def count_used_def clearable_def mapping_hazard_def counts_ok_def f
        cong: option.case_cong kref.case_cong)
qed

lemma expect_same_world: "same_world s (expect_message p (prompt_adjust s))"
  by (simp add: expect_message_def prompt_adjust_def on_proc_def Let_def)

text \<open>
  C1. Invariant of the system over invocations: a whole key invocation, from the entry of the
  kernel through the handler of the invoked key to the delivery of the answer or of the message,
  or until the invoker sleeps, keeps the invariant of keys, objects and key rings, and keeps that
  every process to which any resume key exists, prepared or not, anywhere, is waiting. A running
  or an available process can therefore never be resumed by a stale copy of a resume key.

  The conditions are on the state before the invocation: the current process is loaded, no call
  count is within two of its largest value, and for a range key (\<^const>\<open>range_ready\<close>): getCap or
  waitCap of a page or node asks for an object whose allocation count is marked as used, and rescind
  finds no hazards but those of mappings and no count at its largest value. One failure remains, and
  it is the only one: the invariant can be lost when the invoked key is replaced by a start key in the
  course of the invocation and the answer goes to another process than the invoker.
\<close>

theorem invocation_keeps_system_ok:
  assumes "system_ok s" "proc_curProcess (k_sched s) = Some cur" "procRoot s cur \<noteq> None" "calls_room s"
    and "range_type (prompt_adjust s) \<Longrightarrow> range_ready (prompt_adjust s)"
    and "proc_DoKeyInvocation thisPtr s = Some s'"
  shows "system_ok s' \<or> answers_as_start (expect_message thisPtr (prompt_adjust s))"
proof (rule DoKeyInvocation_ok [OF assms(6)])
  let ?s = "expect_message thisPtr (prompt_adjust s)"
  fix out assume out: "invoke_handler ?s = Some out"
  have "runState (procs (k_sched s) cur) = RS_Running"
    using assms(2,6) by (auto simp: proc_DoKeyInvocation_def Let_def bind_eq_Some_conv)
  then have safe: "resume_safe cur ?s \<and> calls_room ?s"
    using start_safe [OF assms(1,2) _ assms(3)] assms(4) calls_room_world [OF expect_same_world] by blast
  have "resume_safe cur (out_state out) \<and> calls_ok (out_state out)"
    using invoke_handler_makes [OF room.key_rescinds_axioms safe] assms(5) out by (simp add: opost_def range_ready_expect)
  moreover have "calls_room t" if "out = OnProcess t" for t
    using that safe OnProcess_state [OF out [unfolded that]] by simp
  ultimately show "handled cur out" by (auto simp: handled_def split: outcome.split)
qed

lemma gate_copy_keys_sched [simp]: "k_sched (gate_copy_keys i p s) = k_sched s"
  by (simp add: gate_copy_keys_def gate_resume_key_def Let_def BuildResumeKey_frame split: option.split)

lemma gate_transfer_runs:
  assumes "gate_transfer i p t s = Some s'"
  shows "runState (procs (k_sched s') p) = RS_Running"
proof -
  from assms obtain s4 x s5 where s5: "s5 = on_proc p (runState_update (\<lambda>_. RS_Running)) (s4\<lparr>k_sched := x\<rparr>)"
    and s': "s' = gate_restart p s5 \<or> (\<exists>s6. inv_CopyOut (entry_data (k_inv s5)) s5 = Some s6
      \<and> s' = on_proc p proc_AdvancePostInvocationPC (proc_DeliverGateResult p (gate_copy_keys i p s6)))"
    by (rule gate_transfer_cases)
  have "runState (procs (k_sched s5) p) = RS_Running" by (simp add: s5)
  with s' show ?thesis
    by (auto simp: gate_restart_def proc_ClearFault_def proc_DeliverGateResult_def inv_CopyOut_def
        proc_AdvancePostInvocationPC_def Let_def)
qed

text \<open>
  C3. A resume key works once: when the kernel has delivered a message through a resume key, the
  process runs, and no resume key to it is left in the whole system, neither the one that was
  invoked nor any copy of it, prepared or not.
\<close>

theorem resume_key_single_use:
  assumes "system_ok s" "proc_curProcess (k_sched s) = Some cur" "runState (procs (k_sched s) cur) = RS_Running"
    and "procRoot s cur \<noteq> None" "calls_ok s" "keyType (keys s (inv_key (k_inv s))) = KKT_Resume"
    and "keyBits_IsPrepared (keys s (inv_key (k_inv s)))" "key_pContext (keys s (inv_key (k_inv s))) = Some p"
    and "GateKey s = Some (Done s')"
  shows "runState (procs (k_sched s') p) = RS_Running \<and> \<not> resumable s' p"
proof -
  have "keyBits_IsGateKey (keys s (inv_key (k_inv s)))" using assms(6) by (simp add: key_kinds)
  from GateKey_ok [OF resume_safe_start [OF assms(1-4)] assms(5) this assms(9)] have ok: "system_ok s'" by simp
  from assms(6-9) have "gate_enter p KKT_Resume ((set_invokee (Some p) s)\<lparr>ReturneeSetUp := True\<rparr>) = Some (Done s')"
    by (auto simp: GateKey_def key_PrepareForInv_def Let_def bind_eq_Some_conv set_invokee_def split: if_splits)
  then obtain i where "gate_transfer i p KKT_Resume ((set_invokee (Some p) s)\<lparr>ReturneeSetUp := True\<rparr>) = Some s'"
    by (auto simp: gate_enter_def bind_eq_Some_conv)
  from gate_transfer_runs [OF this] ok show ?thesis by (auto simp: system_ok_def resumes_ok_def)
qed

text \<open>The example: a process 1 that calls process 0 back through a resume key.\<close>

definition ex_gate :: kern where
  "ex_gate = ex_kern\<lparr>objs := (objs ex_kern)(3 := ex_root\<lparr>obOid := 0x800, prep_context := 1\<rparr>), nObjs := 4,
     obBucket := (obBucket ex_kern)(8 := [3]), procRoot := (procRoot ex_kern)(1 := Some 3),
     k_inv := ex_inv\<lparr>inv_key := KReg 0 10\<rparr>\<rparr>"

lemma ex_gate_simps [simp]:
  "keys ex_gate = ex_keys"
  "rings ex_gate = (\<lambda>_. [])(ObjRing 0 := [KReg 0 2], ProcRing 0 := [KReg 0 9, KReg 0 10])"
  "obj_at ex_gate p = (if p = 3 then ex_root\<lparr>obOid := 0x800, prep_context := 1\<rparr>
     else if p = 0 then ex_node else if p = 1 then ex_root else ex_page)"
  "nObjs ex_gate = 4" "procRoot ex_gate = (\<lambda>pr. if pr = 1 then Some 3 else if pr = 0 then Some 1 else None)"
  "obBucket ex_gate = (\<lambda>b. if b = 5 then [0] else if b = 6 then [1] else if b = 7 then [2] else if b = 8 then [3] else [])"
  "k_inv ex_gate = ex_inv\<lparr>inv_key := KReg 0 10\<rparr>" "k_sched ex_gate = ex_sched" "\<not> InvocationCommitted ex_gate"
  by (auto simp: ex_gate_def obj_at_def)

lemma ex_gate_is_obj [simp]: "is_obj ex_gate p = (p < 4)"
  by (auto simp: is_obj_def ex_obj_defs)

lemma ex_gate_inv: "kern_inv ex_gate"
proof -
  have "wf_objs ex_gate" by (auto simp: wf_objs_def ex_obj_defs bucket_ndx_def KTUNE_NOBBUCKETS_def Let_def
        split: if_splits)
  moreover have "wf_procs ex_gate" by (auto simp: wf_procs_def ex_obj_defs split: if_splits)
  moreover have "ring_ok (keys ex_gate) (rings ex_gate)"
    using kern_inv_ring [OF ex_kern_inv] by simp
  moreover have "wf_key ex_gate (keys ex_gate r)" for r
    by (auto simp: wf_key_def ex_key_defs ex_obj_defs key_kinds key_flag_bits
        objH_GetBaseType_def base_of_def)
  moreover have "cnt_ok ex_gate (keys ex_gate r)" for r
    by (auto simp: cnt_ok_def ex_key_defs ex_obj_defs key_kinds key_flag_bits objH_GetBaseType_def
        base_of_def count_for_def used_for_def objH_GetFlags_def OFLG_defs split: if_splits)
  ultimately show ?thesis by (simp add: kern_inv_def)
qed

lemma ex_gate_ok: "system_ok ex_gate"
proof -
  have "procs_loaded ex_gate" by (auto simp: procs_loaded_def loaded_root_def ex_obj_defs split: if_splits)
  moreover have "resumes_ok ex_gate"
    by (auto simp: resumes_ok_def resumable_def loaded_root_def denotes_def ex_sched_def ex_proc_def ex_obj_defs
        ex_key_defs key_flag_bits key_GetObjectPtr_Some key_kinds split: if_splits)
  ultimately show ?thesis using ex_gate_inv by (simp add: system_ok_def)
qed

lemma ex_gate_calls: "calls_ok ex_gate"
  by (simp add: calls_ok_def ex_obj_defs)

lemma ex_expect: "expect_message 1 ex_gate = ex_gate"
proof -
  have "upd_proc 1 (\<lambda>q. q\<lparr>processFlags := processFlags q OR 2\<rparr>) ex_sched = ex_sched"
    by (auto simp: upd_proc_def ex_sched_def ex_proc_def fun_eq_iff)
  moreover have "ex_gate\<lparr>k_sched := ex_sched\<rparr> = ex_gate" by (simp add: ex_gate_def ex_kern_def)
  ultimately show ?thesis
    by (simp add: expect_message_def on_proc_def ex_inv_def IT_defs capros_Process_PF_ExpectingMessage_def)
qed

lemma ex_zap:
  assumes "keys s = ex_keys" "rings s (ProcRing 0) = [KReg 0 9, KReg 0 10]" "obj_at s 1 = ex_root" "procRoot s 0 = Some 1"
    "curActivity (procs (k_sched s) 0) = None"
  shows "\<exists>s'. proc_ZapResumeKeys 0 s = Some s' \<and> k_sched s' = k_sched s \<and> k_inv s' = k_inv s
    \<and> InvocationCommitted s' = InvocationCommitted s"
proof -
  have z: "\<exists>s1. keyR_ZapResumeKeys (ProcRing 0) s = Some s1 \<and> k_sched s1 = k_sched s \<and> k_inv s1 = k_inv s
    \<and> InvocationCommitted s1 = InvocationCommitted s \<and> obj_at s1 1 = ex_root \<and> procRoot s1 = procRoot s"
    using assms(1-3)
    by (simp add: keyR_ZapResumeKeys.simps keyR_HasResumeKeys_def keyBits_IsPreparedResumeKey_def keyBits_IsType_def
      ex_key_defs key_flag_bits Let_def)
  then obtain s1 where s1: "keyR_ZapResumeKeys (ProcRing 0) s = Some s1" "k_sched s1 = k_sched s" "k_inv s1 = k_inv s"
    "InvocationCommitted s1 = InvocationCommitted s" "obj_at s1 1 = ex_root" "procRoot s1 = procRoot s" by blast
  then have "\<exists>s2. node_BumpCallCount 1 s1 = Some s2 \<and> k_sched s2 = k_sched s \<and> k_inv s2 = k_inv s
    \<and> InvocationCommitted s2 = InvocationCommitted s"
    by (simp add: node_BumpCallCount_def node_DoBumpCallCount_def objH_GetFlags_def objH_ClearFlags_def OFLG_defs ex_root_def Let_def obj_at_upd_obj)
  then show ?thesis using s1 assms(4,5) by (auto simp: proc_ZapResumeKeys_def)
qed

lemma ex_GateKey: "\<exists>s'. GateKey ex_gate = Some (Done s')"
proof -
  let ?s = "(set_invokee (Some 0) ex_gate)\<lparr>ReturneeSetUp := True\<rparr>"
  obtain s1 where s1: "inv_SetupExitBlock ?s = Some s1" "s1 = upd_inv (\<lambda>i. i\<lparr>exit_pKey := rcv_key 0 0, exit_rcvLen := 0\<rparr>)
       (upd_inv clear_exit ?s)"
    by (simp add: inv_SetupExitBlock_def proc_SetupExitBlock_def set_invokee_def Let_def ex_sched_def ex_proc_def proc_IsRunnable_def
    proc_IsExpectingMsg_def capros_Process_PF_ExpectingMessage_def ex_inv_def clear_exit_def)
  obtain s2 where s2: "proc_SetupExitString (Some 0) (length (entry_data (k_inv s1))) s1 = Some s2" "s2 = upd_inv (sentLen_update (\<lambda>_. 0)) s1"
    by (simp add: s1(2) proc_SetupExitString_def Let_def set_invokee_def ex_inv_def clear_exit_def)
  define x where "x = (upd_proc 1 (runState_update (\<lambda>_. RS_Waiting)) ex_sched)\<lparr>allocatedActivity := Some 0\<rparr>"
  have c: "commit_sched (k_inv s2) ex_sched = Some x"
    by (simp add: x_def s1(2) s2(2) commit_sched_def ex_sched_def ex_proc_def ex_inv_def IT_defs Let_def commit_inactivate_def ex_act_def
      set_invokee_def clear_exit_def)
  have s3: "COMMIT_POINT s2 = Some (s2\<lparr>k_sched := x, InvocationCommitted := True\<rparr>)"
    using c by (auto simp: COMMIT_POINT_Some s2(2) s1(2) set_invokee_def)
  have f: "keys s2 = ex_keys" "rings s2 (ProcRing 0) = [KReg 0 9, KReg 0 10]" "obj_at s2 1 = ex_root" "procRoot s2 0 = Some 1"
    by (simp_all add: s1(2) s2(2) set_invokee_def)
  obtain s4 where s4: "proc_ZapResumeKeys 0 (s2\<lparr>k_sched := x, InvocationCommitted := True\<rparr>) = Some s4" "k_sched s4 = x"
     "k_inv s4 = k_inv s2" "InvocationCommitted s4"
    using ex_zap [of "s2\<lparr>k_sched := x, InvocationCommitted := True\<rparr>"] f by (auto simp: x_def ex_sched_def ex_proc_def)
  have "\<exists>y. MigrateAllocatedActivity 0 x = Some y \<and> proc_IsExpectingMsg (procs y 0)"
    by (simp add: x_def MigrateAllocatedActivity_def ex_sched_def ex_act_def proc_Deactivate_def ex_proc_def act_AssignToRunnable_def
      act_AssignTo_def act_SetProcess_def proc_SetActivity_def proc_IsRunnable_def proc_IsExpectingMsg_def capros_Process_PF_ExpectingMessage_def)
  then obtain y where y: "MigrateAllocatedActivity 0 x = Some y" "proc_IsExpectingMsg (procs y 0)" by blast
  have i: "entry_data (k_inv s2) = []" "sentLen (k_inv s2) = 0"
    by (simp_all add: s2(2) s1(2) set_invokee_def ex_inv_def clear_exit_def)
  have "\<exists>s'. gate_transfer 1 0 KKT_Resume ?s = Some s'"
    using s1(1) s2(1) s3 s4 y i
    by (simp add: gate_transfer_def Let_def on_sched_def inv_CopyOut_def proc_IsExpectingMsg_def on_proc_def)
  then show ?thesis
    by (simp add: GateKey_def key_PrepareForInv_def ex_inv_def ex_key_defs key_flag_bits key_pContext_def Let_def gate_enter_def
      ex_sched_def ex_proc_def proc_IsRunnable_def proc_IsWellFormed_def set_invokee_def bind_eq_Some_conv)
qed

theorem resume_key_single_use_witness:
  "\<exists>s'. GateKey ex_gate = Some (Done s') \<and> runState (procs (k_sched s') 0) = RS_Running
     \<and> resumable ex_gate 0 \<and> \<not> resumable s' 0"
proof -
  from ex_GateKey obtain s' where s': "GateKey ex_gate = Some (Done s')" by blast
  have key: "keyType (keys ex_gate (inv_key (k_inv ex_gate))) = KKT_Resume"
    "keyBits_IsPrepared (keys ex_gate (inv_key (k_inv ex_gate)))"
    "key_pContext (keys ex_gate (inv_key (k_inv ex_gate))) = Some 0"
    by (simp_all add: ex_inv_def ex_key_defs key_flag_bits key_pContext_def)
  have cur: "proc_curProcess (k_sched ex_gate) = Some 1" "runState (procs (k_sched ex_gate) 1) = RS_Running"
    "procRoot ex_gate 1 \<noteq> None" by (simp_all add: ex_sched_def)
  have "loaded_root ex_gate 0 1" "denotes ex_gate (keys ex_gate (KReg 0 10)) 1"
    by (simp_all add: loaded_root_def ex_root_def denotes_def ex_key_defs key_flag_bits key_GetObjectPtr_Some key_kinds
        keyBits_IsPreparedObjectKey_def)
  moreover have "keyType (keys ex_gate (KReg 0 10)) = KKT_Resume" by (simp add: ex_key_defs)
  ultimately have "resumable ex_gate 0" unfolding resumable_def by blast
  then show ?thesis
    using resume_key_single_use [OF ex_gate_ok cur ex_gate_calls key s'] s' by blast
qed

theorem invocation_keeps_system_ok_witness:
  "\<exists>s'. proc_DoKeyInvocation 1 ex_gate = Some s' \<and> system_ok s'"
proof -
  have p: "prompt_adjust ex_gate = ex_gate" by (simp add: prompt_adjust_def ex_inv_def invType_IsPrompt_def IT_defs Let_def)
  have h: "invoke_handler ex_gate = Some (ToGate ex_gate)" by (simp add: invoke_handler_def ex_inv_def ex_key_defs)
  have n: "\<not> range_type (prompt_adjust ex_gate)" by (simp add: p range_type_def ex_inv_def ex_key_defs)
  have a: "\<not> answers_as_start (expect_message 1 (prompt_adjust ex_gate))" by (simp add: p ex_expect [unfolded One_nat_def] answers_as_start_def h)
  from ex_GateKey obtain t where "GateKey ex_gate = Some (Done t)" by blast
  then have "\<exists>s'. proc_DoKeyInvocation 1 ex_gate = Some s'"
    using p h ex_expect by (simp add: proc_DoKeyInvocation_def Let_def ex_sched_def ex_proc_def)
  then obtain s' where s': "proc_DoKeyInvocation 1 ex_gate = Some s'" by blast
  have "calls_room ex_gate" by (simp add: calls_room_def ex_obj_defs)
  moreover have "proc_curProcess (k_sched ex_gate) = Some 1" "procRoot ex_gate 1 \<noteq> None" by (simp_all add: ex_sched_def)
  ultimately show ?thesis using invocation_keeps_system_ok [OF ex_gate_ok _ _ _ _ s'] s' n a by blast
qed

end
