(* ===== verification/Handler_Props.thy ===== *)
theory Handler_Props
  imports Dispatch
begin

text \<open>
  What the handlers of kernel keys do, stated on capabilities: preparing keys and answering change no
  capability, and an invocation of a kernel key creates no authority.
\<close>

section \<open>Preparation does not change capabilities\<close>

lemma key_Prepare_cap:
  assumes "kern_inv s" "key_Prepare r s = Some s'"
  shows "cap_at s' = cap_at s"
  using assms key_DoPrepare_cap [OF assms(1), of r]
  by (auto simp: key_Prepare_def bind_eq_Some_conv split: if_splits)

lemma GetReturnee_cap:
  assumes "kern_inv s" "inv_GetReturnee s = Some s'"
  shows "cap_at s' = cap_at s" "kern_inv s'"
proof -
  obtain s1 where s1: "s1 = s \<or> key_Prepare (entry_key (k_inv s) RESUME_SLOT) s = Some s1" "exit_step s1 s'"
    using inv_GetReturnee_step [OF assms(2)] by blast
  have c1: "cap_at s1 = cap_at s" using s1(1) key_Prepare_cap [OF assms(1)] by auto
  have "same_world s1 s'" by (rule same_worldI) (simp_all add: exit_stepD [OF s1(2)])
  then have "cap_at s' = cap_at s1" by (simp add: cap_at_def fun_eq_iff exit_stepD [OF s1(2)] key_cap_same_world)
  with c1 show "cap_at s' = cap_at s" by simp
  show "kern_inv s'" using inv.post_returnee(1) [OF assms(1)] assms(2) by (simp add: ipost_def)
qed

lemma COMMIT_cap:
  assumes "COMMIT_POINT s = Some s'"
  shows "cap_at s' = cap_at s" "kern_inv s' = kern_inv s" "InvocationCommitted s'" "k_inv s' = k_inv s"
    "keys s' = keys s" "objs s' = objs s" "procRoot s' = procRoot s"
  using assms by (auto simp: COMMIT_POINT_Some)

lemma cap_prepared_object:
  assumes "kern_inv s" "cap_at s r = ObjCap t pm d oid c" "objH_Lookup s oid = Some p" "keyBits_IsPrepared (keys s r)"
  shows "key_GetObjectPtr s (keys s r) = Some p" "keyPerms (keys s r) = pm" "keyType (keys s r) = t" "keyData (keys s r) = d"
proof -
  from assms(2,4) obtain q where q: "key_GetObjectPtr s (keys s r) = Some q" "obOid (obj_at s q) = oid"
    and f: "keyPerms (keys s r) = pm" "keyType (keys s r) = t" "keyData (keys s r) = d"
    and ob: "keyBits_IsObjectKey (keys s r)"
    by (auto simp: cap_at_def key_cap_def split: if_splits option.splits)
  have "is_obj s q" using kern_inv_wf_key [OF assms(1), of r] ob assms(4) q(1)
    by (auto simp: wf_key_def key_GetObjectPtr_Some split: if_splits)
  with q assms(3) objH_Lookup_is_obj [OF kern_inv_wf_objs [OF assms(1)], of q] have "q = p" by auto
  with q f show "key_GetObjectPtr s (keys s r) = Some p" "keyPerms (keys s r) = pm" "keyType (keys s r) = t"
    "keyData (keys s r) = d" by simp_all
qed

text \<open>A key with authority over an object in memory is not voided when it is invoked.\<close>

lemma PrepareForInv_object:
  assumes "kern_inv s" "key_PrepareForInv r s = Some (v, t)" "cap_at s r = ObjCap ty pm d oid c"
    and "objH_Lookup s oid = Some p"
  shows "\<not> v" "cap_at t = cap_at s" "kern_inv t" "key_GetObjectPtr t (keys t r) = Some p" "keyPerms (keys t r) = pm"
    "keyType (keys t r) = ty" "keyData (keys t r) = d" "k_inv t = k_inv s" "keyBits_IsPrepared (keys t r)"
proof -
  have ob: "keyBits_IsObjectKey (keys s r)" using assms(3) by (auto simp: cap_at_def key_cap_def split: if_splits)
  show cap: "cap_at t = cap_at s" using assms(1,2) key_DoPrepare_cap [OF assms(1), of r]
    by (auto simp: key_PrepareForInv_def split: if_splits)
  show inv: "kern_inv t" using inv.post_prepare(2) [OF assms(1), of r] assms(2) by (simp add: bpost_def)
  show v: "\<not> v"
  proof
    assume v
    with assms(2) have "key_DoPrepare r s = Some (True, t)" by (auto simp: key_PrepareForInv_def split: if_splits)
    from key_DoPrepare_outcome [OF kern_inv_wf_objs [OF assms(1)] ob this] have "cap_at t r = NoCap"
      by (auto simp: prepare_outcome_def)
    with cap assms(3) show False by simp
  qed
  from v assms(2) PrepareForInv_type [OF kern_inv_wf_objs [OF assms(1)], of r t]
  show prep: "keyBits_IsPrepared (keys t r)" and "k_inv t = k_inv s" by auto
  have "same_world s t"
    using key_DoPrepare_world(1) [OF assms(1)] assms(2) by (auto simp: key_PrepareForInv_def split: if_splits)
  then have "objH_Lookup t oid = Some p" using assms(4) by (simp add: same_world_lookup)
  from cap_prepared_object [OF inv _ this prep, of ty pm d c] cap assms(3)
  show "key_GetObjectPtr t (keys t r) = Some p" "keyPerms (keys t r) = pm" "keyType (keys t r) = ty"
    "keyData (keys t r) = d" by simp_all
qed

section \<open>An example\<close>

text \<open>Process 1 of the example state calls a key; it receives keys in register 8.\<close>

definition ex_call :: "Invocation \<Rightarrow> kern" where
  "ex_call i = ex_kern\<lparr>k_inv := i\<lparr>invType := 2\<rparr>\<rparr>"

definition ex_returnee :: "kern \<Rightarrow> kern" where
  "ex_returnee s = (upd_inv (\<lambda>i. i\<lparr>exit_pKey := rcv_key 1 8, exit_rcvLen := 0\<rparr>)
     (upd_inv clear_exit (set_invokee (Some 1) s)))\<lparr>ReturneeSetUp := True\<rparr>"

definition ex_commit :: "kern \<Rightarrow> kern" where
  "ex_commit s = s\<lparr>k_sched := upd_proc 1 (runState_update (\<lambda>_. RS_Waiting)) ex_sched, InvocationCommitted := True\<rparr>"

lemma ex_call_simps [simp]:
  "keys (ex_call i) = ex_keys" "rings (ex_call i) = rings ex_kern" "objs (ex_call i) = objs ex_kern"
  "nObjs (ex_call i) = 3" "obBucket (ex_call i) = obBucket ex_kern" "procRoot (ex_call i) = procRoot ex_kern"
  "k_inv (ex_call i) = i\<lparr>invType := 2\<rparr>" "k_sched (ex_call i) = ex_sched" "\<not> InvocationCommitted (ex_call i)"
  "obj_at (ex_call i) = obj_at ex_kern" "log_room (ex_call i)"
  by (auto simp: ex_call_def obj_at_def ex_kern_def)

lemma ex_returnee_simps [simp]:
  "keys (ex_returnee s) = keys s" "rings (ex_returnee s) = rings s" "objs (ex_returnee s) = objs s"
  "procRoot (ex_returnee s) = procRoot s" "k_sched (ex_returnee s) = k_sched s" "obj_at (ex_returnee s) = obj_at s"
  "InvocationCommitted (ex_returnee s) = InvocationCommitted s" "ReturneeSetUp (ex_returnee s)"
  "log_room (ex_returnee s) = log_room s"
  "k_inv (ex_returnee s) = (clear_exit (k_inv s))\<lparr>invokee := Some 1, exit_pKey := rcv_key 1 8, exit_rcvLen := 0\<rparr>"
  by (auto simp: ex_returnee_def set_invokee_def clear_exit_def)

lemma ex_commit_simps [simp]:
  "keys (ex_commit s) = keys s" "rings (ex_commit s) = rings s" "objs (ex_commit s) = objs s"
  "procRoot (ex_commit s) = procRoot s" "k_inv (ex_commit s) = k_inv s" "InvocationCommitted (ex_commit s)"
  "obj_at (ex_commit s) = obj_at s"
  by (auto simp: ex_commit_def obj_at_def)

lemma ex_call_inv [simp]: "kern_inv (ex_call i)"
  using inv.P_upd_inv [of "\<lambda>_. i\<lparr>invType := 2\<rparr>" ex_kern] by (simp add: ex_call_def upd_inv_def)

lemma ex_GetReturnee:
  assumes "k_sched s = ex_sched" "invType (k_inv s) = 2"
  shows "inv_GetReturnee s = Some (ex_returnee s)"
  using assms
  by (simp add: inv_GetReturnee_def invType_IsCall_def IT_defs set_invokee_def inv_SetupExitBlock_def proc_SetupExitBlock_def
      ex_sched_def ex_proc_def proc_IsRunnable_def proc_IsExpectingMsg_def capros_Process_PF_ExpectingMessage_def Let_def
      ex_returnee_def)

lemma ex_COMMIT:
  assumes "k_sched s = ex_sched" "invType (k_inv s) = 2" "invokee (k_inv s) = Some 1" "\<not> InvocationCommitted s" "ReturneeSetUp s"
  shows "COMMIT_POINT s = Some (ex_commit s)"
proof -
  have "commit_sched (k_inv s) (k_sched s) = Some (upd_proc 1 (runState_update (\<lambda>_. RS_Waiting)) ex_sched)"
    using assms(1-3) by (simp add: commit_sched_def ex_sched_def IT_defs Let_def)
  with assms(4,5) show ?thesis by (simp add: COMMIT_POINT_Some ex_commit_def)
qed

section \<open>Confinement\<close>


section \<open>Reading and writing the slots of a node\<close>

lemma NodeKey_cases:
  assumes "kern_inv s" "NodeKey s = Some out" "cap_at s (inv_key (k_inv s)) = ObjCap KKT_Node pm d oid c"
    and "objH_Lookup s oid = Some p"
  obtains t where "cap_at t = cap_at s" "kern_inv t" "k_inv t = k_inv s"
    "keyBits_IsPrepared (keys t (inv_key (k_inv s)))"
    "nk_dispatch (pm AND capros_Node_readOnly \<noteq> 0) (pm AND capros_Node_opaque \<noteq> 0) p t = Some out"
proof -
  from assms(2) obtain v t where t: "key_PrepareForInv (inv_key (k_inv s)) s = Some (v, t)"
    and rest: "(if v then VoidKey t else do {
       theNode \<leftarrow> key_GetObjectPtr t (keys t (inv_key (k_inv s)));
       nk_dispatch (keyPerms (keys t (inv_key (k_inv s))) AND capros_Node_readOnly \<noteq> 0)
         (keyPerms (keys t (inv_key (k_inv s))) AND capros_Node_opaque \<noteq> 0) theNode t }) = Some out"
    unfolding NodeKey_def Let_def bind_eq_Some_conv by auto
  note F = PrepareForInv_object [OF assms(1) t assms(3,4)]
  from rest show thesis using F by (intro that [of t]) auto
qed

lemma nk_opE:
  assumes "nk_op False p f s = Some out" "kern_inv s"
  obtains t where "inv_GetReturnee s = Some t" "f t = Some out" "cap_at t = cap_at s" "kern_inv t"
    "same_request (k_inv s) (k_inv t)"
  using assms GetReturnee_cap [OF assms(2)] GetReturnee_keys(1) [OF kern_inv_wf_objs [OF assms(2)]]
  by (auto simp: nk_op_def bind_eq_Some_conv)

text \<open>The capabilities after a key was returned.\<close>

definition return_cap :: "kern \<Rightarrow> nat \<Rightarrow> cap \<Rightarrow> (kref \<Rightarrow> cap) \<Rightarrow> kref \<Rightarrow> cap" where
  "return_cap s i c caps = (case exit_pKey (k_inv s) i of None \<Rightarrow> caps | Some d \<Rightarrow> caps(d := c))"

text \<open>
  C15. Reading a slot of a node: an invocation of a node key with \<^verbatim>\<open>getSlot\<close> answers with the key in
  the slot, in the register the invoker named, and changes no other key. A slot that does not
  exist is refused and then no key changes at all.
\<close>

theorem NodeKey_getSlot:
  assumes "kern_inv s" "cap_at s (inv_key (k_inv s)) = ObjCap KKT_Node pm d oid c" "objH_Lookup s oid = Some p"
    and "pm AND capros_Node_opaque = 0" "entry_code (k_inv s) = OC_capros_Node_getSlot"
    and "NodeKey s = Some out"
  shows "\<exists>t. out = Returned t \<and>
    (if unat (entry_w1 (k_inv s)) < EROS_NODE_SIZE
     then exit_code (k_inv t) = RC_OK
       \<and> cap_at t = return_cap t 0 (cap_at s (KSlot p (unat (entry_w1 (k_inv s))))) (cap_at s)
     else exit_code (k_inv t) = RC_capros_key_RequestError \<and> cap_at t = cap_at s)"
proof -
  from NodeKey_cases [OF assms(1,6,2,3)] obtain u where u: "cap_at u = cap_at s" "kern_inv u" "k_inv u = k_inv s"
    and "nk_dispatch (pm AND capros_Node_readOnly \<noteq> 0) (pm AND capros_Node_opaque \<noteq> 0) p u = Some out" .
  then have "nk_op False p (nk_getSlot p) u = Some out" using assms(4,5) by (simp add: nk_dispatch_def)
  then obtain v where v: "nk_getSlot p v = Some out" "cap_at v = cap_at u" "same_request (k_inv u) (k_inv v)"
    using nk_opE [OF _ u(2)] by metis
  have w: "entry_w1 (k_inv v) = entry_w1 (k_inv s)" using v(3) u(3) by (simp add: same_request_def)
  from v(1) obtain x where x: "COMMIT_POINT v = Some x" unfolding nk_getSlot_def Let_def bind_eq_Some_conv by auto
  note X = COMMIT_cap [OF x]
  show ?thesis
    using v(1) x X u(1) v(2) w
    by (auto simp: nk_getSlot_def Let_def ReturnCode_Some tail_ReturnMessage_Some inv_SetExitKey_Some bind_eq_Some_conv
        cap_at_Set return_cap_def split: if_splits option.splits)
qed

lemma ex_lookup: "objH_Lookup (ex_call i) 0x500 = Some 0"
  by (simp add: objH_Lookup_def bucket_ndx_def KTUNE_NOBBUCKETS_def Let_def ex_obj_defs)

lemma ex_node_cap: "cap_at (ex_call i) (KReg 0 2) = ObjCap KKT_Node 0 0 0x500 3"
  by (simp add: cap_at_def key_cap_def ex_key_defs key_kinds key_flag_bits key_GetObjectPtr_def key_pObj_def
      keyBits_IsPreparedObjectKey_def ex_obj_defs count_for_def)

definition ex_getSlot :: kern where
  "ex_getSlot = ex_call (ex_inv\<lparr>entry_code := OC_capros_Node_getSlot, entry_w1 := 7\<rparr>)"

lemmas ex_run_defs = ex_inv_def ex_key_defs key_flag_bits key_GetObjectPtr_def key_pObj_def
  keyBits_IsPreparedObjectKey_def key_kinds ex_GetReturnee ex_COMMIT clear_exit_def EROS_NODE_SIZE_def
  tail_ReturnMessage_def inv_SetExitKey_def ReturnCode_def Let_def

lemma ex_rcv [simp]: "rcv_key p 8 0 = Some (KReg p 8)"
  by (simp add: rcv_key_def)

lemma ex_getSlot_runs: "\<exists>out. NodeKey ex_getSlot = Some out"
  by (simp add: NodeKey_def key_PrepareForInv_def ex_getSlot_def nk_dispatch_def nk_op_def nk_getSlot_def
      capros_Node_opaque_def ex_run_defs)

theorem NodeKey_getSlot_witness:
  "\<exists>t. NodeKey ex_getSlot = Some (Returned t) \<and> exit_code (k_inv t) = RC_OK
     \<and> cap_at t = return_cap t 0 (cap_at ex_getSlot (KSlot 0 7)) (cap_at ex_getSlot)"
proof -
  from ex_getSlot_runs obtain out where out: "NodeKey ex_getSlot = Some out" ..
  from NodeKey_getSlot [of ex_getSlot 0 0 "0x500" 3 0 out] out show ?thesis
    by (simp add: ex_getSlot_def ex_inv_def ex_lookup ex_node_cap EROS_NODE_SIZE_def)
qed


lemma EnsureWritable_cap:
  assumes "objH_EnsureWritable p s = Some s'"
  shows "cap_at s' = cap_at s"
  using EnsureWritable_frame [OF assms] by (simp add: cap_at_def fun_eq_iff key_cap_same_world)

lemma SwapSlot_caps:
  assumes "SwapSlot p r s = Some t" "exit_code (k_inv s) = RC_OK" "entry_key (k_inv s) 0 \<noteq> KTmp" "r \<noteq> KTmp"
    and "caps = cap_at s" "e = entry_key (k_inv s) 0"
  shows "exit_code (k_inv t) = RC_OK
    \<and> cap_at t = (return_cap t 0 (caps r) (caps(r := caps e)))(KTmp := NoCap)"
proof -
  from assms(1) obtain u v where u: "objH_EnsureWritable p s = Some u" "COMMIT_POINT u = Some v"
    unfolding SwapSlot_def bind_eq_Some_conv by auto
  have c: "cap_at v = cap_at s" "k_inv v = k_inv s" "InvocationCommitted v"
    using EnsureWritable_cap [OF u(1)] EnsureWritable_frame(3) [OF u(1)] COMMIT_cap [OF u(2)] by simp_all
  show ?thesis
    using assms u c
    by (auto simp: SwapSlot_def Let_def inv_SetExitKey_Some bind_eq_Some_conv cap_at_Set cap_at_SetToVoid return_cap_def
        fun_eq_iff split: option.splits)
qed

text \<open>
  C14. Writing a slot of a node: an invocation of a node key with \<^verbatim>\<open>swapSlot\<close> puts the key the
  invoker passed into the slot and answers with the key that was there. Through a read-only key,
  and for a slot that does not exist, it is refused, and no key changes.
\<close>

theorem NodeKey_swapSlot:
  assumes "kern_inv s" "cap_at s (inv_key (k_inv s)) = ObjCap KKT_Node pm d oid c" "objH_Lookup s oid = Some p"
    and "pm AND capros_Node_opaque = 0" "entry_code (k_inv s) = OC_capros_Node_swapSlot"
    and "entry_key (k_inv s) 0 \<noteq> KTmp" "NodeKey s = Some out"
  shows "\<exists>t. out = Returned t \<and>
    (if pm AND capros_Node_readOnly \<noteq> 0 then exit_code (k_inv t) = RC_capros_key_NoAccess \<and> cap_at t = cap_at s
     else if unat (entry_w1 (k_inv s)) < EROS_NODE_SIZE
     then exit_code (k_inv t) = RC_OK
       \<and> cap_at t = (return_cap t 0 (cap_at s (KSlot p (unat (entry_w1 (k_inv s)))))
           ((cap_at s)(KSlot p (unat (entry_w1 (k_inv s))) := cap_at s (entry_key (k_inv s) 0))))(KTmp := NoCap)
     else exit_code (k_inv t) = RC_capros_key_RequestError \<and> cap_at t = cap_at s)"
proof -
  let ?slot = "KSlot p (unat (entry_w1 (k_inv s)))"
  from NodeKey_cases [OF assms(1,7,2,3)] obtain u where u: "cap_at u = cap_at s" "kern_inv u" "k_inv u = k_inv s"
    and "nk_dispatch (pm AND capros_Node_readOnly \<noteq> 0) (pm AND capros_Node_opaque \<noteq> 0) p u = Some out" .
  then have "nk_op False p (nk_swapSlot (pm AND capros_Node_readOnly \<noteq> 0) p) u = Some out"
    using assms(4,5) by (simp add: nk_dispatch_def)
  then obtain v where v: "nk_swapSlot (pm AND capros_Node_readOnly \<noteq> 0) p v = Some out" "cap_at v = cap_at u"
    "same_request (k_inv u) (k_inv v)"
    using nk_opE [OF _ u(2)] by metis
  have w: "entry_w1 (k_inv v) = entry_w1 (k_inv s)" "entry_key (k_inv v) = entry_key (k_inv s)"
    using v(3) u(3) by (simp_all add: same_request_def)
  show ?thesis
  proof (cases "pm AND capros_Node_readOnly = 0 \<and> unat (entry_w1 (k_inv s)) < EROS_NODE_SIZE")
    case False
    then show ?thesis using v(1,2) w u(1)
      by (auto simp: nk_swapSlot_def Let_def ReturnCode_Some bind_eq_Some_conv COMMIT_cap split: if_splits)
  next
    case True
    then obtain t where t: "SwapSlot p ?slot (set_exit_code RC_OK v) = Some t" "out = Returned t"
      using v(1) w by (auto simp: nk_swapSlot_def Let_def bind_eq_Some_conv tail_ReturnMessage_Some split: if_splits)
    have "exit_code (k_inv t) = RC_OK \<and> cap_at t = (return_cap t 0 (cap_at s ?slot)
        ((cap_at s)(?slot := cap_at s (entry_key (k_inv s) 0))))(KTmp := NoCap)"
      by (rule SwapSlot_caps [OF t(1)]) (use assms(6) w u(1) v(2) in simp_all)
    with True t(2) show ?thesis by simp
  qed
qed

definition ex_swapSlot :: kern where
  "ex_swapSlot = ex_call (ex_inv\<lparr>entry_code := OC_capros_Node_swapSlot, entry_w1 := 7\<rparr>)"

lemma ex_EnsureWritable: "obj_at s p = ex_node \<Longrightarrow> objH_EnsureWritable p s = Some s"
  by (simp add: objH_EnsureWritable_def ex_node_def objH_GetFlags_def OFLG_defs)

lemma ex_swapSlot_runs: "\<exists>out. NodeKey ex_swapSlot = Some out"
proof -
  define s where "s = ex_returnee ex_swapSlot"
  have s: "k_sched s = ex_sched" "obj_at s 0 = ex_node" "invType (k_inv s) = 2" "invokee (k_inv s) = Some 1"
    "entry_w1 (k_inv s) = 7" "\<not> InvocationCommitted s" "ReturneeSetUp s" "procRoot s 1 = None"
    "keys s (KSlot 0 7) = void_key"
    by (simp_all add: s_def ex_swapSlot_def ex_run_defs)
  have "COMMIT_POINT (set_exit_code RC_OK s) = Some (ex_commit (set_exit_code RC_OK s))"
    using s by (intro ex_COMMIT) simp_all
  then have "\<exists>t. SwapSlot 0 (KSlot 0 7) (set_exit_code RC_OK s) = Some t \<and> InvocationCommitted t"
    using s ex_EnsureWritable [of "set_exit_code RC_OK s" 0]
    by (simp add: SwapSlot_def Let_def inv_SetExitKey_def split: option.split)
  then have "\<exists>out. nk_swapSlot False 0 s = Some out"
    using s by (auto simp: nk_swapSlot_def nk_not_process_def EROS_NODE_SIZE_def Let_def tail_ReturnMessage_def
        key_flag_bits void_key_def ex_sched_def)
  then show ?thesis
    by (simp add: NodeKey_def key_PrepareForInv_def ex_swapSlot_def nk_dispatch_def nk_op_def s_def
        capros_Node_opaque_def capros_Node_readOnly_def ex_run_defs)
qed

theorem NodeKey_swapSlot_witness:
  "\<exists>t. NodeKey ex_swapSlot = Some (Returned t) \<and> exit_code (k_inv t) = RC_OK"
proof -
  from ex_swapSlot_runs obtain out where out: "NodeKey ex_swapSlot = Some out" ..
  from NodeKey_swapSlot [of ex_swapSlot 0 0 "0x500" 3 0 out] out show ?thesis
    by (auto simp: ex_swapSlot_def ex_inv_def ex_lookup ex_node_cap EROS_NODE_SIZE_def)
qed

end
