(* ===== verification/Process_Props.thy ===== *)
theory Process_Props
  imports System_Inv Handler_Props
begin

text \<open>
  What the operations of process keys, of the process tool and of the sleep key do: the single
  resume key that \<^verbatim>\<open>makeResumeKey\<close> leaves, the registers, and where the source does something else
  than it means to.
\<close>

section \<open>The resume key\<close>

text \<open>
  C19. Making a resume key through a process key: the process waits and has no activity, the answer
  does not go to it, and of all keys in the system, prepared or not, exactly the one in the key
  register that receives the answer is a resume key to it. All resume keys there were are void.
\<close>

theorem makeResumeKey_single:
  assumes "resume_safe cur s" "calls_ok s" "pk_makeResumeKey p s = Some t"
  shows "runState (procs (k_sched t) p) = RS_Waiting \<and> curActivity (procs (k_sched t) p) = None
    \<and> invokee (k_inv t) \<noteq> Some p \<and> exit_code (k_inv t) = RC_OK
    \<and> (\<exists>q. procRoot t p = Some q
        \<and> (\<forall>r. (keyType (keys t r) = KKT_Resume \<and> denotes t (keys t r) q) = (exit_pKey (k_inv t) 0 = Some r)))"
proof -
  from assms obtain y q where y: "system_ok y" "procRoot y p = Some q" "runState (procs (k_sched y) p) = RS_Waiting"
    "curActivity (procs (k_sched y) p) = None" "\<not> resumable y p" "invokee (k_inv y) \<noteq> Some p"
    and t: "t = set_exit_code RC_OK (case exit_pKey (k_inv y) 0 of None \<Rightarrow> y | Some d \<Rightarrow> key_SetToResume d p y)"
    by (rule makeResumeKey_stopped)
  have lr: "loaded_root y p q" using y(1,2) by (simp add: system_ok_def procs_loaded_def)
  then have none: "\<not> (keyType (keys y r) = KKT_Resume \<and> denotes y (keys y r) q)" for r
    using y(5) unfolding resumable_def by blast
  show ?thesis
  proof (cases "exit_pKey (k_inv y) 0")
    case None
    then have "t = set_exit_code RC_OK y" by (simp add: t)
    moreover have "denotes (set_exit_code RC_OK y) k q = denotes y k q" for k by (rule denotes_same_world) simp
    ultimately show ?thesis using y(2-4,6) None none by simp
  next
    case (Some d)
    note F = key_SetToResume_frame [where p = p and s = y and d = d]
    have td: "t = set_exit_code RC_OK (key_SetToResume d p y)" using Some by (simp add: t)
    have w: "same_world y t" using F(1) by (simp add: td)
    have q: "procRoot t p = Some q" "is_obj y q" using w y(2) lr by (simp_all add: same_world_def loaded_root_def)
    have "(keyType (keys t r) = KKT_Resume \<and> denotes t (keys t r) q) = (r = d)" for r
    proof (cases "r = d")
      case True
      have "denotes y (keys t d) q"
        using y(2) q(2) F(5-7) by (simp add: td denotes_def key_GetObjectPtr_Some key_kinds keyBits_IsPreparedObjectKey_def)
      then show ?thesis using True F(5) denotes_same_world [OF w] by (simp add: td)
    next
      case False
      then show ?thesis using F(4) [OF False] none [of r] denotes_same_world [OF w] by (simp add: td)
    qed
    then show ?thesis using y q Some F(2,3) by (auto simp: td)
  qed
qed

text \<open>Process 1 calls the process key of process 0, to which two keys exist, and gets a resume key.\<close>

definition ex_makeResume :: kern where
  "ex_makeResume = (upd_inv (\<lambda>i. i\<lparr>invokee := Some 1, exit_pKey := (\<lambda>n. if n = 0 then Some (KReg 1 8) else None)\<rparr>) ex_gate)
     \<lparr>ReturneeSetUp := True\<rparr>"

lemma ex_gate_safe: "resume_safe 1 ex_gate"
  by (rule resume_safe_start [OF ex_gate_ok]) (simp_all add: ex_sched_def)

lemma ex_makeResume_runs:
  "\<exists>t. pk_makeResumeKey 0 ex_makeResume = Some t \<and> exit_pKey (k_inv t) 0 = Some (KReg 1 8)"
proof -
  have c: "COMMIT_POINT ex_makeResume = Some (ex_commit ex_makeResume)"
    by (rule ex_COMMIT) (simp_all add: ex_makeResume_def ex_inv_def)
  have p0: "procs (k_sched (ex_commit ex_makeResume)) 0 = ex_proc" by (simp add: ex_commit_def ex_sched_def)
  obtain v where v: "proc_ZapResumeKeys 0 (ex_commit ex_makeResume) = Some v" "k_sched v = k_sched (ex_commit ex_makeResume)"
    "k_inv v = k_inv ex_makeResume"
    using ex_zap [of "ex_commit ex_makeResume"] p0 by (auto simp: ex_makeResume_def ex_proc_def)
  have "stop_process 0 (invokee (k_inv v)) (k_sched v) = Some (k_sched v)" using p0 v(2) by (simp add: stop_process_def ex_proc_def)
  moreover have "drop_invokee 0 ex_makeResume = ex_makeResume" by (simp add: drop_invokee_def ex_makeResume_def)
  moreover have "proc_IsRunnable (procs (k_sched ex_makeResume) 0)"
    by (simp add: ex_makeResume_def ex_sched_def ex_proc_def proc_IsRunnable_def)
  moreover have "exit_pKey (k_inv ex_makeResume) 0 = Some (KReg 1 8)" by (simp add: ex_makeResume_def)
  ultimately show ?thesis using c v
    by (simp add: pk_makeResumeKey_def proc_Prepare_def on_sched_def Let_def key_SetToResume_frame(3))
qed

theorem makeResumeKey_single_witness:
  "\<exists>t q. pk_makeResumeKey 0 ex_makeResume = Some t \<and> runState (procs (k_sched t) 0) = RS_Waiting \<and> procRoot t 0 = Some q
     \<and> keyType (keys t (KReg 1 8)) = KKT_Resume \<and> denotes t (keys t (KReg 1 8)) q
     \<and> \<not> (keyType (keys t (KReg 0 10)) = KKT_Resume \<and> denotes t (keys t (KReg 0 10)) q)"
proof -
  from ex_makeResume_runs obtain t where t: "pk_makeResumeKey 0 ex_makeResume = Some t"
    "exit_pKey (k_inv t) 0 = Some (KReg 1 8)" by blast
  have safe: "resume_safe 1 ex_makeResume" "calls_ok ex_makeResume"
    using ex_gate_safe ex_gate_calls calls_ok_cong [of ex_makeResume ex_gate] by (simp_all add: ex_makeResume_def)
  from makeResumeKey_single [OF safe t(1)] obtain q where q: "runState (procs (k_sched t) 0) = RS_Waiting" "procRoot t 0 = Some q"
    and k: "\<And>r. (keyType (keys t r) = KKT_Resume \<and> denotes t (keys t r) q) = (exit_pKey (k_inv t) 0 = Some r)" by blast
  from k [of "KReg 1 8"] k [of "KReg 0 10"] t(2) have "keyType (keys t (KReg 1 8)) = KKT_Resume \<and> denotes t (keys t (KReg 1 8)) q"
    "\<not> (keyType (keys t (KReg 0 10)) = KKT_Resume \<and> denotes t (keys t (KReg 0 10)) q)" by simp_all
  with t(1) q show ?thesis by blast
qed

section \<open>Registers\<close>

text \<open>The bytes of words.\<close>

lemma le_bytes_length [simp]: "length (le_bytes w) = 4"
  by (simp add: le_bytes_def)

lemma le_word_bytes [simp]: "le_word (le_bytes w) = w"
proof (rule bit_word_eqI)
  fix n assume "n < LENGTH(32)"
  then consider "n < 8" | "8 \<le> n \<and> n < 16" | "16 \<le> n \<and> n < 24" | "24 \<le> n \<and> n < 32" by fastforce
  then show "bit (le_word (le_bytes w)) n = bit w n"
    by cases (auto simp: le_word_def le_bytes_def bit_simps)
qed

lemma words_bytes_Cons: "words_bytes (w # ws) = le_bytes w @ words_bytes ws"
  by (simp add: words_bytes_def)

lemma words_bytes_length [simp]: "length (words_bytes ws) = 4 * length ws"
  by (induction ws) (simp_all add: words_bytes_def)

lemma bytes_word_words [simp]: "i < length ws \<Longrightarrow> bytes_word (words_bytes ws) i = ws ! i"
proof (induction ws arbitrary: i)
  case (Cons w ws)
  then show ?case by (cases i) (simp_all add: words_bytes_Cons bytes_word_def)
qed simp

text \<open>The process after its registers are set, before they are checked.\<close>

definition regs_common :: "'a CommonRegisters32_scheme \<Rightarrow> Process \<Rightarrow> Process" where
  "regs_common r q =
     (let q = (proc_SetCommonRegs32MD r q)\<lparr>processFlags := ucast (reg_procFlags r)\<rparr>
      in if reg_faultCode r = capros_Process_FC_NoFault then proc_ClearFault q
         else q\<lparr>faultCode := reg_faultCode r, faultInfo := reg_faultInfo r\<rparr>)"

definition regs_frame :: "Registers \<Rightarrow> Process \<Rightarrow> Process" where
  "regs_frame r q = q\<lparr>trapFrame := (\<lambda>i.
     if i < 13 \<or> i = 14 then reg_registers r ! i else if i = 16 then reg_CPSR r else trapFrame q i)\<rparr>"

lemma SetRegs32_eq:
  "proc_SetRegs32 p r u = do {
     assert_that (proc_IsRunnable (procs (k_sched u) p));
     assert_that (hazards (procs (k_sched u) p) AND hz_DomRoot = 0);
     proc_ValidateRegValues p (on_proc p (regs_frame r) (on_proc p (regs_common r) u)) }"
  by (simp add: proc_SetRegs32_def proc_SetCommonRegs32_def regs_frame_def [abs_def] regs_common_def [abs_def] Let_def)

lemma regs_fields [simp]:
  "hazards (regs_common r q) = hazards q" "isUserContext (regs_common r q) = isUserContext q"
  "hazards (regs_frame r' q) = hazards q" "isUserContext (regs_frame r' q) = isUserContext q"
  "processFlags (regs_frame r' q) = processFlags q" "trapFrame (regs_frame r' q) 16 = reg_CPSR r'"
  "faultCode (regs_frame r' q) = faultCode q"
  by (simp_all add: regs_common_def regs_frame_def proc_SetCommonRegs32MD_def proc_ClearFault_def Let_def)

lemma SetRegs32_result:
  assumes "proc_SetRegs32 p r u = Some t" "q = regs_frame r (regs_common r (procs (k_sched u) p))"
  shows "if processFlags q AND capros_Process_PF_FaultToProcessKeeper \<noteq> 0 \<or> \<not> isUserContext q
    then procs (k_sched t) p = q
    else (\<exists>priv. proc_HasDevicePrivileges p u = Some priv \<and> procs (k_sched t) p = set_user_CPSR priv q)"
proof -
  let ?v = "on_proc p (regs_frame r) (on_proc p (regs_common r) u)"
  have t: "proc_ValidateRegValues p ?v = Some t" using assms(1) by (simp add: SetRegs32_eq)
  have "procs (k_sched ?v) p = q" by (simp add: assms(2))
  moreover have "proc_HasDevicePrivileges p ?v = proc_HasDevicePrivileges p u"
    by (simp add: proc_HasDevicePrivileges_def)
  ultimately show ?thesis using t
    by (auto simp: proc_ValidateRegValues_def Let_def bind_eq_Some_conv split: if_split_asm)
qed

lemma user_mode_bits:
  "trapFrame (set_user_CPSR priv q) 16 AND NOT (userCPSRBits OR MASK_CPSR_IRQDisable) = CPSRMode_User"
proof -
  have "(w AND m OR 0x10) AND NOT 0xff0000a0 = 0x10" if "m AND NOT 0xff0000a0 = 0" for w m :: u32
  proof -
    have "(w AND m) AND NOT 0xff0000a0 = w AND (m AND NOT 0xff0000a0)" by (rule and.assoc)
    then have "(w AND m) AND NOT 0xff0000a0 = 0" using that by simp
    then show ?thesis by (simp add: bit.conj_disj_distrib2)
  qed
  then show ?thesis by (simp add: set_user_CPSR_def userCPSRBits_def MASK_CPSR_Thumb_def MASK_CPSR_IRQDisable_def CPSRMode_User_def)
qed

text \<open>
  C22. The processor mode of a user process: setting the registers through a process key leaves it in user
  mode, whatever status register the caller passes. But when the caller also sets a fault with the
  flag to call the keeper of the process, the status register is not checked at all, and it stays as it is when
  the process is restarted through a resume key: the flag is cleared and the process runs in
  the mode the caller chose, a privileged one, say.
\<close>

theorem setRegisters_mode:
  assumes "pk_setRegisters p s = Some t" "r = registers_of (entry_data (k_inv s))"
    and "length (entry_data (k_inv s)) = sizeof_Registers" "isUserContext (procs (k_sched t) p)"
    and "procs (k_sched u) p = procs (k_sched t) p" "k_OC u (entry_code (k_inv u)) = 0"
  shows "if reg_faultCode r \<noteq> capros_Process_FC_NoFault \<and> ucast (reg_procFlags r) AND capros_Process_PF_FaultToProcessKeeper \<noteq> 0
    then trapFrame (procs (k_sched (gate_restart p u)) p) 16 = reg_CPSR r
      \<and> faultCode (procs (k_sched (gate_restart p u)) p) = capros_Process_FC_NoFault
      \<and> processFlags (procs (k_sched (gate_restart p u)) p) AND capros_Process_PF_FaultToProcessKeeper = 0
    else trapFrame (procs (k_sched t) p) 16 AND NOT (userCPSRBits OR MASK_CPSR_IRQDisable) = CPSRMode_User"
proof -
  from assms(1,3) obtain v w where v: "COMMIT_POINT s = Some v" and w: "proc_SetRegs32 p (registers_of (inv_CopyIn sizeof_Registers v)) v = Some w"
    and t: "t = set_exit_code RC_OK w"
    by (auto simp: pk_setRegisters_def proc_Prepare_def bind_eq_Some_conv)
  have "inv_CopyIn sizeof_Registers v = entry_data (k_inv s)" using COMMIT_frame(3) [OF v] assms(3) by (simp add: inv_CopyIn_def)
  then have w: "proc_SetRegs32 p r v = Some w" using w assms(2) by simp
  define q where "q = regs_frame r (regs_common r (procs (k_sched v) p))"
  note R = SetRegs32_result [OF w q_def]
  have user: "isUserContext q"
    using R assms(4) by (cases "isUserContext q") (auto simp: t)
  have flag: "(processFlags q AND capros_Process_PF_FaultToProcessKeeper \<noteq> 0)
      = (reg_faultCode r \<noteq> capros_Process_FC_NoFault \<and> ucast (reg_procFlags r) AND capros_Process_PF_FaultToProcessKeeper \<noteq> 0)"
    by (simp add: q_def regs_common_def proc_ClearFault_def Let_def and.assoc)
  show ?thesis
  proof (cases "processFlags q AND capros_Process_PF_FaultToProcessKeeper \<noteq> 0")
    case True
    then have "procs (k_sched u) p = q" using R assms(5) by (simp add: t)
    moreover have "trapFrame q 16 = reg_CPSR r" by (simp add: q_def)
    ultimately show ?thesis using True flag assms(6)
      by (simp add: gate_restart_def proc_ClearFault_def and.assoc capros_Process_FC_NoFault_def)
  next
    case False
    then obtain priv where "procs (k_sched w) p = set_user_CPSR priv q" using R user by auto
    then have "trapFrame (procs (k_sched t) p) 16 AND NOT (userCPSRBits OR MASK_CPSR_IRQDisable) = CPSRMode_User"
      using user_mode_bits by (simp add: t)
    with False flag show ?thesis by auto
  qed
qed

lemma words_bytes_map:
  assumes "b \<le> length ws"
  shows "map (bytes_word (words_bytes ws)) [a..<b] = take (b - a) (drop a ws)"
  using assms by (intro nth_equalityI) auto

lemma registers_of_words:
  assumes "length (reg_registers r) = 16"
  shows "registers_of (words_bytes (common_words r @ reg_registers r @ [reg_CPSR r])) = r"
proof -
  let ?ws = "common_words r @ reg_registers r @ [reg_CPSR r]"
  have "map (bytes_word (words_bytes ?ws)) [7..<23] = take 16 (drop 7 ?ws)"
    using assms words_bytes_map [of 23 ?ws 7] by (simp add: common_words_def)
  then have m: "map (bytes_word (words_bytes ?ws)) [7..<23] = reg_registers r" using assms by (simp add: common_words_def)
  show ?thesis unfolding registers_of_def m
    using assms by (cases r) (simp add: common_words_def nth_append)
qed

lemma GetRegs32_result:
  assumes "proc_GetRegs32 p r0 s = Some (True, r, u)" "q = procs (k_sched u) p"
  shows "r = \<lparr>reg_len = of_nat sizeof_Registers, reg_arch = capros_Process_ARCH_ARMProcess, reg_procFlags = ucast (processFlags q),
      reg_faultCode = faultCode q, reg_faultInfo = faultInfo q, reg_pc = trapFrame q 15, reg_sp = trapFrame q 13,
      reg_registers = map (trapFrame q) [0..<16], reg_CPSR = trapFrame q 16\<rparr>"
    and "hazards q = 0"
  using assms
  by (auto simp: proc_GetRegs32_def proc_GetCommonRegs32_def proc_IsRunnable_def Let_def bind_eq_Some_conv split: if_split_asm)

text \<open>The bytes that \<^verbatim>\<open>getRegisters\<close> delivers.\<close>

definition regs_bytes :: "Registers \<Rightarrow> u8 list" where
  "regs_bytes r = words_bytes (common_words r @ reg_registers r @ [reg_CPSR r])"

text \<open>
  What reading and writing back does to a user process: a running process no longer expects a
  message; without a fault, the fault information and the flag of the keeper are cleared; and unless the flag is
  set, the status register loses the bits that the process may not set.
\<close>

definition read_regs :: "Process \<Rightarrow> Process" where
  "read_regs q = (if runState q = RS_Running
     then q\<lparr>processFlags := processFlags q AND NOT capros_Process_PF_ExpectingMessage\<rparr> else q)"

definition settle :: "bool \<Rightarrow> Process \<Rightarrow> Process" where
  "settle priv q =
     (let q = (if faultCode q = capros_Process_FC_NoFault then proc_ClearFault q else q)
      in if processFlags q AND capros_Process_PF_FaultToProcessKeeper \<noteq> 0 then q else set_user_CPSR priv q)"

lemma flags_back: "ucast (ucast (w :: u8) :: u32) = w"
  by (rule bit_word_eqI) (simp add: bit_simps)

lemma on_proc_comp: "on_proc p f (on_proc p g s) = on_proc p (\<lambda>q. f (g q)) s"
  by (simp add: on_proc_def upd_proc_def)

lemma on_proc_cong: "f (procs (k_sched s) p) = g (procs (k_sched s) p) \<Longrightarrow> on_proc p f s = on_proc p g s"
  by (simp add: on_proc_def upd_proc_def)

lemma on_proc_id: "f (procs (k_sched s) p) = procs (k_sched s) p \<Longrightarrow> on_proc p f s = s"
  by (simp add: on_proc_def upd_proc_def)

lemma GetRegs32_state:
  assumes "proc_GetRegs32 p r0 s = Some (True, r, u)"
  shows "u = on_proc p read_regs s"
proof (cases "runState (procs (k_sched s) p) = RS_Running")
  case True
  with assms have "u = on_proc p (\<lambda>q. q\<lparr>processFlags := processFlags q AND NOT capros_Process_PF_ExpectingMessage\<rparr>) s"
    by (auto simp: proc_GetRegs32_def proc_GetCommonRegs32_def Let_def split: if_split_asm)
  also have "\<dots> = on_proc p read_regs s" using True by (intro on_proc_cong) (simp add: read_regs_def)
  finally show ?thesis .
next
  case False
  with assms have "u = s" by (auto simp: proc_GetRegs32_def proc_GetCommonRegs32_def Let_def split: if_split_asm)
  also have "\<dots> = on_proc p read_regs s" using False by (intro on_proc_id [symmetric]) (simp add: read_regs_def)
  finally show ?thesis .
qed

lemma write_back:
  assumes "proc_GetRegs32 p r0 s = Some (True, r, u)" "isUserContext (procs (k_sched u) p)" "procRoot u p = Some root"
  shows "proc_SetRegs32 p (registers_of (regs_bytes r)) u
    = Some (on_proc p (settle (keyBits_IsType (keys u (KSlot root ProcIoSpace)) KKT_DevicePrivs)) u)"
proof -
  define q where "q = procs (k_sched u) p"
  note r = GetRegs32_result [OF assms(1) q_def]
  have same: "registers_of (regs_bytes r) = r" unfolding regs_bytes_def by (rule registers_of_words) (simp add: r(1))
  define c where "c = (\<lambda>q. if faultCode q = capros_Process_FC_NoFault then proc_ClearFault q else q)"
  have cq: "trapFrame (c q) = trapFrame q" "hazards (c q) = hazards q" "isUserContext (c q) = isUserContext q" for q
    by (simp_all add: c_def proc_ClearFault_def)
  have frame: "regs_frame r (regs_common r q) = c q"
  proof -
    have "regs_common r q = c q"
      by (cases q) (simp add: c_def r(1) regs_common_def proc_SetCommonRegs32MD_def proc_ClearFault_def flags_back)
    moreover have "(\<lambda>i. if i < 13 \<or> i = 14 then reg_registers r ! i else if i = 16 then reg_CPSR r else trapFrame (c q) i) = trapFrame (c q)"
      by (auto simp: r(1) cq fun_eq_iff)
    then have "regs_frame r (c q) = (c q)\<lparr>trapFrame := trapFrame (c q)\<rparr>" by (simp only: regs_frame_def)
    ultimately show ?thesis by simp
  qed
  let ?v = "on_proc p c u"
  have "on_proc p (regs_frame r) (on_proc p (regs_common r) u) = ?v"
    unfolding on_proc_comp using frame by (intro on_proc_cong) (simp add: q_def)
  moreover have "proc_ValidateRegValues p ?v = Some (on_proc p (settle (keyBits_IsType (keys u (KSlot root ProcIoSpace)) KKT_DevicePrivs)) u)"
  proof -
    have priv: "proc_HasDevicePrivileges p ?v = Some (keyBits_IsType (keys u (KSlot root ProcIoSpace)) KKT_DevicePrivs)"
      using assms(3) r(2) by (simp add: proc_HasDevicePrivileges_def q_def cq)
    have user: "isUserContext (procs (k_sched ?v) p)" using assms(2) by (simp add: cq)
    show ?thesis
    proof (cases "processFlags (c q) AND capros_Process_PF_FaultToProcessKeeper \<noteq> 0")
      case True
      then have "settle b q = c q" for b by (simp add: settle_def c_def)
      then have "on_proc p (settle b) u = ?v" for b by (intro on_proc_cong) (simp add: q_def)
      with True show ?thesis by (simp add: proc_ValidateRegValues_def q_def Let_def)
    next
      case False
      then have "settle b q = set_user_CPSR b (c q)" for b by (simp add: settle_def c_def)
      then have "on_proc p (settle b) u = on_proc p (set_user_CPSR b) ?v" for b
        unfolding on_proc_comp by (intro on_proc_cong) (simp add: q_def)
      with False priv user show ?thesis by (simp add: proc_ValidateRegValues_def q_def Let_def)
    qed
  qed
  ultimately show ?thesis using r(2) by (simp add: same SetRegs32_eq proc_IsRunnable_def q_def)
qed

lemma settle_fields [simp]:
  "runState (settle priv q) = runState q" "hazards (settle priv q) = hazards q" "isUserContext (settle priv q) = isUserContext q"
  "faultCode (settle priv q) = faultCode q" "i \<noteq> 16 \<Longrightarrow> trapFrame (settle priv q) i = trapFrame q i"
  by (simp_all add: settle_def set_user_CPSR_def proc_ClearFault_def capros_Process_FC_NoFault_def Let_def)

lemma clear_again: "(w :: 'a::len word) AND NOT m AND NOT m = w AND NOT m" "(w AND m OR b) AND m OR b = w AND m OR b"
  by (auto simp: bit_eq_iff bit_simps)

lemma settle_again: "settle priv (settle priv q) = settle priv q"
proof -
  have u: "set_user_CPSR priv (set_user_CPSR priv q) = set_user_CPSR priv q" for q
    by (cases q) (auto simp: set_user_CPSR_def clear_again bit_eq_iff bit_simps)
  have "proc_ClearFault (set_user_CPSR priv (proc_ClearFault q)) = set_user_CPSR priv (proc_ClearFault q)"
    "proc_ClearFault (proc_ClearFault q) = proc_ClearFault q" for q
    by (cases q, simp add: set_user_CPSR_def proc_ClearFault_def clear_again)+
  moreover have "faultCode (set_user_CPSR priv q) = faultCode q" "processFlags (set_user_CPSR priv q) = processFlags q" for q
    by (simp_all add: set_user_CPSR_def)
  moreover have "faultCode (proc_ClearFault q) = capros_Process_FC_NoFault"
    "processFlags (proc_ClearFault q) AND capros_Process_PF_FaultToProcessKeeper = 0" for q
    by (simp_all add: proc_ClearFault_def capros_Process_FC_NoFault_def and.assoc)
  ultimately show ?thesis by (auto simp: settle_def Let_def u)
qed

lemma read_settle: "read_regs (settle priv (read_regs q)) = settle priv (read_regs q)"
proof -
  let ?e = "capros_Process_PF_ExpectingMessage" and ?m = "capros_Process_PF_FaultToProcessKeeper"
  have flags: "processFlags (settle priv q) = processFlags q \<or> processFlags (settle priv q) = processFlags q AND NOT ?m" for q
    by (simp add: settle_def set_user_CPSR_def proc_ClearFault_def Let_def)
  have "processFlags (read_regs q) AND NOT ?e = processFlags (read_regs q)" if "runState q = RS_Running"
    using that by (simp add: read_regs_def clear_again)
  then have "processFlags (settle priv (read_regs q)) AND NOT ?e = processFlags (settle priv (read_regs q))" if "runState q = RS_Running"
    using that flags [of "read_regs q"] and.assoc [of "processFlags (read_regs q)"] by (metis and.commute)
  then show ?thesis by (simp add: read_regs_def [of "settle priv (read_regs q)"]) (simp add: read_regs_def)
qed

text \<open>
  C20. Reading the registers of a loaded user process and writing back the bytes that were delivered. The
  write succeeds, whatever the state of the process. All general registers, the stack pointer, the
  program counter and the fault code are as before the read, and nothing but this process changes. What changes
  in it is exactly this: a running process no longer expects a message, a process without fault
  loses left-over fault information, and the status register is checked (\<^const>\<open>settle\<close>). From
  then on, reading and writing back changes nothing at all.
\<close>

theorem registers_roundtrip:
  assumes "proc_GetRegs32 p r0 s = Some (True, r, u)" "isUserContext (procs (k_sched s) p)" "procRoot s p = Some root"
    and "priv = keyBits_IsType (keys s (KSlot root ProcIoSpace)) KKT_DevicePrivs"
  shows "\<exists>t. proc_SetRegs32 p (registers_of (regs_bytes r)) u = Some t \<and> t = on_proc p (\<lambda>q. settle priv (read_regs q)) s
    \<and> (\<forall>i < 16. trapFrame (procs (k_sched t) p) i = trapFrame (procs (k_sched s) p) i)
    \<and> faultCode (procs (k_sched t) p) = faultCode (procs (k_sched s) p)
    \<and> (\<exists>r'. proc_GetRegs32 p r0 t = Some (True, r', t) \<and> proc_SetRegs32 p (registers_of (regs_bytes r')) t = Some t)"
proof -
  define t where "t = on_proc p (\<lambda>q. settle priv (read_regs q)) s"
  note u = GetRegs32_state [OF assms(1)]
  have f: "procRoot u p = Some root" "isUserContext (procs (k_sched u) p)" "keys u = keys s"
    using assms(2,3) by (simp_all add: u read_regs_def)
  have set: "proc_SetRegs32 p (registers_of (regs_bytes r)) u = Some t"
    using write_back [OF assms(1) f(2,1)] unfolding f(3) assms(4) [symmetric] by (simp add: u on_proc_comp t_def)
  have q: "procs (k_sched t) p = settle priv (read_regs (procs (k_sched s) p))" by (simp add: t_def)
  have h: "hazards (procs (k_sched s) p) = 0"
    using assms(1) by (auto simp: proc_GetRegs32_def proc_GetCommonRegs32_def proc_IsRunnable_def Let_def bind_eq_Some_conv split: if_split_asm)
  have "hazards (procs (k_sched t) p) = 0" using h by (simp add: q) (simp add: read_regs_def)
  then obtain r' v where g: "proc_GetRegs32 p r0 t = Some (True, r', v)"
    by (simp add: proc_GetRegs32_def proc_GetCommonRegs32_def proc_IsRunnable_def Let_def)
  have "v = t" using GetRegs32_state [OF g] by (simp add: on_proc_id q read_settle)
  with g have g: "proc_GetRegs32 p r0 t = Some (True, r', t)" by simp
  have "proc_SetRegs32 p (registers_of (regs_bytes r')) t = Some (on_proc p (settle priv) t)"
    using write_back [OF g, of root] assms(2-4) f by (simp add: q t_def read_regs_def)
  also have "on_proc p (settle priv) t = t" by (rule on_proc_id) (simp add: q settle_again)
  finally show ?thesis using set g q t_def by (intro exI [of _ t]) (auto simp: read_regs_def)
qed

text \<open>Process 0 in user mode, and a request that sets a fault and the system mode.\<close>

definition ex_user :: kern where
  "ex_user = on_proc 0 (\<lambda>q. q\<lparr>trapFrame := (\<lambda>_. 0)(16 := 0x1f)\<rparr>) ex_gate"

lemma ex_user_proc: "procs (k_sched ex_user) 0 = ex_proc\<lparr>trapFrame := (\<lambda>_. 0)(16 := 0x1f)\<rparr>"
  by (simp add: ex_user_def ex_sched_def)

theorem registers_roundtrip_witness:
  "\<exists>r t. proc_GetRegs32 0 no_regs ex_user = Some (True, r, ex_user) \<and> proc_SetRegs32 0 (registers_of (regs_bytes r)) ex_user = Some t
     \<and> trapFrame (procs (k_sched t) 0) 16 = 0x10"
proof -
  have "\<exists>r. proc_GetRegs32 0 no_regs ex_user = Some (True, r, ex_user)"
    by (simp add: proc_GetRegs32_def proc_GetCommonRegs32_def proc_IsRunnable_def Let_def ex_user_proc ex_proc_def)
  then obtain r where r: "proc_GetRegs32 0 no_regs ex_user = Some (True, r, ex_user)" ..
  have f: "isUserContext (procs (k_sched ex_user) 0)" "procRoot ex_user 0 = Some 1"
    "False = keyBits_IsType (keys ex_user (KSlot 1 ProcIoSpace)) KKT_DevicePrivs"
    by (simp add: ex_user_proc ex_proc_def) (simp_all add: ex_user_def ex_key_defs keyBits_IsType_def)
  from registers_roundtrip [OF r f] obtain t where t: "proc_SetRegs32 0 (registers_of (regs_bytes r)) ex_user = Some t"
    "t = on_proc 0 (\<lambda>q. settle False (read_regs q)) ex_user" by blast
  have "trapFrame (procs (k_sched t) 0) 16 = 0x10"
    by (simp add: t(2) ex_user_proc) (simp add: settle_def read_regs_def ex_proc_def set_user_CPSR_def CPSRMode_User_def userCPSRBits_def
        MASK_CPSR_Thumb_def proc_ClearFault_def capros_Process_PF_FaultToProcessKeeper_def Let_def)
  with r t(1) show ?thesis by blast
qed

definition ex_mode_regs :: Registers where
  "ex_mode_regs = \<lparr>reg_len = 96, reg_arch = 2, reg_procFlags = 1, reg_faultCode = 1, reg_faultInfo = 0, reg_pc = 0x1000,
     reg_sp = 0x2000, reg_registers = replicate 16 0, reg_CPSR = 0x1f\<rparr>"

definition ex_mode :: kern where
  "ex_mode = upd_inv (\<lambda>i. i\<lparr>entry_data := words_bytes (common_words ex_mode_regs @ reg_registers ex_mode_regs
     @ [reg_CPSR ex_mode_regs])\<rparr>) ex_makeResume"

theorem setRegisters_mode_witness:
  "\<exists>t. pk_setRegisters 0 ex_mode = Some t \<and> trapFrame (procs (k_sched (gate_restart 0 t)) 0) 16 = CPSRMode_System"
proof -
  have e: "entry_data (k_inv ex_mode) = words_bytes (common_words ex_mode_regs @ reg_registers ex_mode_regs @ [reg_CPSR ex_mode_regs])"
    "length (reg_registers ex_mode_regs) = 16" by (simp_all add: ex_mode_def ex_mode_regs_def)
  have len: "length (entry_data (k_inv ex_mode)) = sizeof_Registers"
    unfolding e(1) words_bytes_length by (simp add: e(2) common_words_def sizeof_Registers_def)
  have r: "ex_mode_regs = registers_of (entry_data (k_inv ex_mode))" unfolding e(1) by (rule registers_of_words [OF e(2), symmetric])
  let ?c = "ex_commit ex_mode"
  have c: "COMMIT_POINT ex_mode = Some ?c" by (rule ex_COMMIT) (simp_all add: ex_mode_def ex_makeResume_def ex_inv_def)
  have p: "procs (k_sched ?c) 0 = ex_proc" "k_OC ?c = k_OC ex_mode" by (simp_all add: ex_commit_def ex_sched_def)
  have "inv_CopyIn sizeof_Registers ?c = entry_data (k_inv ex_mode)" using len by (simp add: inv_CopyIn_def)
  then have rc: "registers_of (inv_CopyIn sizeof_Registers ?c) = ex_mode_regs" using r by simp
  have "\<exists>w. proc_SetRegs32 0 ex_mode_regs ?c = Some w \<and> isUserContext (procs (k_sched w) 0) \<and> k_OC w = k_OC ex_mode
      \<and> k_inv w = k_inv ex_mode"
    unfolding SetRegs32_eq p(1)
    by (simp add: proc_ValidateRegValues_def p ex_proc_def proc_IsRunnable_def Let_def regs_common_def proc_SetCommonRegs32MD_def
        ex_mode_regs_def capros_Process_FC_NoFault_def capros_Process_PF_FaultToProcessKeeper_def on_proc_def)
  then obtain w where w: "proc_SetRegs32 0 ex_mode_regs ?c = Some w" "isUserContext (procs (k_sched w) 0)" "k_OC w = k_OC ex_mode"
    "k_inv w = k_inv ex_mode" by blast
  have run: "proc_IsRunnable (procs (k_sched ex_mode) 0)"
    by (simp add: ex_mode_def ex_makeResume_def ex_sched_def ex_proc_def proc_IsRunnable_def)
  have t: "pk_setRegisters 0 ex_mode = Some (set_exit_code RC_OK w)"
    using len c rc w(1) run by (simp add: pk_setRegisters_def proc_Prepare_def)
  have "k_OC ex_mode (entry_code (k_inv ex_mode)) = 0"
    by (simp add: ex_mode_def ex_makeResume_def ex_inv_def ex_gate_def ex_kern_def)
  then show ?thesis
    using setRegisters_mode [OF t r len, of "set_exit_code RC_OK w"] w t
    by (simp add: ex_mode_regs_def CPSRMode_System_def capros_Process_FC_NoFault_def capros_Process_PF_FaultToProcessKeeper_def)
qed

section \<open>Sleeping\<close>

lemma unat_ticks: "unat (mach_NanosecondsToTicks ns) = unat ns div 501530"
  by (simp add: mach_NanosecondsToTicks_def unat_div)

lemma div_bounds: "n div 501530 * 501530 \<le> n" "n < n div 501530 * 501530 + (501530 :: nat)"
  using div_mult_mod_eq [of n 501530] mod_less_divisor [of 501530 n] by linarith+

text \<open>
  C21. When a sleep ends, counted in ticks of 501530 nanoseconds. Sleeping until a time is rounded up: it ends
  at a tick after the time, and at most one tick after it. Sleeping for a number of nanoseconds is
  rounded down: it ends up to one tick before they have passed, never after that; sleeping for less than a tick
  does not sleep at all.
\<close>

theorem sleep_wakeup_times:
  assumes "unat (entry_u64 s) + 501530 < 2 ^ 64" "unat (sysT_Now s) * 501530 + unat (entry_u64 s) < 2 ^ 64"
  shows "unat (entry_u64 s) < unat (sk_wakeup OC_capros_Sleep_sleepTill s) * 501530
    \<and> unat (sk_wakeup OC_capros_Sleep_sleepTill s) * 501530 \<le> unat (entry_u64 s) + 501530
    \<and> unat (sk_wakeup OC_capros_Sleep_sleepForNanoseconds s) * 501530 \<le> unat (sysT_Now s) * 501530 + unat (entry_u64 s)
    \<and> unat (sysT_Now s) * 501530 + unat (entry_u64 s) < unat (sk_wakeup OC_capros_Sleep_sleepForNanoseconds s) * 501530 + 501530
    \<and> (sk_wakeup OC_capros_Sleep_sleepForNanoseconds s = sysT_Now s) = (unat (entry_u64 s) < 501530)"
proof -
  let ?n = "unat (entry_u64 s)" and ?t = "mach_NanosecondsToTicks (entry_u64 s)"
  note d = div_bounds [of ?n]
  have u: "unat ?t = ?n div 501530" by (rule unat_ticks)
  have till: "unat (sk_wakeup OC_capros_Sleep_sleepTill s) = ?n div 501530 + 1"
  proof -
    have "unat ?t + 1 < 2 ^ 64" using d assms(1) by (simp add: u)
    then have "unat (?t + 1) = unat ?t + 1" by (simp add: unat_plus_if')
    then show ?thesis by (simp add: sk_wakeup_def u)
  qed
  have "unat (sysT_Now s) + unat ?t < 2 ^ 64" using d assms(2) by (simp add: u)
  then have "unat (sysT_Now s + ?t) = unat (sysT_Now s) + unat ?t" by (simp add: unat_plus_if')
  then have for_ns: "unat (sk_wakeup OC_capros_Sleep_sleepForNanoseconds s) = unat (sysT_Now s) + ?n div 501530"
    by (simp add: sk_wakeup_def u)
  have "(sk_wakeup OC_capros_Sleep_sleepForNanoseconds s = sysT_Now s) = (?n div 501530 = 0)"
    unfolding word_unat_eq_iff for_ns by simp
  then show ?thesis unfolding till for_ns using d by (auto simp: algebra_simps)
qed

text \<open>A request for 501529 nanoseconds.\<close>

definition ex_sleep :: kern where
  "ex_sleep = upd_inv (\<lambda>i. i\<lparr>entry_w1 := 501529\<rparr>) ex_gate"

theorem sleep_wakeup_times_witness:
  "entry_u64 ex_sleep = 501529 \<and> sk_wakeup OC_capros_Sleep_sleepForNanoseconds ex_sleep = sysT_Now ex_sleep
     \<and> unat (entry_u64 ex_sleep) < unat (sk_wakeup OC_capros_Sleep_sleepTill ex_sleep) * 501530"
proof -
  have e: "entry_u64 ex_sleep = 501529" by (simp add: entry_u64_def ex_sleep_def ex_inv_def)
  moreover have "sysT_Now ex_sleep = 1000" by (simp add: ex_sleep_def sysT_Now_def ex_gate_def ex_kern_def upd_inv_def)
  ultimately show ?thesis using sleep_wakeup_times [of ex_sleep] by simp
qed

section \<open>The process tool\<close>

lemma pt_refuse_code: "pt_refuse rc s = Some (Returned t) \<Longrightarrow> exit_code (k_inv t) = rc"
  by (auto simp: pt_refuse_def bind_eq_Some_conv ReturnCode_Some)

text \<open>What is known when a check of a gate key was passed: the answer holds the node key to the process.\<close>

lemma pt_check_gate_passed:
  assumes "kern_inv s" "pt_check_gate k f s = Some (Returned t)" "exit_code (k_inv t) \<noteq> RC_capros_key_NoAccess"
    and "exit_pKey (k_inv s) 0 = Some d"
  obtains b v ctx root where "f b v = Some (Returned t)" "entry_key (k_inv v) = entry_key (k_inv s)"
    "exit_pKey (k_inv v) = exit_pKey (k_inv s)" "InvocationCommitted v"
    "procRoot v ctx = Some root" "keyType (keys v d) = KKT_Node" "key_u (keys v d) = U_ok root"
proof -
  from assms(2,3) obtain u v same where u: "key_Prepare k s = Some u" "keyBits_IsGateKey (keys u k)"
    and c: "CompareBrand k (entry_key (k_inv u) 1) u = Some (same, v)"
    and r: "(if \<not> same then ReturnCode RC_capros_key_NoAccess v else f (keyBits_IsType (keys u k) KKT_Resume) v) = Some (Returned t)"
    by (auto simp: pt_check_gate_def Let_def bind_eq_Some_conv dest: pt_refuse_code split: if_split_asm)
  have same: same using r assms(3) by (cases same) (auto simp: ReturnCode_Some)
  have inv: "kern_inv u" using key_Prepare_inv [OF assms(1) u(1)] .
  note I = key_Prepare_inv_block [OF assms(1) u(1)]
  note K = CompareBrand_keys [OF inv c]
  obtain w ctx root where w: "root_ok w ctx root" "k_inv w = k_inv u" "\<And>P. key_closed P \<Longrightarrow> P u \<Longrightarrow> P w"
    and ans: "brand_answer k (entry_key (k_inv u) 1) root w = Some (same, v)"
    using CompareBrand_cases [OF inv c] by metis
  let ?w = "set_exit_w2 (ucast (keyData (keys w k))) (set_exit_w1 (of_nat (kkt_num (keyType (keys w k)))) w)"
  have v: "return_node root ?w = Some v" using ans same by (auto simp: brand_answer_def Let_def bind_eq_Some_conv split: if_split_asm)
  from return_node_key [OF v, of d] have "keyType (keys v d) = KKT_Node" "key_u (keys v d) = U_ok root"
    using w(2) I assms(4) by simp_all
  moreover have "procRoot v ctx = Some root" using v w(1)
    by (auto simp: return_node_def key_SetToObj_def Let_def link_insertAfter_def root_ok_def split: option.split_asm)
  ultimately show thesis using that [of "keyBits_IsType (keys u k) KKT_Resume" v] r same K(1-3) I by simp
qed

text \<open>
  C24. Opening a forwarder when the key that is passed and the key that is received share a key
  register: the process tool first puts a node key to the root of the process there, then takes it
  for the forwarder key that was passed. What it returns is not a key to the forwarder but a
  forwarder key to the root of the process.
\<close>

theorem identForwarderTarget_same_register:
  assumes "kern_inv s" "pt_identForwarderTarget s = Some (Returned t)" "exit_code (k_inv t) = RC_OK"
    and "exit_pKey (k_inv s) 0 = Some d" "entry_key (k_inv s) 0 = d"
  shows "keyType (keys t d) = KKT_Forwarder \<and> keyData (keys t d) = 0
    \<and> (\<exists>ctx root. procRoot t ctx = Some root \<and> key_u (keys t d) = U_ok root)"
proof -
  from assms(2,3,5) obtain u n where u: "key_Prepare d s = Some u"
    and c: "pt_check_gate (KSlot n ForwarderTargetSlot) (pt_return_forwarder (KSlot n ForwarderTargetSlot)) u = Some (Returned t)"
    by (auto simp: pt_identForwarderTarget_def Let_def bind_eq_Some_conv dest: pt_refuse_code split: if_split_asm)
  note I = key_Prepare_inv_block [OF assms(1) u]
  have ne: "exit_code (k_inv t) \<noteq> RC_capros_key_NoAccess" "exit_pKey (k_inv u) 0 = Some d" using assms(3,4) I by simp_all
  from key_Prepare_inv [OF assms(1) u] c ne obtain b v ctx root where
    f: "pt_return_forwarder (KSlot n ForwarderTargetSlot) b v = Some (Returned t)"
    and v: "entry_key (k_inv v) = entry_key (k_inv u)" "exit_pKey (k_inv v) = exit_pKey (k_inv u)"
      "procRoot v ctx = Some root" "key_u (keys v d) = U_ok root"
    by (rule pt_check_gate_passed)
  have "keyType (keys t d) = KKT_Forwarder \<and> keyData (keys t d) = 0 \<and> key_u (keys t d) = U_ok root \<and> procRoot t ctx = Some root"
    using f v I assms(4,5)
    by (auto simp: pt_return_forwarder_def Let_def bind_eq_Some_conv inv_SetExitKey_Some ReturnCode_Some split: if_split_asm option.split_asm)
  then show ?thesis by blast
qed

text \<open>A forwarder key in register 4 of process 1, whose target is a start key to process 0; all brands are void.\<close>

definition ex_fwd0 :: kern where
  "ex_fwd0 = key_NH_Set (KReg 1 4) (KReg 0 2) (key_NH_Set (KSlot 0 31) (KReg 0 9) ex_gate)"

definition ex_fwd :: kern where
  "ex_fwd = (upd_inv (\<lambda>i. i\<lparr>invokee := Some 1, entry_key := (\<lambda>n. KReg 1 (4 + n)),
       exit_pKey := (\<lambda>n. if n = 0 then Some (KReg 1 4) else None)\<rparr>)
     (upd_key (KReg 1 4) ((keys ex_fwd0 (KReg 1 4))\<lparr>keyType := KKT_Forwarder, keyData := 0\<rparr>) ex_fwd0))\<lparr>ReturneeSetUp := True\<rparr>"

lemma ex_fwd_inv: "kern_inv ex_fwd"
proof -
  have "kern_inv ex_fwd0" unfolding ex_fwd0_def using ex_gate_inv by (intro key_NH_Set_inv)
  from retype_forwarder_inv [OF this, of "KReg 1 4"] show ?thesis
    by (simp add: ex_fwd_def ex_fwd0_def unhazarded_def ex_key_defs key_flag_bits KFL_HAZARD_BITS_def)
qed

lemma ex_fwd_runs: "\<exists>t. pt_identForwarderTarget ex_fwd = Some (Returned t) \<and> exit_code (k_inv t) = RC_OK"
proof -
  have k: "keys ex_fwd (KReg 1 4) = \<lparr>keyType = KKT_Forwarder, keyFlags = 4, keyPerms = 0, keyData = 0, key_u = U_ok 0\<rparr>"
    "keys ex_fwd (KSlot 0 31) = \<lparr>keyType = KKT_Start, keyFlags = 4, keyPerms = 0, keyData = 0, key_u = U_gk 0\<rparr>"
    "keys ex_fwd (KReg 1 5) = void_key" "keys ex_fwd (KSlot 1 6) = void_key"
    by (simp_all add: ex_fwd_def ex_fwd0_def unhazarded_def ex_key_defs key_flag_bits KFL_HAZARD_BITS_def)
  have i: "exit_pKey (k_inv ex_fwd) 0 = Some (KReg 1 4)" "entry_key (k_inv ex_fwd) 0 = KReg 1 4"
    "entry_key (k_inv ex_fwd) 1 = KReg 1 5" "\<not> InvocationCommitted ex_fwd" "procRoot ex_fwd 0 = Some 1"
    by (simp_all add: ex_fwd_def ex_fwd0_def)
  let ?v = "keyBits_SetPrepared void_key"
  define s1 where "s1 = upd_key (KSlot 1 6) ?v (upd_key (KReg 1 5) ?v ex_fwd)"
  have c: "COMMIT_POINT s1 = Some (ex_commit s1)"
    by (rule ex_COMMIT) (simp_all add: s1_def ex_fwd_def ex_fwd0_def ex_inv_def)
  have p: "key_Prepare (KReg 1 4) ex_fwd = Some ex_fwd" "key_Prepare (KSlot 0 31) ex_fwd = Some ex_fwd"
    "key_Prepare (KReg 1 5) ex_fwd = Some (upd_key (KReg 1 5) ?v ex_fwd)"
    "key_Prepare (KSlot 1 6) (upd_key (KReg 1 5) ?v ex_fwd) = Some s1"
    using k i(4) by (simp_all add: key_Prepare_def key_DoPrepare_def key_flag_bits void_key_def s1_def)
  have k1: "keys s1 (KReg 1 4) = keys ex_fwd (KReg 1 4)" "keys s1 (KSlot 0 31) = keys ex_fwd (KSlot 0 31)"
    "keys s1 (KReg 1 5) = ?v" "keys s1 (KSlot 1 6) = ?v" "k_inv s1 = k_inv ex_fwd" by (simp_all add: s1_def)
  have "\<exists>v. brand_answer (KSlot 0 31) (KReg 1 5) 1 (ex_commit s1) = Some (True, v)
      \<and> InvocationCommitted v \<and> exit_pKey (k_inv v) 0 = Some (KReg 1 4) \<and> entry_key (k_inv v) 0 = KReg 1 4"
    using k k1 i
    by (simp add: brand_answer_def same_brand_def return_node_def key_SetToObj_def Let_def key_flag_bits link_insertAfter_def
        ProcBrand_def)
  then obtain v where v: "brand_answer (KSlot 0 31) (KReg 1 5) 1 (ex_commit s1) = Some (True, v)" "InvocationCommitted v"
    "exit_pKey (k_inv v) 0 = Some (KReg 1 4)" "entry_key (k_inv v) 0 = KReg 1 4" by blast
  have "CompareBrand (KSlot 0 31) (KReg 1 5) ex_fwd = Some (True, v)"
    using k p c v i(5) by (simp add: CompareBrand_def key_flag_bits key_kinds key_pContext_def ProcBrand_def)
  then have "pt_check_gate (KSlot 0 31) f ex_fwd = f False v" for f
    using p(2) k i(3) by (simp add: pt_check_gate_def key_kinds keyBits_IsType_def)
  then show ?thesis using p(1) k(1) i(2) v(2-4)
    by (simp add: pt_identForwarderTarget_def key_GetObjectPtr_def key_kinds keyBits_IsType_def ForwarderTargetSlot_def
        keyBits_IsPreparedObjectKey_def key_flag_bits key_pObj_def pt_return_forwarder_def Let_def inv_SetExitKey_def ReturnCode_Some
        bind_eq_Some_conv)
qed

theorem identForwarderTarget_same_register_witness:
  "\<exists>t root. pt_identForwarderTarget ex_fwd = Some (Returned t) \<and> keyType (keys t (KReg 1 4)) = KKT_Forwarder
     \<and> key_u (keys t (KReg 1 4)) = U_ok root"
proof -
  from ex_fwd_runs obtain t where t: "pt_identForwarderTarget ex_fwd = Some (Returned t)" "exit_code (k_inv t) = RC_OK" by blast
  have "exit_pKey (k_inv ex_fwd) 0 = Some (KReg 1 4)" "entry_key (k_inv ex_fwd) 0 = KReg 1 4" by (simp_all add: ex_fwd_def)
  from identForwarderTarget_same_register [OF ex_fwd_inv t this] t(1) show ?thesis by blast
qed

section \<open>Replacing the invoked key\<close>

text \<open>The returnee, when the key to be answered is a prepared resume key to a process that can receive.\<close>

lemma resume_returnee:
  assumes "inv_GetReturnee s = Some u" "\<not> invType_IsCall (invType (k_inv s))"
    and "keyBits_IsPreparedResumeKey (keys s (entry_key (k_inv s) RESUME_SLOT))"
    and "key_u (keys s (entry_key (k_inv s) RESUME_SLOT)) = U_gk q"
    and "trapFrame (procs (k_sched s) q) 14 AND 0xe0e0e0e0 = 0"
  shows "keys u = keys s" "k_sched u = k_sched s" "same_world s u" "same_request (k_inv s) (k_inv u)"
    "invokee (k_inv u) = Some q" "exit_pKey (k_inv u) 0 \<in> insert None (range (\<lambda>i. Some (KReg q i)))"
    "runState (procs (k_sched s) q) = RS_Waiting"
proof -
  let ?rk = "entry_key (k_inv s) RESUME_SLOT"
  have "keyBits_IsPrepared (keys s ?rk)" using assms(3) by (simp add: keyBits_IsPreparedResumeKey_def)
  then have k: "key_Prepare ?rk s = Some y \<Longrightarrow> y = s" for y by (simp add: key_Prepare_def)
  from assms(1-4) obtain u1 where u1: "inv_SetupExitBlock (set_invokee (Some q) s) = Some u1" "u = u1\<lparr>ReturneeSetUp := True\<rparr>"
    and w: "runState (procs (k_sched s) q) = RS_Waiting"
    by (auto simp: inv_GetReturnee_def Let_def bind_eq_Some_conv dest!: k)
  then show "runState (procs (k_sched s) q) = RS_Waiting" by simp
  from u1(1) assms(5) have "u1 = upd_inv (exit_rcvLen_update (\<lambda>_. 0)) (upd_inv clear_exit (set_invokee (Some q) s))
    \<or> (\<exists>r l. u1 = upd_inv (\<lambda>i. i\<lparr>exit_pKey := rcv_key q r, exit_rcvLen := l\<rparr>) (upd_inv clear_exit (set_invokee (Some q) s)))"
    by (auto simp: inv_SetupExitBlock_def proc_SetupExitBlock_def set_invokee_def Let_def split: if_splits)
  with u1(2) show "keys u = keys s" "k_sched u = k_sched s" "same_world s u" "same_request (k_inv s) (k_inv u)"
    "invokee (k_inv u) = Some q" "exit_pKey (k_inv u) 0 \<in> insert None (range (\<lambda>i. Some (KReg q i)))"
    by (auto simp: set_invokee_def clear_exit_def same_request_def rcv_key_def Let_def split: if_splits)
qed

text \<open>The exchange changes one register of the process, as the answer goes to another one.\<close>

lemma swap_with_register:
  assumes "swap_with (KReg p n) True v = Some w" "entry_key (k_inv v) 0 = KReg p m" "n \<noteq> m" "p \<noteq> q"
    and "exit_pKey (k_inv v) 0 \<in> insert None (range (\<lambda>i. Some (KReg q i)))"
  shows "keyType (keys w (KReg p n)) = keyType (keys v (KReg p m))" "l \<noteq> n \<Longrightarrow> keys w (KReg p l) = keys v (KReg p l)"
    "k_sched w = k_sched v" "same_world v w" "inv_key (k_inv w) = inv_key (k_inv v)" "invokee (k_inv w) = invokee (k_inv v)"
  using assms by (auto simp: swap_with_def Let_def inv_SetExitKey_def bind_eq_Some_conv unhazarded_def
      intro!: same_worldI)

text \<open>What is answered as through a start key leaves every key as it is, and the answered process runs.\<close>

lemma start_answer_runs:
  assumes "ReturnMessage w = Some t" "start_answer w" "invokee (k_inv w) = Some q"
  shows "keys t = keys w" "same_world w t" "runState (procs (k_sched t) q) = RS_Running"
proof -
  let ?r = "runState_update (\<lambda>_. RS_Running)"
  from assms obtain x where "(if proc_IsExpectingMsg (procs (k_sched (on_proc q ?r (w\<lparr>k_sched := x\<rparr>))) q)
      then do { s \<leftarrow> proc_DeliverResult q (on_proc q ?r (w\<lparr>k_sched := x\<rparr>)); Some (on_proc q proc_AdvancePostInvocationPC s) }
      else Some (on_proc q ?r (w\<lparr>k_sched := x\<rparr>))) = Some t"
    by (auto simp: ReturnMessage_def start_answer_def Let_def bind_eq_Some_conv on_sched_Some)
  then show "keys t = keys w" "same_world w t" "runState (procs (k_sched t) q) = RS_Running"
    by (auto simp: on_proc_def proc_DeliverResult_def proc_AdvancePostInvocationPC_def Let_def bind_eq_Some_conv
        intro!: same_worldI split: if_splits)
qed

lemma resume_key_resumable:
  assumes "kern_inv s" "keyBits_IsPreparedResumeKey (keys s r)" "key_u (keys s r) = U_gk q"
    and "same_world s t" "keys t r = keys s r"
  shows "resumable t q"
proof -
  have k: "keyType (keys s r) = KKT_Resume" "keyBits_IsPrepared (keys s r)"
    using assms(2) by (simp_all add: keyBits_IsPreparedResumeKey_def keyBits_IsType_def)
  with kern_inv_wf_key [OF assms(1), of r] assms(3) obtain x where x: "procRoot s q = Some x" "loaded_root s q x"
    by (auto simp: wf_key_def key_kinds loaded_root_def)
  then have "denotes s (keys s r) x"
    using k assms(3) by (simp add: denotes_def loaded_root_def key_GetObjectPtr_Some key_kinds keyBits_IsPreparedObjectKey_def)
  then show ?thesis unfolding resumable_def
    using x k assms(5) loaded_root_world [OF assms(4)] denotes_same_world [OF assms(4)] by metis
qed

text \<open>
  Process 1 has a process key to itself in register 3, a start key to process 0 in register 4, and in
  register 7 a resume key to process 0. It returns to its process key, with the request to put the
  start key into register 3, and names the resume key to be answered.
\<close>

definition ex_swap0 :: kern where
  "ex_swap0 = key_NH_Set (KReg 1 7) (KReg 0 10) (key_NH_Set (KReg 1 4) (KReg 0 9) ex_gate)"

definition ex_swap :: kern where
  "ex_swap = upd_inv (\<lambda>i. i\<lparr>inv_key := KReg 1 3, invType := IT_Return, entry_code := Process_OC OC_capros_Process_swapKeyReg,
       entry_w1 := 3, entry_key := (\<lambda>n. KReg 1 (4 + n))\<rparr>)
     (key_SetToProcess (KReg 1 3) 1 KKT_Process 0 (keyBits_Unchain (KReg 1 3) ex_swap0))"

lemma ex_swap_safe: "resume_safe 1 ex_swap"
proof -
  have safe: "resume_safe 1 ex_swap0" unfolding ex_swap0_def by (intro rs.P_Set ex_gate_safe)
  have "kern_inv (key_SetToProcess (KReg 1 3) 1 KKT_Process 0 (keyBits_Unchain (KReg 1 3) ex_swap0))"
    by (rule key_SetToProcess_inv [OF resume_safe_inv [OF safe], where q = 3])
      (simp_all add: ex_swap0_def is_obj_def ex_root_def)
  from rs.P_make [OF safe this key_SetToProcess_frame(1-3)] show ?thesis
    by (simp add: ex_swap_def key_SetToProcess_frame(4))
qed

lemma ex_swap_facts:
  "keys ex_swap (KReg 1 3) = \<lparr>keyType = KKT_Process, keyFlags = 4, keyPerms = 0, keyData = 0, key_u = U_gk 1\<rparr>"
  "keys ex_swap (KReg 1 4) = \<lparr>keyType = KKT_Start, keyFlags = 4, keyPerms = 0, keyData = 0, key_u = U_gk 0\<rparr>"
  "keys ex_swap (KReg 1 7) = \<lparr>keyType = KKT_Resume, keyFlags = 4, keyPerms = 0, keyData = 0, key_u = U_gk 0\<rparr>"
  "k_sched ex_swap = ex_sched" "\<not> InvocationCommitted ex_swap" "procRoot ex_swap 1 = Some 3" "procRoot ex_swap 0 = Some 1"
  "is_obj ex_swap 1" "obType (obj_at ex_swap 1) = ot_NtProcessRoot" "prep_context (obj_at ex_swap 1) = 0"
  by (simp_all add: ex_swap_def ex_swap0_def key_SetToProcess_def Let_def link_insertAfter_def keyBits_InitType_def
      unhazarded_def ex_key_defs KFL_HAZARD_BITS_def keyBits_SetPrepared_def KFL_PREPARED_def is_obj_def ex_root_def)

text \<open>The state when the process to be answered is known, after the commit point, and after the exchange.\<close>

definition ex_swap1 :: kern where
  "ex_swap1 = (upd_inv (\<lambda>i. i\<lparr>exit_pKey := rcv_key 0 0, exit_rcvLen := 0\<rparr>)
    (upd_inv clear_exit (set_invokee (Some 0) ex_swap)))\<lparr>ReturneeSetUp := True\<rparr>"

definition ex_swap_sched :: sched where
  "ex_swap_sched = (upd_proc 1 (runState_update (\<lambda>_. RS_Available)) ex_sched)\<lparr>allocatedActivity := Some 0\<rparr>"

definition ex_swap2 :: kern where
  "ex_swap2 = ex_swap1\<lparr>k_sched := ex_swap_sched, InvocationCommitted := True\<rparr>"

definition ex_swap3 :: kern where
  "ex_swap3 = set_exit_code RC_OK (key_NH_SetToVoid KTmp (key_NH_Set (KReg 1 3) (KReg 1 4)
    (key_NH_Set KTmp (KReg 1 3) (key_NH_SetToVoid KTmp ex_swap2))))"

lemma ex_swap1_facts:
  "inv_key (k_inv ex_swap1) = KReg 1 3" "invType (k_inv ex_swap1) = IT_Return" "invokee (k_inv ex_swap1) = Some 0"
  "entry_key (k_inv ex_swap1) = (\<lambda>n. KReg 1 (4 + n))" "exit_pKey (k_inv ex_swap1) 0 = None" "entry_w1 (k_inv ex_swap1) = 3"
  "entry_code (k_inv ex_swap1) = Process_OC OC_capros_Process_swapKeyReg" "keys ex_swap1 = keys ex_swap" "k_sched ex_swap1 = ex_sched"
  "procRoot ex_swap1 = procRoot ex_swap" "objs ex_swap1 = objs ex_swap" "nObjs ex_swap1 = nObjs ex_swap"
  "ReturneeSetUp ex_swap1" "\<not> InvocationCommitted ex_swap1"
  by (simp_all add: ex_swap1_def ex_swap_facts clear_exit_def set_invokee_def rcv_key_def) (simp_all add: ex_swap_def)

lemma ex_swap_GetReturnee: "inv_GetReturnee ex_swap = Some ex_swap1"
proof -
  have "key_Prepare (KReg 1 7) ex_swap = Some ex_swap"
    using ex_swap_facts by (simp add: key_Prepare_def key_flag_bits)
  moreover have "invType (k_inv ex_swap) = IT_Return" "entry_key (k_inv ex_swap) = (\<lambda>n. KReg 1 (4 + n))"
    by (simp_all add: ex_swap_def)
  moreover have "procs ex_sched 0 = ex_proc" by (simp add: ex_sched_def)
  ultimately show ?thesis
    using ex_swap_facts
    by (simp add: inv_GetReturnee_def invType_IsCall_def IT_defs RESUME_SLOT_def keyBits_IsPreparedResumeKey_def keyBits_IsType_def
        key_flag_bits key_pContext_def proc_IsRunnable_def ex_proc_def inv_SetupExitBlock_def proc_SetupExitBlock_def set_invokee_def
        proc_IsExpectingMsg_def capros_Process_PF_ExpectingMessage_def Let_def ex_swap1_def)
qed

lemma ex_swap_COMMIT: "COMMIT_POINT ex_swap1 = Some ex_swap2"
proof -
  have "sq_WakeAll (SQ_Proc 1) (upd_proc 1 (runState_update (\<lambda>_. RS_Available)) ex_sched)
      = Some (upd_proc 1 (runState_update (\<lambda>_. RS_Available)) ex_sched)"
    by (subst sq_WakeAll.simps) (simp add: act_DequeueNext_def ex_sched_def)
  moreover have "proc_curProcess ex_sched = Some 1" "procs ex_sched 1 = ex_proc\<lparr>runState := RS_Running, curActivity := Some 0,
      trapFrame := (\<lambda>_. 0)(14 := 8)\<rparr>" "acts ex_sched 0 = ex_act" "act_curActivity ex_sched = Some 0" "allocatedActivity ex_sched = None"
    by (simp_all add: ex_sched_def)
  ultimately have "commit_sched (k_inv ex_swap1) ex_sched = Some ex_swap_sched"
    using ex_swap1_facts by (simp add: commit_sched_def commit_inactivate_def ex_swap_sched_def ex_act_def)
  then show ?thesis using ex_swap1_facts by (simp add: COMMIT_POINT_Some ex_swap2_def)
qed

lemma ex_swap_operation: "pk_operation ex_swap = Some ex_swap3"
proof -
  have "proc_IsRunnable (procs ex_sched 1)" by (simp add: proc_IsRunnable_def ex_sched_def ex_proc_def)
  then have "pk_swapKeyReg 1 ex_swap1 = Some ex_swap3"
    using ex_swap_COMMIT ex_swap1_facts
    by (simp add: pk_swapKeyReg_def proc_Prepare_def EROS_NODE_SIZE_def swap_with_def Let_def inv_SetExitKey_def KR_VOID_def
        ex_swap3_def ex_swap2_def)
  then show ?thesis
    using ex_swap_GetReturnee ex_swap1_facts ex_swap_facts
    by (simp add: pk_operation_def Let_def pk_dispatch_def pk_request_def keyBits_IsPreparedObjectKey_def key_kinds key_flag_bits
        key_pContext_def)
qed

lemma ex_swap3_facts:
  "keyType (keys ex_swap3 (KReg 1 3)) = KKT_Start" "keys ex_swap3 (KReg 1 7) = keys ex_swap (KReg 1 7)" "k_sched ex_swap3 = ex_swap_sched"
  "invokee (k_inv ex_swap3) = Some 0" "InvocationCommitted ex_swap3" "inv_key (k_inv ex_swap3) = KReg 1 3"
  "procRoot ex_swap3 = procRoot ex_swap" "objs ex_swap3 = objs ex_swap" "nObjs ex_swap3 = nObjs ex_swap"
  using ex_swap1_facts ex_swap_facts by (simp_all add: ex_swap3_def ex_swap2_def unhazarded_def)

lemma ex_swap_Migrate:
  "\<exists>y. MigrateAllocatedActivity 0 ex_swap_sched = Some y \<and> proc_IsRunnable (procs y 0)"
  by (simp add: ex_swap_sched_def MigrateAllocatedActivity_def ex_sched_def ex_act_def proc_Deactivate_def ex_proc_def
      act_AssignToRunnable_def act_AssignTo_def act_SetProcess_def proc_SetActivity_def proc_IsRunnable_def)

lemma ex_swap_ReturnMessage: "\<exists>t. ReturnMessage ex_swap3 = Some t"
proof -
  from ex_swap_Migrate obtain y where y: "MigrateAllocatedActivity 0 ex_swap_sched = Some y" "proc_IsRunnable (procs y 0)" by blast
  moreover have "proc_IsRunnable (procs ex_swap_sched 0)" "proc_curProcess ex_swap_sched = Some 1"
    by (simp_all add: ex_swap_sched_def ex_sched_def proc_IsRunnable_def ex_proc_def)
  ultimately show ?thesis
    using ex_swap3_facts
    by (simp add: ReturnMessage_def on_sched_def Let_def proc_DeliverResult_def proc_IsRunnable_def on_proc_def)
qed

text \<open>
  C23. A resume key that is not used up: a process returns to a process key to itself, asks for a start
  key to be put into the very register that holds the invoked process key, and names a resume key
  to be answered. The kernel looks at the type of the invoked key only when it answers, and takes the answer for
  a message through a start key: whenever such an invocation completes, from any consistent
  state, the answered process runs while a resume key to it is still there, which the
  invariant of the system rules out. (The two keys are prepared, and the receive registers the
  answered process names are valid.)
\<close>

theorem swapKeyReg_keeps_resume_key:
  assumes "system_ok s" "proc_curProcess (k_sched s) = Some cur" "runState (procs (k_sched s) cur) = RS_Running"
    and "inv_key (k_inv s) = KReg cur n" "0 < n" "n < EROS_NODE_SIZE" "unat (entry_w1 (k_inv s)) = n"
    and "keyType (keys s (KReg cur n)) = KKT_Process" "keyBits_IsPrepared (keys s (KReg cur n))"
    and "key_u (keys s (KReg cur n)) = U_gk cur" "entry_code (k_inv s) = Process_OC OC_capros_Process_swapKeyReg"
    and "entry_key (k_inv s) 0 = KReg cur m" "keyType (keys s (KReg cur m)) = KKT_Start"
    and "\<not> invType_IsCall (invType (k_inv s))" "entry_key (k_inv s) RESUME_SLOT = KReg cur l"
    and "keyBits_IsPreparedResumeKey (keys s (KReg cur l))" "key_u (keys s (KReg cur l)) = U_gk q"
    and "trapFrame (procs (k_sched s) q) 14 AND 0xe0e0e0e0 = 0" "ProcessKey s = Some (Done t)"
  shows "runState (procs (k_sched t) q) = RS_Running \<and> resumable t q \<and> \<not> system_ok t"
proof -
  obtain w where w: "pk_operation s = Some w" "ReturnMessage w = Some t"
    using assms(4,9,19) by (auto simp: ProcessKey_def key_PrepareForInv_def bind_eq_Some_conv)
  from w(1) obtain u where u: "inv_GetReturnee s = Some u" by (auto simp: pk_operation_def bind_eq_Some_conv)
  note r = resume_returnee [OF u assms(14), unfolded assms(15), OF assms(16-18)]
  have ne: "cur \<noteq> q" "n \<noteq> m" "l \<noteq> n"
    using r(7) assms(3,8,13,16) by (auto simp: keyBits_IsPreparedResumeKey_def keyBits_IsType_def)
  have i: "inv_key (k_inv u) = KReg cur n" "entry_w1 (k_inv u) = entry_w1 (k_inv s)" "entry_key (k_inv u) = entry_key (k_inv s)"
    "entry_code (k_inv u) = Process_OC OC_capros_Process_swapKeyReg" using r(4) assms(4,11) by (simp_all add: same_request_def)
  from w(1) u i r(1) assms(10) have "pk_swapKeyReg cur u = Some w"
    by (auto simp: pk_operation_def pk_dispatch_def pk_request_def Let_def bind_eq_Some_conv)
  then obtain v where v: "COMMIT_POINT u = Some v" "swap_with (KReg cur n) True v = Some w"
    using assms(5-7) i(2) COMMIT_frame(3)
    by (auto simp: pk_swapKeyReg_def proc_Prepare_def Let_def bind_eq_Some_conv KR_VOID_def)
  note c = COMMIT_frame [OF v(1)]
  from v(1) obtain x where x: "commit_sched (k_inv u) (k_sched u) = Some x" "k_sched v = x" by (auto simp: COMMIT_POINT_Some)
  have cur: "proc_curProcess (k_sched v) = Some cur" using commit_sched_runs [OF x(1)] x(2) r(2) assms(2) by auto
  have sw: "keyType (keys w (KReg cur n)) = KKT_Start" "keys w (KReg cur l) = keys s (KReg cur l)" "k_sched w = k_sched v"
    "same_world v w" "inv_key (k_inv w) = KReg cur n" "invokee (k_inv w) = Some q"
    using swap_with_register [OF v(2) _ ne(2,1)] i assms(12,13) r(1,5,6) c ne(3) by simp_all
  have "start_answer w" using sw cur ne(1) by (simp add: start_answer_def)
  note t = start_answer_runs [OF w(2) this sw(6)]
  have world: "same_world s t" by (rule same_world_trans [OF same_world_trans [OF r(3) c(2)] same_world_trans [OF sw(4) t(2)]])
  have "resumable t q"
    using assms(1) sw(2) t(1) by (intro resume_key_resumable [OF _ assms(16,17) world]) (simp_all add: system_ok_def)
  with t(3) show ?thesis by (auto simp: system_ok_def resumes_ok_def)
qed

theorem swapKeyReg_keeps_resume_key_witness:
  "\<exists>t. system_ok ex_swap \<and> ProcessKey ex_swap = Some (Done t) \<and> runState (procs (k_sched t) 0) = RS_Running
     \<and> resumable t 0 \<and> \<not> system_ok t"
proof -
  from ex_swap_ReturnMessage obtain t where t: "ReturnMessage ex_swap3 = Some t" by blast
  have i: "inv_key (k_inv ex_swap) = KReg 1 3" "entry_w1 (k_inv ex_swap) = 3" "invType (k_inv ex_swap) = IT_Return"
    "entry_code (k_inv ex_swap) = Process_OC OC_capros_Process_swapKeyReg" "entry_key (k_inv ex_swap) = (\<lambda>n. KReg 1 (4 + n))"
    by (simp_all add: ex_swap_def)
  have "key_PrepareForInv (KReg 1 3) ex_swap = Some (False, ex_swap)"
    using ex_swap_facts by (simp add: key_PrepareForInv_def key_flag_bits)
  then have "ProcessKey ex_swap = Some (Done t)" using ex_swap_operation t i(1) by (simp add: ProcessKey_def)
  moreover have ok: "system_ok ex_swap" by (rule resume_safe_system [OF ex_swap_safe])
  moreover have "runState (procs (k_sched t) 0) = RS_Running \<and> resumable t 0 \<and> \<not> system_ok t"
    using calculation(1) i ex_swap_facts(1-4)
    by (intro swapKeyReg_keeps_resume_key [OF ok, of 1 3 4 7])
      (simp_all add: EROS_NODE_SIZE_def RESUME_SLOT_def invType_IsCall_def IT_defs key_flag_bits keyBits_IsPreparedResumeKey_def
        keyBits_IsType_def ex_sched_def ex_proc_def)
  ultimately show ?thesis by blast
qed

end
