(* ===== verification/Gpt_Walk.thy ===== *)
theory Gpt_Walk
  imports Handler_Props
begin

text \<open>
  The walk of a memory tree (sys/kernel/kern_GPT.c). A memory tree maps the addresses of a process
  to pages. Its root is the key in the address space slot of the process, its inner nodes are
  GPTs. A GPT maps the part of the address above its l2v bits to a slot; keys have guards, which
  are address prefixes, and restrictions, which add up on the path. A number key in a slot is a
  window onto another key of the tree.

  The walk is for building mapping tables. What depends on a key is recorded in the depend
  table, of which the model has the write hazard of the key.
\<close>

section \<open>The walk\<close>

definition capros_Process_FC_InvalidAddr :: u32 where "capros_Process_FC_InvalidAddr = 4"
definition capros_Process_FC_AccessViolation :: u32 where "capros_Process_FC_AccessViolation = 6"
definition capros_Process_FC_TraverseLimit :: u32 where "capros_Process_FC_TraverseLimit = 12"
definition capros_Process_FC_MalformedSpace :: u32 where "capros_Process_FC_MalformedSpace = 13"

text \<open>A pointer to a GPT in the walk may be null or the mark \<^verbatim>\<open>SEGWALK_GPT_UNKNOWN\<close>.\<close>

datatype seg_gpt = NoGPT | UnknownGPT | GPT obj_ptr

record SegWalk =
  memObj :: obj_ptr
  wi_offset :: u64
  needWrite :: bool
  restrictions :: u8
  backgroundGPT :: seg_gpt
  keeperGPT :: seg_gpt
  keeperOffset :: u64
  traverseCount :: u32
  wi_faultCode :: u32

definition node_PrepAsSegment :: "obj_ptr \<Rightarrow> kern \<Rightarrow> kern option" where
  "node_PrepAsSegment p s =
     (if obType (obj_at s p) = ot_NtSegment then Some s
      else do {
        assert_that (obType (obj_at s p) = ot_NtUnprepared);
        Some (upd_obj p (\<lambda>ob. ob\<lparr>obType := ot_NtSegment\<rparr>) s) })"

text \<open>The flag says whether there is a mapping table entry that is to depend on the key.\<close>

definition Depend_AddKey :: "bool \<Rightarrow> kref \<Rightarrow> kern \<Rightarrow> kern" where
  "Depend_AddKey mte r s =
     (if mte then upd_key r ((keys s r)\<lparr>keyFlags := keyFlags (keys s r) OR KFL_WHAZARD\<rparr>) s else s)"

definition wi_fault :: "u32 \<Rightarrow> SegWalk \<Rightarrow> kern \<Rightarrow> (bool \<times> SegWalk \<times> kern) option" where
  "wi_fault code wi s = Some (False, wi\<lparr>wi_faultCode := code\<rparr>, s)"

definition wi_restrict :: "u8 \<Rightarrow> SegWalk \<Rightarrow> SegWalk" where
  "wi_restrict w wi = wi\<lparr>restrictions := restrictions wi OR w\<rparr>"

definition wi_denied :: "SegWalk \<Rightarrow> bool" where
  "wi_denied wi = (restrictions wi AND ucast capros_Memory_readOnly \<noteq> 0 \<and> needWrite wi)"

text \<open>
  The check of the guard. The source shifts in two steps, because a shift by the width of the word
  is undefined; a larger one is still, and the model is stuck there.
\<close>

definition strip_guard :: "KeyBits \<Rightarrow> u64 \<Rightarrow> u64 option option" where
  "strip_guard k va =
     (let l2g = keyBits_GetL2g k
      in if l2g = 0 \<or> l2g > 64 then None
         else if drop_bit 1 (drop_bit (l2g - 1) va) \<noteq> ucast (keyBits_GetGuard k) then Some None
         else Some (Some (va AND (push_bit (l2g - 1) 2 - 1))))"

text \<open>The part of \<^verbatim>\<open>processKey\<close> after the switch on the type of the key.\<close>

definition process_memory :: "SegWalk \<Rightarrow> obj_ptr \<Rightarrow> KeyBits \<Rightarrow> u64 \<Rightarrow> kern \<Rightarrow> (bool \<times> SegWalk \<times> kern) option" where
  "process_memory wi p k va s =
     (case strip_guard k va of
        None \<Rightarrow> None
      | Some None \<Rightarrow> wi_fault capros_Process_FC_InvalidAddr wi s
      | Some (Some va) \<Rightarrow>
          (let wi = wi_restrict (ucast (keyPerms k)) (wi\<lparr>wi_offset := va, memObj := p\<rparr>)
           in if wi_denied wi then wi_fault capros_Process_FC_AccessViolation wi s
              else Some (True, wi, s)))"

definition processKey :: "SegWalk \<Rightarrow> kref \<Rightarrow> u64 \<Rightarrow> kern \<Rightarrow> (bool \<times> SegWalk \<times> kern) option" where
  "processKey wi pSegKey va s = do {
     s \<leftarrow> key_Prepare pSegKey s;
     let k = keys s pSegKey;
     case keyType k of
       KKT_GPT \<Rightarrow> do {
         p \<leftarrow> key_pObj k;
         s \<leftarrow> node_PrepAsSegment p s;
         process_memory wi p k va s }
     | KKT_Page \<Rightarrow> do {
         p \<leftarrow> key_pObj k;
         process_memory wi p k va s }
     | KKT_Void \<Rightarrow> wi_fault capros_Process_FC_InvalidAddr wi s
     | _ \<Rightarrow> wi_fault capros_Process_FC_MalformedSpace wi s }"

definition segwalk_init :: "bool \<Rightarrow> SegWalk \<Rightarrow> kref \<Rightarrow> u64 \<Rightarrow> kern \<Rightarrow> (bool \<times> SegWalk \<times> kern) option" where
  "segwalk_init mte wi pSegKey va s = do {
     (ok, wi, s) \<leftarrow> processKey (wi\<lparr>restrictions := 0, backgroundGPT := NoGPT, keeperGPT := NoGPT\<rparr>) pSegKey va s;
     Some (ok, wi, if ok then Depend_AddKey mte pSegKey s else s) }"

definition MAX_SEG_DEPTH :: u32 where "MAX_SEG_DEPTH = 20"

text \<open>What the walk notes of a GPT, and the last slot that is part of the map.\<close>

definition note_keeper :: "obj_ptr \<Rightarrow> u8 \<Rightarrow> SegWalk \<Rightarrow> SegWalk" where
  "note_keeper gpt l2vField wi =
     (if l2vField AND GPT_KEEPER \<noteq> 0 \<and> keeperGPT wi \<noteq> UnknownGPT
         \<and> restrictions wi AND ucast capros_Memory_noCall = 0
      then wi\<lparr>keeperGPT := GPT gpt, keeperOffset := wi_offset wi\<rparr> else wi)"

definition note_background :: "obj_ptr \<Rightarrow> u8 \<Rightarrow> SegWalk \<Rightarrow> SegWalk" where
  "note_background gpt l2vField wi =
     (if l2vField AND GPT_BACKGROUND \<noteq> 0 then wi\<lparr>backgroundGPT := GPT gpt\<rparr> else wi)"

definition gpt_maxSlot :: "u8 \<Rightarrow> nat" where
  "gpt_maxSlot l2vField =
     (if l2vField AND GPT_BACKGROUND \<noteq> 0 then capros_GPT_backgroundSlot - 1
      else if l2vField AND GPT_KEEPER \<noteq> 0 then capros_GPT_keeperSlot - 1
      else capros_GPT_nSlots - 1)"

text \<open>The key a slot stands for: the slot itself, or what a window in it shows.\<close>

datatype seg_key = SegKey kref SegWalk kern | SegFault u32 SegWalk kern

text \<open>A window: the address it is on, the restrictions it adds, and the slot it looks into.\<close>

definition window_addr :: "KeyBits \<Rightarrow> u64" where
  "window_addr v = push_bit 32 (ucast (nk_value v 1)) OR ucast (nk_value v 0)"

definition misaligned :: "nat \<Rightarrow> u64 \<Rightarrow> bool" where
  "misaligned l2v addr = (addr AND (push_bit l2v 1 - 1) \<noteq> 0)"

definition seg_window_restrictions :: "KeyBits \<Rightarrow> u8" where
  "seg_window_restrictions v = ucast (drop_bit 8 (nk_value v 2) AND 0xff)"

definition window_slot :: "KeyBits \<Rightarrow> nat" where
  "window_slot v = unat (nk_value v 2 AND 0xff)"

definition window_key :: "bool \<Rightarrow> obj_ptr \<Rightarrow> nat \<Rightarrow> kref \<Rightarrow> SegWalk \<Rightarrow> kern \<Rightarrow> seg_key option" where
  "window_key mte gpt curL2v k wi s =
     (let v = keys s k
      in if misaligned curL2v (window_addr v) then Some (SegFault capros_Process_FC_MalformedSpace wi s)
         else
      let wi = wi_restrict (seg_window_restrictions v) (wi\<lparr>wi_offset := wi_offset wi + window_addr v\<rparr>)
      in if wi_denied wi then Some (SegFault capros_Process_FC_AccessViolation wi s)
         else
      let s = Depend_AddKey mte k s;
          wslot = window_slot v
      in if wslot < capros_GPT_nSlots then Some (SegKey (KSlot gpt wslot) wi s)
         else if wslot = 0xff then
           (case backgroundGPT wi of
              NoGPT \<Rightarrow> Some (SegFault capros_Process_FC_MalformedSpace wi s)
            | UnknownGPT \<Rightarrow> None
            | GPT b \<Rightarrow> do {
                assert_that (node_GetL2vField (obj_at s b) AND GPT_BACKGROUND \<noteq> 0);
                Some (SegKey (KSlot b capros_GPT_backgroundSlot) wi s) })
         else Some (SegFault capros_Process_FC_MalformedSpace wi s))"

text \<open>What the parts of the walk leave alone, for the bound on its length.\<close>

lemma wi_simps [simp]:
  "traverseCount (wi_restrict w wi) = traverseCount wi" "needWrite (wi_restrict w wi) = needWrite wi"
  "backgroundGPT (wi_restrict w wi) = backgroundGPT wi" "keeperGPT (wi_restrict w wi) = keeperGPT wi"
  "memObj (wi_restrict w wi) = memObj wi" "wi_offset (wi_restrict w wi) = wi_offset wi"
  "restrictions (wi_restrict w wi) = restrictions wi OR w"
  "traverseCount (note_keeper p f wi) = traverseCount wi" "needWrite (note_keeper p f wi) = needWrite wi"
  "backgroundGPT (note_keeper p f wi) = backgroundGPT wi" "memObj (note_keeper p f wi) = memObj wi"
  "wi_offset (note_keeper p f wi) = wi_offset wi" "restrictions (note_keeper p f wi) = restrictions wi"
  "traverseCount (note_background p f wi) = traverseCount wi" "needWrite (note_background p f wi) = needWrite wi"
  "memObj (note_background p f wi) = memObj wi" "wi_offset (note_background p f wi) = wi_offset wi"
  "restrictions (note_background p f wi) = restrictions wi"
  by (simp_all add: wi_restrict_def note_keeper_def note_background_def)

lemma process_memory_count:
  assumes "process_memory wi p k va s = Some (ok, wi', s')"
  shows "traverseCount wi' = traverseCount wi" "s' = s"
  using assms by (simp_all add: process_memory_def wi_fault_def Let_def split: option.split_asm if_split_asm) auto

lemma processKey_cases:
  assumes "processKey wi r va s = Some (ok, wi', s')"
  obtains (gpt) t p u where "key_Prepare r s = Some t" "keyType (keys t r) = KKT_GPT" "key_pObj (keys t r) = Some p"
      "node_PrepAsSegment p t = Some u" "process_memory wi p (keys t r) va u = Some (ok, wi', s')"
    | (page) t p where "key_Prepare r s = Some t" "keyType (keys t r) = KKT_Page" "key_pObj (keys t r) = Some p"
      "process_memory wi p (keys t r) va t = Some (ok, wi', s')"
    | (other) "key_Prepare r s = Some s'" "keyType (keys s' r) \<noteq> KKT_GPT" "keyType (keys s' r) \<noteq> KKT_Page" "\<not> ok"
      "wi' = wi\<lparr>wi_faultCode := (if keyType (keys s' r) = KKT_Void then capros_Process_FC_InvalidAddr
         else capros_Process_FC_MalformedSpace)\<rparr>"
proof -
  from assms obtain t where t: "key_Prepare r s = Some t"
    and c: "(case keyType (keys t r) of
       KKT_GPT \<Rightarrow> do {
         p \<leftarrow> key_pObj (keys t r);
         u \<leftarrow> node_PrepAsSegment p t;
         process_memory wi p (keys t r) va u }
     | KKT_Page \<Rightarrow> do {
         p \<leftarrow> key_pObj (keys t r);
         process_memory wi p (keys t r) va t }
     | KKT_Void \<Rightarrow> wi_fault capros_Process_FC_InvalidAddr wi t
     | _ \<Rightarrow> wi_fault capros_Process_FC_MalformedSpace wi t) = Some (ok, wi', s')"
    unfolding processKey_def Let_def bind_eq_Some_conv by blast
  show thesis
  proof (cases "keyType (keys t r) = KKT_GPT \<or> keyType (keys t r) = KKT_Page")
    case True
    then show thesis
    proof
      assume "keyType (keys t r) = KKT_GPT"
      with t c gpt show thesis by (auto simp: bind_eq_Some_conv)
    next
      assume "keyType (keys t r) = KKT_Page"
      with t c page show thesis by (auto simp: bind_eq_Some_conv)
    qed
  next
    case False
    then have "s' = t \<and> \<not> ok \<and> wi' = wi\<lparr>wi_faultCode := (if keyType (keys t r) = KKT_Void then capros_Process_FC_InvalidAddr
         else capros_Process_FC_MalformedSpace)\<rparr>"
      using c by (cases "keyType (keys t r)") (simp_all add: wi_fault_def)
    with False t other show thesis by auto
  qed
qed

lemma processKey_count:
  assumes "processKey wi k va s = Some (ok, wi', s')"
  shows "traverseCount wi' = traverseCount wi"
  using assms by (cases rule: processKey_cases) (simp_all add: process_memory_count)

lemma window_key_count:
  assumes "window_key mte gpt l2v k wi s = Some (SegKey k' wi' s')"
  shows "traverseCount wi' = traverseCount wi"
  using assms by (auto simp: window_key_def Let_def bind_eq_Some_conv split: if_split_asm seg_gpt.split_asm)

definition steps_left :: "u32 \<Rightarrow> nat" where
  "steps_left c = (if c \<ge> MAX_SEG_DEPTH then 21 else 20 - unat c)"

lemma steps_left_less: "\<not> c + 1 \<ge> MAX_SEG_DEPTH \<Longrightarrow> steps_left (c + 1) < steps_left c"
proof -
  assume a: "\<not> c + 1 \<ge> MAX_SEG_DEPTH"
  show ?thesis
  proof (cases "c + 1 = 0")
    case True
    then have "c = - 1" by (simp add: eq_neg_iff_add_eq_0)
    then show ?thesis by (simp add: steps_left_def MAX_SEG_DEPTH_def)
  next
    case False
    then have "unat (c + 1) = unat c + 1" using unatSuc [of c] by (simp add: add.commute)
    then show ?thesis using a by (auto simp: steps_left_def MAX_SEG_DEPTH_def word_le_nat_alt)
  qed
qed

function WalkSeg :: "bool \<Rightarrow> nat \<Rightarrow> SegWalk \<Rightarrow> kern \<Rightarrow> (bool \<times> SegWalk \<times> kern) option" where
  "WalkSeg mte stopL2v wi s =
     (if \<not> objH_isNodeType (obj_at s (memObj wi)) then
        (if unat (wi_offset wi) \<ge> EROS_PAGE_SIZE then wi_fault capros_Process_FC_InvalidAddr wi s
         else Some (True, wi, s))
      else
      let gpt = memObj wi;
          l2vField = node_GetL2vField (obj_at s gpt);
          curL2v = unat (l2vField AND GPT_L2V_MASK)
      in if obType (obj_at s gpt) \<noteq> ot_NtSegment \<or> curL2v < EROS_PAGE_LGSIZE then None
         else if curL2v < stopL2v then Some (True, wi, s)
         else
      let wi = wi\<lparr>traverseCount := traverseCount wi + 1\<rparr>
      in if traverseCount wi \<ge> MAX_SEG_DEPTH then wi_fault capros_Process_FC_TraverseLimit wi s
         else
      let wi = note_background gpt l2vField (note_keeper gpt l2vField wi);
          ndx = unat (drop_bit curL2v (wi_offset wi))
      in if ndx > gpt_maxSlot l2vField then wi_fault capros_Process_FC_InvalidAddr wi s
         else
      let wi = wi\<lparr>wi_offset := wi_offset wi AND (push_bit curL2v 1 - 1)\<rparr>;
          k = KSlot gpt ndx
      in case (if keyType (keys s k) = KKT_Number then window_key mte gpt curL2v k wi s
               else Some (SegKey k wi s)) of
           None \<Rightarrow> None
         | Some (SegFault code wi s) \<Rightarrow> wi_fault code wi s
         | Some (SegKey k wi s) \<Rightarrow>
             (case processKey wi k (wi_offset wi) s of
                None \<Rightarrow> None
              | Some (False, wi, s) \<Rightarrow> Some (False, wi, s)
              | Some (True, wi, s) \<Rightarrow> WalkSeg mte stopL2v wi (Depend_AddKey mte k s)))"
  by pat_completeness auto

termination
proof (relation "measure (\<lambda>(mte, stopL2v, wi, s). steps_left (traverseCount wi))", goal_cases)
  case (2 mte stopL2v wi s gpt l2vField curL2v wi1 wi2 ndx wi3 k sk r k' wi4 s4 x y wi5 s5)
  then show ?case
    by (auto dest!: processKey_count window_key_count simp: steps_left_less split: if_split_asm)
qed simp

declare WalkSeg.simps [simp del]

end
