(* ===== verification/Gpt_Walk_Props.thy ===== *)
theory Gpt_Walk_Props
  imports Gpt_Walk
begin

text \<open>
  The walk of the memory tree computes the translation of addresses that the tree defines. The
  reference translation is on capabilities and natural numbers: it knows nothing of prepared keys,
  hazards and machine words.
\<close>

section \<open>Address arithmetic\<close>

lemma unat_drop_bit: "unat (drop_bit n (v :: 'a::len word)) = unat v div 2 ^ n"
  using unat_drop_bit_eq [of n v] by (simp add: drop_bit_eq_div [of n "unat v"])

lemma unat_take_bit: "unat (take_bit n (v :: 'a::len word)) = unat v mod 2 ^ n"
  using take_bit_eq_mod [of n "unat v"] unsigned_take_bit_eq [of n v, where ?'a = nat] by simp

lemma unat_ucast_u8: "unat (ucast (d :: u16) :: u8) = unat d mod 256"
  by (simp only: unsigned_ucast_eq take_bit_eq_mod) simp

lemma unat_ucast_up: "unat (ucast (d :: u8) :: u32) = unat d"
proof -
  have "unat d < 2 ^ 8" using unsigned_less [of d] by simp
  then show ?thesis by (simp add: unsigned_ucast_eq take_bit_nat_eq_self)
qed

lemma low_mask: "(x :: u64) AND (push_bit n 1 - 1) = take_bit n x"
  by (simp add: take_bit_eq_mask mask_eq_exp_minus_1 push_bit_eq_mult)

lemma GetL2g_nat: "keyBits_GetL2g k = unat (keyData k) mod 256"
  by (simp add: keyBits_GetL2g_def unat_ucast_u8)

lemma GetGuard_nat: "unat (keyBits_GetGuard k) = unat (keyData k) div 256"
proof -
  have "unat (keyData k) < 2 ^ 16" using unsigned_less [of "keyData k"] by simp
  then have "unat (keyData k) div 256 < 256" by (simp add: less_mult_imp_div_less)
  then show ?thesis unfolding keyBits_GetGuard_def
    by (simp only: unat_ucast_up unat_ucast_u8 unat_drop_bit) simp
qed

definition abs_strip :: "nat \<Rightarrow> nat \<Rightarrow> nat option" where
  "abs_strip dat va = (if va div 2 ^ (dat mod 256) = dat div 256 then Some (va mod 2 ^ (dat mod 256)) else None)"

lemma strip_guard_nat:
  assumes "strip_guard k va = Some g"
  shows "abs_strip (unat (keyData k)) (unat va) = map_option unat g"
proof -
  let ?n = "keyBits_GetL2g k"
  from assms have n: "0 < ?n" by (auto simp: strip_guard_def Let_def split: if_splits)
  have d: "drop_bit 1 (drop_bit (?n - 1) va) = drop_bit ?n va" using n by (simp add: drop_bit_drop_bit)
  have "push_bit (?n - 1) 2 = (2 ^ ?n :: u64)" using n by (cases ?n) (simp_all add: push_bit_eq_mult)
  then have m: "va AND (push_bit (?n - 1) 2 - 1) = take_bit ?n va"
    by (simp add: take_bit_eq_mask mask_eq_exp_minus_1)
  have eq: "drop_bit ?n va = ucast (keyBits_GetGuard k) \<longleftrightarrow> unat va div 2 ^ ?n = unat (keyBits_GetGuard k)"
  proof -
    have "unat (keyBits_GetGuard k) < 2 ^ 64" using unsigned_less [of "keyBits_GetGuard k", where ?'a = nat] by simp
    then have "unat (ucast (keyBits_GetGuard k) :: u64) = unat (keyBits_GetGuard k)"
      by (simp add: unsigned_ucast_eq take_bit_nat_eq_self)
    then show ?thesis by (metis unat_drop_bit unsigned_word_eqI)
  qed
  from assms n show ?thesis
    by (auto simp: strip_guard_def Let_def d [unfolded One_nat_def] m [unfolded One_nat_def] d m eq abs_strip_def GetGuard_nat unat_take_bit simp flip: GetL2g_nat split: if_splits)
qed

section \<open>The reference translation\<close>

text \<open>What the translation depends on.\<close>

record mem_view =
  mv_cap :: "kref \<Rightarrow> cap"
  mv_lookup :: "OID \<Rightarrow> obj_ptr option"
  mv_field :: "obj_ptr \<Rightarrow> u8"
  mv_gpt :: "obj_ptr \<Rightarrow> bool"

definition view :: "kern \<Rightarrow> mem_view" where
  "view s = \<lparr>mv_cap = cap_at s, mv_lookup = objH_Lookup s, mv_field = (\<lambda>p. node_GetL2vField (obj_at s p)),
     mv_gpt = (\<lambda>p. objH_isNodeType (obj_at s p))\<rparr>"

text \<open>Going through a key: the object it leads to and the rest of the address.\<close>

definition abs_enter :: "mem_view \<Rightarrow> bool \<Rightarrow> cap \<Rightarrow> nat \<Rightarrow> u32 + obj_ptr \<times> nat" where
  "abs_enter m w c va =
     (case c of
        NoCap \<Rightarrow> Inl capros_Process_FC_InvalidAddr
      | DataCap _ _ _ _ \<Rightarrow> Inl capros_Process_FC_MalformedSpace
      | ObjCap t pm d oid _ \<Rightarrow>
          if t \<noteq> KKT_GPT \<and> t \<noteq> KKT_Page then Inl capros_Process_FC_MalformedSpace
          else (case abs_strip (unat d) va of
              None \<Rightarrow> Inl capros_Process_FC_InvalidAddr
            | Some ofs \<Rightarrow>
                if w \<and> bit pm 3 then Inl capros_Process_FC_AccessViolation
                else Inr (the (mv_lookup m oid), ofs)))"

text \<open>What a slot stands for.\<close>

definition abs_slot :: "mem_view \<Rightarrow> obj_ptr option \<Rightarrow> bool \<Rightarrow> obj_ptr \<Rightarrow> nat \<Rightarrow> nat \<Rightarrow> nat \<Rightarrow> u32 + cap \<times> nat" where
  "abs_slot m bg w g l2v ndx ofs =
     (case mv_cap m (KSlot g ndx) of
        DataCap t pm d u \<Rightarrow>
          if t \<noteq> KKT_Number then Inr (DataCap t pm d u, ofs)
          else let addr = unat (u_words u ! 1) * 2 ^ 32 + unat (u_words u ! 0); c = u_words u ! 2 in
            if addr mod 2 ^ l2v \<noteq> 0 then Inl capros_Process_FC_MalformedSpace
            else if w \<and> bit c 11 then Inl capros_Process_FC_AccessViolation
            else if unat c mod 256 < capros_GPT_nSlots then Inr (mv_cap m (KSlot g (unat c mod 256)), ofs + addr)
            else if unat c mod 256 = 255 then
              (case bg of
                 None \<Rightarrow> Inl capros_Process_FC_MalformedSpace
               | Some b \<Rightarrow> Inr (mv_cap m (KSlot b capros_GPT_backgroundSlot), ofs + addr))
            else Inl capros_Process_FC_MalformedSpace
      | c \<Rightarrow> Inr (c, ofs))"

fun abs_walk :: "nat \<Rightarrow> mem_view \<Rightarrow> obj_ptr option \<Rightarrow> bool \<Rightarrow> obj_ptr \<times> nat \<Rightarrow> u32 + obj_ptr \<times> nat" where
  "abs_walk n m bg w (p, ofs) =
     (if \<not> mv_gpt m p then
        (if ofs < EROS_PAGE_SIZE then Inr (p, ofs) else Inl capros_Process_FC_InvalidAddr)
      else case n of
          0 \<Rightarrow> Inl capros_Process_FC_TraverseLimit
        | Suc n \<Rightarrow>
            (let f = mv_field m p;
                 l2v = unat (f AND GPT_L2V_MASK);
                 bg = (if f AND GPT_BACKGROUND \<noteq> 0 then Some p else bg);
                 ndx = ofs div 2 ^ l2v
             in if ndx > gpt_maxSlot f then Inl capros_Process_FC_InvalidAddr
                else case abs_slot m bg w p l2v ndx (ofs mod 2 ^ l2v) of
                    Inl e \<Rightarrow> Inl e
                  | Inr (c, va) \<Rightarrow>
                      (case abs_enter m w c va of
                         Inl e \<Rightarrow> Inl e
                       | Inr po \<Rightarrow> abs_walk n m bg w po)))"

text \<open>The translation of an address in the space that a key defines, with at most 19 GPTs.\<close>

definition address_map :: "mem_view \<Rightarrow> bool \<Rightarrow> cap \<Rightarrow> nat \<Rightarrow> u32 + obj_ptr \<times> nat" where
  "address_map m w root va =
     (case abs_enter m w root va of Inl e \<Rightarrow> Inl e | Inr po \<Rightarrow> abs_walk 19 m None w po)"

section \<open>What the walk keeps\<close>

lemma key_Prepare_view:
  assumes "kern_inv s" "key_Prepare r s = Some t"
  shows "view t = view s" "kern_inv t" "objs t = objs s"
proof -
  note o = only_keyD [OF key_Prepare_result(1) [OF kern_inv_wf_objs [OF assms(1)] assms(2)]]
  show "objs t = objs s" by (rule o(1))
  have "obj_at t = obj_at s" using o(1) by (simp add: obj_at_def fun_eq_iff)
  moreover have "objH_Lookup t = objH_Lookup s"
    using same_world_lookup [OF key_Prepare_world(1) [OF assms]] by (simp add: fun_eq_iff)
  ultimately show "view t = view s" using key_Prepare_cap [OF assms] by (simp add: view_def)
  show "kern_inv t" using assms by (rule key_Prepare_inv)
qed

text \<open>A node that is not in use becomes a segment.\<close>

lemma retype_segment:
  assumes "kern_inv s" "obType (obj_at s p) = ot_NtUnprepared"
  shows "kern_inv (upd_obj p (\<lambda>ob. ob\<lparr>obType := ot_NtSegment\<rparr>) s)"
    "view (upd_obj p (\<lambda>ob. ob\<lparr>obType := ot_NtSegment\<rparr>) s) = view s"
proof -
  let ?s = "upd_obj p (\<lambda>ob. ob\<lparr>obType := ot_NtSegment\<rparr>) s"
  have f: "is_obj ?s q = is_obj s q" "objH_GetBaseType (obj_at ?s q) = objH_GetBaseType (obj_at s q)"
    "obOid (obj_at ?s q) = obOid (obj_at s q)" "count_for k (obj_at ?s q) = count_for k (obj_at s q)"
    "objH_GetFlags (obj_at ?s q) w = objH_GetFlags (obj_at s q) w"
    "(obType (obj_at ?s q) = ot_NtProcessRoot) = (obType (obj_at s q) = ot_NtProcessRoot)"
    "prep_context (obj_at ?s q) = prep_context (obj_at s q)"
    "ot_is_object (obType (obj_at ?s q)) = ot_is_object (obType (obj_at s q))"
    "node_GetL2vField (obj_at ?s q) = node_GetL2vField (obj_at s q)" "objH_isNodeType (obj_at ?s q) = objH_isNodeType (obj_at s q)"
    for q k w
    using assms(2)
    by (auto simp: is_obj_def objH_GetBaseType_def obj_at_upd_obj count_for_def objH_GetFlags_def node_GetL2vField_def
        objH_isNodeType_def)
  have "wf_objs ?s = wf_objs s" "wf_procs ?s = wf_procs s" "wf_key ?s k = wf_key s k" "cnt_ok ?s k = cnt_ok s k" for k
    by (simp_all add: wf_objs_def wf_procs_def wf_key_def cnt_ok_def f)
  with assms(1) show "kern_inv ?s" by (simp add: kern_inv_def)
  have b: "obBucket ?s = obBucket s" by simp
  have l: "objH_Lookup ?s = objH_Lookup s" unfolding objH_Lookup_def fun_eq_iff by (simp only: f b simp_thms)
  have g: "key_GetObjectPtr ?s k = key_GetObjectPtr s k" for k by (simp add: key_GetObjectPtr_def)
  have "key_cap ?s k = key_cap s k" for k
    by (simp add: key_cap_def l f g split: option.split key_u.split)
  then have "cap_at ?s = cap_at s" by (simp add: cap_at_def fun_eq_iff)
  with l show "view ?s = view s" by (simp add: view_def f)
qed

lemma PrepAsSegment_view:
  assumes "kern_inv s" "node_PrepAsSegment p s = Some t"
  shows "view t = view s" "kern_inv t" "obType (obj_at t p) = ot_NtSegment" "keys t = keys s"
    "obType (obj_at s q) \<in> {ot_NtSegment, ot_NtProcessRoot} \<Longrightarrow> obType (obj_at t q) = obType (obj_at s q)"
  using assms retype_segment [OF assms(1), of p]
  by (auto simp: node_PrepAsSegment_def obj_at_upd_obj split: if_splits)

lemma hazard_key:
  "unhazarded (k\<lparr>keyFlags := keyFlags k OR KFL_WHAZARD\<rparr>) = unhazarded k"
  "keyBits_IsRdHazard (k\<lparr>keyFlags := keyFlags k OR KFL_WHAZARD\<rparr>) = keyBits_IsRdHazard k"
proof -
  have "(f OR KFL_WHAZARD) AND NOT KFL_HAZARD_BITS = f AND NOT KFL_HAZARD_BITS" for f :: "3 word"
    by (rule bit_word_eqI) (auto simp: bit_simps KFL_WHAZARD_def KFL_HAZARD_BITS_def bit_numeral_rec)
  then show "unhazarded (k\<lparr>keyFlags := keyFlags k OR KFL_WHAZARD\<rparr>) = unhazarded k" by (simp add: unhazarded_def)
  show "keyBits_IsRdHazard (k\<lparr>keyFlags := keyFlags k OR KFL_WHAZARD\<rparr>) = keyBits_IsRdHazard k"
    by (simp add: key_flag_bits KFL_WHAZARD_def bit_simps)
qed

lemma Depend_AddKey_view:
  assumes "kern_inv s"
  shows "view (Depend_AddKey mte r s) = view s" "kern_inv (Depend_AddKey mte r s)" "objs (Depend_AddKey mte r s) = objs s"
proof -
  let ?k = "(keys s r)\<lparr>keyFlags := keyFlags (keys s r) OR KFL_WHAZARD\<rparr>"
  note h = hazard_key [of "keys s r"]
  have "key_cap s ?k = key_cap s (keys s r)"
    using key_cap_unhazarded [of s ?k] key_cap_unhazarded [of s "keys s r"] by (simp only: h)
  then have "cap_at (upd_key r ?k s) = cap_at s" by (auto simp: fun_eq_iff cap_at_def)
  moreover have "objH_Lookup (upd_key r ?k s) = objH_Lookup s" by (simp add: objH_Lookup_def fun_eq_iff)
  ultimately have "view (upd_key r ?k s) = view s" by (simp add: view_def)
  then show "view (Depend_AddKey mte r s) = view s" by (simp add: Depend_AddKey_def)
  have "wf_key s ?k" "cnt_ok s ?k" "key_ring ?k = key_ring (keys s r)"
    using wf_key_unhazarded [of s ?k] wf_key_unhazarded [of s "keys s r"] kern_inv_wf_key [OF assms, of r]
      cnt_ok_unhazarded [of s ?k] cnt_ok_unhazarded [of s "keys s r"] kern_inv_cnt_ok [OF assms, of r]
      key_ring_unhazarded [of ?k] key_ring_unhazarded [of "keys s r"] by (simp_all only: h)
  then have "kern_inv (upd_key r ?k s)" by (intro kern_inv_upd_key [OF assms]) (simp_all add: is_resume_def)
  with assms show "kern_inv (Depend_AddKey mte r s)" by (simp add: Depend_AddKey_def)
  show "objs (Depend_AddKey mte r s) = objs s" by (simp add: Depend_AddKey_def)
qed

section \<open>One step\<close>

lemma read_only_bit: "(w AND ucast capros_Memory_readOnly \<noteq> 0) = bit (w :: u8) 3"
  using and_exp_eq_0_iff_not_bit [of w 3] by (simp add: capros_Memory_readOnly_def)

lemma wi_denied_bit: "wi_denied wi = (bit (restrictions wi) 3 \<and> needWrite wi)"
  by (simp add: wi_denied_def read_only_bit)

lemma perm_bit: "bit (ucast (pm :: 5 word) :: u8) 3 = bit pm 3"
  by (simp add: bit_simps)

text \<open>While a walk for writing goes on, it has met no restriction to reading.\<close>

definition wi_ok :: "SegWalk \<Rightarrow> bool" where
  "wi_ok wi = (needWrite wi \<longrightarrow> \<not> bit (restrictions wi) 3)"

definition walk_result :: "bool \<Rightarrow> SegWalk \<Rightarrow> u32 + obj_ptr \<times> nat" where
  "walk_result ok wi = (if ok then Inr (memObj wi, unat (wi_offset wi)) else Inl (wi_faultCode wi))"

lemma process_memory_enter:
  assumes "process_memory wi p k va s = Some (ok, wi', s')" "wi_ok wi" "keyType k \<in> {KKT_GPT, KKT_Page}"
    and "mv_lookup m oid = Some p"
  shows "abs_enter m (needWrite wi) (ObjCap (keyType k) (keyPerms k) (keyData k) oid c) (unat va) = walk_result ok wi'"
    "ok \<Longrightarrow> memObj wi' = p \<and> wi_ok wi'" "needWrite wi' = needWrite wi" "backgroundGPT wi' = backgroundGPT wi"
proof -
  from assms(1) obtain g where g: "strip_guard k va = Some g" by (auto simp: process_memory_def split: option.splits)
  note st = strip_guard_nat [OF g]
  have t: "\<not> (keyType k \<noteq> KKT_GPT \<and> keyType k \<noteq> KKT_Page)" using assms(3) by auto
  show "abs_enter m (needWrite wi) (ObjCap (keyType k) (keyPerms k) (keyData k) oid c) (unat va) = walk_result ok wi'"
    "ok \<Longrightarrow> memObj wi' = p \<and> wi_ok wi'" "needWrite wi' = needWrite wi" "backgroundGPT wi' = backgroundGPT wi"
    using assms(1,2,4) g st t
    by (auto simp: process_memory_def wi_fault_def Let_def abs_enter_def walk_result_def wi_denied_bit wi_ok_def
        bit_or_iff perm_bit split: option.splits if_split_asm)
qed

lemma prepared_memory_cap:
  assumes "kern_inv t" "keyBits_IsPrepared (keys t r)" "keyType (keys t r) \<in> {KKT_GPT, KKT_Page}" "key_pObj (keys t r) = Some p"
  shows "\<exists>c. cap_at t r = ObjCap (keyType (keys t r)) (keyPerms (keys t r)) (keyData (keys t r)) (obOid (obj_at t p)) c"
    "objH_Lookup t (obOid (obj_at t p)) = Some p"
proof -
  let ?k = "keys t r"
  have ob: "keyBits_IsObjectKey ?k" "\<not> keyBits_IsProcessType ?k" using assms(3) by (auto simp: key_kinds)
  have u: "key_u ?k = U_ok p" using assms(4) by (auto simp: key_pObj_def split: key_u.splits)
  have "is_obj t p" using kern_inv_wf_key [OF assms(1), of r] assms(2) ob u by (auto simp: wf_key_def)
  then show "objH_Lookup t (obOid (obj_at t p)) = Some p" by (rule objH_Lookup_is_obj [OF kern_inv_wf_objs [OF assms(1)]])
  have "key_GetObjectPtr t ?k = Some p"
    using ob assms(2) u by (simp add: key_GetObjectPtr_Some keyBits_IsPreparedObjectKey_def)
  with ob assms(2) show "\<exists>c. cap_at t r = ObjCap (keyType ?k) (keyPerms ?k) (keyData ?k) (obOid (obj_at t p)) c"
    by (simp add: cap_at_def key_cap_def)
qed

text \<open>
  The state a walk leads to: what the translation depends on is the same, the kernel invariant
  holds, and nodes that are used as segments or as process roots still are.
\<close>

definition walked :: "kern \<Rightarrow> kern \<Rightarrow> bool" where
  "walked s t = (view t = view s \<and> kern_inv t
     \<and> (\<forall>q. obType (obj_at s q) \<in> {ot_NtSegment, ot_NtProcessRoot} \<longrightarrow> obType (obj_at t q) = obType (obj_at s q)))"

lemma walked_refl: "kern_inv s \<Longrightarrow> walked s s"
  and walked_trans: "walked s t \<Longrightarrow> walked t u \<Longrightarrow> walked s u"
  by (auto simp: walked_def)

lemma walked_objs: "view t = view s \<Longrightarrow> kern_inv t \<Longrightarrow> objs t = objs s \<Longrightarrow> walked s t"
  by (simp add: walked_def obj_at_def)

lemma Depend_walked: "kern_inv s \<Longrightarrow> walked s (Depend_AddKey mte r s)"
  by (intro walked_objs Depend_AddKey_view)

lemma view_caps: "view t = view s \<Longrightarrow> cap_at t = cap_at s" "view t = view s \<Longrightarrow> objH_Lookup t = objH_Lookup s"
  by (simp_all add: view_def)

lemma other_cap:
  assumes "kern_inv t" "keyType (keys t r) \<notin> {KKT_GPT, KKT_Page}"
    and "keyBits_IsObjectKey (keys t r) \<Longrightarrow> keyBits_IsPrepared (keys t r)"
  shows "abs_enter m w (cap_at t r) va = Inl (if keyType (keys t r) = KKT_Void then capros_Process_FC_InvalidAddr
    else capros_Process_FC_MalformedSpace)"
proof (cases "keyBits_IsObjectKey (keys t r)")
  case True
  then have "keyType (keys t r) \<noteq> KKT_Void" by (auto simp: key_kinds)
  moreover from True assms(3) kern_inv_wf_key [OF assms(1), of r] obtain p where "key_GetObjectPtr t (keys t r) = Some p"
    by (auto simp: wf_key_def key_GetObjectPtr_Some keyBits_IsPreparedObjectKey_def split: if_splits)
  ultimately show ?thesis using True assms(2,3) by (simp add: cap_at_def key_cap_def abs_enter_def)
next
  case False
  then show ?thesis by (simp add: cap_at_def key_cap_def abs_enter_def)
qed

lemma processKey_enter:
  assumes "processKey wi r va s = Some (ok, wi', s')" "kern_inv s" "wi_ok wi"
  shows "abs_enter (view s) (needWrite wi) (cap_at s r) (unat va) = walk_result ok wi'
    \<and> walked s s' \<and> needWrite wi' = needWrite wi \<and> backgroundGPT wi' = backgroundGPT wi \<and> (ok \<longrightarrow> wi_ok wi')"
  using assms(1)
proof (cases rule: processKey_cases)
  case (gpt t p u)
  note P = key_Prepare_view [OF assms(2) gpt(1)] and S = PrepAsSegment_view [OF _ gpt(4)]
  have prep: "keyBits_IsPrepared (keys t r)"
    using gpt(2) by (intro key_Prepare_prepared [OF assms(2) gpt(1)]) (simp add: key_kinds)
  from prepared_memory_cap [OF P(2) prep _ gpt(3)] gpt(2) obtain c
    where c: "cap_at t r = ObjCap (keyType (keys t r)) (keyPerms (keys t r)) (keyData (keys t r)) (obOid (obj_at t p)) c"
      "mv_lookup (view s) (obOid (obj_at t p)) = Some p" using view_caps [OF P(1)] by (auto simp: view_def)
  note M = process_memory_enter [OF gpt(5) assms(3) _ c(2)]
  have "s' = u" using process_memory_count(2) [OF gpt(5)] .
  moreover have "walked t u" using S [OF P(2)] by (auto simp: walked_def)
  moreover have "walked s t" using P by (rule walked_objs)
  ultimately have "walked s s'" using walked_trans by blast
  with M gpt(2) c(1) view_caps(1) [OF P(1)] show ?thesis by simp
next
  case (page t p)
  note P = key_Prepare_view [OF assms(2) page(1)]
  have prep: "keyBits_IsPrepared (keys t r)"
    using page(2) by (intro key_Prepare_prepared [OF assms(2) page(1)]) (simp add: key_kinds)
  from prepared_memory_cap [OF P(2) prep _ page(3)] page(2) obtain c
    where c: "cap_at t r = ObjCap (keyType (keys t r)) (keyPerms (keys t r)) (keyData (keys t r)) (obOid (obj_at t p)) c"
      "mv_lookup (view s) (obOid (obj_at t p)) = Some p" using view_caps [OF P(1)] by (auto simp: view_def)
  note M = process_memory_enter [OF page(4) assms(3) _ c(2)]
  have "s' = t" using process_memory_count(2) [OF page(4)] .
  moreover have "walked s t" using P by (rule walked_objs)
  ultimately show ?thesis
    using M page(2) c(1) view_caps(1) [OF P(1)] by simp
next
  case other
  note P = key_Prepare_view [OF assms(2) other(1)]
  have "abs_enter (view s) (needWrite wi) (cap_at s' r) (unat va) = walk_result ok wi'"
    using other(2-5) other_cap [OF P(2), of r] key_Prepare_prepared [OF assms(2) other(1)] by (simp add: walk_result_def)
  with other(4,5) view_caps(1) [OF P(1)] walked_objs [OF P] show ?thesis by simp
qed

section \<open>Windows\<close>

lemma join_words: "unat (push_bit 32 (ucast (a :: u32)) OR ucast (b :: u32) :: u64) = unat a * 2 ^ 32 + unat b"
proof -
  have "push_bit 32 (ucast a) OR ucast b = push_bit 32 (ucast a) + (ucast b :: u64)"
    by (rule disjunctive_add [symmetric]) (auto simp: bit_simps dest: bit_imp_le_length)
  also have "\<dots> = of_nat (unat a * 2 ^ 32 + unat b)" by (simp add: push_bit_eq_mult)
  finally have w: "push_bit 32 (ucast a) OR ucast b = (of_nat (unat a * 2 ^ 32 + unat b) :: u64)" .
  have "unat a < 2 ^ 32" "unat b < 2 ^ 32" using unsigned_less [of a, where ?'a = nat] unsigned_less [of b, where ?'a = nat] by simp_all
  then have "unat a * 2 ^ 32 + unat b < 2 ^ 64" by simp
  then show ?thesis unfolding w by (simp only: unsigned_of_nat) (simp add: take_bit_nat_eq_self)
qed

lemma aligned_add:
  fixes x y :: u64
  assumes "unat x < 2 ^ n" "unat y mod 2 ^ n = 0" "n < 64"
  shows "unat (x + y) = unat x + unat y"
proof -
  from assms(2) obtain q where q: "unat y = 2 ^ n * q" by auto
  have "(2 :: nat) ^ 64 = 2 ^ n * 2 ^ (64 - n)" using assms(3) by (simp flip: power_add)
  moreover have "unat y < 2 ^ 64" using unsigned_less [of y, where ?'a = nat] by simp
  ultimately have "2 ^ n * q < (2 :: nat) ^ n * 2 ^ (64 - n)" using q by (simp only:)
  then have "q < 2 ^ (64 - n)" by (simp only: mult_less_cancel1)
  then have "2 ^ n * (q + 1) \<le> (2 :: nat) ^ n * 2 ^ (64 - n)" by (intro mult_le_mono2) simp
  with assms(1) q \<open>2 ^ 64 = 2 ^ n * 2 ^ (64 - n)\<close> have "unat x + unat y < 2 ^ 64" by simp
  then show ?thesis by (simp add: unat_word_ariths)
qed

lemma window_nat:
  "unat (window_addr v) = unat (nk_value v 1) * 2 ^ 32 + unat (nk_value v 0)"
  "bit (seg_window_restrictions v) 3 = bit (nk_value v 2) 11" "window_slot v = unat (nk_value v 2) mod 256"
  "misaligned n x = (unat x mod 2 ^ n \<noteq> 0)"
proof -
  have m: "(0xff :: u32) = mask 8" by (simp add: mask_eq_exp_minus_1)
  show "unat (window_addr v) = unat (nk_value v 1) * 2 ^ 32 + unat (nk_value v 0)"
    unfolding window_addr_def by (rule join_words)
  show "bit (seg_window_restrictions v) 3 = bit (nk_value v 2) 11" unfolding seg_window_restrictions_def m by (simp add: bit_simps)
  have "c AND 0xff = take_bit 8 (c :: u32)" for c by (simp add: m take_bit_eq_mask)
  then show "window_slot v = unat (nk_value v 2) mod 256"
    using unat_take_bit [of 8 "nk_value v 2"] by (simp add: window_slot_def)
  have "(take_bit n x = 0) = (unat x mod 2 ^ n = 0)" using unat_take_bit [of n x] by (metis unat_eq_0)
  then show "misaligned n x = (unat x mod 2 ^ n \<noteq> 0)" by (simp only: misaligned_def low_mask)
qed

definition bg_ptr :: "obj_ptr option \<Rightarrow> seg_gpt" where
  "bg_ptr bg = (case bg of None \<Rightarrow> NoGPT | Some b \<Rightarrow> GPT b)"

lemma abs_slot_window:
  assumes "keyType (keys s (KSlot g n)) = KKT_Number"
  shows "abs_slot (view s) bg w g l2v n ofs =
    (let v = keys s (KSlot g n) in
     if misaligned l2v (window_addr v) then Inl capros_Process_FC_MalformedSpace
     else if w \<and> bit (seg_window_restrictions v) 3 then Inl capros_Process_FC_AccessViolation
     else if window_slot v < capros_GPT_nSlots then Inr (cap_at s (KSlot g (window_slot v)), ofs + unat (window_addr v))
     else if window_slot v = 255 then
       (case bg of
          None \<Rightarrow> Inl capros_Process_FC_MalformedSpace
        | Some b \<Rightarrow> Inr (cap_at s (KSlot b capros_GPT_backgroundSlot), ofs + unat (window_addr v)))
     else Inl capros_Process_FC_MalformedSpace)"
proof -
  have "cap_at s (KSlot g n) = DataCap KKT_Number (keyPerms (keys s (KSlot g n))) (keyData (keys s (KSlot g n)))
      (key_u (keys s (KSlot g n)))"
    using assms by (simp add: cap_at_def key_cap_def key_kinds)
  then show ?thesis by (simp add: abs_slot_def view_def Let_def window_nat nk_value_def split: option.split)
qed

lemmas window_defs = window_key_def Let_def wi_denied_bit wi_ok_def bit_or_iff bg_ptr_def bind_eq_Some_conv

lemma window_fault:
  assumes "window_key mte g l2v (KSlot g n) wi s = Some (SegFault e wi' s')" "keyType (keys s (KSlot g n)) = KKT_Number"
    and "kern_inv s" "wi_ok wi" "backgroundGPT wi = bg_ptr bg"
  shows "abs_slot (view s) bg (needWrite wi) g l2v n (unat (wi_offset wi)) = Inl e" "walked s s'"
  using assms(1,4,5) walked_refl [OF assms(3)] Depend_walked [OF assms(3)]
  by (auto simp: window_defs abs_slot_window [OF assms(2)] split: if_split_asm option.split_asm seg_gpt.split_asm)

lemma window_found:
  assumes "window_key mte g l2v (KSlot g n) wi s = Some (SegKey r wi' s')" "keyType (keys s (KSlot g n)) = KKT_Number"
    and "kern_inv s" "wi_ok wi" "backgroundGPT wi = bg_ptr bg" "unat (wi_offset wi) < 2 ^ l2v" "l2v < 64"
  shows "abs_slot (view s) bg (needWrite wi) g l2v n (unat (wi_offset wi)) = Inr (cap_at s r, unat (wi_offset wi'))"
    and "walked s s'" "wi_ok wi'" "needWrite wi' = needWrite wi" "backgroundGPT wi' = backgroundGPT wi"
proof -
  let ?addr = "window_addr (keys s (KSlot g n))"
  have z: "unat ?addr mod 2 ^ l2v = 0" using assms(1) by (auto simp: window_defs window_nat(4) split: if_split_asm)
  have sum: "unat (wi_offset wi + ?addr) = unat (wi_offset wi) + unat ?addr"
    using aligned_add [OF assms(6) z assms(7)] .
  show "walked s s'" "wi_ok wi'" "needWrite wi' = needWrite wi" "backgroundGPT wi' = backgroundGPT wi"
    using assms(1,4) Depend_walked [OF assms(3)]
    by (auto simp: window_defs split: if_split_asm option.split_asm seg_gpt.split_asm)
  show "abs_slot (view s) bg (needWrite wi) g l2v n (unat (wi_offset wi)) = Inr (cap_at s r, unat (wi_offset wi'))"
    using assms(1,4,5) sum
    by (auto simp: window_defs abs_slot_window [OF assms(2)] split: if_split_asm option.split_asm seg_gpt.split_asm)
qed

section \<open>The walk\<close>

text \<open>The walk at a GPT, up to the slot of the address.\<close>

definition at_gpt :: "SegWalk \<Rightarrow> kern \<Rightarrow> SegWalk" where
  "at_gpt wi s = (let f = node_GetL2vField (obj_at s (memObj wi))
     in note_background (memObj wi) f (note_keeper (memObj wi) f (wi\<lparr>traverseCount := traverseCount wi + 1\<rparr>)))"

definition gpt_l2v :: "SegWalk \<Rightarrow> kern \<Rightarrow> nat" where
  "gpt_l2v wi s = unat (node_GetL2vField (obj_at s (memObj wi)) AND GPT_L2V_MASK)"

definition gpt_index :: "SegWalk \<Rightarrow> kern \<Rightarrow> nat" where
  "gpt_index wi s = unat (drop_bit (gpt_l2v wi s) (wi_offset wi))"

definition in_slot :: "SegWalk \<Rightarrow> kern \<Rightarrow> SegWalk" where
  "in_slot wi s = (at_gpt wi s)\<lparr>wi_offset := wi_offset wi AND (push_bit (gpt_l2v wi s) 1 - 1)\<rparr>"

definition slot_key :: "bool \<Rightarrow> SegWalk \<Rightarrow> kern \<Rightarrow> seg_key option" where
  "slot_key mte wi s = (let k = KSlot (memObj wi) (gpt_index wi s)
     in if keyType (keys s k) = KKT_Number then window_key mte (memObj wi) (gpt_l2v wi s) k (in_slot wi s) s
        else Some (SegKey k (in_slot wi s) s))"

lemma at_gpt_simps [simp]: "traverseCount (at_gpt wi s) = traverseCount wi + 1" "wi_offset (at_gpt wi s) = wi_offset wi"
  by (simp_all add: at_gpt_def Let_def)

lemma WalkSeg_step:
  "WalkSeg mte stop wi s =
     (if \<not> objH_isNodeType (obj_at s (memObj wi)) then
        (if unat (wi_offset wi) \<ge> EROS_PAGE_SIZE then wi_fault capros_Process_FC_InvalidAddr wi s
         else Some (True, wi, s))
      else if obType (obj_at s (memObj wi)) \<noteq> ot_NtSegment \<or> gpt_l2v wi s < EROS_PAGE_LGSIZE then None
      else if gpt_l2v wi s < stop then Some (True, wi, s)
      else if traverseCount wi + 1 \<ge> MAX_SEG_DEPTH
        then wi_fault capros_Process_FC_TraverseLimit (wi\<lparr>traverseCount := traverseCount wi + 1\<rparr>) s
      else if gpt_index wi s > gpt_maxSlot (node_GetL2vField (obj_at s (memObj wi)))
        then wi_fault capros_Process_FC_InvalidAddr (at_gpt wi s) s
      else case slot_key mte wi s of
           None \<Rightarrow> None
         | Some (SegFault code wi s) \<Rightarrow> wi_fault code wi s
         | Some (SegKey k wi s) \<Rightarrow>
             (case processKey wi k (wi_offset wi) s of
                None \<Rightarrow> None
              | Some (False, wi, s) \<Rightarrow> Some (False, wi, s)
              | Some (True, wi, s) \<Rightarrow> WalkSeg mte stop wi (Depend_AddKey mte k s)))"
  by (subst WalkSeg.simps)
    (simp add: Let_def at_gpt_def gpt_l2v_def gpt_index_def in_slot_def slot_key_def cong: if_cong)

lemma in_slot_facts:
  "unat (wi_offset (in_slot wi s)) = unat (wi_offset wi) mod 2 ^ gpt_l2v wi s" "wi_ok (in_slot wi s) = wi_ok wi"
  "needWrite (in_slot wi s) = needWrite wi" "traverseCount (in_slot wi s) = traverseCount wi + 1"
  by (simp_all add: in_slot_def low_mask unat_take_bit wi_ok_def at_gpt_def Let_def del: push_bit_of_1)

lemma in_slot_background:
  assumes "backgroundGPT wi = bg_ptr bg"
  shows "backgroundGPT (in_slot wi s)
    = bg_ptr (if node_GetL2vField (obj_at s (memObj wi)) AND GPT_BACKGROUND \<noteq> 0 then Some (memObj wi) else bg)"
  using assms by (simp add: in_slot_def at_gpt_def Let_def note_background_def bg_ptr_def)

lemma gpt_l2v_less: "gpt_l2v wi s < 64"
proof -
  have "x AND GPT_L2V_MASK = take_bit 6 x" for x :: u8
    by (simp add: GPT_L2V_MASK_def take_bit_eq_mask mask_eq_exp_minus_1)
  then show ?thesis by (simp add: gpt_l2v_def unat_take_bit)
qed

lemma abs_slot_plain:
  assumes "keyType (keys s (KSlot g n)) \<noteq> KKT_Number"
  shows "abs_slot (view s) bg w g l2v n ofs = Inr (cap_at s (KSlot g n), ofs)"
  using assms by (auto simp: abs_slot_def view_def cap_at_def key_cap_def split: cap.split option.split_asm if_split_asm key_u.split_asm)

lemma slot_key_fault:
  assumes "slot_key mte wi s = Some (SegFault e wi' s')" "kern_inv s" "wi_ok wi" "backgroundGPT (in_slot wi s) = bg_ptr bg"
  shows "abs_slot (view s) bg (needWrite wi) (memObj wi) (gpt_l2v wi s) (gpt_index wi s)
      (unat (wi_offset wi) mod 2 ^ gpt_l2v wi s) = Inl e" "walked s s'"
proof -
  from assms(1) have n: "keyType (keys s (KSlot (memObj wi) (gpt_index wi s))) = KKT_Number"
    and w: "window_key mte (memObj wi) (gpt_l2v wi s) (KSlot (memObj wi) (gpt_index wi s)) (in_slot wi s) s = Some (SegFault e wi' s')"
    by (simp_all add: slot_key_def Let_def split: if_split_asm)
  from assms(3) have "wi_ok (in_slot wi s)" by (simp add: in_slot_facts)
  from window_fault [OF w n assms(2) this assms(4)] show
    "abs_slot (view s) bg (needWrite wi) (memObj wi) (gpt_l2v wi s) (gpt_index wi s)
      (unat (wi_offset wi) mod 2 ^ gpt_l2v wi s) = Inl e" "walked s s'" by (simp_all add: in_slot_facts)
qed

lemma slot_key_found:
  assumes "slot_key mte wi s = Some (SegKey k wi' s')" "kern_inv s" "wi_ok wi" "backgroundGPT (in_slot wi s) = bg_ptr bg"
  shows "abs_slot (view s) bg (needWrite wi) (memObj wi) (gpt_l2v wi s) (gpt_index wi s)
      (unat (wi_offset wi) mod 2 ^ gpt_l2v wi s) = Inr (cap_at s k, unat (wi_offset wi'))"
    and "walked s s'" "wi_ok wi'" "needWrite wi' = needWrite wi" "backgroundGPT wi' = bg_ptr bg" "traverseCount wi' = traverseCount wi + 1"
proof -
  let ?k = "KSlot (memObj wi) (gpt_index wi s)"
  have ok: "wi_ok (in_slot wi s)" using assms(3) by (simp add: in_slot_facts)
  have less: "unat (wi_offset (in_slot wi s)) < 2 ^ gpt_l2v wi s" by (simp add: in_slot_facts)
  have "abs_slot (view s) bg (needWrite wi) (memObj wi) (gpt_l2v wi s) (gpt_index wi s)
      (unat (wi_offset wi) mod 2 ^ gpt_l2v wi s) = Inr (cap_at s k, unat (wi_offset wi'))
    \<and> walked s s' \<and> wi_ok wi' \<and> needWrite wi' = needWrite wi \<and> backgroundGPT wi' = bg_ptr bg \<and> traverseCount wi' = traverseCount wi + 1"
  proof (cases "keyType (keys s ?k) = KKT_Number")
    case True
    with assms(1) have w: "window_key mte (memObj wi) (gpt_l2v wi s) ?k (in_slot wi s) s = Some (SegKey k wi' s')"
      by (simp add: slot_key_def Let_def)
    from window_found [OF w True assms(2) ok assms(4) less gpt_l2v_less] window_key_count [OF w] assms(4)
    show ?thesis by (simp add: in_slot_facts)
  next
    case False
    with assms(1) have "k = ?k" "wi' = in_slot wi s" "s' = s" by (auto simp: slot_key_def Let_def)
    with False assms(4) ok walked_refl [OF assms(2)] show ?thesis by (simp add: abs_slot_plain in_slot_facts)
  qed
  then show "abs_slot (view s) bg (needWrite wi) (memObj wi) (gpt_l2v wi s) (gpt_index wi s)
      (unat (wi_offset wi) mod 2 ^ gpt_l2v wi s) = Inr (cap_at s k, unat (wi_offset wi'))"
    and "walked s s'" "wi_ok wi'" "needWrite wi' = needWrite wi" "backgroundGPT wi' = bg_ptr bg" "traverseCount wi' = traverseCount wi + 1"
    by simp_all
qed

text \<open>One step of the reference, in the terms of the walk.\<close>

lemma view_simps: "mv_gpt (view s) p = objH_isNodeType (obj_at s p)" "mv_field (view s) p = node_GetL2vField (obj_at s p)"
  "mv_cap (view s) = cap_at s"
  by (simp_all add: view_def)

lemma gpt_index_div: "gpt_index wi s = unat (wi_offset wi) div 2 ^ gpt_l2v wi s"
  by (simp add: gpt_index_def unat_drop_bit)

lemma abs_walk_gpt:
  assumes "objH_isNodeType (obj_at s (memObj wi))" "backgroundGPT wi = bg_ptr bg"
  shows "abs_walk (Suc n) (view s) bg w (memObj wi, unat (wi_offset wi)) =
    (if gpt_index wi s > gpt_maxSlot (node_GetL2vField (obj_at s (memObj wi))) then Inl capros_Process_FC_InvalidAddr
     else let bg = (if node_GetL2vField (obj_at s (memObj wi)) AND GPT_BACKGROUND \<noteq> 0 then Some (memObj wi) else bg)
     in case abs_slot (view s) bg w (memObj wi) (gpt_l2v wi s) (gpt_index wi s) (unat (wi_offset wi) mod 2 ^ gpt_l2v wi s) of
         Inl e \<Rightarrow> Inl e
       | Inr (c, va) \<Rightarrow>
           (case abs_enter (view s) w c va of Inl e \<Rightarrow> Inl e | Inr po \<Rightarrow> abs_walk n (view s) bg w po))"
  using assms(1) by (simp add: view_simps gpt_index_div gpt_l2v_def Let_def)

lemma count_limit:
  assumes "unat (c :: u32) + n = 19"
  shows "c + 1 \<ge> MAX_SEG_DEPTH \<longleftrightarrow> n = 0" "n = Suc m \<Longrightarrow> unat (c + 1) + m = 19"
proof -
  have "unat (c + 1) = unat c + 1" using assms by (simp add: unat_word_ariths)
  with assms show "c + 1 \<ge> MAX_SEG_DEPTH \<longleftrightarrow> n = 0" "n = Suc m \<Longrightarrow> unat (c + 1) + m = 19"
    by (auto simp: word_le_nat_alt MAX_SEG_DEPTH_def)
qed

lemma WalkSeg_page:
  assumes "WalkSeg mte EROS_PAGE_LGSIZE wi s = Some (ok, wi', s')" "kern_inv s" "wi_ok wi" "\<not> objH_isNodeType (obj_at s (memObj wi))"
  shows "abs_walk n (view s) bg w (memObj wi, unat (wi_offset wi)) = walk_result ok wi' \<and> walked s s' \<and> (ok \<longrightarrow> wi_ok wi')"
  using assms walked_refl [OF assms(2)]
  by (auto simp: WalkSeg_step wi_fault_def walk_result_def view_simps split: if_split_asm)

lemma WalkSeg_gpt_cases:
  assumes "WalkSeg mte EROS_PAGE_LGSIZE wi s = Some (ok, wi', s')" "objH_isNodeType (obj_at s (memObj wi))"
    and "\<not> traverseCount wi + 1 \<ge> MAX_SEG_DEPTH"
  obtains (out) "gpt_index wi s > gpt_maxSlot (node_GetL2vField (obj_at s (memObj wi)))" "\<not> ok"
      "wi_faultCode wi' = capros_Process_FC_InvalidAddr" "s' = s"
    | (window) e w1 where "\<not> gpt_index wi s > gpt_maxSlot (node_GetL2vField (obj_at s (memObj wi)))"
      "slot_key mte wi s = Some (SegFault e w1 s')" "\<not> ok" "wi_faultCode wi' = e"
    | (key) k w1 s1 where "\<not> gpt_index wi s > gpt_maxSlot (node_GetL2vField (obj_at s (memObj wi)))"
      "slot_key mte wi s = Some (SegKey k w1 s1)" "processKey w1 k (wi_offset w1) s1 = Some (False, wi', s')" "\<not> ok"
    | (step) k w1 s1 w2 s2 where "\<not> gpt_index wi s > gpt_maxSlot (node_GetL2vField (obj_at s (memObj wi)))"
      "slot_key mte wi s = Some (SegKey k w1 s1)" "processKey w1 k (wi_offset w1) s1 = Some (True, w2, s2)"
      "WalkSeg mte EROS_PAGE_LGSIZE w2 (Depend_AddKey mte k s2) = Some (ok, wi', s')"
proof (cases "gpt_index wi s > gpt_maxSlot (node_GetL2vField (obj_at s (memObj wi)))")
  case True
  with assms have "\<not> ok \<and> wi' = (at_gpt wi s)\<lparr>wi_faultCode := capros_Process_FC_InvalidAddr\<rparr> \<and> s' = s"
    by (auto simp: WalkSeg_step wi_fault_def split: if_split_asm)
  with True out show thesis by simp
next
  case False
  with assms have st: "(case slot_key mte wi s of
       None \<Rightarrow> None
     | Some (SegFault code wi s) \<Rightarrow> wi_fault code wi s
     | Some (SegKey k wi s) \<Rightarrow>
         (case processKey wi k (wi_offset wi) s of
            None \<Rightarrow> None
          | Some (False, wi, s) \<Rightarrow> Some (False, wi, s)
          | Some (True, wi, s) \<Rightarrow> WalkSeg mte EROS_PAGE_LGSIZE wi (Depend_AddKey mte k s))) = Some (ok, wi', s')"
    by (subst (asm) WalkSeg_step) (simp split: if_split_asm)
  then obtain sk where sk: "slot_key mte wi s = Some sk" by (auto split: option.split_asm)
  show thesis
  proof (cases sk)
    case (SegFault e w1 s1)
    with st sk False window show thesis by (auto simp: wi_fault_def)
  next
    case (SegKey k w1 s1)
    with st sk obtain ok2 w2 s2 where p: "processKey w1 k (wi_offset w1) s1 = Some (ok2, w2, s2)"
      by (auto split: option.split_asm)
    with st sk SegKey False key step show thesis by (cases ok2) auto
  qed
qed

lemma WalkSeg_walk:
  assumes "WalkSeg mte EROS_PAGE_LGSIZE wi s = Some (ok, wi', s')" "kern_inv s" "wi_ok wi"
    and "backgroundGPT wi = bg_ptr bg" "unat (traverseCount wi) + n = 19"
  shows "abs_walk n (view s) bg (needWrite wi) (memObj wi, unat (wi_offset wi)) = walk_result ok wi'
    \<and> walked s s' \<and> (ok \<longrightarrow> wi_ok wi')"
  using assms
proof (induction n arbitrary: wi s bg)
  case 0
  show ?case
  proof (cases "objH_isNodeType (obj_at s (memObj wi))")
    case True
    with 0 count_limit [of "traverseCount wi" 0] walked_refl [of s] show ?thesis
      by (auto simp: WalkSeg_step wi_fault_def walk_result_def view_simps split: if_split_asm)
  qed (rule WalkSeg_page [OF 0(1-3)])
next
  case (Suc n)
  show ?case
  proof (cases "objH_isNodeType (obj_at s (memObj wi))")
    case True
    define bg' where "bg' = (if node_GetL2vField (obj_at s (memObj wi)) AND GPT_BACKGROUND \<noteq> 0 then Some (memObj wi) else bg)"
    have b: "backgroundGPT (in_slot wi s) = bg_ptr bg'" unfolding bg'_def by (rule in_slot_background [OF Suc.prems(4)])
    note A = abs_walk_gpt [OF True Suc.prems(4), of n "needWrite wi", folded bg'_def]
    note L = count_limit [OF Suc.prems(5)]
    from L(1) have "\<not> traverseCount wi + 1 \<ge> MAX_SEG_DEPTH" by simp
    from Suc.prems(1) True this show ?thesis
    proof (cases rule: WalkSeg_gpt_cases)
      case out
      with A walked_refl [OF Suc.prems(2)] show ?thesis by (simp add: walk_result_def)
    next
      case (window e w1)
      with slot_key_fault [OF window(2) Suc.prems(2,3) b] A show ?thesis by (simp add: walk_result_def Let_def)
    next
      case (key k w1 s1)
      note F = slot_key_found [OF key(2) Suc.prems(2,3) b]
      have inv1: "kern_inv s1" "view s1 = view s" using F(2) by (simp_all add: walked_def)
      note E = processKey_enter [OF key(3) inv1(1) F(3), unfolded inv1(2) view_caps(1) [OF inv1(2)]]
      have "walked s s'" using walked_trans [OF F(2)] E by blast
      with A key(1,4) F(1,4) E show ?thesis by (simp add: walk_result_def Let_def)
    next
      case (step k w1 s1 w2 s2)
      note F = slot_key_found [OF step(2) Suc.prems(2,3) b]
      have inv1: "kern_inv s1" "view s1 = view s" using F(2) by (simp_all add: walked_def)
      note E = processKey_enter [OF step(3) inv1(1) F(3), unfolded inv1(2) view_caps(1) [OF inv1(2)]]
      let ?s = "Depend_AddKey mte k s2"
      have w: "walked s ?s" using E F(2) Depend_walked [of s2 mte k] by (auto simp: walked_def)
      have "unat (traverseCount w2) + n = 19" using L(2) F(6) processKey_count [OF step(3)] by simp
      moreover have "kern_inv ?s" "view ?s = view s" using w by (simp_all add: walked_def)
      ultimately have "abs_walk n (view s) bg' (needWrite w2) (memObj w2, unat (wi_offset w2)) = walk_result ok wi'
          \<and> walked ?s s' \<and> (ok \<longrightarrow> wi_ok wi')"
        using Suc.IH [OF step(4), of bg'] E F(5) by simp
      with A step(1) F(1,4) E walked_trans [OF w] show ?thesis by (simp add: walk_result_def Let_def)
    qed
  qed (rule WalkSeg_page [OF Suc.prems(1-3)])
qed

text \<open>A walk that starts at a key.\<close>

definition walk_space :: "bool \<Rightarrow> SegWalk \<Rightarrow> kref \<Rightarrow> u64 \<Rightarrow> kern \<Rightarrow> (bool \<times> SegWalk \<times> kern) option" where
  "walk_space mte wi r va s = do {
     (ok, wi, s) \<leftarrow> segwalk_init mte (wi\<lparr>traverseCount := 0\<rparr>) r va s;
     if ok then WalkSeg mte EROS_PAGE_LGSIZE wi s else Some (False, wi, s) }"

lemma walk_space_map:
  assumes "kern_inv s" "walk_space mte wi r va s = Some (ok, wi', s')"
  shows "address_map (view s) (needWrite wi) (cap_at s r) (unat va) = walk_result ok wi' \<and> walked s s' \<and> (ok \<longrightarrow> wi_ok wi')"
proof -
  let ?wi = "wi\<lparr>traverseCount := 0, restrictions := 0, backgroundGPT := NoGPT, keeperGPT := NoGPT\<rparr>"
  from assms(2) obtain ok1 w1 s1 where p: "processKey ?wi r va s = Some (ok1, w1, s1)"
    and c: "(if ok1 then WalkSeg mte EROS_PAGE_LGSIZE w1 (Depend_AddKey mte r s1) else Some (False, w1, s1)) = Some (ok, wi', s')"
    by (auto simp: walk_space_def segwalk_init_def bind_eq_Some_conv split: if_split_asm)
  have "wi_ok ?wi" by (simp add: wi_ok_def)
  note E = processKey_enter [OF p assms(1) this]
  show ?thesis
  proof (cases ok1)
    case False
    with c E show ?thesis by (simp add: address_map_def walk_result_def)
  next
    case True
    let ?s = "Depend_AddKey mte r s1"
    have w: "walked s ?s" using E Depend_walked [of s1 mte r] by (auto simp: walked_def)
    have W: "WalkSeg mte EROS_PAGE_LGSIZE w1 ?s = Some (ok, wi', s')" using c True by simp
    have "kern_inv ?s" "view ?s = view s" using w by (simp_all add: walked_def)
    then have "abs_walk 19 (view s) None (needWrite w1) (memObj w1, unat (wi_offset w1)) = walk_result ok wi'
        \<and> walked ?s s' \<and> (ok \<longrightarrow> wi_ok wi')"
      using WalkSeg_walk [OF W, of None 19] E True processKey_count [OF p] by (simp add: bg_ptr_def)
    with E True walked_trans [OF w] show ?thesis by (simp add: address_map_def walk_result_def)
  qed
qed

text \<open>Restrictions only take away: who may write at an address may read there, and gets the same page.\<close>

lemma abs_enter_read: "abs_enter m True c va = Inr po \<Longrightarrow> abs_enter m False c va = Inr po"
  by (auto simp: abs_enter_def split: cap.split_asm if_split_asm option.split_asm)

lemma abs_slot_read: "abs_slot m bg True g l2v n ofs = Inr x \<Longrightarrow> abs_slot m bg False g l2v n ofs = Inr x"
  by (auto simp: abs_slot_def Let_def split: cap.split_asm if_split_asm option.split_asm)

lemma abs_walk_read: "abs_walk n m bg True po = Inr x \<Longrightarrow> abs_walk n m bg False po = Inr x"
proof (induction n arbitrary: bg po)
  case 0
  then show ?case by (cases po) (simp split: if_split_asm)
next
  case (Suc n)
  then show ?case
    by (cases po) (auto simp: Let_def dest!: abs_slot_read abs_enter_read split: if_split_asm sum.split_asm)
qed

lemma address_map_read: "address_map m True c va = Inr x \<Longrightarrow> address_map m False c va = Inr x"
  by (auto simp: address_map_def dest!: abs_enter_read abs_walk_read split: sum.split_asm)

section \<open>An address space\<close>

text \<open>
  A state with a small address space: node 0 is a GPT of pages, its slot 3 holds a key to the page,
  and the address space slot of process 0 holds a key to the GPT.
\<close>

definition ex_space_page :: KeyBits where
  "ex_space_page = \<lparr>keyType = KKT_Page, keyFlags = 0, keyPerms = 0, keyData = 12, key_u = U_unprep 0x700 0\<rparr>"

definition ex_space_root :: KeyBits where
  "ex_space_root = \<lparr>keyType = KKT_GPT, keyFlags = 0, keyPerms = 0, keyData = 17, key_u = U_unprep 0x500 3\<rparr>"

definition ex_space :: kern where
  "ex_space = ex_kern\<lparr>
     keys := ex_keys(KSlot 0 3 := ex_space_page, KSlot 1 ProcAddrSpace := ex_space_root),
     objs := (objs ex_kern)(0 := ex_node\<lparr>nodeData := 12\<rparr>, 2 := ex_page\<lparr>obFlags := 0x81\<rparr>)\<rparr>"

lemmas ex_space_defs = ex_space_page_def ex_space_root_def ex_obj_defs ex_key_defs

lemma ex_space_simps [simp]:
  "keys ex_space = ex_keys(KSlot 0 3 := ex_space_page, KSlot 1 ProcAddrSpace := ex_space_root)"
  "rings ex_space = rings ex_kern"
  "obj_at ex_space p = (if p = 0 then ex_node\<lparr>nodeData := 12\<rparr> else if p = 1 then ex_root else ex_page\<lparr>obFlags := if p = 2 then 0x81 else 1\<rparr>)"
  "nObjs ex_space = 3" "obBucket ex_space = obBucket ex_kern" "procRoot ex_space = procRoot ex_kern"
  "\<not> InvocationCommitted ex_space"
  by (simp_all add: ex_space_def obj_at_def) (simp add: ex_page_def)

lemma ex_space_is_obj [simp]: "is_obj ex_space p = (p < 3)"
  by (auto simp: is_obj_def ex_obj_defs)

lemma ex_space_inv: "kern_inv ex_space"
proof -
  have "wf_objs ex_space" by (auto simp: wf_objs_def ex_obj_defs bucket_ndx_def KTUNE_NOBBUCKETS_def Let_def
        split: if_splits)
  moreover have "wf_procs ex_space" by (auto simp: wf_procs_def ex_obj_defs split: if_splits)
  moreover have "ring_ok (keys ex_space) (rings ex_space)"
    by (auto simp: ring_ok_def ex_space_defs key_ring_def keyBits_IsPreparedObjectKey_def key_kinds
        key_flag_bits key_pObj_def key_pContext_def res_flags_def is_resume_def)
  moreover have "wf_key ex_space (keys ex_space r)" for r
    by (auto simp: wf_key_def ex_space_defs key_kinds key_flag_bits objH_GetBaseType_def base_of_def)
  moreover have "cnt_ok ex_space (keys ex_space r)" for r
    by (auto simp: cnt_ok_def ex_space_defs key_kinds key_flag_bits objH_GetBaseType_def
        base_of_def count_for_def used_for_def objH_GetFlags_def OFLG_defs split: if_splits)
  ultimately show ?thesis by (simp add: kern_inv_def)
qed

definition ex_walk :: "bool \<Rightarrow> SegWalk" where
  "ex_walk w = \<lparr>memObj = 0, wi_offset = 0, needWrite = w, restrictions = 0, backgroundGPT = NoGPT, keeperGPT = NoGPT,
     keeperOffset = 0, traverseCount = 0, wi_faultCode = 0\<rparr>"

lemma ex_walk_simps [simp]: "memObj (ex_walk w) = 0" "traverseCount (ex_walk w) = 0" "restrictions (ex_walk w) = 0" "needWrite (ex_walk w) = w"
  by (simp_all add: ex_walk_def)

definition ex_space1 :: kern where
  "ex_space1 = upd_key (KSlot 1 ProcAddrSpace) (ex_space_root\<lparr>keyFlags := 4, key_u := U_ok 0\<rparr>)
     (link_insertAfter (ObjRing 0) (KSlot 1 ProcAddrSpace) ex_space)"

definition ex_space2 :: kern where
  "ex_space2 = upd_key (KSlot 0 3) (ex_space_page\<lparr>keyFlags := 4, key_u := U_ok 2\<rparr>)
     (link_insertAfter (ObjRing 2) (KSlot 0 3) ex_space1)"

lemma ex_space1_simps [simp]: "obj_at ex_space1 p = obj_at ex_space p" "obj_at ex_space2 p = obj_at ex_space p"
  "keys ex_space1 (KSlot (Suc 0) ProcAddrSpace) = ex_space_root\<lparr>keyFlags := 4, key_u := U_ok 0\<rparr>"
  "keys ex_space1 (KSlot 0 3) = ex_space_page"
  by (simp_all add: ex_space1_def ex_space2_def link_insertAfter_def obj_at_def)

lemmas ex_eval_defs = process_memory_def strip_guard_def keyBits_GetL2g_def keyBits_GetGuard_def wi_restrict_def
  wi_denied_def Let_def node_PrepAsSegment_def key_pObj_def

lemma ex_enter_root:
  "processKey (ex_walk w) (KSlot 1 ProcAddrSpace) 0x3abc ex_space = Some (True, (ex_walk w)\<lparr>wi_offset := 0x3abc\<rparr>, ex_space1)"
proof -
  have "key_Prepare (KSlot 1 ProcAddrSpace) ex_space = Some ex_space1"
    by (simp add: ex_space1_def key_Prepare_def prepare_defs key_unprep_def ex_space_defs)
  then have "key_Prepare (KSlot (Suc 0) ProcAddrSpace) ex_space = Some ex_space1" by simp
  then show ?thesis
    by (simp add: processKey_def ex_eval_defs ex_space_defs ex_walk_def)
qed

lemma ex_enter_page:
  "processKey wi (KSlot 0 3) 0xabc ex_space1
     = (let wi = wi\<lparr>wi_offset := 0xabc, memObj := 2\<rparr> in if wi_denied wi then wi_fault capros_Process_FC_AccessViolation wi ex_space2
        else Some (True, wi, ex_space2))"
proof -
  have "key_Prepare (KSlot 0 3) ex_space1 = Some ex_space2"
    by (simp add: ex_space2_def ex_space1_def key_Prepare_def prepare_defs key_unprep_def ex_space_defs)
  then show ?thesis
    by (simp add: processKey_def ex_eval_defs ex_space2_def ex_space_defs)
qed

lemma ex_walk_runs:
  "walk_space False (ex_walk w) (KSlot 1 ProcAddrSpace) 0x3abc ex_space
    = Some (True, (ex_walk w)\<lparr>traverseCount := 1, wi_offset := 0xabc, memObj := 2\<rparr>, ex_space2)"
proof -
  let ?wi = "(ex_walk w)\<lparr>wi_offset := 0x3abc\<rparr>"
  have "(ex_walk w)\<lparr>traverseCount := 0, restrictions := 0, backgroundGPT := NoGPT, keeperGPT := NoGPT\<rparr> = ex_walk w"
    by (simp add: ex_walk_def)
  then have "walk_space False (ex_walk w) (KSlot 1 ProcAddrSpace) 0x3abc ex_space = WalkSeg False EROS_PAGE_LGSIZE ?wi ex_space1"
    by (simp add: walk_space_def segwalk_init_def ex_enter_root [simplified] Depend_AddKey_def)
  moreover have f: "node_GetL2vField (obj_at ex_space1 0) = 12" by (simp add: node_GetL2vField_def ex_obj_defs)
  have l: "gpt_l2v ?wi ex_space1 = 12" "gpt_index ?wi ex_space1 = 3" using f
    by (simp_all add: gpt_l2v_def gpt_index_def GPT_L2V_MASK_def ex_walk_def)
  have sl: "in_slot ?wi ex_space1 = ?wi\<lparr>wi_offset := 0xabc, traverseCount := 1\<rparr>"
    unfolding in_slot_def l using f
    by (simp add: at_gpt_def note_background_def note_keeper_def Let_def ex_walk_def GPT_BACKGROUND_def GPT_KEEPER_def)
  have k: "slot_key False ?wi ex_space1 = Some (SegKey (KSlot 0 3) (?wi\<lparr>wi_offset := 0xabc, traverseCount := 1\<rparr>) ex_space1)"
    using l sl by (simp add: slot_key_def Let_def) (simp add: ex_walk_def ex_space_page_def)
  have p: "WalkSeg False EROS_PAGE_LGSIZE ((ex_walk w)\<lparr>traverseCount := 1, wi_offset := 0xabc, memObj := 2\<rparr>) ex_space2
      = Some (True, (ex_walk w)\<lparr>traverseCount := 1, wi_offset := 0xabc, memObj := 2\<rparr>, ex_space2)"
    by (simp add: WalkSeg_step objH_isNodeType_def ex_page_def EROS_PAGE_SIZE_def)
  have "WalkSeg False EROS_PAGE_LGSIZE ?wi ex_space1 = Some (True, (ex_walk w)\<lparr>traverseCount := 1, wi_offset := 0xabc, memObj := 2\<rparr>, ex_space2)"
    using f l k p
    by (subst WalkSeg_step) (simp add: ex_enter_page Let_def wi_denied_def objH_isNodeType_def ex_obj_defs EROS_PAGE_LGSIZE_def
        MAX_SEG_DEPTH_def word_le_nat_alt gpt_maxSlot_def GPT_BACKGROUND_def GPT_KEEPER_def capros_GPT_nSlots_def Depend_AddKey_def)
  ultimately show ?thesis by simp
qed

section \<open>Properties\<close>

text \<open>
  C6. The walk of a memory tree from a key computes the address map the tree defines. If the walk
  completes, it finds the page and the offset in the page that \<open>address_map\<close> gives for the
  address, or it fails with the fault code that \<open>address_map\<close> gives: an address without a
  mapping, a malformed tree, a write where a key or a window on the path is read-only, or a path of more
  than 19 GPTs. The walk prepares keys and marks hazards, but changes no capability and keeps the kernel invariant.
\<close>

theorem walk_is_address_map:
  assumes "kern_inv s" "walk_space mte wi r va s = Some (ok, wi', s')"
  shows "address_map (view s) (needWrite wi) (cap_at s r) (unat va)
      = (if ok then Inr (memObj wi', unat (wi_offset wi')) else Inl (wi_faultCode wi'))
    \<and> kern_inv s' \<and> cap_at s' = cap_at s"
  using walk_space_map [OF assms] by (auto simp: walked_def walk_result_def dest: view_caps(1))

theorem walk_is_address_map_witness:
  "address_map (view ex_space) True (cap_at ex_space (KSlot 1 ProcAddrSpace)) 0x3abc = Inr (2, 0xabc)"
  using walk_is_address_map [OF ex_space_inv ex_walk_runs [of True]] by simp

text \<open>
  C12. Where a walk for writing succeeds, a walk for reading from the same state and at the same
  address does not fault and leads to the same byte of the same page.
\<close>

theorem writable_is_readable:
  assumes "kern_inv s" "walk_space mte wi r va s = Some (True, wi', s')" "needWrite wi"
    and "walk_space mte2 (wi2\<lparr>needWrite := False\<rparr>) r va s = Some (ok2, wi2', s2')"
  shows "ok2 \<and> memObj wi2' = memObj wi' \<and> wi_offset wi2' = wi_offset wi'"
proof -
  from walk_space_map [OF assms(1,2)] assms(3)
  have "address_map (view s) True (cap_at s r) (unat va) = Inr (memObj wi', unat (wi_offset wi'))"
    by (simp add: walk_result_def)
  from address_map_read [OF this] walk_space_map [OF assms(1,4)] show ?thesis
    by (auto simp: walk_result_def word_unat_eq_iff split: if_split_asm)
qed

theorem writable_is_readable_witness:
  "\<exists>wi. walk_space False (ex_walk False) (KSlot 1 ProcAddrSpace) 0x3abc ex_space = Some (True, wi, ex_space2) \<and> memObj wi = 2"
proof -
  have "(ex_walk True)\<lparr>needWrite := False\<rparr> = ex_walk False" by (simp add: ex_walk_def)
  with ex_walk_runs [of False]
  have r: "walk_space False ((ex_walk True)\<lparr>needWrite := False\<rparr>) (KSlot 1 ProcAddrSpace) 0x3abc ex_space
      = Some (True, (ex_walk False)\<lparr>traverseCount := 1, wi_offset := 0xabc, memObj := 2\<rparr>, ex_space2)" by simp
  from writable_is_readable [OF ex_space_inv ex_walk_runs [of True] _ r] ex_walk_runs [of False] show ?thesis
    by simp
qed

end
