(* ===== verification/Keeper.thy ===== *)
theory Keeper
  imports System_Inv Gpt_Walk_Props
begin

text \<open>
  Faults. A process that faults calls its keeper: \<^verbatim>\<open>proc_InvokeMyKeeper\<close> of sys/kernel/kern_Invoke.c,
  \<^verbatim>\<open>proc_InvokeSegmentKeeper\<close> of sys/kernel/kern_GPT.c and, for the ARM, \<^verbatim>\<open>proc_InvokeProcessKeeper\<close> of
  sys/arch/arm/kernel/Process.c.
\<close>

section \<open>Definitions\<close>

definition keeper_message :: "OC \<Rightarrow> u32 \<Rightarrow> u32 \<Rightarrow> u32 \<Rightarrow> kref \<Rightarrow> kref \<Rightarrow> u8 list \<Rightarrow> Invocation \<Rightarrow> Invocation" where
  "keeper_message oc w1 w2 w3 keeperKey keyArg data i =
     i\<lparr>inv_key := keeperKey, invType := IT_KeeperCall, entry_code := oc, entry_w1 := w1, entry_w2 := w2, entry_w3 := w3,
       entry_key := (\<lambda>n. if n = 0 then keyArg else KVoidKey), entry_data := data, sentLen := 0\<rparr>"

text \<open>Without a keeper the process stays running but loses its activity.\<close>

definition proc_InvokeMyKeeper ::
  "proc_ptr \<Rightarrow> OC \<Rightarrow> u32 \<Rightarrow> u32 \<Rightarrow> u32 \<Rightarrow> kref \<Rightarrow> kref \<Rightarrow> u8 list \<Rightarrow> kern \<Rightarrow> kern option" where
  "proc_InvokeMyKeeper thisPtr oc w1 w2 w3 keeperKey keyArg data s = do {
     let s = upd_inv (keeper_message oc w1 w2 w3 keeperKey keyArg data) (BeginInvocation s);
     if keyBits_IsGateKey (keys s keeperKey) then proc_DoKeyInvocation thisPtr s
     else on_sched act_DeleteCurrent s }"

definition use_keeperArg :: "kern \<Rightarrow> kern" where
  "use_keeperArg s = upd_inv (\<lambda>i. i\<lparr>inv_flags := inv_flags i OR INV_KEEPERARG\<rparr>) s"

text \<open>
  The registers of a process that is not loaded would not be initialised; the code is called for
  loaded processes only.
\<close>

definition proc_InvokeProcessKeeper :: "proc_ptr \<Rightarrow> kern \<Rightarrow> kern option" where
  "proc_InvokeProcessKeeper p s = do {
     (b, regs, s) \<leftarrow> proc_GetRegs32 p no_regs s;
     assert_that b;
     let regs = regs\<lparr>reg_procFlags := reg_procFlags regs AND NOT (ucast capros_Process_PF_ExpectingMessage)\<rparr>;
     root \<leftarrow> procRoot s p;
     let s = use_keeperArg (key_SetToProcess KKeeperArg p KKT_Process 0 s);
     proc_InvokeMyKeeper p OC_capros_ProcessKeeper_fault 0 0 0 (KSlot root ProcKeeper) KKeeperArg
       (words_bytes (common_words regs @ reg_registers regs @ [reg_CPSR regs])) s }"

text \<open>The walk from the top, to find the keeper. No mapping table entry depends on its keys.\<close>

definition rewalk :: "proc_ptr \<Rightarrow> SegWalk \<Rightarrow> u32 \<Rightarrow> kern \<Rightarrow> (SegWalk \<times> kern) option" where
  "rewalk p wi vaddr s = do {
     root \<leftarrow> procRoot s p;
     (ok, wi, s) \<leftarrow> segwalk_init False (wi\<lparr>traverseCount := 0\<rparr>) (KSlot root ProcAddrSpace) (ucast vaddr) s;
     (wi, s) \<leftarrow> (if ok then do { (_, wi, s) \<leftarrow> WalkSeg False EROS_PAGE_LGSIZE wi s; Some (wi, s) } else Some (wi, s));
     assert_that (keeperGPT wi \<noteq> UnknownGPT);
     Some (wi, s) }"

definition call_segment_keeper :: "proc_ptr \<Rightarrow> obj_ptr \<Rightarrow> SegWalk \<Rightarrow> u32 \<Rightarrow> kern \<Rightarrow> kern option" where
  "call_segment_keeper p gpt wi vaddr s = do {
     assert_that (obType (obj_at s gpt) = ot_NtSegment);
     assert_that (node_GetL2vField (obj_at s gpt) AND GPT_KEEPER \<noteq> 0);
     let s = on_proc p (\<lambda>q. q\<lparr>faultCode := wi_faultCode wi, faultInfo := vaddr\<rparr>) s;
     s \<leftarrow> key_SetToObj KKeeperArg gpt KKT_GPT 0 0 s;
     let s = use_keeperArg (upd_key KKeeperArg (keyBits_SetL2g (keys s KKeeperArg) 64) s);
     proc_InvokeMyKeeper p OC_capros_Memory_fault (wi_faultCode wi) (ucast (keeperOffset wi)) (ucast (drop_bit 32 (keeperOffset wi)))
       (KSlot gpt capros_GPT_keeperSlot) KKeeperArg [] s }"

text \<open>
  A fault that no segment keeper takes is left in the process, which then yields; the scheduler
  calls the keeper of the process.
\<close>

definition proc_InvokeSegmentKeeper :: "proc_ptr \<Rightarrow> SegWalk \<Rightarrow> bool \<Rightarrow> u32 \<Rightarrow> kern \<Rightarrow> kern option" where
  "proc_InvokeSegmentKeeper p wi invokeProcessKeeperOK vaddr s = do {
     (wi, s) \<leftarrow> (if keeperGPT wi = UnknownGPT then rewalk p wi vaddr s else Some (wi, s));
     assert_that (wi_faultCode wi \<noteq> 0);
     case keeperGPT wi of
       GPT gpt \<Rightarrow> call_segment_keeper p gpt wi vaddr s
     | _ \<Rightarrow> if \<not> invokeProcessKeeperOK then Some s
           else do {
             s \<leftarrow> proc_SetFault p (wi_faultCode wi) vaddr s;
             yield_entry s } }"

section \<open>Calling a keeper keeps the invariant\<close>

lemma keeper_call_ok:
  assumes "resume_safe p s" "proc_curProcess (k_sched s) = Some p" "calls_ok s"
    and "proc_InvokeMyKeeper p oc w1 w2 w3 k arg data s = Some s'"
  shows "system_ok s'"
proof -
  let ?s = "upd_inv (keeper_message oc w1 w2 w3 k arg data) (BeginInvocation s)"
  have safe: "resume_safe p ?s" using assms(1) by (simp add: BeginInvocation_def)
  have f: "k_sched ?s = k_sched s" "keys ?s = keys s" "inv_key (k_inv ?s) = k" "invType (k_inv ?s) = IT_KeeperCall"
    "calls_ok ?s"
    using assms(3) calls_ok_cong [of ?s s] by (simp_all add: BeginInvocation_def keeper_message_def)
  show ?thesis
  proof (cases "keyBits_IsGateKey (keys s k)")
    case True
    have pa: "prompt_adjust ?s = ?s" using f(4) by (simp add: prompt_adjust_def Let_def invType_IsPrompt_def IT_defs)
    let ?e = "expect_message p ?s"
    have e: "keys ?e = keys s" "k_inv ?e = k_inv ?s" "calls_ok ?e"
      using f calls_ok_cong [of ?e ?s] by (simp_all add: expect_message_def on_proc_def)
    have h: "invoke_handler ?e = Some (ToGate ?e)" using True e f(3) by (auto simp: invoke_handler_def key_kinds)
    have call: "proc_DoKeyInvocation p ?s = Some s'" using assms(4) True f(2) by (simp add: proc_InvokeMyKeeper_def)
    then have "runState (procs (k_sched ?s) p) = RS_Running"
      using assms(2) f(1) by (auto simp: proc_DoKeyInvocation_def Let_def bind_eq_Some_conv)
    moreover have "system_ok ?s" by (rule resume_safe_system [OF safe])
    moreover have "procRoot ?s p \<noteq> None" using safe by (simp add: resume_safe_def)
    ultimately have "resume_safe p ?e" using start_safe [of ?s p p] assms(2) f(1) by (simp add: pa)
    with e(3) have "handled p (ToGate ?e)" by (simp add: handled_def)
    with DoKeyInvocation_ok [OF call, of p] h show ?thesis by (simp add: pa answers_as_start_def)
  next
    case False
    with assms(4) obtain x where x: "act_DeleteCurrent (k_sched s) = Some x" "s' = ?s\<lparr>k_sched := x\<rparr>"
      using f(1,2) by (auto simp: proc_InvokeMyKeeper_def on_sched_Some)
    have "lost_run (k_sched s) x" by (rule act_DeleteCurrent_runs [OF x(1)])
    then show ?thesis using safe f(1) unfolding x(2)
      by (intro system_okI) (auto simp: resume_safe_def resumes_ok_def lost_run_def)
  qed
qed

lemma use_keeperArg_simps [simp]:
  "resume_safe cur (use_keeperArg s) = resume_safe cur s" "k_sched (use_keeperArg s) = k_sched s" "calls_ok (use_keeperArg s) = calls_ok s"
  by (simp_all add: use_keeperArg_def)

lemma not_chained: "key_ring (keys s r) = None \<Longrightarrow> keyBits_Unchain r s = s"
  by (simp add: keyBits_Unchain_def)

lemma resume_safe_root: "resume_safe cur s \<Longrightarrow> procRoot s p = Some q \<Longrightarrow> root_ok s p q"
  by (simp add: resume_safe_def procs_loaded_def loaded_root_def root_ok_def)

lemma GetRegs32_frame:
  assumes "proc_GetRegs32 p r s = Some (b, r', s')"
  shows "s' = s \<or> (\<exists>g. s' = on_proc p (\<lambda>q. q\<lparr>processFlags := g q\<rparr>) s)"
  using assms by (auto simp: proc_GetRegs32_def proc_GetCommonRegs32_def Let_def bind_eq_Some_conv split: if_split_asm)

lemma process_keeper_ok:
  assumes "resume_safe p s" "proc_curProcess (k_sched s) = Some p" "calls_ok s" "key_ring (keys s KKeeperArg) = None"
    and "proc_InvokeProcessKeeper p s = Some s'"
  shows "system_ok s'"
proof -
  from assms(5) obtain b regs u root data where u: "proc_GetRegs32 p no_regs s = Some (b, regs, u)" "procRoot u p = Some root"
    and call: "proc_InvokeMyKeeper p OC_capros_ProcessKeeper_fault 0 0 0 (KSlot root ProcKeeper) KKeeperArg data
      (use_keeperArg (key_SetToProcess KKeeperArg p KKT_Process 0 u)) = Some s'"
    by (auto simp: proc_InvokeProcessKeeper_def Let_def bind_eq_Some_conv)
  have uf: "resume_safe p u" "proc_curProcess (k_sched u) = Some p" "calls_ok u" "key_ring (keys u KKeeperArg) = None"
  proof -
    note G = GetRegs32_frame [OF u(1)]
    show "resume_safe p u" using G assms(1) by (auto intro: rs.P_on_proc)
    show "proc_curProcess (k_sched u) = Some p" "key_ring (keys u KKeeperArg) = None" using G assms(2,4) by auto
    have "objs u = objs s" "nObjs u = nObjs s" using G by (auto simp: on_proc_def)
    then show "calls_ok u" using calls_ok_cong assms(3) by blast
  qed
  let ?v = "key_SetToProcess KKeeperArg p KKT_Process 0 u"
  note F = key_SetToProcess_frame [where s = u and d = KKeeperArg and p = p and t = KKT_Process and dat = 0, unfolded not_chained [OF uf(4)]]
  have "kern_inv ?v"
    using key_SetToProcess_inv [OF resume_safe_inv [OF uf(1)], of p root KKT_Process KKeeperArg 0] resume_safe_root [OF uf(1) u(2)]
    by (simp add: root_ok_def not_chained [OF uf(4)])
  moreover have "keyType (keys ?v KKeeperArg) \<noteq> KKT_Resume" unfolding F(4) by simp
  ultimately have "resume_safe p ?v" by (intro rs.P_make [OF uf(1) _ F(1,2,3)])
  moreover have "calls_ok ?v" using uf(3) calls_ok_world [OF F(1)] by simp
  ultimately show ?thesis using keeper_call_ok [OF _ _ _ call] uf(2) F(2) by simp
qed

section \<open>The walk for the segment keeper\<close>

text \<open>The walk prepares keys and marks nodes as parts of a memory tree.\<close>

lemma PrepAsSegment_safe:
  assumes "resume_safe cur s" "node_PrepAsSegment p s = Some t"
  shows "resume_safe cur t" "is_obj t = is_obj s" "calls_ok t = calls_ok s" "procRoot t = procRoot s" "k_sched t = k_sched s"
    "keys t = keys s"
proof -
  have t: "t = s \<or> obType (obj_at s p) = ot_NtUnprepared \<and> t = upd_obj p (\<lambda>ob. ob\<lparr>obType := ot_NtSegment\<rparr>) s"
    using assms(2) by (auto simp: node_PrepAsSegment_def split: if_split_asm)
  have inv: "kern_inv t" by (rule PrepAsSegment_view(2) [OF resume_safe_inv [OF assms(1)] assms(2)])
  have r: "resumable t c = resumable s c" "procs_loaded t = procs_loaded s" for c
    using t resumable_retype [of s p ot_NtSegment] by auto
  show f: "k_sched t = k_sched s" "procRoot t = procRoot s" "keys t = keys s" using t by auto
  have o: "is_obj t x = is_obj s x" "callCount (obj_at t x) = callCount (obj_at s x)" for x
    using t by (cases "x = p"; auto simp: is_obj_def obj_at_upd_obj)+
  then show "is_obj t = is_obj s" "calls_ok t = calls_ok s" by (simp_all add: fun_eq_iff calls_ok_def)
  show "resume_safe cur t" using assms(1) inv r f by (intro resume_safe_lost [OF assms(1)]) auto
qed

text \<open>What is kept through the walk: all pointers are to objects in memory.\<close>

definition walk_safe :: "proc_ptr \<Rightarrow> SegWalk \<Rightarrow> kern \<Rightarrow> bool" where
  "walk_safe cur wi s = (resume_safe cur s \<and> calls_ok s \<and> (\<forall>g. keeperGPT wi = GPT g \<longrightarrow> is_obj s g))"

definition walk_frame :: "kern \<Rightarrow> kern \<Rightarrow> bool" where
  "walk_frame s t = (procRoot t = procRoot s \<and> k_sched t = k_sched s \<and> is_obj t = is_obj s
     \<and> (key_ring (keys s KKeeperArg) = None \<longrightarrow> key_ring (keys t KKeeperArg) = None))"

lemma walk_frame_refl: "walk_frame s s"
  and walk_frame_trans: "walk_frame s t \<Longrightarrow> walk_frame t u \<Longrightarrow> walk_frame s u"
  by (auto simp: walk_frame_def)

lemma key_Prepare_frame:
  assumes "resume_safe cur s" "key_Prepare r s = Some t" "r \<noteq> KKeeperArg"
  shows "resume_safe cur t" "calls_ok t = calls_ok s" "walk_frame s t"
proof -
  note inv = resume_safe_inv [OF assms(1)]
  show "resume_safe cur t" using rs.post_prepare(1) [OF assms(1)] assms(2) by (simp add: ipost_def)
  note w = key_Prepare_world(1) [OF inv assms(2)]
  show "calls_ok t = calls_ok s" by (rule calls_ok_world [OF w])
  have "only_key r s t" using key_Prepare_result(1) [OF kern_inv_wf_objs [OF inv] assms(2)] .
  then show "walk_frame s t" using w assms(3) same_world_is_obj [OF w]
    by (auto simp: walk_frame_def only_key_def same_world_def fun_eq_iff)
qed

lemma processKey_safe:
  assumes "walk_safe cur wi s" "processKey wi r va s = Some (ok, wi', s')" "r \<noteq> KKeeperArg"
  shows "walk_safe cur wi' s' \<and> walk_frame s s' \<and> (ok \<longrightarrow> is_obj s' (memObj wi'))"
proof -
  have keep: "keeperGPT w' = keeperGPT wi \<and> (b \<longrightarrow> memObj w' = p) \<and> u = t"
    if "process_memory wi p k va t = Some (b, w', u)" for p k t b w' u
    using that by (auto simp: process_memory_def wi_fault_def Let_def split: option.split_asm if_split_asm)
  have safe: "resume_safe cur s" "calls_ok s" using assms(1) by (simp_all add: walk_safe_def)
  have obj: "is_obj t p" if "key_Prepare r s = Some t" "keyType (keys t r) \<in> {KKT_GPT, KKT_Page}" "key_pObj (keys t r) = Some p" for t p
  proof -
    have ob: "keyBits_IsObjectKey (keys t r)" "\<not> keyBits_IsProcessType (keys t r)" using that(2) by (auto simp: key_kinds)
    have "kern_inv t" using key_Prepare_frame(1) [OF safe(1) that(1) assms(3)] by (rule resume_safe_inv)
    from kern_inv_wf_key [OF this, of r] key_Prepare_prepared [OF resume_safe_inv [OF safe(1)] that(1) ob(1)] ob that(3)
    show ?thesis by (auto simp: wf_key_def key_pObj_def split: key_u.split_asm)
  qed
  from assms(2) show ?thesis
  proof (cases rule: processKey_cases)
    case (gpt t p u)
    note P = key_Prepare_frame [OF safe(1) gpt(1) assms(3)]
    note S = PrepAsSegment_safe [OF P(1) gpt(4)]
    have "walk_frame t u" using S by (simp add: walk_frame_def)
    then have f: "walk_frame s u" using P(3) walk_frame_trans by blast
    have "is_obj u p" using obj [OF gpt(1) _ gpt(3)] gpt(2) S(2) by simp
    with keep [OF gpt(5)] assms(1) P S f show ?thesis by (auto simp: walk_safe_def walk_frame_def)
  next
    case (page t p)
    note P = key_Prepare_frame [OF safe(1) page(1) assms(3)]
    have "is_obj t p" using obj [OF page(1) _ page(3)] page(2) by simp
    with keep [OF page(4)] assms(1) P show ?thesis by (auto simp: walk_safe_def walk_frame_def)
  next
    case other
    note P = key_Prepare_frame [OF safe(1) other(1) assms(3)]
    with other assms(1) show ?thesis by (auto simp: walk_safe_def walk_frame_def)
  qed
qed

lemma slot_key_safe:
  assumes "slot_key False wi s = Some sk"
  shows "case sk of SegKey k w t \<Rightarrow> t = s \<and> k \<noteq> KKeeperArg \<and> keeperGPT w = keeperGPT (at_gpt wi s) \<and> traverseCount w = traverseCount wi + 1
    | SegFault e w t \<Rightarrow> t = s \<and> keeperGPT w = keeperGPT (at_gpt wi s)"
  using assms
  by (auto simp: slot_key_def window_key_def in_slot_def Depend_AddKey_def Let_def bind_eq_Some_conv split: if_split_asm seg_gpt.split_asm)

lemma at_gpt_safe: "walk_safe cur wi s \<Longrightarrow> is_obj s (memObj wi) \<Longrightarrow> keeperGPT w = keeperGPT (at_gpt wi s) \<Longrightarrow> walk_safe cur w s"
  by (auto simp: walk_safe_def at_gpt_def note_keeper_def note_background_def Let_def split: if_split_asm)

lemma WalkSeg_one:
  assumes "WalkSeg False stop wi s = Some (ok, wi', s')"
  shows "s' = s \<and> keeperGPT wi' \<in> {keeperGPT wi, keeperGPT (at_gpt wi s)}
    \<or> (\<exists>k w1 b w2 s2. slot_key False wi s = Some (SegKey k w1 s) \<and> processKey w1 k (wi_offset w1) s = Some (b, w2, s2)
        \<and> (if b then WalkSeg False stop w2 s2 = Some (ok, wi', s') \<and> \<not> traverseCount wi + 1 \<ge> MAX_SEG_DEPTH
           else wi' = w2 \<and> s' = s2))"
proof -
  note st = trans [OF WalkSeg_step [symmetric] assms]
  show ?thesis
  proof (cases "\<not> objH_isNodeType (obj_at s (memObj wi)) \<or> gpt_l2v wi s < stop \<or> traverseCount wi + 1 \<ge> MAX_SEG_DEPTH
      \<or> gpt_index wi s > gpt_maxSlot (node_GetL2vField (obj_at s (memObj wi)))")
    case True
    with st show ?thesis by (intro disjI1) (auto simp: wi_fault_def split: if_split_asm)
  next
    case False
    then have st: "(case slot_key False wi s of
         None \<Rightarrow> None
       | Some (SegFault code wi s) \<Rightarrow> wi_fault code wi s
       | Some (SegKey k wi s) \<Rightarrow>
           (case processKey wi k (wi_offset wi) s of
              None \<Rightarrow> None
            | Some (False, wi, s) \<Rightarrow> Some (False, wi, s)
            | Some (True, wi, s) \<Rightarrow> WalkSeg False stop wi (Depend_AddKey False k s))) = Some (ok, wi', s')"
      and n: "\<not> traverseCount wi + 1 \<ge> MAX_SEG_DEPTH"
      using st by (simp_all split: if_split_asm)
    then obtain sk where sk: "slot_key False wi s = Some sk" by (auto split: option.split_asm)
    show ?thesis
    proof (cases sk)
      case (SegFault e w u)
      with slot_key_safe [OF sk] st sk show ?thesis by (intro disjI1) (auto simp: wi_fault_def)
    next
      case (SegKey k w u)
      then have u: "u = s" "slot_key False wi s = Some (SegKey k w s)" using slot_key_safe [OF sk] sk by simp_all
      with st obtain b w2 s2 where "processKey w k (wi_offset w) s = Some (b, w2, s2)"
        "(if b then WalkSeg False stop w2 s2 else Some (False, w2, s2)) = Some (ok, wi', s')"
        by (auto simp: Depend_AddKey_def split: option.split_asm bool.split_asm)
      with u n show ?thesis by (intro disjI2) (auto split: if_split_asm)
    qed
  qed
qed

lemma WalkSeg_safe:
  assumes "WalkSeg False stop wi s = Some (ok, wi', s')" "walk_safe cur wi s" "is_obj s (memObj wi)"
  shows "walk_safe cur wi' s' \<and> walk_frame s s'"
  using assms
proof (induction "steps_left (traverseCount wi)" arbitrary: wi s rule: less_induct)
  case less
  note at = at_gpt_safe [OF less(3,4)]
  consider "s' = s" "keeperGPT wi' \<in> {keeperGPT wi, keeperGPT (at_gpt wi s)}"
    | k w1 where "slot_key False wi s = Some (SegKey k w1 s)" "processKey w1 k (wi_offset w1) s = Some (False, wi', s')"
    | k w1 w2 s2 where "slot_key False wi s = Some (SegKey k w1 s)" "processKey w1 k (wi_offset w1) s = Some (True, w2, s2)"
      "WalkSeg False stop w2 s2 = Some (ok, wi', s')" "\<not> traverseCount wi + 1 \<ge> MAX_SEG_DEPTH"
    using WalkSeg_one [OF less(2)] by (auto split: if_split_asm)
  then show ?case
  proof cases
    case 1
    with less(3) at show ?thesis by (auto simp: walk_frame_refl walk_safe_def)
  next
    case (2 k w1)
    from slot_key_safe [OF 2(1)] have w1: "k \<noteq> KKeeperArg" "walk_safe cur w1 s" using at by auto
    from processKey_safe [OF w1(2) 2(2) w1(1)] show ?thesis by blast
  next
    case (3 k w1 w2 s2)
    from slot_key_safe [OF 3(1)] have w1: "k \<noteq> KKeeperArg" "walk_safe cur w1 s" "traverseCount w1 = traverseCount wi + 1" using at by auto
    note p = processKey_safe [OF w1(2) 3(2) w1(1)]
    have "steps_left (traverseCount w2) < steps_left (traverseCount wi)"
      using processKey_count [OF 3(2)] w1(3) steps_left_less [OF 3(4)] by simp
    from less(1) [OF this 3(3)] p walk_frame_trans show ?thesis by blast
  qed
qed

lemma fault_ok:
  assumes "system_ok s" "proc_SetFault p code info s = Some u" "yield_entry u = Some s'"
  shows "system_ok s'"
  using assms by (intro yield_entry_ok [OF _ assms(3)]) (auto simp: proc_SetFault_def bind_eq_Some_conv system_ok_def resumes_ok_def)

lemma rewalk_safe:
  assumes "resume_safe cur s" "calls_ok s" "rewalk p wi vaddr s = Some (w, t)"
  shows "walk_safe cur w t" "walk_frame s t"
proof -
  let ?w = "wi\<lparr>traverseCount := 0, restrictions := 0, backgroundGPT := NoGPT, keeperGPT := NoGPT\<rparr>"
  from assms(3) obtain root ok w1 s1 where p: "processKey ?w (KSlot root ProcAddrSpace) (ucast vaddr) s = Some (ok, w1, s1)"
    and r: "if ok then \<exists>b. WalkSeg False EROS_PAGE_LGSIZE w1 s1 = Some (b, w, t) else w = w1 \<and> t = s1"
    by (auto simp: rewalk_def segwalk_init_def Depend_AddKey_def bind_eq_Some_conv split: if_split_asm)
  have "walk_safe cur ?w s" using assms(1,2) by (simp add: walk_safe_def)
  from processKey_safe [OF this p] r have "walk_safe cur w t \<and> walk_frame s t"
    by (cases ok) (auto dest: WalkSeg_safe intro: walk_frame_trans)
  then show "walk_safe cur w t" "walk_frame s t" by simp_all
qed

lemma segment_keeper_ok:
  assumes "walk_safe p wi s" "proc_curProcess (k_sched s) = Some p" "key_ring (keys s KKeeperArg) = None"
    and "is_obj s gpt" "call_segment_keeper p gpt wi vaddr s = Some s'"
  shows "system_ok s'"
proof -
  let ?u = "on_proc p (\<lambda>q. q\<lparr>faultCode := wi_faultCode wi, faultInfo := vaddr\<rparr>) s"
  from assms(5) obtain v oc w1 w2 w3 where ty: "obType (obj_at s gpt) = ot_NtSegment"
    and v: "key_SetToObj KKeeperArg gpt KKT_GPT 0 0 ?u = Some v"
    and call: "proc_InvokeMyKeeper p oc w1 w2 w3 (KSlot gpt capros_GPT_keeperSlot) KKeeperArg []
      (use_keeperArg (upd_key KKeeperArg (keyBits_SetL2g (keys v KKeeperArg) 64) v)) = Some s'"
    by (auto simp: call_segment_keeper_def Let_def bind_eq_Some_conv)
  have u: "resume_safe p ?u" "calls_ok ?u" "is_obj ?u gpt" "objH_GetBaseType (obj_at ?u gpt) = base_of KKT_GPT"
  proof -
    show "resume_safe p ?u" using assms(1) by (auto simp: walk_safe_def quiet_proc_def intro!: rs.P_on_proc)
    show "calls_ok ?u" using assms(1) calls_ok_cong [of ?u s] by (simp add: walk_safe_def on_proc_def)
    have o: "is_obj ?u = is_obj s" "obj_at ?u = obj_at s" by (simp_all add: on_proc_def is_obj_def obj_at_def fun_eq_iff)
    show "is_obj ?u gpt" "objH_GetBaseType (obj_at ?u gpt) = base_of KKT_GPT"
      using assms(4) ty by (simp_all add: o objH_GetBaseType_def base_of_def)
  qed
  have nc: "keyBits_Unchain KKeeperArg ?u = ?u" using assms(3) by (simp add: not_chained)
  have "key_SetToObj KKeeperArg gpt KKT_GPT 0 0 (keyBits_Unchain KKeeperArg ?u) = Some v" using v nc by simp
  note F = key_SetToObj_frame [OF this]
  have "resume_safe p v" using rs.SetToObj_post [OF u(1,3,4), of KKeeperArg 0 0] v nc by (simp add: ipost_def)
  then have "resume_safe p (upd_key KKeeperArg (keyBits_SetL2g (keys v KKeeperArg) 64) v)"
    using F(4) by (intro rs.P_lax) (simp_all add: restricts_lax_def keyBits_SetL2g_def and.assoc [symmetric])
  moreover have "calls_ok (upd_key KKeeperArg (keyBits_SetL2g (keys v KKeeperArg) 64) v)"
    using calls_ok_cong [of "upd_key KKeeperArg (keyBits_SetL2g (keys v KKeeperArg) 64) v" v] calls_ok_world [OF F(1)] u(2) by simp
  ultimately show ?thesis using keeper_call_ok [OF _ _ _ call] F(2) assms(2) by simp
qed

text \<open>A process without a keeper: the key for the keeper stays linked.\<close>

lemma no_keeper_leaves_key:
  assumes "proc_InvokeProcessKeeper p s = Some s'" "procRoot s p = Some root" "\<not> keyBits_IsGateKey (keys s (KSlot root ProcKeeper))"
  shows "key_ring (keys s' KKeeperArg) = Some (ProcRing p)"
proof -
  from assms(1) obtain b regs u root' data where u: "proc_GetRegs32 p no_regs s = Some (b, regs, u)" "procRoot u p = Some root'"
    and call: "proc_InvokeMyKeeper p OC_capros_ProcessKeeper_fault 0 0 0 (KSlot root' ProcKeeper) KKeeperArg data
      (use_keeperArg (key_SetToProcess KKeeperArg p KKT_Process 0 u)) = Some s'"
    by (auto simp: proc_InvokeProcessKeeper_def Let_def bind_eq_Some_conv)
  let ?v = "use_keeperArg (key_SetToProcess KKeeperArg p KKT_Process 0 u)"
  have f: "keys u = keys s" "root' = root" using GetRegs32_frame [OF u(1)] assms(2) u(2) by auto
  then have "\<not> keyBits_IsGateKey (keys ?v (KSlot root' ProcKeeper))"
    using assms(3) by (simp add: use_keeperArg_def key_SetToProcess_def Let_def link_insertAfter_def)
  with call have "keys s' = keys ?v" by (auto simp: proc_InvokeMyKeeper_def BeginInvocation_def on_sched_Some)
  then show ?thesis
    by (simp add: use_keeperArg_def key_SetToProcess_def Let_def link_insertAfter_def keyBits_InitType_def key_ring_def
        keyBits_IsPreparedObjectKey_def key_kinds key_flag_bits keyBits_SetPrepared_def KFL_PREPARED_def key_pContext_def)
qed

text \<open>
  C4. Faults: when a fault of the running process is passed to the keeper of the process or to the
  keeper of its memory, the invariant of the system is kept, whether a message goes to the
  keeper, the process waits for the keeper, has no keeper, or the fault is left in the process for the
  scheduler. This needs that the key that the kernel passes to the keeper is not linked when the fault
  occurs, and that the GPT that a walk found is in memory. But the fault of a process without a
  keeper leaves the key linked on the ring of the process: it is not cleaned up before
  the next activity is chosen, whose fault can come first.
\<close>

theorem fault_keeps_system_ok:
  assumes "system_ok s" "proc_curProcess (k_sched s) = Some p" "runState (procs (k_sched s) p) = RS_Running"
    and "procRoot s p = Some root" "calls_ok s" "key_ring (keys s KKeeperArg) = None"
    and "\<And>g. keeperGPT wi = GPT g \<Longrightarrow> is_obj s g"
    and "fault = proc_InvokeProcessKeeper p \<or> fault = proc_InvokeSegmentKeeper p wi invokeProcessKeeperOK vaddr" "fault s = Some s'"
  shows "system_ok s'
    \<and> (fault = proc_InvokeProcessKeeper p \<longrightarrow> \<not> keyBits_IsGateKey (keys s (KSlot root ProcKeeper))
        \<longrightarrow> key_ring (keys s' KKeeperArg) = Some (ProcRing p))"
proof -
  have safe: "resume_safe p s" using resume_safe_start [OF assms(1-3)] assms(4) by simp
  have "system_ok s'" if "proc_InvokeSegmentKeeper p wi invokeProcessKeeperOK vaddr s = Some s'"
  proof -
    from that obtain w t where t: "if keeperGPT wi = UnknownGPT then rewalk p wi vaddr s = Some (w, t) else w = wi \<and> t = s"
      and c: "case keeperGPT w of GPT gpt \<Rightarrow> call_segment_keeper p gpt w vaddr t = Some s'
        | _ \<Rightarrow> s' = t \<or> (\<exists>u. proc_SetFault p (wi_faultCode w) vaddr t = Some u \<and> yield_entry u = Some s')"
      unfolding proc_InvokeSegmentKeeper_def
      by (auto simp: bind_eq_Some_conv split: if_split_asm seg_gpt.split_asm)
    have w: "walk_safe p w t" "walk_frame s t"
      using t rewalk_safe [OF safe assms(5), of p wi vaddr w t] safe assms(5,7) walk_frame_refl [of s]
      by (auto simp: walk_safe_def split: if_split_asm)
    have f: "proc_curProcess (k_sched t) = Some p" "key_ring (keys t KKeeperArg) = None" using w(2) assms(2,6) by (simp_all add: walk_frame_def)
    have ok: "system_ok t" using w(1) resume_safe_system by (auto simp: walk_safe_def)
    show ?thesis
    proof (cases "keeperGPT w")
      case (GPT g)
      with w(1) c segment_keeper_ok [OF w(1) f] show ?thesis by (auto simp: walk_safe_def)
    qed (use c ok fault_ok in auto)
  qed
  with assms(8,9) process_keeper_ok [OF safe assms(2,5,6)] no_keeper_leaves_key [OF _ assms(4)] show ?thesis by blast
qed

text \<open>In the example, process 1 has no keeper: it loses its activity.\<close>

lemma ex_fault_regs:
  "\<exists>regs x. proc_GetRegs32 1 no_regs ex_gate = Some (True, regs, ex_gate\<lparr>k_sched := x\<rparr>) \<and> x = upd_proc 1 (\<lambda>q. q\<lparr>processFlags := processFlags q AND NOT capros_Process_PF_ExpectingMessage\<rparr>) ex_sched"
  by (simp add: proc_GetRegs32_def proc_GetCommonRegs32_def proc_IsRunnable_def Let_def on_proc_def ex_sched_def ex_proc_def)

lemma ex_fault_delete: "\<exists>x. act_DeleteCurrent (upd_proc 1 (\<lambda>q. q\<lparr>processFlags := f q\<rparr>) ex_sched) = Some x"
  by (simp add: act_DeleteCurrent_def ex_sched_def ex_act_def ex_proc_def proc_Deactivate_def act_DeleteActivity_def act_ForceResched_def
      act_FreeActivity_def act_Enqueue_def pr_Reserve_def Let_def)

lemma no_keeper:
  assumes "\<not> keyBits_IsGateKey (keys s k)" "\<exists>x. act_DeleteCurrent (k_sched s) = Some x"
  shows "\<exists>s'. proc_InvokeMyKeeper p oc w1 w2 w3 k arg data s = Some s'"
  using assms by (auto simp: proc_InvokeMyKeeper_def on_sched_def BeginInvocation_def)

theorem fault_keeps_system_ok_witness:
  "\<exists>s'. proc_InvokeProcessKeeper 1 ex_gate = Some s' \<and> system_ok s' \<and> key_ring (keys s' KKeeperArg) = Some (ProcRing 1)"
proof -
  obtain regs x where r: "proc_GetRegs32 1 no_regs ex_gate = Some (True, regs, ex_gate\<lparr>k_sched := x\<rparr>)"
    and x: "\<exists>y. act_DeleteCurrent x = Some y" using ex_fault_regs ex_fault_delete by auto
  let ?s = "use_keeperArg (key_SetToProcess KKeeperArg 1 KKT_Process 0 (ex_gate\<lparr>k_sched := x\<rparr>))"
  have "\<not> keyBits_IsGateKey (keys ?s (KSlot 3 ProcKeeper))" "k_sched ?s = x"
    by (simp_all add: use_keeperArg_def key_SetToProcess_def Let_def link_insertAfter_def ex_key_defs key_kinds)
  from no_keeper [of ?s, OF this(1)] this(2) x have "\<exists>s'. proc_InvokeProcessKeeper 1 ex_gate = Some s'"
    using r by (simp add: proc_InvokeProcessKeeper_def Let_def)
  then obtain s' where s': "proc_InvokeProcessKeeper 1 ex_gate = Some s'" by blast
  have cur: "proc_curProcess (k_sched ex_gate) = Some 1" "runState (procs (k_sched ex_gate) 1) = RS_Running"
    "procRoot ex_gate 1 = Some 3" "key_ring (keys ex_gate KKeeperArg) = None" by (simp_all add: ex_sched_def ex_key_defs key_ring_def keyBits_IsPreparedObjectKey_def key_kinds key_flag_bits)
  have k: "\<not> keyBits_IsGateKey (keys ex_gate (KSlot 3 ProcKeeper))" by (simp add: ex_key_defs key_kinds)
  have g: "is_obj ex_gate g" if "keeperGPT (ex_walk False) = GPT g" for g using that by (simp add: ex_walk_def)
  show ?thesis using fault_keeps_system_ok [OF ex_gate_ok cur(1-3) ex_gate_calls cur(4) g disjI1 [OF refl] s'] s' k by blast
qed

end
