(* ===== verification/Sched_Props.thy ===== *)
theory Sched_Props
  imports Dispatch
begin

text \<open>
  The scheduler as a state machine: the events that move activities between queues
  (sys/kernel/kern_Activity.c), among them the transfer of an activity by an invocation. Every
  reachable state is consistent, the activity that runs next is the first of the highest
  priority, and waking a queue ends with all its activities ready.
\<close>

section \<open>Rescheduling\<close>

text \<open>
  The part of \<^verbatim>\<open>HandleDeferredWork\<close> that handles \<^verbatim>\<open>dw_reschedule\<close>: the current activity, when it
  still runs, goes to the end of its queue.
\<close>

definition requeue_current :: "sched \<Rightarrow> sched option" where
  "requeue_current x =
     (case act_curActivity x of
        None \<Rightarrow> Some x
      | Some c \<Rightarrow> if act_state (acts x c) = act_Running then readyq_Timeout c x else Some x)"

definition HandleDeferredWork_reschedule :: "sched \<Rightarrow> sched option" where
  "HandleDeferredWork_reschedule x =
     (if dw_reschedule x then do {
        x \<leftarrow> requeue_current (x\<lparr>dw_reschedule := False\<rparr>);
        act_ChooseNewCurrentActivity x }
      else Some x)"

section \<open>Frames\<close>

definition sched_frame :: "sched \<Rightarrow> sched \<Rightarrow> bool" where
  "sched_frame x y = (nActivity y = nActivity x \<and> (map_ok x \<longrightarrow> map_ok y)
     \<and> (\<forall>c. act_curActivity y = Some c \<longrightarrow> act_curActivity x = Some c \<or> c < nActivity x)
     \<and> (\<forall>p a. curActivity (procs y p) = Some a \<longrightarrow> curActivity (procs x p) = Some a \<or> a < nActivity x))"

lemma sched_frame_refl [simp]: "sched_frame x x"
  by (simp add: sched_frame_def)

lemma sched_frame_trans:
  assumes "sched_frame x y" "sched_frame y z"
  shows "sched_frame x z"
proof -
  have n: "nActivity y = nActivity x" "nActivity z = nActivity x" "map_ok x \<longrightarrow> map_ok z"
    using assms by (auto simp: sched_frame_def)
  have "\<forall>c. act_curActivity z = Some c \<longrightarrow> act_curActivity x = Some c \<or> c < nActivity x"
    using assms n unfolding sched_frame_def by metis
  moreover have "\<forall>p a. curActivity (procs z p) = Some a \<longrightarrow> curActivity (procs x p) = Some a \<or> a < nActivity x"
    using assms n unfolding sched_frame_def by metis
  ultimately show ?thesis using n by (simp add: sched_frame_def)
qed

lemma sched_frameI:
  assumes "nActivity y = nActivity x" "act_RunQueueMap y = act_RunQueueMap x"
    "act_curActivity y \<in> {act_curActivity x, None}"
    "\<And>p. curActivity (procs y p) \<in> {curActivity (procs x p), None}"
  shows "sched_frame x y"
proof -
  have "\<forall>p a. curActivity (procs y p) = Some a \<longrightarrow> curActivity (procs x p) = Some a"
    using assms(4) by (metis empty_iff insert_iff option.distinct(1))
  then show ?thesis using assms(1-3) by (auto simp: sched_frame_def map_ok_def)
qed

lemma act_Wakeup_frame:
  assumes "act_Wakeup t x = Some x'"
  shows "sched_frame x x'"
proof -
  from act_Wakeup_result [OF assms] obtain n y where n: "n \<le> capros_SchedC_Priority_Max" "n \<noteq> pr_Reserve"
    and y: "x'\<lparr>dw_reschedule := False\<rparr> = y\<lparr>dw_reschedule := False\<rparr>"
    and f: "procs y = procs x" "act_curActivity y = act_curActivity x" "nActivity y = nActivity x"
      "act_RunQueueMap y = act_RunQueueMap x OR push_bit n 1" by force
  have "procs x' = procs x" "act_curActivity x' = act_curActivity x" "nActivity x' = nActivity x"
      "act_RunQueueMap x' = act_RunQueueMap x OR push_bit n 1"
    using arg_cong [OF y, of procs] arg_cong [OF y, of act_curActivity] arg_cong [OF y, of nActivity]
      arg_cong [OF y, of act_RunQueueMap] f by simp_all
  then show ?thesis using n by (auto simp: sched_frame_def map_ok_def bit_simps)
qed

lemma act_SleepOn_frame: "act_SleepOn q x = Some x' \<Longrightarrow> sched_frame x x'"
  by (rule sched_frameI) (auto simp: act_SleepOn_def act_Enqueue_def Let_def bind_eq_Some_conv)

lemma act_SleepUntilTick_frame: "act_SleepUntilTick t k x = Some x' \<Longrightarrow> sched_frame x x'"
  by (rule sched_frameI) (auto simp: act_SleepUntilTick_def sysT_AddSleeper_def Let_def bind_eq_Some_conv)

lemma link_Unlink_frame [simp]: "sched_frame x (link_Unlink t x)"
  by (rule sched_frameI) simp_all

lemma act_AllocActivity_frame:
  assumes "act_AllocActivity x = Some (a, x')"
  shows "sched_frame x x'"
proof -
  from assms obtain as where "queues x SQ_Free = a # as"
    and x': "x' = upd_act a (act_actHazard_update (\<lambda>_. actHaz_None))
      ((link_Unlink a x)\<lparr>numFreeActivities := numFreeActivities x - 1\<rparr>)"
    by (auto simp: act_AllocActivity_def act_DequeueNext_def bind_eq_Some_conv split: list.splits)
  then show ?thesis unfolding x' by (intro sched_frameI) simp_all
qed

lemma act_FreeActivity_frame: "act_FreeActivity a x = Some x' \<Longrightarrow> sched_frame x x'"
  by (rule sched_frameI) (auto simp: act_FreeActivity_def act_Enqueue_def bind_eq_Some_conv)

lemma act_DeleteActivity_frame:
  assumes "act_DeleteActivity a x = Some x'"
  shows "sched_frame x x'"
proof -
  let ?y = "act_ForceResched (x\<lparr>act_curActivity := None, proc_curProcess := None\<rparr>)"
  from assms obtain y where y: "y = x \<or> y = ?y" and x': "act_FreeActivity a y = Some x'"
    by (auto simp: act_DeleteActivity_def Let_def bind_eq_Some_conv split: if_split_asm)
  have "sched_frame x ?y" by (rule sched_frameI) (simp_all add: act_ForceResched_def)
  with y x' show ?thesis by (metis sched_frame_refl sched_frame_trans act_FreeActivity_frame)
qed

lemma deactivate_frame [simp]: "sched_frame x (upd_proc p (curActivity_update (\<lambda>_. None)) x)"
  by (rule sched_frameI) simp_all

lemma curProcess_frame [simp]:
  "sched_frame x (y\<lparr>proc_curProcess := p\<rparr>) = sched_frame x y"
  "sched_frame x (y\<lparr>allocatedActivity := a\<rparr>) = sched_frame x y"
  "sched_frame x (y\<lparr>dw_reschedule := b\<rparr>) = sched_frame x y"
  by (simp_all add: sched_frame_def map_ok_def)

lemma act_DeleteCurrent_frame:
  assumes "act_DeleteCurrent x = Some x'"
  shows "sched_frame x x'"
proof -
  from assms obtain a x1 where x1: "x1 = x \<or> (\<exists>p. x1 = upd_proc p (curActivity_update (\<lambda>_. None)) x)"
    and x': "act_DeleteActivity a (x1\<lparr>proc_curProcess := None\<rparr>) = Some x'"
    by (auto simp: act_DeleteCurrent_def bind_eq_Some_conv proc_Deactivate_Some split: option.splits)
  have "sched_frame x (x1\<lparr>proc_curProcess := None\<rparr>)" using x1 by auto
  then show ?thesis using act_DeleteActivity_frame [OF x'] by (rule sched_frame_trans)
qed

lemma proc_ClearActivity_frame:
  assumes "proc_ClearActivity p x = Some (a, x')"
  shows "sched_frame x x'"
proof -
  have "sched_frame x (upd_proc p (curActivity_update (\<lambda>_. None)) (link_Unlink a x))"
    by (rule sched_frameI) simp_all
  with assms show ?thesis
    by (auto simp: proc_ClearActivity_def proc_Deactivate_Some act_Dequeue_def bind_eq_Some_conv)
qed

lemma delete_proc_activity_frame: "delete_proc_activity p x = Some x' \<Longrightarrow> sched_frame x x'"
  by (auto simp: delete_proc_activity_def bind_eq_Some_conv
      intro: sched_frame_trans act_DeleteActivity_frame proc_ClearActivity_frame)

lemma act_AssignToRunnable_frame:
  assumes "act_AssignToRunnable a p x = Some x'" "a < nActivity x"
  shows "sched_frame x x'"
  using act_AssignToRunnable_result [OF assms(1)] assms(2) by (auto simp: sched_frame_def map_ok_def)

lemma MigrateAllocatedActivity_frame:
  assumes "MigrateAllocatedActivity p x = Some x'" "allocatedActivity x = Some a" "a < nActivity x"
  shows "sched_frame x x'"
proof (cases "act_state (acts x a) = act_Running")
  case True
  with assms(1,2) obtain x1 where x1: "x1 = x \<or> (\<exists>q. x1 = upd_proc q (curActivity_update (\<lambda>_. None)) x)"
    and x': "act_AssignToRunnable a p x1 = Some x'"
    by (auto simp: MigrateAllocatedActivity_def bind_eq_Some_conv proc_Deactivate_Some split: option.splits)
  have "sched_frame x x1" "a < nActivity x1" using x1 assms(3) by auto
  with act_AssignToRunnable_frame [OF x'] show ?thesis by (blast intro: sched_frame_trans)
next
  case False
  with assms(1,2) obtain x1 where "act_AssignToRunnable a p x = Some x1" "act_Wakeup a x1 = Some x'"
    by (auto simp: MigrateAllocatedActivity_def bind_eq_Some_conv)
  with assms(3) show ?thesis by (blast intro: sched_frame_trans act_AssignToRunnable_frame act_Wakeup_frame)
qed

lemma sq_WakeAll_frame:
  assumes "sq_WakeAll q x = Some x'"
  shows "sched_frame x x'"
proof -
  have "(case (q, x) of (q, x) \<Rightarrow> sched_frame x) x'"
  proof (rule sq_WakeAll.raw_induct)
    show "(case (q, x) of (q, x) \<Rightarrow> sq_WakeAll q x) = Some x'" using assms by simp
  next
    fix WakeAll q x x'
    assume IH: "\<And>q x x'. WakeAll q x = Some x' \<Longrightarrow> sched_frame x x'"
      and w: "(case act_DequeueNext q x of (None, x) \<Rightarrow> Some x
          | (Some t, x) \<Rightarrow> assert_that (act_ValidateActivity t x) \<bind> (\<lambda>_. act_Wakeup t x \<bind> WakeAll q)) = Some x'"
    show "sched_frame x x'"
    proof (cases "queues x q")
      case Nil
      with w show ?thesis by (simp add: act_DequeueNext_def)
    next
      case (Cons t ts)
      with w obtain y where "act_Wakeup t (link_Unlink t x) = Some y" "WakeAll q y = Some x'"
        by (auto simp: act_DequeueNext_def bind_eq_Some_conv)
      then show ?thesis by (blast intro: sched_frame_trans link_Unlink_frame act_Wakeup_frame IH)
    qed
  qed
  then show ?thesis by simp
qed

section \<open>Consistent schedules\<close>

definition sched_ok :: "sched \<Rightarrow> bool" where
  "sched_ok x = (sched_inv {} x \<and> map_ok x \<and> (\<forall>c. act_curActivity x = Some c \<longrightarrow> c < nActivity x)
     \<and> (\<forall>p a. curActivity (procs x p) = Some a \<longrightarrow> a < nActivity x))"

lemma sched_ok_frame:
  assumes "sched_ok x" "sched_frame x y" "sched_inv {} y"
  shows "sched_ok y"
  using assms unfolding sched_ok_def sched_frame_def by metis

lemma sched_ok_inv: "sched_ok x \<Longrightarrow> sched_inv {} x"
  by (simp add: sched_ok_def)

lemma sched_inv_proc:
  assumes "\<And>q. curActivity (f q) = curActivity q" "sched_inv L x"
  shows "sched_inv L (upd_proc p f x)"
proof (rule sched_invI)
  note D = sched_invD [OF assms(2)]
  show "pairs_ok L (upd_proc p f x)" by (rule pairs_ok_same [OF D(3)]) (simp_all add: assms(1))
qed (use sched_invD [OF assms(2)] in \<open>simp_all add: queues_ok_def states_ok_def run_ok_def sleepers_ok_def free_ok_def\<close>)

lemma sched_inv_weaken:
  assumes "sched_inv L x" "act_q (acts x t) = None" "t < nActivity x"
  shows "sched_inv (insert t L) x"
  using sched_inv_Unlink [OF assms(1) _ assms(3)] assms(2) by (simp add: link_Unlink_def)

lemma requeue_current_ok:
  assumes "sched_ok x" "requeue_current x = Some y"
  shows "sched_ok y \<and> (\<forall>a < nActivity y. act_state (acts y a) \<noteq> act_Running)"
proof (cases "\<exists>c. act_curActivity x = Some c \<and> act_state (acts x c) = act_Running")
  case False
  then have "y = x" using assms(2) by (auto simp: requeue_current_def split: option.splits)
  moreover have "act_state (acts x a) \<noteq> act_Running" if "a < nActivity x" for a
    using sched_inv_state [OF sched_ok_inv [OF assms(1)] that] False
    by (auto simp: state_ok_def)
  ultimately show ?thesis using assms(1) by simp
next
  case True
  then obtain c where c: "act_curActivity x = Some c" "act_state (acts x c) = act_Running" by blast
  with assms(2) have w: "act_Wakeup c x = Some y" by (simp add: requeue_current_def readyq_Timeout_def)
  have cn: "c < nActivity x" using assms(1) c(1) by (simp add: sched_ok_def)
  have q: "act_q (acts x c) = None" using sched_inv_state [OF sched_ok_inv [OF assms(1)] cn] c(2) by (simp add: state_ok_def)
  have "sched_inv ({c} - {c}) y"
  proof (rule act_Wakeup_inv [OF sched_inv_weaken [OF sched_ok_inv [OF assms(1)] q cn] _ w])
    show "act_proc (acts x c) = Some p \<Longrightarrow> curActivity (procs x p) = Some c" for p
      using pairs_okD(2) [OF sched_invD(3) [OF sched_ok_inv [OF assms(1)]]] by blast
  qed simp
  then have ok: "sched_ok y" using sched_ok_frame [OF assms(1) act_Wakeup_frame [OF w]] by simp
  from act_Wakeup_result [OF w] obtain n where n: "y\<lparr>dw_reschedule := False\<rparr> =
        (upd_act c (\<lambda>a. a\<lparr>act_q := Some (SQ_Ready (RQ_Prio n)), act_state := act_Ready\<rparr>)
          (x\<lparr>act_RunQueueMap := act_RunQueueMap x OR push_bit n 1,
             queues := (queues x)(SQ_Ready (RQ_Prio n) := queues x (SQ_Ready (RQ_Prio n)) @ [c])\<rparr>))\<lparr>dw_reschedule := False\<rparr>"
    by blast
  have "act_state (acts y c) = act_Ready" using arg_cong [OF n, of "\<lambda>z. act_state (acts z c)"] by simp
  moreover have "act_curActivity y = Some c" using arg_cong [OF n, of act_curActivity] c(1) by simp
  ultimately have "act_state (acts y a) \<noteq> act_Running" if "a < nActivity y" for a
    using sched_inv_state [OF sched_ok_inv [OF ok] that] by (auto simp: state_ok_def)
  with ok show ?thesis by blast
qed

lemma top_queue_exists:
  assumes "run_ok x" "queues x (SQ_Ready (RQ_Prio m)) \<noteq> []"
  shows "\<exists>n \<ge> m. top_queue x n"
proof -
  let ?N = "{n. queues x (SQ_Ready (RQ_Prio n)) \<noteq> []}"
  have "?N \<subseteq> {..capros_SchedC_Priority_Max}" using assms(1) by (auto simp: run_ok_def)
  then have fin: "finite ?N" by (rule finite_subset) simp
  have "Max ?N \<in> ?N" using assms(2) by (intro Max_in [OF fin]) blast
  moreover have "n \<le> Max ?N" if "n \<in> ?N" for n using fin that by simp
  ultimately show ?thesis using assms(2) unfolding top_queue_def by (intro exI [of _ "Max ?N"]) (auto simp: not_le [symmetric])
qed

lemma choose_queue_nonempty: "choose_queue x = Some (m, y) \<Longrightarrow> queues x (SQ_Ready (RQ_Prio m)) \<noteq> []"
proof (induction x rule: choose_queue.induct)
  case (1 x)
  then show ?case by (subst (asm) (2) choose_queue.simps) (auto simp: Let_def clear_run_bit_def split: if_splits)
qed

lemma ChooseNew_ok:
  assumes "sched_ok x" "act_ChooseNewCurrentActivity x = Some y" "\<And>a. a < nActivity x \<Longrightarrow> act_state (acts x a) \<noteq> act_Running"
  shows "sched_ok y"
proof -
  note inv = sched_ok_inv [OF assms(1)]
  have map: "map_ok x" using assms(1) by (simp add: sched_ok_def)
  from assms(2) obtain m z where m: "choose_queue x = Some (m, z)" "m > capros_SchedC_Priority_Never"
    by (auto simp: act_ChooseNewCurrentActivity_def bind_eq_Some_conv)
  from top_queue_exists [OF sched_invD(4) [OF inv] choose_queue_nonempty [OF m(1)]]
  obtain n where n: "n \<ge> m" "top_queue x n" by blast
  let ?q = "queues x (SQ_Ready (RQ_Prio n))"
  from act_ChooseNewCurrentActivity_correct [OF inv map n(2) _ assms(3)] n(1) m(2) assms(2)
  have y: "sched_inv {} y" "map_ok y" "act_curActivity y = Some (hd ?q)" "procs y = procs x"
    "nActivity y = nActivity x" by auto
  have "hd ?q \<in> set ?q" using n(2) by (simp add: top_queue_def)
  then have "hd ?q < nActivity x"
    using sched_inv_queue [OF inv] sched_inv_queued [OF inv] by blast
  with y assms(1) show ?thesis by (simp add: sched_ok_def)
qed

lemma sched_ok_simps [simp]:
  "sched_ok (x\<lparr>dw_reschedule := b\<rparr>) = sched_ok x" "sched_ok (x\<lparr>allocatedActivity := a\<rparr>) = sched_ok x"
  by (simp_all add: sched_ok_def map_ok_def)

lemma reschedule_ok:
  assumes "sched_ok x" "HandleDeferredWork_reschedule x = Some y"
  shows "sched_ok y"
proof (cases "dw_reschedule x")
  case True
  with assms(2) obtain z where z: "requeue_current (x\<lparr>dw_reschedule := False\<rparr>) = Some z"
    "act_ChooseNewCurrentActivity z = Some y"
    by (auto simp: HandleDeferredWork_reschedule_def bind_eq_Some_conv)
  with requeue_current_ok [OF _ z(1)] assms(1) show ?thesis by (intro ChooseNew_ok [OF _ z(2)]) simp_all
qed (use assms in \<open>simp add: HandleDeferredWork_reschedule_def\<close>)

section \<open>Invocations and activities\<close>

text \<open>After the commit point the activity for the invokee is the running one or a new one.\<close>

definition committed_ok :: "sched \<Rightarrow> bool" where
  "committed_ok x =
     (case allocatedActivity x of
        None \<Rightarrow> sched_inv {} x
      | Some a \<Rightarrow> a < nActivity x \<and>
          (if act_state (acts x a) = act_Running then sched_inv {} x \<and> act_curActivity x = Some a
           else sched_inv {a} x \<and> act_proc (acts x a) = None))"

lemma commit_inactivate_ok:
  assumes "sched_ok x" "commit_inactivate p x = Some y"
  shows "sched_frame x y \<and> committed_ok y"
proof -
  from assms(2) obtain a where a: "act_curActivity x = Some a" "act_state (acts x a) = act_Running"
    and y: "y = x\<lparr>allocatedActivity := Some a\<rparr>"
    by (auto simp: commit_inactivate_def bind_eq_Some_conv)
  have "a < nActivity x" using assms(1) a(1) by (simp add: sched_ok_def)
  with a assms(1) show ?thesis by (simp add: y committed_ok_def sched_ok_inv)
qed

lemma upd_proc_ok:
  assumes "\<And>q. curActivity (f q) = curActivity q"
  shows "sched_frame x (upd_proc p f x)" "sched_ok x \<Longrightarrow> sched_ok (upd_proc p f x)"
proof -
  show "sched_frame x (upd_proc p f x)" by (rule sched_frameI) (simp_all add: assms)
  then show "sched_ok x \<Longrightarrow> sched_ok (upd_proc p f x)"
    using sched_ok_frame sched_inv_proc [of f, OF assms] sched_ok_inv by blast
qed

lemma sq_WakeAll_ok:
  assumes "sched_ok x" "sleepable q" "sq_WakeAll q x = Some y"
  shows "sched_ok y"
  using sq_WakeAll_inv [OF sched_ok_inv [OF assms(1)] assms(2,3)]
    sched_ok_frame [OF assms(1) sq_WakeAll_frame [OF assms(3)]] by blast

lemma alloc_committed:
  assumes "sched_ok x" "act_AllocActivity x = Some (a, y)" "\<And>q. curActivity (f q) = curActivity q"
  shows "sched_frame x (upd_proc p f (y\<lparr>allocatedActivity := Some a\<rparr>))"
    "committed_ok (upd_proc p f (y\<lparr>allocatedActivity := Some a\<rparr>))"
proof -
  note A = act_AllocActivity_inv [OF sched_ok_inv [OF assms(1)] assms(2)]
  have "sched_frame x (y\<lparr>allocatedActivity := Some a\<rparr>)" using act_AllocActivity_frame [OF assms(2)] by simp
  then show "sched_frame x (upd_proc p f (y\<lparr>allocatedActivity := Some a\<rparr>))"
    using upd_proc_ok(1) [of f, OF assms(3)] by (blast intro: sched_frame_trans)
  show "committed_ok (upd_proc p f (y\<lparr>allocatedActivity := Some a\<rparr>))"
    using A sched_inv_loose_less [of "{a}" y a]
    by (auto simp: committed_ok_def intro!: sched_inv_proc assms(3))
qed

lemma commit_sched_cases:
  assumes "commit_sched i x = Some y" "proc_curProcess x = Some p" "allocatedActivity x = None"
  obtains z where "sq_WakeAll (SQ_Proc p) (upd_proc p (runState_update (\<lambda>_. RS_Available)) x) = Some z"
      "commit_inactivate p z = Some y"
    | a z where "act_AllocActivity x = Some (a, z)"
      "y = upd_proc p proc_AdvancePostInvocationPC (z\<lparr>allocatedActivity := Some a\<rparr>)"
    | "y = upd_proc p (runState_update (\<lambda>_. RS_Waiting)) x"
    | "commit_inactivate p (upd_proc p (runState_update (\<lambda>_. RS_Waiting)) x) = Some y"
proof -
  consider "invType i = IT_Return" | "invType i = IT_Send" | "invType i = IT_Call \<or> invType i = IT_KeeperCall"
    using assms by (auto simp: commit_sched_def split: if_splits)
  then show ?thesis
  proof cases
    case 1
    then show ?thesis using assms that(1) by (auto simp: commit_sched_def Let_def bind_eq_Some_conv)
  next
    case 2
    then have "invType i \<noteq> IT_Return" by (simp add: IT_defs)
    with 2 show ?thesis using assms that(2) by (auto simp: commit_sched_def Let_def bind_eq_Some_conv)
  next
    case 3
    then have "invType i \<noteq> IT_Return" "invType i \<noteq> IT_Send" by (auto simp: IT_defs)
    with 3 assms have "(if invokee i \<noteq> Some p then commit_inactivate p (upd_proc p (runState_update (\<lambda>_. RS_Waiting)) x)
        else Some (upd_proc p (runState_update (\<lambda>_. RS_Waiting)) x)) = Some y"
      by (simp add: commit_sched_def Let_def bind_eq_Some_conv)
    then show ?thesis by (cases "invokee i = Some p") (auto intro: that(3,4))
  qed
qed

lemma commit_sched_ok:
  assumes "sched_ok x" "commit_sched i x = Some y"
  shows "sched_frame x y \<and> committed_ok y"
proof -
  from assms(2) obtain p where p: "proc_curProcess x = Some p" "allocatedActivity x = None"
    by (auto simp: commit_sched_def bind_eq_Some_conv)
  let ?r = "\<lambda>r. upd_proc p (runState_update (\<lambda>_. r)) x"
  have r: "sched_frame x (?r r)" "sched_ok (?r r)" for r
    by (rule upd_proc_ok, simp)+ (rule assms(1))
  consider (ret) z where "sq_WakeAll (SQ_Proc p) (?r RS_Available) = Some z" "commit_inactivate p z = Some y"
    | (send) a z where "act_AllocActivity x = Some (a, z)"
        "y = upd_proc p proc_AdvancePostInvocationPC (z\<lparr>allocatedActivity := Some a\<rparr>)"
    | (self) "y = ?r RS_Waiting"
    | (call) "commit_inactivate p (?r RS_Waiting) = Some y"
    using assms(2) p by (rule commit_sched_cases) blast+
  then show ?thesis
  proof cases
    case ret
    have "sched_ok z" by (rule sq_WakeAll_ok [OF r(2) _ ret(1)]) simp
    with commit_inactivate_ok [OF this ret(2)] show ?thesis
      by (blast intro: sched_frame_trans r(1) sq_WakeAll_frame [OF ret(1)])
  next
    case send
    with alloc_committed [OF assms(1) send(1), of proc_AdvancePostInvocationPC p]
    show ?thesis by (simp add: proc_AdvancePostInvocationPC_def Let_def)
  next
    case self
    with r [of RS_Waiting] p(2) show ?thesis by (simp add: committed_ok_def sched_ok_inv)
  next
    case call
    from commit_inactivate_ok [OF r(2) this] show ?thesis by (blast intro: sched_frame_trans r(1))
  qed
qed

lemma commit_Migrate_ok:
  assumes "sched_ok x" "commit_sched i x = Some y" "MigrateAllocatedActivity p y = Some z"
  shows "sched_ok z"
proof -
  note C = commit_sched_ok [OF assms(1,2)]
  from assms(3) obtain a where a: "allocatedActivity y = Some a" by (auto simp: MigrateAllocatedActivity_def bind_eq_Some_conv)
  let ?L = "if act_state (acts y a) = act_Running then {} else {a}"
  have inv: "sched_inv ?L y" "a < nActivity y" using C a by (auto simp: committed_ok_def)
  have "curActivity (procs y q) \<noteq> Some a" if "act_state (acts y a) \<noteq> act_Running" for q
    using that C a pairs_okD(1) [OF sched_invD(3) [OF inv(1)], of q a] by (auto simp: committed_ok_def)
  with MigrateAllocatedActivity_inv [OF inv(1) a assms(3) refl] have "sched_inv {} z" by blast
  then show ?thesis
    using C MigrateAllocatedActivity_frame [OF assms(3) a inv(2)] by (blast intro: sched_ok_frame assms(1) sched_frame_trans)
qed

lemma commit_release_ok:
  assumes "sched_ok x" "commit_sched i x = Some y" "release_allocated y = Some z"
  shows "sched_ok z"
proof -
  note C = commit_sched_ok [OF assms(1,2)]
  from assms(3) obtain a where a: "allocatedActivity y = Some a"
    by (auto simp: release_allocated_def bind_eq_Some_conv)
  have "sched_frame y z \<and> sched_inv {} z"
  proof (cases "act_state (acts y a) = act_Running")
    case True
    with assms(3) a have z: "act_DeleteCurrent y = Some z" by (simp add: release_allocated_def bind_eq_Some_conv)
    with act_DeleteCurrent_inv [OF _ _ True z] C a True act_DeleteCurrent_frame [OF z] show ?thesis
      by (simp add: committed_ok_def)
  next
    case False
    with assms(3) a have z: "act_FreeActivity a y = Some z" by (simp add: release_allocated_def bind_eq_Some_conv)
    have inv: "sched_inv {a} y" "act_proc (acts y a) = None" using C a False by (simp_all add: committed_ok_def)
    have "curActivity (procs y q) \<noteq> Some a" for q
      using pairs_okD(1) [OF sched_invD(3) [OF inv(1)], of q a] inv(2) by auto
    with act_FreeActivity_inv [OF inv(1) _ z] act_FreeActivity_frame [OF z] show ?thesis by simp
  qed
  with C show ?thesis by (blast intro: sched_ok_frame assms(1) sched_frame_trans)
qed

section \<open>The scheduler as a state machine\<close>

text \<open>
  The events: the current activity waits for a queue or for a time, a queue is woken, the
  processor is rescheduled, an activity starts, a process loses its activity, an invocation
  commits and answers its own invoker, transfers the activity or drops it, and the registers of
  a process change.
\<close>

inductive sched_step :: "sched \<Rightarrow> sched \<Rightarrow> bool" where
  sleep: "act_SleepOn q x = Some y \<Longrightarrow> sleepable q \<Longrightarrow> sched_step x y"
| nap: "act_curActivity x = Some t \<Longrightarrow> act_SleepUntilTick t tick x = Some y \<Longrightarrow> sched_step x y"
| wake: "sq_WakeAll q x = Some y \<Longrightarrow> sleepable q \<Longrightarrow> sched_step x y"
| reschedule: "HandleDeferredWork_reschedule x = Some y \<Longrightarrow> sched_step x y"
| force: "sched_step x (act_ForceResched x)"
| start: "StartActivity oid count haz x = Some y \<Longrightarrow> sched_step x y"
| kill: "delete_proc_activity p x = Some y \<Longrightarrow> sched_step x y"
| answer: "commit_sched i x = Some y \<Longrightarrow> allocatedActivity y = None \<Longrightarrow> sched_step x y"
| transfer: "commit_sched i x = Some y \<Longrightarrow> MigrateAllocatedActivity p y = Some z
    \<Longrightarrow> sched_step x (z\<lparr>allocatedActivity := None\<rparr>)"
| drop: "commit_sched i x = Some y \<Longrightarrow> release_allocated y = Some z
    \<Longrightarrow> sched_step x (z\<lparr>allocatedActivity := None\<rparr>)"
| registers: "(\<And>q. curActivity (f q) = curActivity q) \<Longrightarrow> sched_step x (upd_proc p f x)"

lemma StartActivity_ok:
  assumes "sched_ok x" "StartActivity oid count haz x = Some y"
  shows "sched_ok y"
proof -
  let ?f = "\<lambda>t. t\<lparr>act_proc := None, act_oid := oid, act_callCount := count,
       act_actHazard := haz, act_readyQ := Some (RQ_Prio capros_SchedC_Priority_Max)\<rparr>"
  from assms(2) obtain a z where a: "act_AllocActivity x = Some (a, z)" and y: "act_Wakeup a (upd_act a ?f z) = Some y"
    by (auto simp: StartActivity_def bind_eq_Some_conv)
  note A = act_AllocActivity_inv [OF sched_ok_inv [OF assms(1)] a]
  have np: "curActivity (procs z p) \<noteq> Some a" for p
    using pairs_okD(1) [OF sched_invD(3), of "{a}" z p a] A by auto
  have "sched_inv {a} (upd_act a ?f z)"
    using A np sched_inv_loose [of "{a}" z a] by (intro sched_inv_upd_loose) auto
  from act_Wakeup_inv [OF this _ y] have "sched_inv {} y" by simp
  moreover have "sched_frame z (upd_act a ?f z)" by (rule sched_frameI) simp_all
  with act_AllocActivity_frame [OF a] act_Wakeup_frame [OF y] have "sched_frame x y" by (blast intro: sched_frame_trans)
  ultimately show ?thesis by (blast intro: sched_ok_frame assms(1))
qed

lemma sched_step_ok:
  assumes "sched_step x y" "sched_ok x"
  shows "sched_ok y"
  using assms
proof (induction rule: sched_step.induct)
  case (sleep q x y)
  with act_SleepOn_inv [OF sched_ok_inv sleep(1,2)] show ?case by (blast intro: sched_ok_frame act_SleepOn_frame)
next
  case (nap x t tick y)
  then have "t < nActivity x" by (simp add: sched_ok_def)
  with act_SleepUntilTick_inv [OF sched_ok_inv [OF nap(3)] nap(2)] show ?case
    by (intro sched_ok_frame [OF nap(3) act_SleepUntilTick_frame [OF nap(2)]]) simp
next
  case (force x)
  then show ?case by (simp add: act_ForceResched_def)
next
  case (kill p x y)
  then have "curActivity (procs x p) = Some a \<Longrightarrow> a < nActivity x" for a by (simp add: sched_ok_def)
  with delete_proc_activity_inv [OF sched_ok_inv [OF kill(2)] kill(1)] show ?case
    by (blast intro: sched_ok_frame kill(2) delete_proc_activity_frame [OF kill(1)])
next
  case (answer i x y)
  from commit_sched_ok [OF answer(3,1)] answer(2) show ?case
    by (intro sched_ok_frame [OF answer(3)]) (simp_all add: committed_ok_def)
qed (auto intro: sq_WakeAll_ok reschedule_ok StartActivity_ok commit_Migrate_ok commit_release_ok upd_proc_ok)

text \<open>A table of one free activity.\<close>

definition sched_boot :: sched where
  "sched_boot = \<lparr>acts = (\<lambda>a. \<lparr>act_q = (if a = 0 then Some SQ_Free else None), act_state = act_Free,
       act_actHazard = actHaz_None, act_proc = None, act_oid = 0, act_callCount = 0, act_wakeTime = 0,
       act_readyQ = None\<rparr>),
     procs = (\<lambda>_. \<lparr>hazards = 0, runState = RS_Available, processFlags = 0, proc_readyQ = RQ_Prio 1,
       curActivity = None, trapFrame = (\<lambda>_. 0), faultCode = 0, faultInfo = 0, isUserContext = True, kernelFlags = 0\<rparr>),
     queues = (\<lambda>q. if q = SQ_Free then [0] else []), numFreeActivities = 1, act_RunQueueMap = 0,
     act_curActivity = None, proc_curProcess = None, allocatedActivity = None, dw_reschedule = True,
     nActivity = 1\<rparr>"

lemma sched_boot_ok: "sched_ok sched_boot"
  by (auto simp: sched_ok_def sched_boot_def sched_inv_def queues_ok_def states_ok_def state_ok_def pairs_ok_def
      run_ok_def sleepers_ok_def free_ok_def map_ok_def)

text \<open>Three activities of the same priority: one runs, one is ready and one waits for an object.\<close>

definition sched_three :: sched where
  "sched_three = sched_boot\<lparr>acts := (\<lambda>a. \<lparr>
       act_q = (if a = 1 then Some (SQ_Ready (RQ_Prio 3)) else if a = 2 then Some (SQ_Obj 7) else None),
       act_state = (if a = 0 then act_Running else if a = 1 then act_Ready else if a = 2 then act_Stall else act_Free),
       act_actHazard = actHaz_None, act_proc = None, act_oid = of_nat a, act_callCount = 0, act_wakeTime = 0,
       act_readyQ = Some (RQ_Prio 3)\<rparr>),
     queues := (\<lambda>q. if q = SQ_Ready (RQ_Prio 3) then [1] else if q = SQ_Obj 7 then [2] else []),
     numFreeActivities := 0, act_RunQueueMap := 8, act_curActivity := Some 0, nActivity := 3\<rparr>"

lemma sched_three_map: "bit (act_RunQueueMap sched_three) n = (n = 3)"
proof -
  have "act_RunQueueMap sched_three = push_bit 3 1" by (simp add: sched_three_def)
  then show ?thesis by (auto simp only: bit_push_bit_iff) (auto simp: bit_1_iff)
qed

lemma sched_three_ok: "sched_ok sched_three"
proof -
  have "a < 3 \<Longrightarrow> a = 0 \<or> a = 1 \<or> a = (2 :: nat)" for a by auto
  then have "sched_inv {} sched_three"
    by (auto simp: sched_three_def sched_boot_def sched_inv_def queues_ok_def states_ok_def
        state_ok_def pairs_ok_def run_ok_def sleepers_ok_def free_ok_def pr_Reserve_def
        capros_SchedC_Priority_Max_def)
  moreover have "map_ok sched_three"
    by (simp add: map_ok_def sched_three_map pr_Reserve_def capros_SchedC_Priority_Max_def)
  ultimately show ?thesis by (simp add: sched_ok_def) (simp add: sched_three_def sched_boot_def)
qed

text \<open>
  C8. Invariant of the scheduler: whatever sequence of the events of \<^const>\<open>sched_step\<close> happens, every activity of the table
  is on exactly the queue that its state says, the queues hold no activity twice, processes and
  their activities refer to each other, every queue of ready activities that is not empty is
  marked in \<^verbatim>\<open>act_RunQueueMap\<close>, sleepers are ordered by time and the number of free activities is
  right.
\<close>

theorem sched_reachable_ok:
  assumes "rtranclp sched_step x y" "sched_ok x"
  shows "sched_ok y"
  using assms by (induction rule: rtranclp_induct) (auto intro: sched_step_ok)

theorem sched_reachable_ok_witness:
  "\<exists>y z. StartActivity 5 0 actHaz_WakeRestart sched_boot = Some y \<and> HandleDeferredWork_reschedule y = Some z
     \<and> sched_ok z \<and> act_curActivity z = Some 0 \<and> act_state (acts z 0) = act_Running"
proof -
  obtain y where y: "StartActivity 5 0 actHaz_WakeRestart sched_boot = Some y" "act_RunQueueMap y = 32768"
    "queues y (SQ_Ready (RQ_Prio 15)) = [0]" "act_curActivity y = None" "dw_reschedule y"
    by (simp add: StartActivity_def sched_boot_def act_AllocActivity_def act_DequeueNext_def link_Unlink_def
        act_Wakeup_def doWakeup_def readyq_GenericWakeup_def act_Enqueue_def pr_Reserve_def
        capros_SchedC_Priority_Max_def upd_act_def)
  have "choose_queue (y\<lparr>dw_reschedule := False\<rparr>) = Some (15, y\<lparr>dw_reschedule := False\<rparr>)"
    using y by (subst choose_queue.simps) (simp add: fls32_def Let_def pr_Reserve_def capros_SchedC_Priority_Max_def)
  then obtain z where z: "HandleDeferredWork_reschedule y = Some z" "act_curActivity z = Some 0"
    "act_state (acts z 0) = act_Running"
    using y by (auto simp: HandleDeferredWork_reschedule_def requeue_current_def act_ChooseNewCurrentActivity_def
        capros_SchedC_Priority_Never_def Let_def split: if_splits)
  have "rtranclp sched_step sched_boot z"
    using sched_step.start [OF y(1)] sched_step.reschedule [OF z(1)] by (rule rtranclp_trans [OF r_into_rtranclp r_into_rtranclp])
  from sched_reachable_ok [OF this sched_boot_ok] y z show ?thesis by blast
qed

text \<open>
  The activities that a rescheduling chooses from at one priority: its ready queue, with the current
  activity last when it still runs and has this priority.
\<close>

definition waiting :: "sched \<Rightarrow> nat \<Rightarrow> nat list" where
  "waiting x k = queues x (SQ_Ready (RQ_Prio k)) @
     (case act_curActivity x of
        None \<Rightarrow> []
      | Some c \<Rightarrow> if act_state (acts x c) = act_Running \<and> act_readyQ (acts x c) = Some (RQ_Prio k) then [c] else [])"

lemma requeue_current_waiting:
  assumes "sched_ok x"
    and "\<And>c. act_curActivity x = Some c \<Longrightarrow> act_state (acts x c) = act_Running \<Longrightarrow>
      \<exists>m. act_readyQ (acts x c) = Some (RQ_Prio m) \<and> m \<le> capros_SchedC_Priority_Max \<and> m \<noteq> pr_Reserve"
  shows "\<exists>y. requeue_current x = Some y \<and> (\<forall>k. queues y (SQ_Ready (RQ_Prio k)) = waiting x k)"
proof (cases "\<exists>c. act_curActivity x = Some c \<and> act_state (acts x c) = act_Running")
  case False
  then show ?thesis by (auto simp: requeue_current_def waiting_def split: option.splits)
next
  case True
  then obtain c where c: "act_curActivity x = Some c" "act_state (acts x c) = act_Running" by blast
  from assms(2) [OF c] obtain m where m: "act_readyQ (acts x c) = Some (RQ_Prio m)"
    "m \<le> capros_SchedC_Priority_Max" "m \<noteq> pr_Reserve" by blast
  have cn: "c < nActivity x" using assms(1) c(1) by (simp add: sched_ok_def)
  have cq: "act_q (acts x c) = None"
    using sched_inv_state [OF sched_ok_inv [OF assms(1)] cn] c(2) by (simp add: state_ok_def)
  have "\<exists>y. act_Wakeup c x = Some y" using c(1) m cq by (intro act_Wakeup_total [where n = m]) auto
  then obtain y where y: "act_Wakeup c x = Some y" by blast
  from act_Wakeup_result [OF y] m(1) have n: "y\<lparr>dw_reschedule := False\<rparr> =
        (upd_act c (\<lambda>a. a\<lparr>act_q := Some (SQ_Ready (RQ_Prio m)), act_state := act_Ready\<rparr>)
          (x\<lparr>act_RunQueueMap := act_RunQueueMap x OR push_bit m 1,
             queues := (queues x)(SQ_Ready (RQ_Prio m) := queues x (SQ_Ready (RQ_Prio m)) @ [c])\<rparr>))\<lparr>dw_reschedule := False\<rparr>"
    by auto
  have "queues y (SQ_Ready (RQ_Prio k)) = waiting x k" for k
    using arg_cong [OF n, of "\<lambda>z. queues z (SQ_Ready (RQ_Prio k))"] c m(1) by (simp add: waiting_def)
  moreover have "requeue_current x = Some y" using y c by (simp add: requeue_current_def readyq_Timeout_def)
  ultimately show ?thesis by blast
qed

text \<open>
  C9. Liveness of scheduling: when a reschedule is due and an activity of a priority above Never
  can be chosen, the rescheduling ends with a running activity: the first one of the highest
  priority at which any can be chosen. The candidates are the activities on the ready queues and,
  as the last of its own queue, the current activity if there is one and it still runs; it may
  as well be absent, asleep or stalled. No activity of a higher priority is left waiting, the
  order within every queue is kept, and activities of equal priority take turns. A running
  current activity must not be scheduled by a reserve.
\<close>

theorem reschedule_runs_highest:
  assumes "sched_ok x" "dw_reschedule x" "waiting x m \<noteq> []" "capros_SchedC_Priority_Never < m"
    and "\<And>c. act_curActivity x = Some c \<Longrightarrow> act_state (acts x c) = act_Running \<Longrightarrow>
      \<exists>m. act_readyQ (acts x c) = Some (RQ_Prio m) \<and> m \<le> capros_SchedC_Priority_Max \<and> m \<noteq> pr_Reserve"
  shows "\<exists>z n. HandleDeferredWork_reschedule x = Some z \<and> m \<le> n \<and> waiting x n \<noteq> [] \<and> (\<forall>k>n. waiting x k = [])
    \<and> act_curActivity z = Some (hd (waiting x n)) \<and> queues z (SQ_Ready (RQ_Prio n)) = tl (waiting x n)
    \<and> (\<forall>k. k \<noteq> n \<longrightarrow> queues z (SQ_Ready (RQ_Prio k)) = waiting x k) \<and> act_state (acts z (hd (waiting x n))) = act_Running"
proof -
  let ?x = "x\<lparr>dw_reschedule := False\<rparr>"
  have "sched_ok ?x" using assms(1) by simp
  moreover have "waiting ?x k = waiting x k" for k by (cases "act_curActivity x") (simp_all add: waiting_def)
  ultimately have "\<exists>y. requeue_current ?x = Some y \<and> (\<forall>k. queues y (SQ_Ready (RQ_Prio k)) = waiting x k)"
    using requeue_current_waiting [of ?x] assms(5) by simp
  then obtain y where req: "requeue_current ?x = Some y"
    and qs: "\<And>k. queues y (SQ_Ready (RQ_Prio k)) = waiting x k" by blast
  have ok: "sched_ok y" "\<And>a. a < nActivity y \<Longrightarrow> act_state (acts y a) \<noteq> act_Running"
    using requeue_current_ok [OF \<open>sched_ok ?x\<close> req] by simp_all
  have "queues y (SQ_Ready (RQ_Prio m)) \<noteq> []" using assms(3) by (simp add: qs)
  from top_queue_exists [OF sched_invD(4) [OF sched_ok_inv [OF ok(1)]] this]
  obtain t where t: "m \<le> t" "top_queue y t" by blast
  have map: "map_ok y" using ok(1) by (simp add: sched_ok_def)
  have gt: "t > capros_SchedC_Priority_Never" using t(1) assms(4) by simp
  from act_ChooseNewCurrentActivity_correct [OF sched_ok_inv [OF ok(1)] map t(2) gt ok(2)]
  obtain z where z: "act_ChooseNewCurrentActivity y = Some z" "act_curActivity z = Some (hd (waiting x t))"
    "queues z = (queues y)(SQ_Ready (RQ_Prio t) := tl (waiting x t))" by (auto simp: qs)
  have run: "act_state (acts z (hd (waiting x t))) = act_Running"
    using z(1,2) by (auto simp: act_ChooseNewCurrentActivity_def Let_def bind_eq_Some_conv split: if_splits)
  have "HandleDeferredWork_reschedule x = Some z"
    using assms(2) req z(1) by (simp add: HandleDeferredWork_reschedule_def)
  with t z run show ?thesis by (intro exI [of _ z] exI [of _ t]) (simp add: top_queue_def qs)
qed

theorem reschedule_runs_highest_witness:
  "\<exists>z. HandleDeferredWork_reschedule sched_three = Some z \<and> act_curActivity z = Some 1
     \<and> queues z (SQ_Ready (RQ_Prio 3)) = [0]"
proof -
  have w: "waiting sched_three k = (if k = 3 then [1, 0] else [])" for k
    by (simp add: waiting_def sched_three_def sched_boot_def)
  have "\<exists>z n. HandleDeferredWork_reschedule sched_three = Some z \<and> 3 \<le> n \<and> waiting sched_three n \<noteq> []
    \<and> (\<forall>k>n. waiting sched_three k = []) \<and> act_curActivity z = Some (hd (waiting sched_three n))
    \<and> queues z (SQ_Ready (RQ_Prio n)) = tl (waiting sched_three n)
    \<and> (\<forall>k. k \<noteq> n \<longrightarrow> queues z (SQ_Ready (RQ_Prio k)) = waiting sched_three k)
    \<and> act_state (acts z (hd (waiting sched_three n))) = act_Running"
    using sched_three_ok
    by (intro reschedule_runs_highest) (simp_all add: w, simp_all add: sched_three_def sched_boot_def pr_Reserve_def
        capros_SchedC_Priority_Max_def capros_SchedC_Priority_Never_def)
  then show ?thesis by (auto simp: w split: if_splits)
qed

text \<open>
  C10. Waking up a queue terminates: when its activities are valid and have usable priorities, the
  loop ends, the queue is empty, exactly the activities that were on it have become ready, and
  no process changed.
\<close>

theorem sq_WakeAll_wakes:
  assumes "sched_ok x" "sleepable q" "\<forall>t \<in> set (queues x q). wakeable x t"
    and "\<And>c. act_curActivity x = Some c \<Longrightarrow> act_readyQ (acts x c) \<noteq> None"
  shows "\<exists>x'. sq_WakeAll q x = Some x' \<and> sched_ok x' \<and> queues x' q = [] \<and> procs x' = procs x
    \<and> (\<forall>a. act_state (acts x' a) = (if a \<in> set (queues x q) then act_Ready else act_state (acts x a)))"
proof -
  from sq_WakeAll_total [OF sched_ok_inv [OF assms(1)] assms(2-4)] obtain x' where x': "sq_WakeAll q x = Some x'" by blast
  with sq_WakeAll_inv [OF sched_ok_inv [OF assms(1)] assms(2) x'] sq_WakeAll_ok [OF assms(1,2) x'] show ?thesis by blast
qed

theorem sq_WakeAll_wakes_witness:
  "\<exists>x'. sq_WakeAll (SQ_Obj 7) sched_three = Some x' \<and> queues x' (SQ_Obj 7) = []
     \<and> act_state (acts x' 2) = act_Ready"
proof -
  have "wakeable sched_three 2"
    by (simp add: wakeable_def act_ValidateActivity_def sched_three_def sched_boot_def pr_Reserve_def
        capros_SchedC_Priority_Max_def)
  then have "\<exists>x'. sq_WakeAll (SQ_Obj 7) sched_three = Some x' \<and> sched_ok x' \<and> queues x' (SQ_Obj 7) = []
    \<and> procs x' = procs sched_three \<and> (\<forall>a. act_state (acts x' a) =
        (if a \<in> set (queues sched_three (SQ_Obj 7)) then act_Ready else act_state (acts sched_three a)))"
    using sched_three_ok by (intro sq_WakeAll_wakes) (simp_all add: sched_three_def sched_boot_def)
  then show ?thesis by (auto simp: sched_three_def sched_boot_def)
qed

text \<open>
  C11. Equivalence with a reference: the five-stage search \<^verbatim>\<open>fls32\<close> computes one more than the
  largest number of a set bit, and 0 for the word without bits.
\<close>

theorem fls32_reference: "fls32 w = (if w = 0 then 0 else Suc (Max {n. bit w n}))"
proof (cases "w = 0")
  case False
  from fls32_is_msb [OF this] have *: "fls32 w > 0" "bit w (fls32 w - 1)" "\<forall>m > fls32 w - 1. \<not> bit w m"
    by (auto simp: is_msb_def)
  then have "Max {n. bit w n} = fls32 w - 1"
    by (intro Max_eqI) (auto intro: finite_subset [of _ "{..fls32 w - 1}"] simp: not_less [symmetric])
  with * False show ?thesis by simp
qed (simp add: fls32_def)

end
