(* ===== verification/Key_Refine.thy ===== *)
theory Key_Refine
  imports Cap_Abs
begin

text \<open>
  The representation of keys is an implementation detail. Abstractly the kernel keeps a table of
  capabilities; copying, voiding and making a number assign to one entry of it, rescinding an
  object removes the capabilities to it everywhere, and preparing, validating, unpreparing and
  clearing hazards do nothing. The operations of sys/kernel/kern_Key.c, kern_KeyRing.c and
  kern_ObjectHeader.c refine this table.
\<close>

section \<open>Rescission on capabilities\<close>

definition names_oid :: "OID \<Rightarrow> cap \<Rightarrow> bool" where
  "names_oid oid c = (case c of ObjCap _ _ _ oid' _ \<Rightarrow> oid' = oid | _ \<Rightarrow> False)"

lemma undenoted_unprepared:
  assumes "wf_key s k" "keyBits_IsObjectKey k" "\<And>p. \<not> denotes s k p"
  obtains oid c where "\<not> keyBits_IsPrepared k" "key_u k = U_unprep oid c"
proof (cases "keyBits_IsPrepared k")
  case True
  with assms(1,2) have "\<exists>p. denotes s k p"
    by (auto simp: wf_key_def denotes_def key_GetObjectPtr_Some keyBits_IsPreparedObjectKey_def split: if_splits)
  with assms(3) show ?thesis by blast
qed (use assms that in \<open>auto simp: wf_key_def\<close>)

lemma key_cap_undenoted:
  assumes "kern_inv s" "wf_key s k" "keyBits_IsObjectKey k" "\<And>p. \<not> denotes s k p"
  shows "key_cap s k = (case key_u k of U_unprep oid c \<Rightarrow>
      if objH_Lookup s oid = None then ObjCap (keyType k) (keyPerms k) (keyData k) oid c else NoCap
    | _ \<Rightarrow> NoCap)"
proof -
  from undenoted_unprepared [OF assms(2-4)] obtain oid c
    where u: "\<not> keyBits_IsPrepared k" "key_u k = U_unprep oid c" .
  show ?thesis
  proof (cases "objH_Lookup s oid")
    case None
    with u assms(3) show ?thesis by (simp add: key_cap_def)
  next
    case (Some p)
    from key_cap_rescinded [OF assms(1,3) u(1) assms(4) u(2) Some] u Some show ?thesis by simp
  qed
qed

lemma key_cap_data:
  "\<not> keyBits_IsObjectKey k \<Longrightarrow> key_cap s' k = key_cap s k \<and> \<not> names_oid oid (key_cap s k)"
  by (simp add: key_cap_def names_oid_def)

lemma ring_keys_denote:
  assumes "kern_inv s" "is_obj s p"
  shows "r \<in> ring_keys p s \<Longrightarrow> denotes s (keys s r) p"
    and "denotes s (keys s r) p \<Longrightarrow> keyBits_IsPrepared (keys s r) \<Longrightarrow> r \<in> ring_keys p s"
  using ring_keys_prepared [OF assms, of r] ring_keys_object [OF assms(1), of r p] assms(2)
  by (auto simp: denotes_def keyBits_IsPreparedObjectKey_def)

lemma rescinded_lookup:
  assumes "rescinded_state p s s'"
  shows "objH_Lookup s' oid = objH_Lookup s oid"
proof -
  have "obOid (obj_at s' q) = obOid (obj_at s q) \<and> obType (obj_at s' q) = obType (obj_at s q)" for q
    using assms by (cases "q = p") (auto simp: rescinded_state_def)
  moreover have "obBucket s' = obBucket s" using assms by (simp add: rescinded_state_def)
  ultimately show ?thesis unfolding objH_Lookup_def by simp
qed

lemma rescinded_cap:
  assumes inv: "kern_inv s" and res: "rescinded_state p s s'" and p: "is_obj s p"
    and cnt: "allocCount (obj_at s p) + 1 \<noteq> 0" "callCount (obj_at s p) + 1 \<noteq> 0"
  shows "cap_at s' r = (if names_oid (obOid (obj_at s p)) (cap_at s r) then NoCap else cap_at s r)"
proof -
  have inv': "kern_inv s'" using rescinded_inv [OF inv res p cnt] .
  note look = rescinded_lookup [OF res]
  have key: "keys s' r = (if r \<in> ring_keys p s then void_key else keys s r)"
    using res by (simp add: rescinded_state_def)
  have own: "objH_Lookup s (obOid (obj_at s p)) = Some p"
    by (rule objH_Lookup_is_obj [OF kern_inv_wf_objs [OF inv] p])
  have other: "denotes s' (keys s' r) q = denotes s (keys s r) q" if "q \<noteq> p" for q
    using rescinded_denotes_other [OF inv res p that] .
  have none: "\<not> denotes s' (keys s' r) p" using rescinded_not_denoted [OF inv res p cnt] .
  show ?thesis
  proof (cases "r \<in> ring_keys p s")
    case True
    then have "denotes s (keys s r) p" using ring_keys_denote [OF inv p] by simp
    from key_cap_denotes [OF inv this kern_inv_wf_key [OF inv]] True key show ?thesis
      by (simp add: cap_at_def names_oid_def)
  next
    case out: False
    then have k: "keys s' r = keys s r" by (simp add: key)
    consider "\<not> keyBits_IsObjectKey (keys s r)"
      | q where "denotes s (keys s r) q" "q \<noteq> p"
      | "keyBits_IsObjectKey (keys s r)" "\<And>q. q \<noteq> p \<Longrightarrow> \<not> denotes s (keys s r) q" by blast
    then show ?thesis
    proof cases
      case 1
      then show ?thesis using key_cap_data [of "keys s r" s' s] by (simp add: cap_at_def k)
    next
      case 2
      then have "is_obj s q" by (simp add: denotes_def)
      with 2(2) own have "obOid (obj_at s q) \<noteq> obOid (obj_at s p)"
        using objH_Lookup_is_obj [OF kern_inv_wf_objs [OF inv], of q] by auto
      moreover have "obj_at s' q = obj_at s q" using res 2(2) by (simp add: rescinded_state_def)
      ultimately show ?thesis
        using key_cap_denotes [OF inv 2(1) kern_inv_wf_key [OF inv]]
          key_cap_denotes [OF inv' _ kern_inv_wf_key [OF inv'], of r q] other [OF 2(2)] 2(1)
        by (simp add: cap_at_def k names_oid_def)
    next
      case 3
      have n': "\<not> denotes s' (keys s' r) q" for q using 3(2) other none by (cases "q = p") auto
      have c': "cap_at s' r = (case key_u (keys s r) of U_unprep oid c \<Rightarrow>
          if objH_Lookup s oid = None
          then ObjCap (keyType (keys s r)) (keyPerms (keys s r)) (keyData (keys s r)) oid c else NoCap
        | _ \<Rightarrow> NoCap)"
        using key_cap_undenoted [OF inv' kern_inv_wf_key [OF inv'] _ n'] 3(1)
        by (auto simp: cap_at_def k look split: key_u.split)
      show ?thesis
      proof (cases "denotes s (keys s r) p")
        case True
        with out have "\<not> keyBits_IsPrepared (keys s r)" using ring_keys_denote(2) [OF inv p] by blast
        with True have "key_u (keys s r) = U_unprep (obOid (obj_at s p)) (count_for (keys s r) (obj_at s p))"
          by (simp add: denotes_def)
        with c' own key_cap_denotes [OF inv True kern_inv_wf_key [OF inv]] show ?thesis
          by (simp add: names_oid_def cap_at_def)
      next
        case False
        with 3(2) have n: "\<not> denotes s (keys s r) q" for q by (cases "q = p") auto
        from key_cap_undenoted [OF inv kern_inv_wf_key [OF inv] 3(1) n] c' own show ?thesis
          by (auto simp: cap_at_def names_oid_def split: key_u.splits)
      qed
    qed
  qed
qed

section \<open>The refinement\<close>

datatype key_op =
    Op_Prepare kref
  | Op_Validate kref
  | Op_Unprepare kref
  | Op_ClearHazard obj_ptr nat
  | Op_Set kref kref
  | Op_Void kref
  | Op_Number kref u32 u32 u32
  | Op_Rescind OID

text \<open>
  One operation of the kernel. Rescission is of an object in memory whose counts are not about to
  wrap round.
\<close>

inductive key_step :: "kern \<Rightarrow> key_op \<Rightarrow> kern \<Rightarrow> bool" where
  Prepare: "key_DoPrepare r s = Some (v, s') \<Longrightarrow> key_step s (Op_Prepare r) s'"
| Validate: "key_DoValidate r s = Some (v, s') \<Longrightarrow> key_step s (Op_Validate r) s'"
| Unprepare: "key_NH_Unprepare r s = Some s' \<Longrightarrow> key_step s (Op_Unprepare r) s'"
| ClearHazard: "node_ClearHazard p ndx s = Some s' \<Longrightarrow> key_step s (Op_ClearHazard p ndx) s'"
| Set: "key_step s (Op_Set dst src) (key_NH_Set dst src s)"
| Void: "key_step s (Op_Void r) (key_NH_SetToVoid r s)"
| Number: "key_step s (Op_Number r hi mid lo) (key_SetToNumber r hi mid lo s)"
| Rescind: "objH_Lookup s oid = Some p \<Longrightarrow> clearable s
    \<Longrightarrow> allocCount (obj_at s p) + 1 \<noteq> 0 \<Longrightarrow> callCount (obj_at s p) + 1 \<noteq> 0
    \<Longrightarrow> objH_Rescind p s = Some s' \<Longrightarrow> key_step s (Op_Rescind oid) s'"

inductive_cases key_stepE: "key_step s op s'"

inductive key_run :: "kern \<Rightarrow> key_op list \<Rightarrow> kern \<Rightarrow> bool" where
  Nil: "key_run s [] s"
| Cons: "key_step s op s1 \<Longrightarrow> key_run s1 ops s2 \<Longrightarrow> key_run s (op # ops) s2"

text \<open>The same operations on the table of capabilities.\<close>

fun abs_op :: "key_op \<Rightarrow> (kref \<Rightarrow> cap) \<Rightarrow> kref \<Rightarrow> cap" where
  "abs_op (Op_Set dst src) caps = caps(dst := caps src)"
| "abs_op (Op_Void r) caps = caps(r := NoCap)"
| "abs_op (Op_Number r hi mid lo) caps =
     caps(r := DataCap KKT_Number capros_Memory_readOnly 0 (U_nk lo mid hi))"
| "abs_op (Op_Rescind oid) caps = (\<lambda>r. if names_oid oid (caps r) then NoCap else caps r)"
| "abs_op _ caps = caps"

lemma key_step_refines:
  assumes "key_step s op s'" "kern_inv s"
  shows "cap_at s' = abs_op op (cap_at s) \<and> kern_inv s'"
  using assms
proof cases
  case (ClearHazard p ndx)
  then have "s' = s \<or> s' = upd_key (KSlot p ndx) (unhazarded (keys s (KSlot p ndx))) s"
    using node_ClearHazard_eq by blast
  with assms(2) ClearHazard(1) show ?thesis
    by (auto simp: cap_at_upd_key_fun fun_eq_iff cap_at_def kern_inv_unhazarded)
next
  case (Rescind oid p)
  note found = objH_Lookup_SomeD [OF kern_inv_wf_objs [OF assms(2)] Rescind(2)]
  have "rescinded_state p s s'"
    using kern_inv_ring [OF assms(2)] Rescind(3,6) by (rule objH_Rescind_result)
  with rescinded_cap [OF assms(2) this found(1) Rescind(4,5)] rescinded_inv [OF assms(2) this found(1) Rescind(4,5)]
  show ?thesis by (simp add: Rescind(1) found fun_eq_iff)
next
  case (Prepare r v)
  with key_DoPrepare_cap [OF assms(2) Prepare(2)] key_DoPrepare_inv [OF assms(2) Prepare(2)]
  show ?thesis by simp
next
  case (Validate r v)
  with key_DoValidate_cap [OF assms(2) Validate(2)] key_DoValidate_inv [OF assms(2) Validate(2)]
  show ?thesis by simp
next
  case (Unprepare r)
  with key_NH_Unprepare_cap [OF assms(2) Unprepare(2)] key_NH_Unprepare_inv [OF assms(2) Unprepare(2)]
  show ?thesis by simp
qed (simp_all add: cap_at_Set cap_at_SetToVoid cap_at_SetToNumber inv.P_state assms(2))

text \<open>
  C5. The key operations of the kernel refine a table of capabilities. Any sequence of preparing,
  validating, unpreparing and copying keys, clearing hazards, voiding keys, making number keys and
  rescinding objects has the effect on the authority of all keys that the abstract operations have
  on the table, where preparing, validating, unpreparing and clearing hazards do nothing and
  rescission removes every capability to the object. The kernel invariant is kept on the way.
\<close>

theorem key_ops_refine:
  assumes "key_run s ops s'" "kern_inv s"
  shows "cap_at s' = fold abs_op ops (cap_at s) \<and> kern_inv s'"
  using assms by (induction rule: key_run.induct) (auto dest: key_step_refines)

lemma ex_run:
  "\<exists>s'. key_run ex_kern [Op_Set (KReg 0 4) (KReg 0 2), Op_Number (KReg 0 2) 1 2 3, Op_Void (KReg 0 9)] s'"
  by (blast intro: key_run.intros key_step.Set key_step.Number key_step.Void)

theorem key_ops_refine_witness:
  "\<exists>s'. cap_at s' (KReg 0 4) = cap_at ex_kern (KReg 0 2) \<and> cap_at s' (KReg 0 9) = NoCap \<and> kern_inv s'"
proof -
  from ex_run obtain s' where s': "key_run ex_kern
    [Op_Set (KReg 0 4) (KReg 0 2), Op_Number (KReg 0 2) 1 2 3, Op_Void (KReg 0 9)] s'" ..
  from key_ops_refine [OF s' ex_kern_inv] show ?thesis by (intro exI [of _ s']) simp
qed

text \<open>
  C13. Type safety of prepared keys. After any sequence of key operations, a prepared key to an object
  points to an object that is in memory and has the type that the key's type says: a page for page
  keys, a node for node, GPT and forwarder keys, and the root node of a loaded process for process,
  start and resume keys.
\<close>

theorem key_types_sound:
  assumes "key_run s ops s'" "kern_inv s" "keyBits_IsPreparedObjectKey (keys s' r)"
  shows "\<exists>p. key_GetObjectPtr s' (keys s' r) = Some p \<and> p < nObjs s'
    \<and> objH_GetBaseType (obj_at s' p) = (if keyType (keys s' r) = KKT_Page then otPage else otNode)
    \<and> (keyType (keys s' r) \<in> {KKT_Start, KKT_Resume, KKT_Process} \<longrightarrow> obType (obj_at s' p) = ot_NtProcessRoot)"
proof -
  have "kern_inv s'"
    using assms(1,2) by (induction rule: key_run.induct) (auto dest: key_step_refines)
  note wf = kern_inv_wf_key [OF this, of r]
  have prep: "keyBits_IsPrepared (keys s' r)" "keyBits_IsObjectKey (keys s' r)"
    using assms(3) by (simp_all add: keyBits_IsPreparedObjectKey_def)
  show ?thesis
  proof (cases "keyBits_IsProcessType (keys s' r)")
    case True
    with wf prep obtain pr p where p: "key_u (keys s' r) = U_gk pr" "procRoot s' pr = Some p" "is_obj s' p"
      "obType (obj_at s' p) = ot_NtProcessRoot" by (auto simp: wf_key_def)
    have "keyType (keys s' r) \<noteq> KKT_Page" using True by (auto simp: key_kinds)
    with p True assms(3) show ?thesis
      by (intro exI [of _ p]) (simp add: key_GetObjectPtr_Some is_obj_def objH_GetBaseType_def)
  next
    case False
    with wf prep obtain p where p: "key_u (keys s' r) = U_ok p" "is_obj s' p"
      "objH_GetBaseType (obj_at s' p) = base_of (keyType (keys s' r))" by (auto simp: wf_key_def)
    have "keyType (keys s' r) \<notin> {KKT_Start, KKT_Resume, KKT_Process}" using False by (auto simp: key_kinds)
    with p False assms(3) show ?thesis
      by (intro exI [of _ p]) (simp add: key_GetObjectPtr_Some is_obj_def base_of_def)
  qed
qed

theorem key_types_sound_witness:
  "\<exists>s' p. key_GetObjectPtr s' (keys s' (KReg 0 2)) = Some p \<and> objH_GetBaseType (obj_at s' p) = otNode"
proof -
  let ?s = "key_NH_SetToVoid (KReg 0 1) ex_kern"
  have run: "key_run ex_kern [Op_Void (KReg 0 1)] ?s"
    by (rule key_run.Cons [OF key_step.Void key_run.Nil])
  have key: "keyBits_IsPreparedObjectKey (keys ?s (KReg 0 2))" "keyType (keys ?s (KReg 0 2)) = KKT_Node"
    by (simp_all add: ex_key_defs keyBits_IsPreparedObjectKey_def key_kinds key_flag_bits)
  from key_types_sound [OF run ex_kern_inv key(1)] obtain p
    where p: "key_GetObjectPtr ?s (keys ?s (KReg 0 2)) = Some p"
      "objH_GetBaseType (obj_at ?s p) = (if keyType (keys ?s (KReg 0 2)) = KKT_Page then otPage else otNode)"
    by blast
  have "objH_GetBaseType (obj_at ?s p) = otNode" using p(2) unfolding key(2) by (simp only: kkt.simps if_False)
  with p(1) show ?thesis by blast
qed

end
