(* ===== verification/Kernel_Key_Props.thy ===== *)
theory Kernel_Key_Props
  imports Handler_Props
begin

text \<open>
  Range keys never give out more than their range, numbers read back as they were written, a node
  copied through a weak key holds only discreet keys; and the operations of the Discrim and range
  keys that do not do what is documented.
\<close>

section \<open>Ranges\<close>

lemma ucast_ucast_u32 [simp]: "ucast (ucast (c :: u32) :: u64) = c"
  by (simp add: ucast_up_ucast_id is_up)

lemma ucast_u32_eq_0: "(ucast (c :: u32) :: u64) = 0 \<longleftrightarrow> c = 0"
  by (metis ucast_0 ucast_ucast_u32)

lemma key_GetRange_proper:
  assumes "key_GetRange k = Some (lo, hi)"
  shows "lo \<noteq> 0 \<or> hi \<noteq> - 1"
  using assms
  by (auto simp: key_GetRange_def OID_RESERVED_PHYSRANGE_def bind_eq_Some_conv ucast_u32_eq_0 split: if_splits key_u.splits)

lemma word_le_minus_1:
  fixes x :: "'a::len word"
  assumes "x \<le> x - 1"
  shows "x = 0"
proof (rule ccontr)
  assume "x \<noteq> 0"
  then have "x - 1 < x" by (metis word_less_inc diff_eq_eq)
  with assms show False by simp
qed

text \<open>
  C17. A subrange is within the range it is made from: when \<^verbatim>\<open>makeSubrange\<close> answers with success,
  the new key has a non-empty range whose bounds lie within those of the invoked range key, whatever
  offset and length were passed, 64-bit wrap-around included.
\<close>

theorem makeSubrange_bounds:
  assumes "key_GetRange k = Some (lo, hi)" "rk_makeSubrange lo hi s = Some (Returned t)"
    and "exit_pKey (k_inv s) 0 = Some d" "exit_code (k_inv t) = RC_OK"
  shows "\<exists>lo' hi'. key_GetRange (keys t d) = Some (lo', hi') \<and> lo \<le> lo' \<and> lo' \<le> hi' \<and> hi' \<le> hi"
proof -
  let ?start = "w1w2Offset s + lo" and ?len = "ucast (entry_w3 (k_inv s)) :: u64"
  from assms(2) obtain u where u: "COMMIT_POINT s = Some u"
    and r: "(if lo > w1w2Offset u + lo \<or> w1w2Offset u + lo > ucast (entry_w3 (k_inv u)) + (w1w2Offset u + lo) - 1
        \<or> ucast (entry_w3 (k_inv u)) + (w1w2Offset u + lo) - 1 > hi
      then ReturnCode RC_capros_Range_RangeErr u
      else (case exit_pKey (k_inv u) 0 of
        None \<Rightarrow> ReturnCode RC_OK u
      | Some d \<Rightarrow> ReturnCode RC_OK (upd_key d ((keyBits_InitType (keys (keyBits_Unchain d u) d) KKT_Range)
            \<lparr>key_u := U_rk (w1w2Offset u + lo) (ucast (ucast (entry_w3 (k_inv u)) :: u64))\<rparr>) (keyBits_Unchain d u)))) = Some (Returned t)"
    unfolding rk_makeSubrange_def Let_def bind_eq_Some_conv by blast
  have i: "k_inv u = k_inv s" "w1w2Offset u = w1w2Offset s" using COMMIT_cap(4) [OF u] by (simp_all add: w1w2Offset_def)
  have b: "lo \<le> ?start" "?start \<le> ?len + ?start - 1" "?len + ?start - 1 \<le> hi"
    using r assms(4) unfolding i by (auto simp: ReturnCode_Some not_less split: if_split_asm)
  have t: "keys t d = (keyBits_InitType (keys u d) KKT_Range)\<lparr>key_u := U_rk ?start (ucast ?len)\<rparr>"
    using r assms(3,4) unfolding i by (auto simp: ReturnCode_Some split: if_split_asm)
  have len: "entry_w3 (k_inv s) > 0"
  proof (rule ccontr)
    assume "\<not> entry_w3 (k_inv s) > 0"
    then have "entry_w3 (k_inv s) = 0" by (simp add: word_gt_0)
    with b have le: "?start \<le> ?start - 1" "lo \<le> ?start" "?start - 1 \<le> hi" by simp_all
    then have z: "?start = 0" using word_le_minus_1 by blast
    with le have "lo = 0" "hi = - 1" by (auto simp: word_le_0_iff word_order.extremum_unique)
    with key_GetRange_proper [OF assms(1)] show False by simp
  qed
  have "key_GetRange (keys t d) = Some (?start, ?start + ucast (ucast ?len :: u32) - 1)"
    using len by (simp add: t key_GetRange_def keyBits_InitType_def)
  moreover have "?start + ucast (ucast ?len :: u32) - 1 = ?len + ?start - 1" by (simp add: add.commute)
  ultimately have "key_GetRange (keys t d) = Some (?start, ?len + ?start - 1)" by (simp only:)
  with b show ?thesis by blast
qed

definition ex_range_key :: KeyBits where
  "ex_range_key = \<lparr>keyType = KKT_Range, keyFlags = 4, keyPerms = 0, keyData = 0, key_u = U_rk 0x1000 0x800\<rparr>"

text \<open>The example state after the returnee was found, with a range key passed.\<close>

definition ex_ranges :: "Invocation \<Rightarrow> kern" where
  "ex_ranges i = upd_key (KReg 0 4) ex_range_key (ex_returnee (ex_call i))"

lemma ex_ranges_COMMIT: "COMMIT_POINT (ex_ranges i) = Some (ex_commit (ex_ranges i))"
  by (rule ex_COMMIT) (simp_all add: ex_ranges_def clear_exit_def ex_returnee_def set_invokee_def)

theorem makeSubrange_bounds_witness:
  "\<exists>t lo' hi'. rk_makeSubrange 0x1000 0x17ff (ex_ranges (ex_inv\<lparr>entry_w1 := 0x700, entry_w3 := 0x100\<rparr>)) = Some (Returned t)
     \<and> key_GetRange (keys t (KReg 1 8)) = Some (lo', hi') \<and> 0x1000 \<le> lo' \<and> lo' \<le> hi' \<and> hi' \<le> 0x17ff"
proof -
  let ?s = "ex_ranges (ex_inv\<lparr>entry_w1 := 0x700, entry_w3 := 0x100\<rparr>)"
  have r: "key_GetRange ex_range_key = Some (0x1000, 0x17ff)" by (simp add: key_GetRange_def ex_range_key_def)
  have i: "exit_pKey (k_inv ?s) 0 = Some (KReg 1 8)" "entry_w1 (k_inv ?s) = 0x700" "entry_w2 (k_inv ?s) = 0"
    "entry_w3 (k_inv ?s) = 0x100"
    by (simp_all add: ex_ranges_def clear_exit_def ex_inv_def)
  then have "\<exists>t. rk_makeSubrange 0x1000 0x17ff ?s = Some (Returned t) \<and> exit_code (k_inv t) = RC_OK"
    by (simp add: rk_makeSubrange_def ex_ranges_COMMIT w1w2Offset_def Let_def ReturnCode_def tail_ReturnMessage_def)
  then obtain t where "rk_makeSubrange 0x1000 0x17ff ?s = Some (Returned t)" "exit_code (k_inv t) = RC_OK" by blast
  with makeSubrange_bounds [OF r _ i(1), of t] show ?thesis by blast
qed

text \<open>
  C27. Comparing ranges misses an overlap: the comparison answers that two ranges are disjoint when
  the range that was passed ends with the first object of the invoked range, although the object is
  in both. (Its end, unlike the limit the test is written for, is inclusive.)
\<close>

theorem rk_compare_misses_overlap:
  assumes "kern_inv s" "keyType (keys s (entry_key (k_inv s) 0)) = KKT_Range"
    and "key_GetRange (keys s (entry_key (k_inv s) 0)) = Some (kstart, rngStart)"
    and "rk_compare rngStart rngLast s = Some out"
  shows "\<exists>t. out = Returned t \<and> exit_code (k_inv t) = RC_OK \<and> exit_w1 (k_inv t) = 0"
proof -
  let ?r = "entry_key (k_inv s) 0"
  from assms(4) obtain u where u: "key_Prepare ?r s = Some u"
    unfolding rk_compare_def Let_def bind_eq_Some_conv by blast
  have "\<not> keyBits_IsObjectKey (keys s ?r)" using assms(2) by (simp add: key_kinds)
  from key_Prepare_result(4) [OF kern_inv_wf_objs [OF assms(1)] u this]
  have k: "keyType (keys u ?r) = KKT_Range" "key_GetRange (keys u ?r) = Some (kstart, rngStart)"
    using assms(2,3) by (simp_all add: key_GetRange_def)
  from assms(4) u k show ?thesis
    by (auto simp: rk_compare_def Let_def bind_eq_Some_conv tail_ReturnMessage_Some COMMIT_POINT_Some keyBits_IsType_def)
qed

theorem rk_compare_misses_overlap_witness:
  "\<exists>t. rk_compare 0x17ff 0x2000 (ex_ranges ex_inv) = Some (Returned t) \<and> exit_w1 (k_inv t) = 0"
proof -
  let ?s = "ex_ranges ex_inv"
  have i: "entry_key (k_inv ?s) 0 = KReg 0 4" by (simp add: ex_ranges_def clear_exit_def ex_inv_def)
  have k: "keys ?s (KReg 0 4) = ex_range_key" by (simp add: ex_ranges_def)
  have r: "key_GetRange ex_range_key = Some (0x1000, 0x17ff)" by (simp add: key_GetRange_def ex_range_key_def)
  have n: "\<not> InvocationCommitted ?s" "keyBits_IsPrepared ex_range_key"
    by (simp_all add: ex_ranges_def ex_range_key_def key_flag_bits)
  then have "\<exists>out. rk_compare 0x17ff 0x2000 ?s = Some out"
    using i k r by (simp add: rk_compare_def Let_def key_Prepare_def ex_ranges_COMMIT tail_ReturnMessage_def)
  then obtain out where out: "rk_compare 0x17ff 0x2000 ?s = Some out" ..
  have "kern_inv ?s" unfolding ex_ranges_def
    by (rule kern_inv_upd_key)
      (simp_all add: ex_returnee_def set_invokee_def ex_range_key_def ex_key_defs key_kinds wf_key_def cnt_ok_def key_ring_def
        keyBits_IsPreparedObjectKey_def is_resume_def)
  from rk_compare_misses_overlap [OF this, unfolded i k, OF _ r out] out show ?thesis
    by (auto simp: ex_range_key_def)
qed

section \<open>Discrim\<close>

lemma prepare_two_data:
  assumes "kern_inv s" "key_Prepare a s = Some u" "key_Prepare b u = Some v"
    and "\<not> keyBits_IsObjectKey (keys s a)" "\<not> keyBits_IsObjectKey (keys s b)"
  shows "keyType (keys v r) = keyType (keys s r)" "key_u (keys v r) = key_u (keys s r)" "keyData (keys v r) = keyData (keys s r)"
proof -
  note u = key_Prepare_result [OF kern_inv_wf_objs [OF assms(1)] assms(2)]
  note v = key_Prepare_result [OF kern_inv_wf_objs [OF key_Prepare_inv [OF assms(1,2)]] assms(3)]
  have same: "keyType (keys u r) = keyType (keys s r) \<and> key_u (keys u r) = key_u (keys s r)
      \<and> keyData (keys u r) = keyData (keys s r)" for r
    using u(1) u(4) [OF assms(4)] by (cases "r = a") (auto simp: only_key_def)
  then have "\<not> keyBits_IsObjectKey (keys u b)" using assms(5) by (simp add: key_kinds)
  with v(1,4) have "keyType (keys v r) = keyType (keys u r) \<and> key_u (keys v r) = key_u (keys u r)
      \<and> keyData (keys v r) = keyData (keys u r)" for r
    by (cases "r = b") (auto simp: only_key_def)
  with same show "keyType (keys v r) = keyType (keys s r)" "key_u (keys v r) = key_u (keys s r)" "keyData (keys v r) = keyData (keys s r)"
    by simp_all
qed

text \<open>
  C26. Comparing data keys: \<^verbatim>\<open>compare\<close> of the Discrim key answers that any two number keys are the
  same, whatever their values, because the source compares the words of the first key with
  themselves.
\<close>

theorem dk_compare_numbers:
  assumes "kern_inv s" "keyType (keys s (entry_key (k_inv s) 0)) = KKT_Number"
    "keyType (keys s (entry_key (k_inv s) 1)) = KKT_Number"
    and "keyData (keys s (entry_key (k_inv s) 0)) = keyData (keys s (entry_key (k_inv s) 1))"
    and "dk_compare s = Some out"
  shows "\<exists>t. out = Returned t \<and> exit_code (k_inv t) = RC_OK \<and> exit_w1 (k_inv t) = 1"
proof -
  let ?a = "entry_key (k_inv s) 0" and ?b = "entry_key (k_inv s) 1"
  from assms(5) obtain u v w where u: "key_Prepare ?a s = Some u" "key_Prepare ?b u = Some v" "COMMIT_POINT v = Some w"
    and out: "tail_ReturnMessage (set_exit_w1 (if same_key (keys w ?a) (keys w ?b) then 1 else 0) (set_exit_code RC_OK w))
      = Some out"
    unfolding dk_compare_def Let_def bind_eq_Some_conv by blast
  have n: "\<not> keyBits_IsObjectKey (keys s ?a)" "\<not> keyBits_IsObjectKey (keys s ?b)" using assms(2,3) by (simp_all add: key_kinds)
  have "same_key (keys v ?a) (keys v ?b)"
    using assms(2-4) prepare_two_data [OF assms(1) u(1,2) n] by (simp add: same_key_def key_kinds)
  moreover have "keys w = keys v" using COMMIT_cap(5) [OF u(3)] .
  ultimately show ?thesis using out by (auto simp: tail_ReturnMessage_Some)
qed

definition ex_numbers :: kern where
  "ex_numbers = key_SetToNumber (KReg 0 5) 0 0 7 (key_SetToNumber (KReg 0 4) 0 0 5 (ex_returnee (ex_call ex_inv)))"

theorem dk_compare_numbers_witness:
  "\<exists>t. dk_compare ex_numbers = Some (Returned t) \<and> exit_w1 (k_inv t) = 1
     \<and> keys ex_numbers (KReg 0 4) \<noteq> keys ex_numbers (KReg 0 5)"
proof -
  have i: "entry_key (k_inv ex_numbers) 0 = KReg 0 4" "entry_key (k_inv ex_numbers) 1 = KReg 0 5"
    by (simp_all add: ex_numbers_def key_SetToNumber_eq clear_exit_def ex_inv_def)
  have k: "keys ex_numbers (KReg 0 4) = number_key 0 0 5" "keys ex_numbers (KReg 0 5) = number_key 0 0 7"
    by (simp_all add: ex_numbers_def key_SetToNumber_eq)
  have inv: "kern_inv ex_numbers"
    unfolding ex_numbers_def by (simp add: inv.P_state ex_returnee_def set_invokee_def)
  have n: "\<not> InvocationCommitted ex_numbers" "k_sched ex_numbers = ex_sched" "invType (k_inv ex_numbers) = 2"
    "invokee (k_inv ex_numbers) = Some 1" "ReturneeSetUp ex_numbers"
    by (simp_all add: ex_numbers_def key_SetToNumber_eq clear_exit_def)
  let ?s1 = "upd_key (KReg 0 4) (keyBits_SetPrepared (number_key 0 0 5)) ex_numbers"
  let ?s2 = "upd_key (KReg 0 5) (keyBits_SetPrepared (number_key 0 0 7)) ?s1"
  have p: "key_Prepare (KReg 0 4) ex_numbers = Some ?s1" "key_Prepare (KReg 0 5) ?s1 = Some ?s2"
    using n(1) by (simp_all add: key_Prepare_def key_DoPrepare_def k number_key_def key_flag_bits)
  have "COMMIT_POINT ?s2 = Some (ex_commit ?s2)" by (rule ex_COMMIT) (simp_all add: n)
  then have "\<exists>out. dk_compare ex_numbers = Some out"
    using p i by (simp add: dk_compare_def Let_def tail_ReturnMessage_def)
  then obtain out where out: "dk_compare ex_numbers = Some out" ..
  from dk_compare_numbers [OF inv, unfolded i k, OF _ _ _ out] out show ?thesis
    by (auto simp: k number_key_def)
qed

section \<open>Weak keys\<close>

lemma perm_nonzero [simp]: "capros_Memory_readOnly \<noteq> 0" "capros_Memory_weak \<noteq> 0"
  by (simp_all add: capros_Memory_readOnly_def capros_Memory_weak_def)

lemma perm_set:
  "((p OR capros_Memory_readOnly) OR capros_Memory_noCall) OR capros_Memory_weak = q \<Longrightarrow>
    q AND capros_Memory_readOnly \<noteq> 0 \<and> q AND capros_Memory_weak \<noteq> 0 \<and> q AND (capros_Memory_noCall OR capros_Memory_weak) \<noteq> 0"
proof -
  have one: "a \<noteq> 0" if "bit a n" for a :: "5 word" and n using that by auto
  assume "((p OR capros_Memory_readOnly) OR capros_Memory_noCall) OR capros_Memory_weak = q"
  then have q: "bit q 3" "bit q 1"
    by (auto simp: bit_simps capros_Memory_readOnly_def capros_Memory_weak_def capros_Memory_noCall_def bit_numeral_rec)
  have "q AND capros_Memory_readOnly \<noteq> 0"
    by (rule one [of _ 3]) (use q in \<open>simp add: bit_simps capros_Memory_readOnly_def bit_numeral_rec\<close>)
  moreover have "q AND capros_Memory_weak \<noteq> 0" "q AND (capros_Memory_noCall OR capros_Memory_weak) \<noteq> 0"
    by (rule one [of _ 1], use q in \<open>simp add: bit_simps capros_Memory_weak_def bit_numeral_rec\<close>)+
  ultimately show ?thesis by simp
qed

lemma discreet_perms:
  "keyType k = KKT_Node \<or> keyType k = KKT_GPT \<Longrightarrow> discreet (keyBits_SetWeak (keyBits_SetNoCall (keyBits_SetReadOnly k)))"
  "keyType k = KKT_Page \<Longrightarrow> discreet (keyBits_SetReadOnly k)"
  "keyType k = KKT_Number \<or> keyType k = KKT_Discrim \<Longrightarrow> discreet k" "discreet void_key"
  using perm_set [OF refl, of "keyPerms k"]
  by (auto simp: discreet_def keyBits_SetWeak_def keyBits_SetNoCall_def keyBits_SetReadOnly_def
      keyBits_IsReadOnly_def keyBits_IsWeak_def keyBits_IsNoCall_def void_key_def)

lemma Desensitize_discreet:
  assumes "Desensitize r s = Some s'"
  shows "discreet (keys s' r)" "r' \<noteq> r \<Longrightarrow> keys s' r' = keys s r'"
  using assms by (cases "keyType (keys s r)"; auto simp: Desensitize_def discreet_perms)+

lemma NodeClone_copy_weak:
  assumes "NodeClone_copy p q True ks s = Some s'" "n \<in> set ks \<or> discreet (keys s (KSlot p n))"
  shows "discreet (keys s' (KSlot p n))"
  using assms
proof (induction ks arbitrary: s)
  case (Cons k ks)
  from Cons.prems(1) obtain t where t: "Desensitize (KSlot p k) (key_NH_Set (KSlot p k) (KSlot q k) s) = Some t"
    "NodeClone_copy p q True ks t = Some s'" by (auto simp: bind_eq_Some_conv)
  from Cons.prems(2) Desensitize_discreet(1) [OF t(1)] Desensitize_discreet(2) [OF t(1), of "KSlot p n"]
  have "n \<in> set ks \<or> discreet (keys t (KSlot p n))" by (cases "n = k") auto
  with Cons.IH [OF t(2)] show ?case by blast
qed simp

lemma NodeClone_copy_caps:
  assumes "NodeClone_copy p q False ks s = Some s'" "p \<noteq> q"
  shows "cap_at s' = (\<lambda>r. case r of KSlot x n \<Rightarrow> if x = p \<and> n \<in> set ks then cap_at s (KSlot q n) else cap_at s r | _ \<Rightarrow> cap_at s r)"
  using assms
proof (induction ks arbitrary: s)
  case (Cons k ks)
  then have "NodeClone_copy p q False ks (key_NH_Set (KSlot p k) (KSlot q k) s) = Some s'" by simp
  from Cons.IH [OF this assms(2)] show ?case using assms(2) by (auto simp: cap_at_Set fun_eq_iff split: kref.split)
qed (auto simp: fun_eq_iff split: kref.split)

lemma NodeClone_hazards_caps:
  "NodeClone_hazards p q ks s = Some s' \<Longrightarrow> cap_at s' = cap_at s"
proof (induction ks arbitrary: s)
  case (Cons k ks)
  have clear: "cap_at u = cap_at v" if "node_ClearHazard x n v = Some u" for x n u v
    using node_ClearHazard_eq [OF that] by (auto simp: cap_at_upd_key_fun fun_eq_iff cap_at_def)
  from Cons.prems obtain t u where "node_ClearHazard p k s = Some t" "u = t \<or> node_ClearHazard q k t = Some u"
    "NodeClone_hazards p q ks u = Some s'" by (auto simp: bind_eq_Some_conv split: if_splits)
  with clear Cons.IH show ?case by metis
qed simp

text \<open>
  C16. Copying a node. When the node is copied through a key that has the weak mark, every slot of the
  copy holds a key that the Discrim key calls discreet: none that can change anything or send
  anything out. Without the mark the copy gets the authority of each slot unchanged, and no other
  key changes. (For a node key the weak mark is the same bit as \<^verbatim>\<open>capros_Node_readOnly\<close>.)
\<close>

theorem NodeClone_copies:
  assumes "NodeClone toNode fromKey s = Some s'" "key_GetObjectPtr s (keys s fromKey) = Some fromNode" "fromNode \<noteq> toNode"
  shows "if keyPerms (keys s fromKey) AND capros_Node_readOnly \<noteq> 0
    then \<forall>n. n < EROS_NODE_SIZE \<longrightarrow> discreet (keys s' (KSlot toNode n))
    else cap_at s' = (\<lambda>r. case r of
        KSlot x n \<Rightarrow> if x = toNode \<and> n < EROS_NODE_SIZE then cap_at s (KSlot fromNode n) else cap_at s r
      | _ \<Rightarrow> cap_at s r)"
proof -
  have weak: "keyBits_IsWeak (keys s fromKey) = (keyPerms (keys s fromKey) AND capros_Node_readOnly \<noteq> 0)"
    by (simp add: keyBits_IsWeak_def capros_Memory_weak_def capros_Node_readOnly_def)
  from assms(1,2) obtain t u where t: "NodeClone_hazards toNode fromNode [0..<EROS_NODE_SIZE] s = Some t"
    and u: "NodeClone_copy toNode fromNode (keyBits_IsWeak (keys s fromKey)) [0..<EROS_NODE_SIZE] t = Some u"
    and s': "s' = upd_obj toNode (\<lambda>ob. ob\<lparr>nodeData := nodeData (obj_at u fromNode)\<rparr>) u"
    by (auto simp: NodeClone_def Let_def bind_eq_Some_conv)
  have c: "cap_at s' = cap_at u" unfolding s' by (rule cap_at_upd_obj) (simp add: same_ident_def objH_GetFlags_def)
  show ?thesis
  proof (cases "keyBits_IsWeak (keys s fromKey)")
    case True
    then have "discreet (keys u (KSlot toNode n))" if "n < EROS_NODE_SIZE" for n
      using u that by (intro NodeClone_copy_weak [of _ fromNode "[0..<EROS_NODE_SIZE]" t]) simp_all
    with weak True show ?thesis by (simp add: s')
  next
    case False
    from u False have "NodeClone_copy toNode fromNode False [0..<EROS_NODE_SIZE] t = Some u" by simp
    from NodeClone_copy_caps [OF this] NodeClone_hazards_caps [OF t] assms(3) c weak False
    show ?thesis by (simp add: fun_eq_iff split: kref.split)
  qed
qed

theorem NodeClone_copies_witness:
  "\<exists>s'. NodeClone 1 (KReg 0 2) ex_kern = Some s' \<and> cap_at s' (KSlot 1 7) = cap_at ex_kern (KSlot 0 7)"
proof -
  have ob: "key_GetObjectPtr ex_kern (keys ex_kern (KReg 0 2)) = Some 0"
    by (simp add: key_GetObjectPtr_def ex_key_defs keyBits_IsPreparedObjectKey_def key_kinds key_flag_bits key_pObj_def)
  have h: "NodeClone_hazards (Suc 0) 0 ks ex_kern = Some ex_kern" for ks
    by (induction ks) (simp_all add: node_ClearHazard_def ex_key_defs key_flag_bits ex_obj_defs)
  have c: "\<exists>u. NodeClone_copy (Suc 0) 0 False ks s = Some u" for ks s by (induction ks arbitrary: s) simp_all
  have w: "keyBits_IsWeak (keys ex_kern (KReg 0 2)) = False" by (simp add: keyBits_IsWeak_def ex_key_defs)
  from c obtain u where "NodeClone_copy (Suc 0) 0 False [0..<EROS_NODE_SIZE] ex_kern = Some u" by blast
  then have "\<exists>s'. NodeClone 1 (KReg 0 2) ex_kern = Some s'"
    by (simp only: NodeClone_def Let_def w ob h) (simp add: h)
  then obtain s' where s': "NodeClone 1 (KReg 0 2) ex_kern = Some s'" ..
  from NodeClone_copies [OF s' ob] s' show ?thesis by (simp add: ex_key_defs EROS_NODE_SIZE_def)
qed

section \<open>Numbers\<close>

lemma low_byte: "ucast (push_bit 8 w OR ucast (a :: u8) :: u32) = a"
  by (rule bit_word_eqI) (simp add: bit_simps)

lemma next_bytes: "drop_bit 8 (push_bit 8 w OR ucast (a :: u8) :: u32) = take_bit 24 w"
proof (rule bit_word_eqI)
  fix n assume "n < LENGTH(32)"
  have "\<not> bit a (8 + n)" using bit_imp_le_length [of a "8 + n"] by auto
  then show "bit (drop_bit 8 (push_bit 8 w OR ucast a :: u32)) n = bit (take_bit 24 w) n"
    by (auto simp: bit_simps)
qed

lemma byte_take: "8 \<le> k \<Longrightarrow> ucast (take_bit k w :: u32) = (ucast w :: u8)"
  by (rule bit_word_eqI) (auto simp: bit_simps)

lemma le_bytes_word:
  assumes "length bs = 4"
  shows "le_bytes (le_word bs) = bs"
proof -
  from assms obtain a b c d where bs: "bs = [a, b, c, d]"
    by (auto simp: length_Suc_conv eval_nat_numeral)
  define w3 :: u32 where "w3 = push_bit 8 0 OR ucast d"
  define w2 where "w2 = push_bit 8 w3 OR ucast c"
  define w1 where "w1 = push_bit 8 w2 OR ucast b"
  define w0 where "w0 = push_bit 8 w1 OR ucast a"
  have s: "drop_bit 8 w0 = take_bit 24 w1" "drop_bit 8 w1 = take_bit 24 w2" "drop_bit 8 w2 = take_bit 24 w3"
    by (simp_all only: w0_def w1_def w2_def next_bytes)
  have "drop_bit 16 w0 = drop_bit 8 (drop_bit 8 w0)" "drop_bit 24 w0 = drop_bit 8 (drop_bit 8 (drop_bit 8 w0))"
    by (simp_all add: drop_bit_drop_bit)
  then have d: "drop_bit 8 w0 = take_bit 24 w1" "drop_bit 16 w0 = take_bit 16 w2" "drop_bit 24 w0 = take_bit 8 w3"
    by (simp_all add: s drop_bit_take_bit)
  have "ucast w0 = a" "ucast w1 = b" "ucast w2 = c" "ucast w3 = d"
    by (simp_all only: w0_def w1_def w2_def w3_def low_byte)
  moreover have "le_word bs = w0" by (simp add: bs le_word_def w0_def w1_def w2_def w3_def)
  ultimately show ?thesis by (simp add: bs le_bytes_def d byte_take)
qed

lemma nk_writeNumber_key:
  assumes "nk_writeNumber False p s = Some (Returned t)" "unat (entry_w1 (k_inv s)) < EROS_NODE_SIZE"
    and "length (entry_data (k_inv s)) = sizeof_Number_value"
  shows "keys t (KSlot p (unat (entry_w1 (k_inv s))))
    = number_key (le_word (drop 8 (entry_data (k_inv s)))) (le_word (take 4 (drop 4 (entry_data (k_inv s)))))
        (le_word (take 4 (entry_data (k_inv s))))"
proof -
  from assms obtain u v w where u: "objH_EnsureWritable p (set_exit_code RC_OK s) = Some u" "COMMIT_POINT u = Some v"
    "node_ClearHazard p (unat (entry_w1 (k_inv s))) v = Some w"
    and t: "tail_ReturnMessage (key_SetToNumber (KSlot p (unat (entry_w1 (k_inv s)))) (le_word (drop 8 (inv_CopyIn 12 v)))
        (le_word (take 4 (drop 4 (inv_CopyIn 12 v)))) (le_word (take 4 (inv_CopyIn 12 v))) w) = Some (Returned t)"
    by (auto simp: nk_writeNumber_def Let_def bind_eq_Some_conv sizeof_Number_value_def split: if_splits)
  have "k_inv v = k_inv (set_exit_code RC_OK s)" using EnsureWritable_frame(3) [OF u(1)] COMMIT_cap(4) [OF u(2)] by simp
  then have "inv_CopyIn 12 v = entry_data (k_inv s)" using assms(3) by (simp add: inv_CopyIn_def sizeof_Number_value_def)
  with t show ?thesis by (simp add: tail_ReturnMessage_Some key_SetToNumber_eq)
qed

text \<open>
  C18. Numbers read back as they were written: when \<^verbatim>\<open>writeNumber\<close> stores the 12 bytes of a number in a
  slot of a node, then an invocation of a number key with the contents of that slot answers with
  three words whose little-endian bytes are the bytes that were written.
\<close>

theorem number_roundtrip:
  assumes "nk_writeNumber False p s = Some (Returned t)" "unat (entry_w1 (k_inv s)) < EROS_NODE_SIZE"
    and "length (entry_data (k_inv s)) = sizeof_Number_value"
    and "kern_inv u" "keys u (inv_key (k_inv u)) = keys t (KSlot p (unat (entry_w1 (k_inv s))))"
    and "entry_code (k_inv u) = OC_capros_Number_get" "NumberKey u = Some out"
  shows "\<exists>v. out = Returned v \<and> exit_code (k_inv v) = RC_OK
    \<and> le_bytes (exit_w1 (k_inv v)) @ le_bytes (exit_w2 (k_inv v)) @ le_bytes (exit_w3 (k_inv v)) = entry_data (k_inv s)"
proof -
  let ?d = "entry_data (k_inv s)"
  note k = nk_writeNumber_key [OF assms(1-3)]
  from assms(7) obtain x y where x: "inv_GetReturnee u = Some x" "COMMIT_POINT x = Some y"
    unfolding NumberKey_def bind_eq_Some_conv by blast
  note G = GetReturnee_keys [OF kern_inv_wf_objs [OF assms(4)] x(1)]
  have i: "inv_key (k_inv y) = inv_key (k_inv u)" "entry_code (k_inv y) = OC_capros_Number_get" "keys y = keys x"
    using G(1) COMMIT_cap [OF x(2)] assms(6) by (simp_all add: same_request_def)
  have "\<not> keyBits_IsObjectKey (keys u (inv_key (k_inv u)))" by (simp add: assms(5) k number_key_def key_kinds)
  then have "key_u (keys y (inv_key (k_inv y))) = U_nk (le_word (take 4 ?d)) (le_word (take 4 (drop 4 ?d))) (le_word (drop 8 ?d))"
    using G(6) [of "inv_key (k_inv u)"] i by (simp add: assms(5) k number_key_def)
  with x i(2) assms(7) have "\<exists>v. out = Returned v \<and> exit_code (k_inv v) = RC_OK \<and> exit_w1 (k_inv v) = le_word (take 4 ?d)
      \<and> exit_w2 (k_inv v) = le_word (take 4 (drop 4 ?d)) \<and> exit_w3 (k_inv v) = le_word (drop 8 ?d)"
    by (auto simp: NumberKey_def Let_def nk_value_def tail_ReturnMessage_Some)
  moreover have "le_bytes (le_word (take 4 ?d)) @ le_bytes (le_word (take 4 (drop 4 ?d))) @ le_bytes (le_word (drop 8 ?d)) = ?d"
    using assms(3) append_take_drop_id [of 4 ?d] append_take_drop_id [of 4 "drop 4 ?d"]
    by (simp add: le_bytes_word sizeof_Number_value_def)
  ultimately show ?thesis by auto
qed

definition ex_write :: kern where
  "ex_write = ex_returnee (ex_call (ex_inv\<lparr>entry_w1 := 7, entry_data := [1, 2, 3, 4, 5, 6, 7, 8, 9, 10, 11, 12]\<rparr>))"

lemma ex_write_runs: "\<exists>t. nk_writeNumber False 0 ex_write = Some (Returned t)"
proof -
  let ?s = "set_exit_code RC_OK ex_write"
  have s: "k_sched ?s = ex_sched" "invType (k_inv ?s) = 2" "invokee (k_inv ?s) = Some 1" "\<not> InvocationCommitted ?s"
    "ReturneeSetUp ?s" "obj_at ?s 0 = ex_node" "keys ?s (KSlot 0 7) = void_key"
    by (simp_all add: ex_write_def clear_exit_def ex_key_defs)
  have i: "entry_w1 (k_inv ex_write) = 7" "length (entry_data (k_inv ex_write)) = 12"
    by (simp_all add: ex_write_def clear_exit_def ex_inv_def)
  have c: "COMMIT_POINT ?s = Some (ex_commit ?s)" by (rule ex_COMMIT) (rule s)+
  have h: "node_ClearHazard 0 7 (ex_commit ?s) = Some (ex_commit ?s)"
    using s(6,7) by (simp add: node_ClearHazard_def void_key_def key_flag_bits)
  show ?thesis
    using i s(7) c h ex_EnsureWritable [OF s(6)]
    by (simp add: nk_writeNumber_def EROS_NODE_SIZE_def sizeof_Number_value_def Let_def void_key_def key_flag_bits
        tail_ReturnMessage_def key_SetToNumber_eq)
qed

theorem number_roundtrip_witness:
  "\<exists>t u v. nk_writeNumber False 0 ex_write = Some (Returned t) \<and> keys u (inv_key (k_inv u)) = keys t (KSlot 0 7)
     \<and> NumberKey u = Some (Returned v)
     \<and> le_bytes (exit_w1 (k_inv v)) @ le_bytes (exit_w2 (k_inv v)) @ le_bytes (exit_w3 (k_inv v))
         = [1, 2, 3, 4, 5, 6, 7, 8, 9, 10, 11, 12]"
proof -
  have i: "unat (entry_w1 (k_inv ex_write)) = 7" "entry_data (k_inv ex_write) = [1, 2, 3, 4, 5, 6, 7, 8, 9, 10, 11, 12]"
    "unat (entry_w1 (k_inv ex_write)) < EROS_NODE_SIZE" "length (entry_data (k_inv ex_write)) = sizeof_Number_value"
    by (simp_all add: ex_write_def clear_exit_def ex_inv_def EROS_NODE_SIZE_def sizeof_Number_value_def)
  from ex_write_runs obtain t where t: "nk_writeNumber False 0 ex_write = Some (Returned t)" ..
  note k = nk_writeNumber_key [OF t i(3,4), unfolded i(1)]
  define u where "u = key_SetToNumber (KReg 0 2) (le_word (drop 8 (entry_data (k_inv ex_write))))
    (le_word (take 4 (drop 4 (entry_data (k_inv ex_write))))) (le_word (take 4 (entry_data (k_inv ex_write))))
    (ex_call (ex_inv\<lparr>entry_code := OC_capros_Number_get\<rparr>))"
  have u: "kern_inv u" "keys u (inv_key (k_inv u)) = keys t (KSlot 0 7)" "entry_code (k_inv u) = OC_capros_Number_get"
    "k_sched u = ex_sched" "invType (k_inv u) = 2" "\<not> InvocationCommitted u"
    by (simp_all add: u_def inv.P_SetToNumber) (simp_all add: key_SetToNumber_eq ex_inv_def k)
  then have "\<exists>out. NumberKey u = Some out"
    by (simp add: NumberKey_def ex_GetReturnee ex_COMMIT clear_exit_def Let_def tail_ReturnMessage_def)
  then obtain out where out: "NumberKey u = Some out" ..
  from number_roundtrip [OF t i(3,4) u(1) _ u(3) out] u(2) i(1,2) out t show ?thesis by auto
qed

section \<open>A key that outlives the rescission of its object\<close>

lemma MakeObjectKey_page:
  assumes "MakeObjectKey lo hi ofs wait otPage KKT_Page s = Some (Returned t)" "exit_pKey (k_inv s) 0 = Some d"
    and "exit_code (k_inv t) = RC_OK" "exit_w1 (k_inv t) = capros_Range_otNone" "objH_Lookup s (lo + ofs) = Some p"
  shows "objH_GetBaseType (obj_at s p) = otPage
    \<and> (\<exists>x k. COMMIT_POINT s = Some x \<and> t = set_exit_code RC_OK (set_exit_w1 capros_Range_otNone (upd_key d k (keyBits_Unchain d x)))
        \<and> keyType k = KKT_Page \<and> keyFlags k = 0 \<and> key_u k = U_unprep (lo + ofs) (allocCount (obj_at s p)))"
proof -
  have ne: "range_error s \<noteq> Some (Returned t)"
    using assms(3) by (auto simp: range_error_def bind_eq_Some_conv ReturnCode_Some)
  have bt: "objH_GetBaseType (obj_at s p) = otPage"
  proof (rule ccontr)
    assume "objH_GetBaseType (obj_at s p) \<noteq> otPage"
    with assms(1,5) ne have "exit_w1 (k_inv t) = base_code (objH_GetBaseType (obj_at s p))"
      by (auto simp: MakeObjectKey_def GetObjectType_def Let_def bind_eq_Some_conv ReturnCode_Some split: if_split_asm)
    then show False using assms(4) by (cases "objH_GetBaseType (obj_at s p)") (simp_all add: capros_Range_otNone_def)
  qed
  with assms(1,2,5) ne obtain y where y: "MakeObjectKey_switch (Some d) p KKT_Page (lo + ofs) s = Some y"
    "t = set_exit_code RC_OK (set_exit_w1 capros_Range_otNone (default_guard d KKT_Page y))"
    by (auto simp: MakeObjectKey_def GetObjectType_def Let_def bind_eq_Some_conv ReturnCode_Some split: if_split_asm)
  then obtain x where x: "COMMIT_POINT s = Some x" "y = MakeUnpreparedKey d KKT_Page (lo + ofs) (allocCount (obj_at s p)) x"
    by (auto simp: MakeObjectKey_switch_def GetObjectCount_def bind_eq_Some_conv)
  define k where "k = keyBits_SetL2g (keys y d) 64"
  have "default_guard d KKT_Page y = upd_key d k (keyBits_Unchain d x)"
    by (simp add: default_guard_def k_def x(2) MakeUnpreparedKey_def Let_def)
  moreover have "keyType k = KKT_Page" "keyFlags k = 0" "key_u k = U_unprep (lo + ofs) (allocCount (obj_at s p))"
    by (simp_all add: k_def x(2) MakeUnpreparedKey_def Let_def keyBits_InitType_def keyBits_SetL2g_def)
  ultimately show ?thesis using bt x(1) y(2) by auto
qed

text \<open>
  C25. A page key that outlives rescission. When a range key makes a key to a page whose allocation
  count is not marked as used, the unprepared key holds the current count without the mark being
  set; a rescission then does not change the count, and afterwards the key still designates the
  page.
\<close>

theorem getCap_survives_rescind:
  assumes "kern_inv s" "clearable s" "objH_Lookup s (lo + ofs) = Some p"
    and "\<not> objH_GetFlags (obj_at s p) OFLG_AllocCntUsed" "exit_pKey (k_inv s) 0 = Some d"
    and "MakeObjectKey lo hi ofs wait otPage KKT_Page s = Some (Returned t)"
    and "exit_code (k_inv t) = RC_OK" "exit_w1 (k_inv t) = capros_Range_otNone"
    and "objH_Rescind p t = Some u"
  shows "denotes u (keys u d) p"
proof -
  from MakeObjectKey_page [OF assms(6,5,7,8,3)] obtain x k where bt: "objH_GetBaseType (obj_at s p) = otPage"
    and x: "COMMIT_POINT s = Some x"
    and t: "t = set_exit_code RC_OK (set_exit_w1 capros_Range_otNone (upd_key d k (keyBits_Unchain d x)))"
    and k: "keyType k = KKT_Page" "keyFlags k = 0" "key_u k = U_unprep (lo + ofs) (allocCount (obj_at s p))" by blast
  note p = objH_Lookup_SomeD [OF kern_inv_wf_objs [OF assms(1)] assms(3)]
  have np: "\<not> keyBits_IsPrepared k" "\<not> keyBits_IsHazard k" "keyBits_IsObjectKey k"
    using k by (simp_all add: key_flag_bits key_kinds)
  have fr: "keys t = (keys s)(d := k)" "objs t = objs s" "rings t = unchain d (keys s d) (rings s)" "nObjs t = nObjs s"
    using x by (auto simp: t COMMIT_POINT_Some)
  have kr: "key_ring k = None" using np by (simp add: key_ring_def keyBits_IsPreparedObjectKey_def)
  have ring: "ring_ok (keys t) (rings t)"
    unfolding fr by (rule unchain_ok [OF kern_inv_ring [OF assms(1)] kr])
  have "clearable t" using assms(2) np(2) fr(1,2) by (rule clearable_upd)
  from objH_Rescind_result [OF ring this assms(9)] have res: "rescinded_state p t u" .
  have "d \<notin> set (rings t rid)" for rid using ring_okD(2) [OF ring, of d rid] kr by (simp add: fr(1))
  then have "d \<notin> ring_keys p t" by (simp add: ring_keys_def)
  then have ku: "keys u d = k" using res by (simp add: rescinded_state_def fr)
  have o: "obj_at t p = obj_at s p" using fr by (simp add: obj_at_def)
  then have "is_obj u p" "allocCount (obj_at u p) = allocCount (obj_at s p)" "obOid (obj_at u p) = obOid (obj_at s p)"
    "objH_GetBaseType (obj_at u p) = otPage"
    using res assms(4) p(1) bt fr(4) by (simp_all add: rescinded_state_def is_obj_def objH_GetBaseType_def)
  then show ?thesis using np k p(2) by (simp add: denotes_def ku count_for_def base_of_def)
qed

definition ex_getCap :: kern where
  "ex_getCap = ex_returnee (ex_call ex_inv)"

lemma ex_getCap_simps [simp]:
  "keys ex_getCap = ex_keys" "rings ex_getCap = rings ex_kern" "objs ex_getCap = objs ex_kern" "obj_at ex_getCap = obj_at ex_kern"
  "exit_pKey (k_inv ex_getCap) 0 = Some (KReg 1 8)"
  by (simp_all add: ex_getCap_def)

lemma ex_getCap_lookup: "objH_Lookup ex_getCap 0x700 = Some 2"
  by (simp add: ex_getCap_def ex_returnee_def set_invokee_def objH_Lookup_def bucket_ndx_def KTUNE_NOBBUCKETS_def Let_def ex_obj_defs)

lemma ex_getCap_runs:
  "\<exists>t. MakeObjectKey 0x600 0x7ff 0x100 True otPage KKT_Page ex_getCap = Some (Returned t) \<and> exit_code (k_inv t) = RC_OK
     \<and> exit_w1 (k_inv t) = capros_Range_otNone"
proof -
  have c: "COMMIT_POINT ex_getCap = Some (ex_commit ex_getCap)"
    unfolding ex_getCap_def by (rule ex_COMMIT) (simp_all add: clear_exit_def)
  have g: "GetObjectType ex_getCap 0x700 = Some (2, otPage)"
    by (simp add: GetObjectType_def ex_getCap_lookup objH_GetBaseType_def ex_obj_defs)
  have n: "GetObjectCount ex_getCap 2 False = Some (allocCount ex_page)"
    by (simp add: GetObjectCount_def objH_EnsureNotFetching_def ex_obj_defs objH_GetFlags_def OFLG_defs)
  show ?thesis
    by (simp add: MakeObjectKey_def MakeObjectKey_switch_def Let_def g n c EROS_OBJECTS_PER_FRAME_def ReturnCode_def
        tail_ReturnMessage_def default_guard_def MakeUnpreparedKey_def)
qed

theorem getCap_survives_rescind_witness:
  "\<exists>t u. MakeObjectKey 0x600 0x7ff 0x100 True otPage KKT_Page ex_getCap = Some (Returned t)
     \<and> objH_Rescind 2 t = Some u \<and> denotes u (keys u (KReg 1 8)) 2"
proof -
  from ex_getCap_runs obtain t where t: "MakeObjectKey 0x600 0x7ff 0x100 True otPage KKT_Page ex_getCap = Some (Returned t)"
    "exit_code (k_inv t) = RC_OK" "exit_w1 (k_inv t) = capros_Range_otNone" by blast
  have look: "objH_Lookup ex_getCap (0x600 + 0x100) = Some 2" using ex_getCap_lookup by simp
  have inv: "kern_inv ex_getCap" by (simp add: ex_getCap_def ex_returnee_def set_invokee_def)
  have clear: "clearable ex_getCap" by (simp add: clearable_def ex_key_defs key_flag_bits)
  have flag: "\<not> objH_GetFlags (obj_at ex_getCap 2) OFLG_AllocCntUsed"
    by (simp add: ex_obj_defs objH_GetFlags_def OFLG_defs)
  from MakeObjectKey_page [OF t(1) ex_getCap_simps(5) t(2,3) look] obtain x k where
    x: "COMMIT_POINT ex_getCap = Some x"
    "t = set_exit_code RC_OK (set_exit_w1 capros_Range_otNone (upd_key (KReg 1 8) k (keyBits_Unchain (KReg 1 8) x)))" by blast
  have "rings t (ObjRing 2) = []" "obj_at t 2 = ex_page"
    using x by (auto simp: COMMIT_POINT_Some unchain_def ex_key_defs key_ring_def keyBits_IsPreparedObjectKey_def key_flag_bits key_kinds)
  then have "\<exists>u. objH_Rescind 2 t = Some u"
    by (simp add: objH_Rescind_def keyR_RescindAll.simps Rescind_BumpAllocCount_def ex_obj_defs objH_isNodeType_def objH_GetFlags_def
        OFLG_defs Let_def)
  then obtain u where u: "objH_Rescind 2 t = Some u" ..
  from getCap_survives_rescind [OF inv clear look flag ex_getCap_simps(5) t u] t(1) u show ?thesis by blast
qed

end
