(* ===== verification/Spec2Isabelle.thy ===== *)
theory Spec2Isabelle
  imports Process_Props Keeper Sched_Props Key_Refine Kernel_Key_Props Gpt_Walk_Props
begin

text \<open>
  \<^bold>\<open>A verification of the kernel of CapROS.\<close>

  CapROS is a capability operating system. A process acts only by invoking \<^emph>\<open>keys\<close>
  (capabilities). A key names an object (a page, a node of 32 keys, a process, a range of disk
  objects) or carries data (a number, a priority); the kernel implements the objects and lets
  processes exchange messages through start and resume keys. Keys are stored in nodes and in the
  key registers of processes. A key in memory is either \<^emph>\<open>unprepared\<close>, as on disk, with the OID of
  its object and a count, or \<^emph>\<open>prepared\<close>, with a pointer to the object in memory, and then it is
  linked on the key ring of the object, so that the object can find and void its keys.

  \<^bold>\<open>Theories, in the order they build on each other.\<close> Paths are under src/src.

  \<^item> Kern_Prelude: machine types, collections of rules, facts on words, options and lists, the
    postconditions of optional computations.
  \<^item> Key_Struct: the key types of sys/KEYDEFS and \<^verbatim>\<open>struct KeyBits\<close> of sys/disk/KeyStruct.h with the
    accessors of sys/disk/Key-inline.h. The union is a datatype; bit fields are words of their width.
  \<^item> Guard: sys/eros/ffs.h and sys/disk/dsk_Guard.c, the bit search and the codec of guards.
  \<^item> Obj_Source: the table of mounted object ranges of sys/kernel/kern_ObjectSource.c.
  \<^item> Sched: activities, stall queues, ready queues, sleepers and the choice of the next activity
    (sys/kernel/kern_Activity.c, sys/kerninc/Activity.h, sys/kernel/kern_SysTimer.c, sys/eros/fls.h).
    The doubly linked queues are lists; the activity and process tables are functions.
  \<^item> Sched_Inv: the invariant of activities and queues, kept by each operation. Sched_Props: the
    invariant over all sequences of scheduler events, and what rescheduling and waking achieve.
  \<^item> Kern_State: object headers and nodes (sys/kerninc/ObjectHeader.h, Node.h), key slots by
    reference, key rings as lists of references, the invocation block. \<open>kern\<close> is the whole state.
  \<^item> Key_Ops: the operations of sys/kernel/kern_Key.c, kern_Node.c, kern_CoreObHash.c.
    Key_Ring, Key_Inv: the ring invariant and the kernel invariant \<open>kern_inv\<close>. Key_Correct:
    correctness of preparing, unpreparing and exchanging keys.
  \<^item> Key_Rings_Ops: the loops over rings of sys/kernel/kern_KeyRing.c. Rescind: rescission and
    clearing of objects (sys/kernel/kern_ObjectHeader.c, kern_Node.c).
  \<^item> Inv_Block, Invoke: the frame of an invocation (sys/kernel/kern_Invoke.c,
    sys/kerninc/Invocation.h, sys/arch/arm/kernel/InvokeArm.c): returnee, exit block, commit point,
    the keys and data that are returned, void keys, passing an invocation on to a keeper.
  \<^item> Cap_Abs: the abstract view of keys as capabilities; derivation of capabilities. Key_Refine: the
    operations on keys refine a table of capabilities in which preparation is invisible.
  \<^item> Node_Key, Memory_Keys, Misc_Keys, Range_Key: the handlers of sys/key for nodes, GPTs and pages,
    forwarders, numbers, schedule keys, KeyBits, Discrim and ranges, one definition for each
    order code and one for the handler; the theories named Props show what they keep, and
    Kernel_Key_Props what single order codes do.
  \<^item> Gate_Key: the delivery of answers (\<^verbatim>\<open>ReturnMessage\<close>) and start and resume keys
    (sys/key/pk_GateKey.c). Process_Key: process keys and the
    registers of a process on the ARM (sys/key/pk_ProcessKey.c, sys/arch/arm/kernel/ProcessKeyArm.c,
    Process.c). Proc_Tool: the process tool (sys/key/mk_ProcessTool.c). Sleep_Key: the sleep key and the
    conversion of times to ticks (sys/key/mk_SleepKey.c, sys/arch/arm/kernel/HardClock.c).
  \<^item> Gpt_Walk: the walk of a memory tree (sys/kernel/kern_GPT.c). Gpt_Walk_Props: it computes the address
    map that the tree of capabilities defines.
  \<^item> Dispatch: \<^verbatim>\<open>proc_DoKeyInvocation\<close>, which composes the handlers.
    Handler_Props: a handler other than those of range and process keys and of the process tool creates no
    authority.
  \<^item> Resume_Inv, Resume_Dispatch, Process_Inv, System_Inv: a whole invocation keeps the invariant of
    keys, objects and processes, with one exception that is stated, and a resume key is used at most once. Process_Props: what single
    order codes of process keys, the process tool and the sleep key do. Keeper: faults and the calls of keepers
    (\<^verbatim>\<open>proc_InvokeMyKeeper\<close>, \<^verbatim>\<open>proc_InvokeProcessKeeper\<close>, \<^verbatim>\<open>proc_InvokeSegmentKeeper\<close>).

  \<^bold>\<open>Conventions.\<close> An operation that changes the state takes it last and returns it. The result is
  optional: \<open>None\<close> is an operation that does not complete, because an assertion of the debug build
  fails, because the kernel yields until an object is in memory, or because the code goes on in a
  part that is not modelled. Loops over rings and queues are \<open>partial_function (option)\<close>, and
  that they return is proved (\<open>objH_Rescind_total\<close>, \<open>sq_WakeAll_wakes\<close>); no fuel is used. A \<open>NULL\<close>
  key is the reference \<open>KVoidKey\<close>. Order codes and result codes are datatypes with their numbers.

  \<^bold>\<open>Interfaces.\<close> The locales \<open>key_closed\<close>, \<open>key_closed_lax\<close> and \<open>key_makes\<close> state what a property of
  kernel states must satisfy to be kept by the handlers: that the primitive operations on keys and
  objects keep it. \<open>key_rescinds\<close> relates two such properties, the one before and the one after objects
  were rescinded. Each handler is treated once, inside the locale; the interpretations for
  \<open>kern_inv\<close>, for confinement, for \<open>resume_safe\<close> and for \<open>resume_safe\<close> with room in the call counts give the facts
  the properties rest on.

  \<^bold>\<open>Not modelled.\<close> Fetching and cleaning objects, the checkpoint, the log directory and migration: they
  are driven by input and output through user-mode drivers, and where the modelled code would
  wait for them its result is \<open>None\<close>. Mapping tables and the depend table: they are machine
  dependent, and an invalidated mapping is represented by a cleared hazard of the key. Loading and flushing
  of process state between a process structure and its nodes: the processes of the model are
  loaded. CPU reserves, interrupts, the timer hardware, the trap entry in assembler, the i486, printing and the
  kernel debugger. Of the kernel keys those for devices, the checkpoint, migration and the schedule
  creator. The user-mode domains above the kernel are outside the scope.
\<close>

end
